(* ===== verification/Prelude.thy ===== *)
theory Prelude
  imports
    Complex_Main
    "HOL-Library.Char_ord"
    "HOL-Library.List_Lexorder"
    "HOL-Library.Product_Lexorder"
    "HOL-Library.AList" "HOL-Library.Sublist"
begin

text \<open>
  What every component of the model shares: the error values of a handler, the parts of Python's
  string, list, dict and datetime types that the program uses, and the lemmas about them.
  Strings are lists of ASCII characters. Times are microseconds since the epoch in UTC, dates are
  days since the epoch; both are unbounded integers, as \<open>timedelta\<close> arithmetic is exact.
  Python floats (CVSS and EPSS scores) are rationals: the program almost only compares them.
\<close>

section \<open>Collections of facts\<close>

named_theorems err_simps \<open>the error branches of the handlers\<close>
named_theorems py_simps \<open>Python library functions\<close>

section \<open>Names of types\<close>

type_synonym pair = "string \<times> string" \<comment> \<open>(namespace, cluster\_name)\<close>
type_synonym datetime = int
type_synonym date = int
type_synonym num = rat

section \<open>Errors\<close>

text \<open>
  \<open>ApiError status key\<close> is the program's own exception (\<open>app/i18n.py\<close>); \<open>ServerError\<close> is an
  exception that no handler catches (an integrity error of the database, a second row where
  \<open>scalar_one_or_none\<close> expects at most one), which the framework answers with status 500.
\<close>

datatype error = ApiError int string | ServerError string

type_synonym 'a result = "error + 'a"

definition scalar_one_or_none :: "'a list \<Rightarrow> 'a option result" where
  "scalar_one_or_none xs =
     (case xs of [] \<Rightarrow> Inr None | [x] \<Rightarrow> Inr (Some x)
      | _ \<Rightarrow> Inl (ServerError ''MultipleResultsFound''))"

lemma scalar_one_or_none_simps [simp]:
  "scalar_one_or_none [] = Inr None"
  "scalar_one_or_none [x] = Inr (Some x)"
  "scalar_one_or_none (x # y # zs) = Inl (ServerError ''MultipleResultsFound'')"
  by (simp_all add: scalar_one_or_none_def)

lemma scalar_one_or_none_Some_iff:
  "scalar_one_or_none xs = Inr (Some x) \<longleftrightarrow> xs = [x]"
  by (auto simp: scalar_one_or_none_def split: list.splits)

lemma scalar_one_or_none_None_iff [simp]:
  "scalar_one_or_none xs = Inr None \<longleftrightarrow> xs = []"
  by (auto simp: scalar_one_or_none_def split: list.splits)

definition scalar_one :: "'a list \<Rightarrow> 'a result" where
  "scalar_one xs =
     (case xs of [] \<Rightarrow> Inl (ServerError ''NoResultFound'') | [x] \<Rightarrow> Inr x
      | _ \<Rightarrow> Inl (ServerError ''MultipleResultsFound''))"

lemma scalar_one_simps [simp]:
  "scalar_one [] = Inl (ServerError ''NoResultFound'')"
  "scalar_one [x] = Inr x"
  "scalar_one (x # y # zs) = Inl (ServerError ''MultipleResultsFound'')"
  by (simp_all add: scalar_one_def)

lemma scalar_one_Inr_iff: "scalar_one xs = Inr x \<longleftrightarrow> xs = [x]"
  by (auto simp: scalar_one_def split: list.splits)

text \<open>Sequencing of handler steps: the first error is the answer.\<close>

definition rbind :: "'a result \<Rightarrow> ('a \<Rightarrow> 'b result) \<Rightarrow> 'b result" where
  "rbind m f = (case m of Inl e \<Rightarrow> Inl e | Inr x \<Rightarrow> f x)"

lemma rbind_simps [simp]: "rbind (Inl e) f = Inl e" "rbind (Inr x) f = f x"
  by (simp_all add: rbind_def)

lemma rbind_Inr_iff: "rbind m f = Inr y \<longleftrightarrow> (\<exists>x. m = Inr x \<and> f x = Inr y)"
  by (cases m) auto

text \<open>The guards of a handler: an early return with an error, and a condition that only guards.\<close>

lemma guard_Inr_iff: "(if c then Inl e else m) = Inr y \<longleftrightarrow> \<not> c \<and> m = Inr y"
  by simp

lemma check_Inr_iff: "(if c then m else Inr ()) = Inr x \<longleftrightarrow> (c \<longrightarrow> m = Inr ())"
  by (cases x) simp

lemma option_404_Inr_iff: "(case x of None \<Rightarrow> Inl e | Some v \<Rightarrow> f v) = Inr y \<longleftrightarrow> (\<exists>v. x = Some v \<and> f v = Inr y)"
  by (cases x) simp_all

lemmas handler_Inr = rbind_Inr_iff guard_Inr_iff check_Inr_iff option_404_Inr_iff Let_def

lemma rbind_Inl_iff: "rbind m f = Inl e \<longleftrightarrow> m = Inl e \<or> (\<exists>x. m = Inr x \<and> f x = Inl e)"
  by (cases m) auto

text \<open>A loop whose body may raise.\<close>

fun traverse :: "('a \<Rightarrow> 'b result) \<Rightarrow> 'a list \<Rightarrow> 'b list result" where
  "traverse f [] = Inr []"
| "traverse f (x # xs) = rbind (f x) (\<lambda>y. rbind (traverse f xs) (\<lambda>ys. Inr (y # ys)))"

lemma traverse_Inr_iff:
  "traverse f xs = Inr ys \<longleftrightarrow> list_all2 (\<lambda>x y. f x = Inr y) xs ys"
  by (induction xs arbitrary: ys) (auto simp: rbind_Inr_iff list_all2_Cons1)

lemma traverse_total: "(\<And>x. x \<in> set xs \<Longrightarrow> f x = Inr (g x)) \<Longrightarrow> traverse f xs = Inr (map g xs)"
  by (induction xs) auto

lemma traverse_InlD: "traverse f xs = Inl e \<Longrightarrow> \<exists>x \<in> set xs. f x = Inl e"
  by (induction xs) (auto simp: rbind_Inl_iff)

lemma traverse_set: "traverse f xs = Inr ys \<Longrightarrow> y \<in> set ys \<longleftrightarrow> (\<exists>x \<in> set xs. f x = Inr y)"
  by (induction xs arbitrary: ys) (auto simp: rbind_Inr_iff)

lemma traverse_defined: "(\<exists>ys. traverse f xs = Inr ys) \<longleftrightarrow> (\<forall>x \<in> set xs. \<exists>y. f x = Inr y)"
  by (induction xs) (auto simp: rbind_Inr_iff)

lemma traverse_inputs: "traverse f xs = Inr ys \<Longrightarrow> x \<in> set xs \<Longrightarrow> \<exists>y \<in> set ys. f x = Inr y"
  by (induction xs arbitrary: ys) (auto simp: rbind_Inr_iff)

lemma traverse_Nil_iff: "traverse f xs = Inr [] \<longleftrightarrow> xs = []"
  by (cases xs) (auto simp: rbind_Inr_iff)

section \<open>Strings\<close>

definition is_space :: "char \<Rightarrow> bool" where
  "is_space c \<longleftrightarrow> (let n = (of_char c :: nat) in n = 32 \<or> (9 \<le> n \<and> n \<le> 13) \<or> (28 \<le> n \<and> n \<le> 31))"

definition is_digit :: "char \<Rightarrow> bool" where
  "is_digit c \<longleftrightarrow> (let n = (of_char c :: nat) in 48 \<le> n \<and> n \<le> 57)"

definition is_alpha :: "char \<Rightarrow> bool" where
  "is_alpha c \<longleftrightarrow>
     (let n = (of_char c :: nat) in (65 \<le> n \<and> n \<le> 90) \<or> (97 \<le> n \<and> n \<le> 122))"

definition lower_char :: "char \<Rightarrow> char" where
  "lower_char c =
     (let n = (of_char c :: nat) in if 65 \<le> n \<and> n \<le> 90 then char_of (n + 32) else c)"

definition py_lower :: "string \<Rightarrow> string" where
  "py_lower s = map lower_char s"

definition py_strip :: "string \<Rightarrow> string" where
  "py_strip s = rev (dropWhile is_space (rev (dropWhile is_space s)))"

text \<open>\<open>s.split(c)\<close> and \<open>s.split(c, 1)\<close> on a one-character separator.\<close>

fun py_split :: "char \<Rightarrow> string \<Rightarrow> string list" where
  "py_split c [] = [[]]"
| "py_split c (x # xs) =
     (if x = c then [] # py_split c xs
      else (case py_split c xs of [] \<Rightarrow> [[x]] | w # ws \<Rightarrow> (x # w) # ws))"

definition split_once :: "char \<Rightarrow> string \<Rightarrow> (string \<times> string) option" where
  "split_once c s =
     (if c \<in> set s then Some (takeWhile (\<lambda>x. x \<noteq> c) s, tl (dropWhile (\<lambda>x. x \<noteq> c) s)) else None)"

text \<open>\<open>s.rsplit(c, 1)\<close>.\<close>

definition rsplit_once :: "char \<Rightarrow> string \<Rightarrow> (string \<times> string) option" where
  "rsplit_once c s =
     (case split_once c (rev s) of None \<Rightarrow> None | Some (b, a) \<Rightarrow> Some (rev a, rev b))"

definition nat_of_digits :: "string \<Rightarrow> nat" where
  "nat_of_digits s = foldl (\<lambda>n c. 10 * n + (of_char c - 48)) 0 s"

text \<open>\<open>needle in s\<close> for strings.\<close>

fun has_substring :: "string \<Rightarrow> string \<Rightarrow> bool" where
  "has_substring needle [] = (needle = [])"
| "has_substring needle (c # s) = (prefix needle (c # s) \<or> has_substring needle s)"

text \<open>SQL's \<open>column ILIKE pattern\<close>: \<open>%\<close> is any text, \<open>_\<close> any character, and a backslash quotes the next
  character. \<open>ilike_contains\<close> is the pattern that searches put around their text.\<close>

function sql_like :: "string \<Rightarrow> string \<Rightarrow> bool" where
  "sql_like [] s = (s = [])"
| "sql_like (p # ps) s =
     (if p = CHR ''%'' then sql_like ps s \<or> (case s of [] \<Rightarrow> False | _ # t \<Rightarrow> sql_like (p # ps) t)
      else if p = CHR 0x5C then
        (case ps of [] \<Rightarrow> False | q # qs \<Rightarrow> (case s of [] \<Rightarrow> False | c # t \<Rightarrow> q = c \<and> sql_like qs t))
      else (case s of [] \<Rightarrow> False | c # t \<Rightarrow> (p = CHR ''_'' \<or> p = c) \<and> sql_like ps t))"
  by pat_completeness auto
termination by (relation "measure (\<lambda>(p, s). length p + length s)") auto

definition ilike_contains :: "string \<Rightarrow> string \<Rightarrow> bool" where
  "ilike_contains txt col = sql_like (CHR ''%'' # py_lower txt @ ''%'') (py_lower col)"

lemma has_substring_iff: "has_substring needle s \<longleftrightarrow> (\<exists>a b. s = a @ needle @ b)"
proof (induction s)
  case Nil
  then show ?case by auto
next
  case (Cons c s)
  note IH = Cons.IH
  show ?case
  proof
    assume "has_substring needle (c # s)"
    then consider "prefix needle (c # s)" | "has_substring needle s" by auto
    then show "\<exists>a b. c # s = a @ needle @ b"
    proof cases
      case 1
      then obtain b where "c # s = [] @ needle @ b" by (auto elim: prefixE)
      then show ?thesis by blast
    next
      case 2
      with Cons.IH obtain a b where "c # s = (c # a) @ needle @ b" by auto
      then show ?thesis by blast
    qed
  next
    assume "\<exists>a b. c # s = a @ needle @ b"
    then obtain a b where ab: "c # s = a @ needle @ b" by blast
    show "has_substring needle (c # s)"
    proof (cases a)
      case Nil
      with ab have "prefix needle (c # s)" by (metis append_Nil prefixI)
      then show ?thesis by simp
    next
      case (Cons a' as)
      with ab have "s = as @ needle @ b" by simp
      with IH have "has_substring needle s" by blast
      then show ?thesis by simp
    qed
  qed
qed

lemma length_py_lower [simp]: "length (py_lower s) = length s"
  by (simp add: py_lower_def)

lemma dropWhile_rev_hd:
  "dropWhile P (rev (dropWhile P xs)) \<noteq> [] \<Longrightarrow> \<not> P (last (rev (dropWhile P (rev (dropWhile P xs)))))"
  by (simp add: last_rev hd_dropWhile)

lemma dropWhile_stripped:
  "xs = [] \<or> \<not> P (hd xs) \<Longrightarrow> dropWhile P xs = xs"
  by (cases xs) auto

lemma rev_dropWhile_hd:
  assumes "xs = [] \<or> \<not> P (hd xs)"
  shows "rev (dropWhile P (rev xs)) = [] \<or> \<not> P (hd (rev (dropWhile P (rev xs))))"
proof (cases xs)
  case Nil
  then show ?thesis by simp
next
  case (Cons y ys)
  with assms have "\<not> P y" by simp
  then have "dropWhile P (rev ys @ [y]) = dropWhile P (rev ys) @ [y]"
    by (cases "\<forall>x\<in>set (rev ys). P x") (auto simp: dropWhile_append)
  with Cons \<open>\<not> P y\<close> show ?thesis by simp
qed

lemma py_strip_idem [simp]: "py_strip (py_strip s) = py_strip s"
proof -
  let ?m = "dropWhile is_space s"
  let ?r = "rev (dropWhile is_space (rev ?m))"
  have "?m = [] \<or> \<not> is_space (hd ?m)" by (metis hd_dropWhile)
  then have "?r = [] \<or> \<not> is_space (hd ?r)" by (rule rev_dropWhile_hd)
  then have 1: "dropWhile is_space ?r = ?r" by (rule dropWhile_stripped)
  have "dropWhile is_space (rev ?r) = rev ?r"
    by (metis hd_dropWhile dropWhile_stripped rev_rev_ident)
  with 1 show ?thesis by (simp add: py_strip_def)
qed

section \<open>Lists, sorting, dictionaries\<close>

text \<open>\<open>list(dict.fromkeys(xs))\<close>: the first occurrence of each element, in order.\<close>

fun dedupe :: "'a list \<Rightarrow> 'a list" where
  "dedupe [] = []"
| "dedupe (x # xs) = x # filter (\<lambda>y. y \<noteq> x) (dedupe xs)"

lemma set_dedupe [simp]: "set (dedupe xs) = set xs"
  by (induction xs) auto

lemma distinct_dedupe [simp]: "distinct (dedupe xs)"
  by (induction xs) auto

lemma dedupe_distinct: "distinct xs \<Longrightarrow> dedupe xs = xs"
  by (induction xs) (auto intro: filter_True)

lemma dedupe_idem [simp]: "dedupe (dedupe xs) = dedupe xs"
  by (rule dedupe_distinct) simp

lemma dedupe_Nil_iff [simp]: "dedupe xs = [] \<longleftrightarrow> xs = []"
  by (cases xs) auto

lemma dedupe_filter: "dedupe (filter P xs) = filter P (dedupe xs)"
  by (induction xs) (auto intro!: filter_cong)

lemma dedupe_map_dedupe: "dedupe (map f (dedupe xs)) = dedupe (map f xs)"
proof (induction xs)
  case (Cons x xs)
  have "filter (\<lambda>y. y \<noteq> f x) (dedupe (map f (filter (\<lambda>y. y \<noteq> x) ys))) = filter (\<lambda>y. y \<noteq> f x) (dedupe (map f ys))" for ys
    unfolding dedupe_filter [symmetric] by (rule arg_cong [where f = dedupe]) (induction ys; auto)
  with Cons show ?case by simp
qed simp

text \<open>\<open>sorted({...})\<close>: the distinct elements in order.\<close>

definition sorted_set :: "'a::linorder list \<Rightarrow> 'a list" where
  "sorted_set xs = sort (remdups xs)"

lemma set_sorted_set [simp]: "set (sorted_set xs) = set xs"
  by (simp add: sorted_set_def)

lemma sorted_sorted_set [simp]: "sorted (sorted_set xs)"
  by (simp add: sorted_set_def)

lemma distinct_sorted_set [simp]: "distinct (sorted_set xs)"
  by (simp add: sorted_set_def)

lemma sorted_set_simps [simp]: "sorted_set [] = []" "sorted_set [x] = [x]"
  by (simp_all add: sorted_set_def)

lemma sorted_set_eqI: "set xs = set ys \<Longrightarrow> sorted_set xs = sorted_set ys"
  by (rule sorted_distinct_set_unique) auto

lemma sorted_set_Nil_iff [simp]: "sorted_set xs = [] \<longleftrightarrow> xs = []"
  by (metis set_empty set_sorted_set)

text \<open>\<open>sorted(xs, key=k, reverse=True)\<close> is stable too: equal elements keep their order.\<close>

definition sort_key_rev :: "('a \<Rightarrow> 'k::linorder) \<Rightarrow> 'a list \<Rightarrow> 'a list" where
  "sort_key_rev k xs = rev (sort_key k (rev xs))"

lemma set_sort_key_rev [simp]: "set (sort_key_rev k xs) = set xs"
  by (simp add: sort_key_rev_def)

lemma length_sort_key_rev [simp]: "length (sort_key_rev k xs) = length xs"
  by (simp add: sort_key_rev_def)

lemma sorted_sort_key_rev: "sorted (rev (map k (sort_key_rev k xs)))"
  by (simp add: sort_key_rev_def rev_map)

text \<open>A stable sort by a second key keeps the order of the first key among equals.\<close>

lemma sorted_wrt_lex:
  assumes "sorted (map k xs)" and "\<And>c. sorted_wrt R (filter (\<lambda>x. k x = c) xs)"
  shows "sorted_wrt (\<lambda>a b. k a < k b \<or> k a = (k b :: 'k::linorder) \<and> R a b) xs"
  using assms
proof (induction xs)
  case Nil
  then show ?case by simp
next
  case (Cons x xs)
  have "R x y" if "y \<in> set xs" "k x = k y" for y
    using Cons.prems(2) [of "k x"] that by auto
  moreover have "sorted_wrt R (filter (\<lambda>x. k x = c) xs)" for c
    using Cons.prems(2) [of c] by (auto split: if_splits)
  ultimately show ?case using Cons by (auto simp: order_le_less)
qed

lemma sort_key_then:
  assumes "sorted_wrt R xs"
  shows "sorted_wrt (\<lambda>a b. k a < k b \<or> k a = (k b :: 'k::linorder) \<and> R a b) (sort_key k xs)"
proof (rule sorted_wrt_lex)
  show "sorted (map k (sort_key k xs))" by simp
  show "sorted_wrt R (filter (\<lambda>x. k x = c) (sort_key k xs))" for c
    using assms by (simp add: sort_key_stable sorted_wrt_filter)
qed

lemma sorted_wrt_sort_key_rev: "sorted_wrt (\<lambda>a b. k b \<le> k a) (sort_key_rev k xs)"
proof -
  have "sorted_wrt (\<lambda>a b. k a \<le> k b) (sort_key k (rev xs))"
    using sorted_sort_key [of k "rev xs"] by (simp add: sorted_wrt_map)
  then show ?thesis by (simp add: sort_key_rev_def sorted_wrt_rev)
qed

lemma sorted_wrt_sort_key: "sorted_wrt (\<lambda>a b. k a \<le> k b) (sort_key k xs)"
  using sorted_sort_key [of k xs] by (simp add: sorted_wrt_map)

lemma distinct_sort_key_rev [simp]: "distinct (sort_key_rev k xs) = distinct xs"
  by (simp add: sort_key_rev_def)

lemma distinct_map_sort_key_rev: "distinct (map f (sort_key_rev k xs)) = distinct (map f xs)"
  by (simp add: distinct_map)

lemma distinct_map_sort_key: "distinct (map f (sort_key k xs)) = distinct (map f xs)"
  by (simp add: distinct_map)

text \<open>A column with distinct values has at most one row per value.\<close>

lemma filter_key_le_1:
  assumes "distinct (map f xs)"
  shows "length (filter (\<lambda>x. f x = a) xs) \<le> 1"
proof -
  have "distinct (map f (filter (\<lambda>x. f x = a) xs))" using assms by (rule distinct_map_filter)
  moreover have "set (map f (filter (\<lambda>x. f x = a) xs)) \<subseteq> {a}" by auto
  ultimately have "length (map f (filter (\<lambda>x. f x = a) xs)) \<le> card {a}"
    by (metis card_mono distinct_card finite.emptyI finite.insertI)
  then show ?thesis by simp
qed

lemma filter_key_single:
  assumes "distinct (map f xs)" and "x \<in> set xs"
  shows "filter (\<lambda>y. f y = f x) xs = [x]"
proof -
  have "x \<in> set (filter (\<lambda>y. f y = f x) xs)" using assms(2) by simp
  with filter_key_le_1 [OF assms(1), of "f x"] show ?thesis
    by (cases "filter (\<lambda>y. f y = f x) xs") auto
qed

text \<open>The lookup by a unique column never raises.\<close>

lemma scalar_unique:
  assumes "distinct (map f xs)"
  shows "\<exists>x. scalar_one_or_none (filter (\<lambda>y. f y = k) xs) = Inr x \<and> (x = None \<longleftrightarrow> k \<notin> f ` set xs) \<and>
    (\<forall>y. x = Some y \<longrightarrow> y \<in> set xs \<and> f y = k)"
proof (cases "filter (\<lambda>y. f y = k) xs")
  case Nil
  then show ?thesis by (auto simp: filter_empty_conv)
next
  case (Cons y ys)
  have "ys = []" using filter_key_le_1 [OF assms, of k] by (simp add: Cons)
  have "y \<in> set (filter (\<lambda>y. f y = k) xs)" by (simp add: Cons)
  then have "y \<in> set xs \<and> f y = k" by simp
  then show ?thesis using Cons \<open>ys = []\<close> by auto
qed

text \<open>\<open>max(xs, key=k)\<close> on a non-empty list: the first of the maximal elements.\<close>

fun max_by :: "('a \<Rightarrow> 'k::linorder) \<Rightarrow> 'a \<Rightarrow> 'a list \<Rightarrow> 'a" where
  "max_by k best [] = best"
| "max_by k best (x # xs) = max_by k (if k best < k x then x else best) xs"

lemma max_by_in: "max_by k b xs \<in> set (b # xs)"
proof (induction xs arbitrary: b)
  case Nil
  then show ?case by simp
next
  case (Cons x xs)
  then show ?case using Cons.IH [of x] Cons.IH [of b] by auto
qed

lemma max_by_ge: "y \<in> set (b # xs) \<Longrightarrow> k y \<le> k (max_by k b xs)"
proof (induction xs arbitrary: b y)
  case Nil
  then show ?case by simp
next
  case (Cons x xs)
  let ?b = "if k b < k x then x else b"
  have b: "k ?b \<le> k (max_by k ?b xs)" by (rule Cons.IH) simp
  show ?case
  proof (cases "y \<in> set xs")
    case True
    then show ?thesis using Cons.IH [of y ?b] by simp
  next
    case False
    with Cons.prems have "k y \<le> k ?b" by auto
    then have "k y \<le> k (max_by k ?b xs)" using b by (rule order.trans)
    then show ?thesis by simp
  qed
qed

text \<open>\<open>xs[(page - 1) * size : (page - 1) * size + size]\<close>, for a page that is at least 1.\<close>

definition page_slice :: "int \<Rightarrow> int \<Rightarrow> 'a list \<Rightarrow> 'a list" where
  "page_slice page sz xs = take (nat sz) (drop (nat ((page - 1) * sz)) xs)"

lemma set_page_slice: "set (page_slice page sz xs) \<subseteq> set xs"
  by (auto simp: page_slice_def dest: in_set_takeD in_set_dropD)

lemma length_page_slice: "length (page_slice page sz xs) \<le> nat sz"
  by (simp add: page_slice_def)

lemma concat_pages: "concat (map (\<lambda>i. take k (drop (i * k) xs)) [0..<n]) = take (n * k) xs"
proof (induction n)
  case (Suc n)
  have "Suc n * k = n * k + k" by simp
  then show ?case using Suc by (simp only: take_add) simp
qed simp

lemma in_map_fst_filter: "g \<in> set (map fst (filter f xs)) \<longleftrightarrow> (\<exists>r. (g, r) \<in> set xs \<and> f (g, r))"
  by force

lemma subseq_set: "subseq xs ys \<Longrightarrow> set xs \<subseteq> set ys"
  by (induction rule: list_emb.induct) auto

lemma subseq_distinct: "subseq xs ys \<Longrightarrow> distinct ys \<Longrightarrow> distinct xs"
  by (induction rule: list_emb.induct) (auto dest: subseq_set)

text \<open>\<open>{key(x): x for x in xs}\<close>: a later element overwrites an earlier one.\<close>

definition dict_of :: "('a \<Rightarrow> 'k) \<Rightarrow> 'a list \<Rightarrow> 'k \<rightharpoonup> 'a" where
  "dict_of k xs = map_of (rev (map (\<lambda>x. (k x, x)) xs))"

lemma dict_of_Nil [simp]: "dict_of k [] = Map.empty"
  by (simp add: dict_of_def)

lemma dict_of_snoc: "dict_of k (xs @ [x]) = (dict_of k xs)(k x \<mapsto> x)"
  by (simp add: dict_of_def)

lemma dict_of_SomeD: "dict_of k xs y = Some x \<Longrightarrow> x \<in> set xs \<and> k x = y"
  by (auto simp: dict_of_def dest: map_of_SomeD)

lemma dict_of_None_iff: "dict_of k xs y = None \<longleftrightarrow> y \<notin> k ` set xs"
  by (auto simp: dict_of_def map_of_eq_None_iff image_iff)

lemma dict_of_distinct: "distinct (map k xs) \<Longrightarrow> x \<in> set xs \<Longrightarrow> dict_of k xs (k x) = Some x"
  unfolding dict_of_def
proof (rule map_of_is_SomeI)
  assume "distinct (map k xs)"
  then show "distinct (map fst (rev (map (\<lambda>x. (k x, x)) xs)))"
    by (metis (no_types, lifting) comp_def distinct_rev fst_conv list.map_comp map_eq_conv rev_map)
qed simp

lemma dom_dict_of: "dom (dict_of k xs) = k ` set xs"
  using dict_of_None_iff [of k xs] by (auto simp: dom_def)

text \<open>A dict as an association list: \<open>AList.update\<close> keeps the position of a key it overwrites.\<close>

lemma in_update: "e \<in> set (AList.update k v al) \<Longrightarrow> e = (k, v) \<or> e \<in> set al"
  by (induction al) (auto split: if_splits)

lemma length_update: "length (AList.update k v al) = length al + (if k \<in> fst ` set al then 0 else 1)"
  by (induction al) (auto simp: image_iff)

text \<open>\<open>{row[0] for row in rows}\<close> is \<open>set\<close>; the truth value of an optional string.\<close>

definition truthy :: "string option \<Rightarrow> bool" where
  "truthy s = (case s of None \<Rightarrow> False | Some v \<Rightarrow> v \<noteq> [])"

lemma truthy_simps [simp]: "\<not> truthy None" "truthy (Some v) = (v \<noteq> [])"
  by (simp_all add: truthy_def)

text \<open>\<open>x or None\<close> on an optional string.\<close>

definition or_none :: "string option \<Rightarrow> string option" where
  "or_none s = (if truthy s then s else None)"

lemma or_none_simps [simp]: "or_none None = None" "or_none (Some []) = None"
  "or_none (Some (c # s)) = Some (c # s)"
  by (simp_all add: or_none_def)

definition opt_list :: "'a option \<Rightarrow> 'a list" where
  "opt_list x = (case x of None \<Rightarrow> [] | Some v \<Rightarrow> [v])"

lemma opt_list_simps [simp]: "opt_list None = []" "opt_list (Some v) = [v]"
  by (simp_all add: opt_list_def)

lemma in_opt_list [simp]: "d \<in> set (opt_list x) \<longleftrightarrow> x = Some d"
  by (cases x) auto

text \<open>A filter that applies when a query parameter is given: \<open>is not None\<close>, or truthy.\<close>

definition given :: "'a option \<Rightarrow> ('a \<Rightarrow> 'b \<Rightarrow> bool) \<Rightarrow> 'b \<Rightarrow> bool" where
  "given x f i = (case x of None \<Rightarrow> True | Some v \<Rightarrow> f v i)"

definition given_text :: "string option \<Rightarrow> (string \<Rightarrow> 'b \<Rightarrow> bool) \<Rightarrow> 'b \<Rightarrow> bool" where
  "given_text x f i = (case x of None \<Rightarrow> True | Some v \<Rightarrow> v = [] \<or> f v i)"

lemma given_simps [simp]: "given None f i" "given (Some v) f i = f v i"
  by (simp_all add: given_def)

lemma given_text_simps [simp]: "given_text None f i" "given_text (Some v) f i = (v = [] \<or> f v i)"
  by (simp_all add: given_text_def)

section \<open>Time\<close>

definition day_us :: int where "day_us = 86400000000"

definition timedelta_days :: "int \<Rightarrow> int" where "timedelta_days d = d * day_us"

text \<open>\<open>timedelta.days\<close> rounds towards minus infinity, as \<open>div\<close> does.\<close>

definition days_of :: "int \<Rightarrow> int" where "days_of t = t div day_us"

definition date_of :: "datetime \<Rightarrow> date" where "date_of t = t div day_us"

definition datetime_min :: datetime where "datetime_min = -62135596800000000"

lemma day_us_pos [simp]: "0 < day_us"
  by (simp add: day_us_def)

lemma days_of_pos_iff: "0 < days_of t \<longleftrightarrow> day_us \<le> t"
  using pos_imp_zdiv_pos_iff [of day_us t] by (simp add: days_of_def)

lemma days_of_le_0_iff: "days_of t \<le> 0 \<longleftrightarrow> t < day_us"
  using days_of_pos_iff [of t] by auto

lemma days_of_mono: "s \<le> t \<Longrightarrow> days_of s \<le> days_of t"
  by (simp add: days_of_def zdiv_mono1)

end
