(* ===== verification/Versions.thy ===== *)
theory Versions
  imports Prelude
begin

text \<open>
  \<open>app/services/version_compare.py\<close>: the order of scanner fix versions. The parser and the order
  of \<open>packaging.version\<close> are not in the repository: they are the parameter \<open>pep440\<close> (which
  strings parse, and \<open>Version(a) < Version(b)\<close> on those that do). The RPM style fallback is
  translated, with the two regular expressions written as recursive functions, and shown to be
  the lexicographic order of a key. A locale states what a comparator must satisfy for a sort
  with \<open>cmp_to_key\<close> to put a greatest element first.
\<close>

section \<open>Definitions\<close>

record pep440 =
  pep_valid :: "string \<Rightarrow> bool"            \<comment> \<open>\<open>Version(s)\<close> does not raise \<open>InvalidVersion\<close>\<close>
  pep_less :: "string \<Rightarrow> string \<Rightarrow> bool"   \<comment> \<open>\<open>Version(a) < Version(b)\<close>\<close>

definition pv_char :: "char \<Rightarrow> bool" where
  "pv_char c \<longleftrightarrow> is_alpha c \<or> is_digit c \<or> c \<in> set ''.+~_:-''"

definition pv_tail :: "string \<Rightarrow> bool" where
  "pv_tail s = (case s of [] \<Rightarrow> False | c # cs \<Rightarrow> is_digit c \<and> list_all pv_char cs)"

definition pv_opt_v :: "string \<Rightarrow> bool" where
  "pv_opt_v s = (pv_tail s \<or>
     (case s of [] \<Rightarrow> False | c # cs \<Rightarrow> (c = CHR ''v'' \<or> c = CHR ''V'') \<and> pv_tail cs))"

definition package_version_re :: "string \<Rightarrow> bool" where
  "package_version_re s =
     (pv_opt_v s \<or>
      (takeWhile is_digit s \<noteq> [] \<and>
       (case dropWhile is_digit s of [] \<Rightarrow> False | c # cs \<Rightarrow> c = CHR '':'' \<and> pv_opt_v cs)))"

definition is_comparable :: "pep440 \<Rightarrow> string \<Rightarrow> bool" where
  "is_comparable P version =
     (let v = py_strip version in v \<noteq> [] \<and> (pep_valid P v \<or> package_version_re v))"

definition split_epoch :: "string \<Rightarrow> nat \<times> string" where
  "split_epoch version =
     (let (epoch, rest) =
        (case split_once (CHR '':'') version of
           Some (head, rest) \<Rightarrow>
             if head \<noteq> [] \<and> list_all is_digit head then (nat_of_digits head, rest) else (0, version)
         | None \<Rightarrow> (0, version));
        rest' =
        (case rest of
           c # d # ds \<Rightarrow> if (c = CHR ''v'' \<or> c = CHR ''V'') \<and> is_digit d then d # ds else rest
         | _ \<Rightarrow> rest)
      in (epoch, rest'))"

text \<open>\<open>re.findall(r"[0-9]+|[A-Za-z]+|~", s)\<close>.\<close>

function segments :: "string \<Rightarrow> string list" where
  "segments [] = []"
| "segments (c # cs) =
     (if is_digit c then (c # takeWhile is_digit cs) # segments (dropWhile is_digit cs)
      else if is_alpha c then (c # takeWhile is_alpha cs) # segments (dropWhile is_alpha cs)
      else if c = CHR ''~'' then [c] # segments cs
      else segments cs)"
  by pat_completeness auto
termination
  by (relation "measure length") (auto simp: le_imp_less_Suc length_dropWhile_le)

definition all_digits :: "string \<Rightarrow> bool" where
  "all_digits s \<longleftrightarrow> s \<noteq> [] \<and> list_all is_digit s"

fun rpm_segs :: "string list \<Rightarrow> string list \<Rightarrow> int" where
  "rpm_segs [] [] = 0"
| "rpm_segs (x # xs) [] = (if x = ''~'' then -1 else 1)"
| "rpm_segs [] (y # ys) = (if y = ''~'' then 1 else -1)"
| "rpm_segs (x # xs) (y # ys) =
     (if x = ''~'' \<or> y = ''~'' then
        (if x \<noteq> y then (if x = ''~'' then -1 else 1) else rpm_segs xs ys)
      else if all_digits x \<and> all_digits y then
        (if nat_of_digits x \<noteq> nat_of_digits y
         then (if nat_of_digits x < nat_of_digits y then -1 else 1) else rpm_segs xs ys)
      else if all_digits x \<noteq> all_digits y then (if all_digits x then 1 else -1)
      else if x \<noteq> y then (if x < y then -1 else 1)
      else rpm_segs xs ys)"

definition rpmvercmp :: "string \<Rightarrow> string \<Rightarrow> int" where
  "rpmvercmp a b = rpm_segs (segments a) (segments b)"

definition compare_versions :: "pep440 \<Rightarrow> string \<Rightarrow> string \<Rightarrow> int" where
  "compare_versions P a0 b0 =
     (let a = py_strip a0; b = py_strip b0 in
      if pep_valid P a \<and> pep_valid P b
      then of_bool (pep_less P b a) - of_bool (pep_less P a b)
      else let (epoch_a, rest_a) = split_epoch a; (epoch_b, rest_b) = split_epoch b in
        if epoch_a \<noteq> epoch_b then (if epoch_a < epoch_b then -1 else 1)
        else rpmvercmp rest_a rest_b)"

text \<open>
  \<open>xs.sort(key=cmp_to_key(cmp), reverse=True)\<close>. Python's sort is stable and reversing keeps it so;
  for a comparator that is a total preorder the result is the one computed here.
\<close>

fun insort_cmp :: "('a \<Rightarrow> 'a \<Rightarrow> int) \<Rightarrow> 'a \<Rightarrow> 'a list \<Rightarrow> 'a list" where
  "insort_cmp cmp x [] = [x]"
| "insort_cmp cmp x (y # ys) = (if cmp x y \<le> 0 then x # y # ys else y # insort_cmp cmp x ys)"

fun sort_cmp :: "('a \<Rightarrow> 'a \<Rightarrow> int) \<Rightarrow> 'a list \<Rightarrow> 'a list" where
  "sort_cmp cmp [] = []"
| "sort_cmp cmp (x # xs) = insort_cmp cmp x (sort_cmp cmp xs)"

definition sort_cmp_rev :: "('a \<Rightarrow> 'a \<Rightarrow> int) \<Rightarrow> 'a list \<Rightarrow> 'a list" where
  "sort_cmp_rev cmp xs = rev (sort_cmp cmp (rev xs))"

definition distinct_candidates :: "string option list \<Rightarrow> string list" where
  "distinct_candidates candidates =
     sorted_set (filter (\<lambda>v. v \<noteq> []) (map py_strip (concat (map opt_list candidates))))"

definition rank_versions ::
    "pep440 \<Rightarrow> string option list \<Rightarrow> string option \<times> string list \<times> bool" where
  "rank_versions P candidates =
     (let d = distinct_candidates candidates;
          comparable = sort_cmp_rev (compare_versions P) (filter (is_comparable P) d);
          other = filter (\<lambda>c. \<not> is_comparable P c) d
      in (case comparable of [] \<Rightarrow> None | c # _ \<Rightarrow> Some c, comparable @ other, other \<noteq> []))"

definition highest_version :: "pep440 \<Rightarrow> string option list \<Rightarrow> string option" where
  "highest_version P versions = fst (rank_versions P versions)"

definition pick_fixed_by :: "pep440 \<Rightarrow> string option list option \<Rightarrow> string option" where
  "pick_fixed_by P candidates =
     (let (best, ordered, _) = rank_versions P (case candidates of None \<Rightarrow> [] | Some c \<Rightarrow> c) in
      case best of Some b \<Rightarrow> Some b
      | None \<Rightarrow> (case ordered of [] \<Rightarrow> None | x # xs \<Rightarrow> Some (max_by id x xs)))"

section \<open>The RPM order is the order of a key\<close>

definition cmp_of :: "'a::linorder \<Rightarrow> 'a \<Rightarrow> int" where
  "cmp_of x y = (if x < y then -1 else if x = y then 0 else 1)"

definition seg_key :: "string \<Rightarrow> nat \<times> nat \<times> string" where
  "seg_key x = (if x = ''~'' then (0, 0, []) else if all_digits x then (3, nat_of_digits x, [])
                else (2, 0, x))"

definition end_key :: "nat \<times> nat \<times> string" where "end_key = (1, 0, [])"

definition rpm_key :: "string list \<Rightarrow> (nat \<times> nat \<times> string) list" where
  "rpm_key xs = map seg_key xs @ [end_key]"

lemma rpm_segs_key: "rpm_segs xs ys = cmp_of (rpm_key xs) (rpm_key ys)"
proof (induction xs ys rule: rpm_segs.induct)
  case 1
  then show ?case by (simp add: cmp_of_def)
next
  case (2 x xs)
  then show ?case by (auto simp: cmp_of_def rpm_key_def seg_key_def end_key_def)
next
  case (3 y ys)
  then show ?case by (auto simp: cmp_of_def rpm_key_def seg_key_def end_key_def)
next
  case (4 x xs y ys)
  have step: "cmp_of (rpm_key (x # xs)) (rpm_key (y # ys)) =
      (if seg_key x < seg_key y then -1 else if seg_key x = seg_key y
       then cmp_of (rpm_key xs) (rpm_key ys) else 1)"
    by (auto simp: cmp_of_def rpm_key_def)
  have tilde: "\<not> all_digits ''~''" by (simp add: all_digits_def is_digit_def)
  show ?case
    using 4 tilde unfolding step by (auto simp: seg_key_def)
qed

lemma rpmvercmp_key: "rpmvercmp a b = cmp_of (rpm_key (segments a)) (rpm_key (segments b))"
  by (simp add: rpmvercmp_def rpm_segs_key)

section \<open>What a comparator must satisfy\<close>

locale cmp_order =
  fixes cmp :: "'a \<Rightarrow> 'a \<Rightarrow> int" and S :: "'a set"
  assumes cmp_swap: "x \<in> S \<Longrightarrow> y \<in> S \<Longrightarrow> cmp y x = - cmp x y"
    and cmp_trans: "x \<in> S \<Longrightarrow> y \<in> S \<Longrightarrow> z \<in> S \<Longrightarrow> cmp x y \<le> 0 \<Longrightarrow> cmp y z \<le> 0 \<Longrightarrow> cmp x z \<le> 0"
begin

lemma cmp_refl: "x \<in> S \<Longrightarrow> cmp x x = 0"
  using cmp_swap [of x x] by simp

lemma set_insort_cmp: "set (insort_cmp cmp x xs) = insert x (set xs)"
  by (induction xs) auto

lemma set_sort_cmp: "set (sort_cmp cmp xs) = set xs"
  by (induction xs) (auto simp: set_insort_cmp)

lemma sorted_insort_cmp:
  "set (x # xs) \<subseteq> S \<Longrightarrow> sorted_wrt (\<lambda>x y. cmp x y \<le> 0) xs \<Longrightarrow>
   sorted_wrt (\<lambda>x y. cmp x y \<le> 0) (insort_cmp cmp x xs)"
proof (induction xs)
  case Nil
  then show ?case by simp
next
  case (Cons y ys)
  show ?case
  proof (cases "cmp x y \<le> 0")
    case True
    with Cons.prems show ?thesis by (auto intro: cmp_trans [of x y])
  next
    case False
    with Cons.prems have "cmp y x \<le> 0" by (simp add: cmp_swap [of x y])
    with False Cons show ?thesis by (auto simp: set_insort_cmp)
  qed
qed

lemma sorted_sort_cmp: "set xs \<subseteq> S \<Longrightarrow> sorted_wrt (\<lambda>x y. cmp x y \<le> 0) (sort_cmp cmp xs)"
  by (induction xs) (auto intro!: sorted_insort_cmp simp: set_sort_cmp)

lemma sort_cmp_rev_greatest:
  assumes "set xs \<subseteq> S" and "sort_cmp_rev cmp xs = y # ys" and "x \<in> set xs"
  shows "0 \<le> cmp y x"
proof -
  have "sort_cmp cmp (rev xs) = rev ys @ [y]"
    using arg_cong [OF assms(2), of rev] by (simp add: sort_cmp_rev_def)
  moreover have "set (rev xs) \<subseteq> S" using assms(1) by simp
  ultimately have s: "sorted_wrt (\<lambda>x y. cmp x y \<le> 0) (rev ys @ [y])"
    and y: "set (rev ys @ [y]) = set xs"
    using sorted_sort_cmp [of "rev xs"] set_sort_cmp [of "rev xs"] by simp_all
  from y assms(1,3) have "x \<in> S" "y \<in> S" by auto
  moreover from s y assms(3) have "x = y \<or> cmp x y \<le> 0" by (auto simp: sorted_wrt_append)
  then have "cmp x y \<le> 0" using cmp_refl \<open>x \<in> S\<close> by (elim disjE) auto
  ultimately show ?thesis by (subst cmp_swap [of x y]) auto
qed

end

lemma set_insort_cmp_any [simp]: "set (insort_cmp cmp x xs) = insert x (set xs)"
  by (induction xs) auto

lemma set_sort_cmp_any [simp]: "set (sort_cmp cmp xs) = set xs"
  by (induction xs) auto

lemma set_sort_cmp_rev [simp]: "set (sort_cmp_rev cmp xs) = set xs"
  by (simp add: sort_cmp_rev_def)

lemma distinct_insort_cmp: "distinct (insort_cmp cmp x xs) \<longleftrightarrow> distinct (x # xs)"
  by (induction xs) auto

lemma distinct_sort_cmp_rev: "distinct (sort_cmp_rev cmp xs) \<longleftrightarrow> distinct xs"
proof -
  have "distinct (sort_cmp cmp ys) \<longleftrightarrow> distinct ys" for ys
    by (induction ys) (auto simp: distinct_insort_cmp)
  then show ?thesis by (simp add: sort_cmp_rev_def)
qed

lemma cmp_of_swap: "cmp_of y x = - cmp_of x y"
  by (auto simp: cmp_of_def)

lemma cmp_of_trans: "cmp_of x y \<le> 0 \<Longrightarrow> cmp_of y z \<le> 0 \<Longrightarrow> cmp_of x z \<le> 0"
  by (auto simp: cmp_of_def split: if_splits)

interpretation rpm: cmp_order rpmvercmp UNIV
  by unfold_locales (auto simp: rpmvercmp_key intro: cmp_of_swap cmp_of_trans)

text \<open>
  Away from PEP 440 the comparison is the lexicographic order of epoch and RPM key. On strings
  that all parse it is the order of \<open>packaging.version\<close>.
\<close>

definition fallback_key :: "string \<Rightarrow> nat \<times> (nat \<times> nat \<times> string) list" where
  "fallback_key v = (let (epoch, rest) = split_epoch (py_strip v) in (epoch, rpm_key (segments rest)))"

lemma compare_versions_fallback:
  "\<not> (pep_valid P (py_strip a) \<and> pep_valid P (py_strip b)) \<Longrightarrow>
   compare_versions P a b = cmp_of (fallback_key a) (fallback_key b)"
  by (auto simp: compare_versions_def fallback_key_def Let_def rpmvercmp_key cmp_of_def
      split: prod.splits)

interpretation fallback: cmp_order "compare_versions P" "{v. \<not> pep_valid P (py_strip v)}" for P
  by unfold_locales
    (auto simp: compare_versions_fallback intro: cmp_of_swap cmp_of_trans)

definition pep440_ok :: "pep440 \<Rightarrow> bool" where
  "pep440_ok P \<longleftrightarrow>
     (\<forall>a b. pep_valid P a \<longrightarrow> pep_valid P b \<longrightarrow> pep_less P a b \<longrightarrow> \<not> pep_less P b a) \<and>
     (\<forall>a b c. pep_valid P a \<longrightarrow> pep_valid P b \<longrightarrow> pep_valid P c \<longrightarrow>
        \<not> pep_less P b a \<longrightarrow> \<not> pep_less P c b \<longrightarrow> \<not> pep_less P c a)"

lemma pep440_cmp_order:
  assumes "pep440_ok P"
  shows "cmp_order (compare_versions P) {v. pep_valid P (py_strip v)}"
proof
  fix x y assume "x \<in> {v. pep_valid P (py_strip v)}" and "y \<in> {v. pep_valid P (py_strip v)}"
  then show "compare_versions P y x = - compare_versions P x y"
    by (simp add: compare_versions_def Let_def)
next
  fix x y z
  assume prems: "x \<in> {v. pep_valid P (py_strip v)}" "y \<in> {v. pep_valid P (py_strip v)}"
    "z \<in> {v. pep_valid P (py_strip v)}"
    "compare_versions P x y \<le> 0" "compare_versions P y z \<le> 0"
  have asym: "\<And>a b. pep_valid P a \<Longrightarrow> pep_valid P b \<Longrightarrow> pep_less P a b \<Longrightarrow> \<not> pep_less P b a"
    using assms unfolding pep440_ok_def by blast
  from prems have v: "pep_valid P (py_strip x)" "pep_valid P (py_strip y)" "pep_valid P (py_strip z)"
    and le1: "compare_versions P x y \<le> 0" and le2: "compare_versions P y z \<le> 0" by simp_all
  have le_iff: "compare_versions P a b \<le> 0 \<longleftrightarrow> \<not> pep_less P (py_strip b) (py_strip a)"
    if "pep_valid P (py_strip a)" and "pep_valid P (py_strip b)" for a b
    using that asym [of "py_strip b" "py_strip a"]
    by (cases "pep_less P (py_strip b) (py_strip a)"; cases "pep_less P (py_strip a) (py_strip b)")
      (simp_all add: compare_versions_def)
  have "\<not> pep_less P (py_strip z) (py_strip x)"
    using assms v le1 le2 le_iff [OF v(1,2)] le_iff [OF v(2,3)] unfolding pep440_ok_def by blast
  then show "compare_versions P x z \<le> 0" using le_iff [OF v(1,3)] by simp
qed

section \<open>Ranking\<close>

lemma set_distinct_candidates:
  "set (distinct_candidates cs) = {py_strip c | c. Some c \<in> set cs \<and> py_strip c \<noteq> []}"
proof -
  have "c \<in> set (concat (map opt_list cs)) \<longleftrightarrow> Some c \<in> set cs" for c
    by (induction cs) (auto simp: opt_list_def split: option.splits)
  then have "set (concat (map opt_list cs)) = {c. Some c \<in> set cs}" by blast
  then show ?thesis by (auto simp: distinct_candidates_def simp del: set_concat)
qed

lemma rank_versions_ordered_set:
  "set (fst (snd (rank_versions P cs))) = set (distinct_candidates cs)"
  by (auto simp: rank_versions_def Let_def)

lemma rank_versions_distinct: "distinct (fst (snd (rank_versions P cs)))"
  by (auto simp: rank_versions_def Let_def distinct_sort_cmp_rev distinct_candidates_def)

lemma rank_versions_best_in:
  "fst (rank_versions P cs) = Some b \<Longrightarrow> b \<in> set (distinct_candidates cs) \<and> is_comparable P b"
proof -
  let ?f = "filter (is_comparable P) (distinct_candidates cs)"
  assume "fst (rank_versions P cs) = Some b"
  then obtain ys where "sort_cmp_rev (compare_versions P) ?f = b # ys"
    by (auto simp: rank_versions_def Let_def split: list.splits)
  then have "b \<in> set (sort_cmp_rev (compare_versions P) ?f)" by simp
  then show ?thesis by (simp only: set_sort_cmp_rev) simp
qed

lemma rank_versions_best_None:
  "fst (rank_versions P cs) = None \<longleftrightarrow> (\<forall>c \<in> set (distinct_candidates cs). \<not> is_comparable P c)"
proof -
  have "sort_cmp_rev (compare_versions P) (filter (is_comparable P) (distinct_candidates cs)) = [] \<longleftrightarrow>
      filter (is_comparable P) (distinct_candidates cs) = []"
    by (metis set_empty set_sort_cmp_rev)
  then show ?thesis by (auto simp: rank_versions_def Let_def filter_empty_conv split: list.splits)
qed

lemma rank_versions_greatest:
  assumes "cmp_order (compare_versions P) S"
    and "\<forall>c \<in> set (distinct_candidates cs). is_comparable P c \<longrightarrow> c \<in> S"
    and "fst (rank_versions P cs) = Some b"
    and "c \<in> set (distinct_candidates cs)" and "is_comparable P c"
  shows "0 \<le> compare_versions P b c"
proof -
  let ?f = "filter (is_comparable P) (distinct_candidates cs)"
  from assms(3) obtain ys where "sort_cmp_rev (compare_versions P) ?f = b # ys"
    by (auto simp: rank_versions_def Let_def split: list.splits)
  moreover have "set ?f \<subseteq> S" and "c \<in> set ?f" using assms by auto
  ultimately show ?thesis using cmp_order.sort_cmp_rev_greatest [OF assms(1)] by blast
qed

section \<open>Properties\<close>

text \<open>C38: The RPM-style comparison is the lexicographic order of a key: segment by segment, numbers by value
  and above letters, letters by their text, and the end of the text between \<open>~\<close> and everything else. So it
  is a total preorder, although the code compares pairwise and handles the rest of the longer list apart.\<close>

theorem rpmvercmp_refines_key:
  "rpmvercmp a b = cmp_of (rpm_key (segments a)) (rpm_key (segments b)) \<and>
   rpmvercmp b a = - rpmvercmp a b \<and>
   (rpmvercmp a b \<le> 0 \<and> rpmvercmp b c \<le> 0 \<longrightarrow> rpmvercmp a c \<le> 0)"
proof (intro conjI impI)
  show "rpmvercmp a b = cmp_of (rpm_key (segments a)) (rpm_key (segments b))" by (rule rpmvercmp_key)
  show "rpmvercmp b a = - rpmvercmp a b" by (rule rpm.cmp_swap) simp_all
  assume "rpmvercmp a b \<le> 0 \<and> rpmvercmp b c \<le> 0"
  then show "rpmvercmp a c \<le> 0" by (intro rpm.cmp_trans [of a b c]) simp_all
qed

theorem rpmvercmp_refines_key_witness:
  "rpmvercmp ''1.0~rc1'' ''1.0'' \<le> 0 \<and> rpmvercmp ''1.0~rc1'' ''1.0.1'' \<le> 0"
proof -
  have 1: "rpmvercmp ''1.0~rc1'' ''1.0'' \<le> 0" "rpmvercmp ''1.0'' ''1.0.1'' \<le> 0" by code_simp+
  from conjunct2 [OF conjunct2 [OF rpmvercmp_refines_key [of "''1.0~rc1''" "''1.0''" "''1.0.1''"]]] 1
  show ?thesis by blast
qed

text \<open>Ranking fix versions: the ordered list holds the distinct stripped candidates once each; there is a
  best version iff some candidate is comparable; and the best one is at least every comparable candidate,
  provided the candidates either all parse as PEP 440 or none does.\<close>

theorem rank_versions_correct:
  assumes "pep440_ok P"
    and "(\<forall>c \<in> set (distinct_candidates cs). pep_valid P (py_strip c)) \<or>
         (\<forall>c \<in> set (distinct_candidates cs). \<not> pep_valid P (py_strip c))"
  shows "set (fst (snd (rank_versions P cs))) = {py_strip c |c. Some c \<in> set cs \<and> py_strip c \<noteq> []} \<and>
    distinct (fst (snd (rank_versions P cs))) \<and>
    (highest_version P cs = None \<longleftrightarrow> (\<forall>c \<in> set (distinct_candidates cs). \<not> is_comparable P c)) \<and>
    (\<forall>b. highest_version P cs = Some b \<longrightarrow> b \<in> set (distinct_candidates cs) \<and>
       (\<forall>c \<in> set (distinct_candidates cs). is_comparable P c \<longrightarrow> 0 \<le> compare_versions P b c))"
proof -
  have best: "0 \<le> compare_versions P b c"
    if "fst (rank_versions P cs) = Some b" "c \<in> set (distinct_candidates cs)" "is_comparable P c" for b c
  proof (cases "\<forall>c \<in> set (distinct_candidates cs). pep_valid P (py_strip c)")
    case True
    show ?thesis by (rule rank_versions_greatest [OF pep440_cmp_order [OF assms(1)] _ that]) (use True in simp)
  next
    case False
    with assms(2) have "\<forall>c \<in> set (distinct_candidates cs). \<not> pep_valid P (py_strip c)" by blast
    then show ?thesis
      by (intro rank_versions_greatest [OF fallback.cmp_order_axioms _ that]) simp
  qed
  show ?thesis
    unfolding rank_versions_ordered_set set_distinct_candidates [symmetric] highest_version_def
    using best rank_versions_distinct rank_versions_best_None rank_versions_best_in by blast
qed

definition ex_no_pep :: pep440 where
  "ex_no_pep = \<lparr>pep_valid = (\<lambda>_. False), pep_less = (\<lambda>_ _. False)\<rparr>"

theorem rank_versions_correct_witness:
  "highest_version ex_no_pep [Some ''1.9'', Some '' 1.10'', None] = Some ''1.10'' \<and>
   0 \<le> compare_versions ex_no_pep ''1.10'' ''1.9''"
proof -
  have ok: "pep440_ok ex_no_pep" by (simp add: pep440_ok_def ex_no_pep_def)
  have h: "highest_version ex_no_pep [Some ''1.9'', Some '' 1.10'', None] = Some ''1.10''" by code_simp
  have c: "is_comparable ex_no_pep ''1.9''" by code_simp
  have m: "''1.9'' \<in> set (distinct_candidates [Some ''1.9'', Some '' 1.10'', None])" by code_simp
  from rank_versions_correct [OF ok, of "[Some ''1.9'', Some '' 1.10'', None]"] h c m
  show ?thesis by (auto simp: ex_no_pep_def)
qed

text \<open>Mixed candidates have no order: \<open>1.0rc1\<close> is below \<open>1.0\<close> by PEP 440, but \<open>1.0-abc\<close>, which does not
  parse, is above \<open>1.0\<close> and below \<open>1.0rc1\<close> by the RPM rule. The comparison is a cycle, so the sort that
  ranks the candidates, and the fix version shown, depend on the order they come in.\<close>

theorem compare_versions_cycle:
  assumes "pep_valid P ''1.0rc1''" and "pep_valid P ''1.0''" and "\<not> pep_valid P ''1.0-abc''"
    and "pep_less P ''1.0rc1'' ''1.0''" and "\<not> pep_less P ''1.0'' ''1.0rc1''"
  shows "compare_versions P ''1.0rc1'' ''1.0'' = -1 \<and> compare_versions P ''1.0'' ''1.0-abc'' = -1 \<and>
    compare_versions P ''1.0-abc'' ''1.0rc1'' = -1"
proof -
  have s: "py_strip ''1.0rc1'' = ''1.0rc1''" "py_strip ''1.0'' = ''1.0''" "py_strip ''1.0-abc'' = ''1.0-abc''"
    by code_simp+
  have e: "split_epoch ''1.0rc1'' = (0, ''1.0rc1'')" "split_epoch ''1.0'' = (0, ''1.0'')"
    "split_epoch ''1.0-abc'' = (0, ''1.0-abc'')" by code_simp+
  have r: "rpmvercmp ''1.0'' ''1.0-abc'' = -1" "rpmvercmp ''1.0-abc'' ''1.0rc1'' = -1" by code_simp+
  show ?thesis using assms by (simp add: compare_versions_def s e r)
qed

definition ex_some_pep :: pep440 where
  "ex_some_pep = \<lparr>pep_valid = (\<lambda>v. v \<noteq> ''1.0-abc''), pep_less = (\<lambda>a b. a = ''1.0rc1'' \<and> b = ''1.0'')\<rparr>"

theorem compare_versions_cycle_witness: "compare_versions ex_some_pep ''1.0-abc'' ''1.0rc1'' = -1"
  using compare_versions_cycle [of ex_some_pep] by (simp add: ex_some_pep_def)

end
