(* ===== verification/Glob.thy ===== *)
theory Glob
  imports Prelude
begin

text \<open>
  Python's \<open>fnmatch.fnmatch\<close> on a POSIX system, which decides whether a component version falls
  under the version pattern of a suppression rule: \<open>*\<close>, \<open>?\<close>, \<open>[seq]\<close> and \<open>[!seq]\<close>, with the rules
  of the standard library for ranges and for brackets that are not closed. It is the standard
  library, so nothing here has lines of the repository.
\<close>

datatype glob_tok = Lit char | AnyOne | AnyStar | Cls bool "(char \<times> char) list"

fun set_items :: "string \<Rightarrow> (char \<times> char) list" where
  "set_items [] = []"
| "set_items [a] = [(a, a)]"
| "set_items [a, b] = [(a, a), (b, b)]"
| "set_items (a # b # c # rest) =
     (if b = CHR ''-'' then (a, c) # set_items rest else (a, a) # set_items (b # c # rest))"

definition split_bracket :: "string \<Rightarrow> (bool \<times> string \<times> string) option" where
  "split_bracket r =
     (let (neg, r1) = (case r of c # t \<Rightarrow> if c = CHR ''!'' then (True, t) else (False, r)
                       | [] \<Rightarrow> (False, r));
          (close, r2) = (case r1 of c # t \<Rightarrow> if c = CHR '']'' then ([c], t) else ([], r1)
                         | [] \<Rightarrow> ([], r1))
      in if CHR '']'' \<in> set r2
         then Some (neg, close @ takeWhile (\<lambda>c. c \<noteq> CHR '']'') r2,
                    tl (dropWhile (\<lambda>c. c \<noteq> CHR '']'') r2))
         else None)"

lemma split_bracket_length:
  "split_bracket r = Some (neg, body, rest) \<Longrightarrow> length rest < Suc (length r)"
proof -
  have 1: "length (tl (dropWhile P s)) \<le> length s" for P and s :: string
    by (metis diff_le_self le_trans length_dropWhile_le length_tl)
  assume "split_bracket r = Some (neg, body, rest)"
  then obtain r2 where "rest = tl (dropWhile (\<lambda>c. c \<noteq> CHR '']'') r2)" and "length r2 \<le> length r"
    by (auto simp: split_bracket_def Let_def split: if_splits list.splits prod.splits)
  then show ?thesis using 1 [of "\<lambda>c. c \<noteq> CHR '']''" r2] by simp
qed

function glob_parse :: "string \<Rightarrow> glob_tok list" where
  "glob_parse [] = []"
| "glob_parse (c # cs) =
     (if c = CHR ''*'' then AnyStar # glob_parse cs
      else if c = CHR ''?'' then AnyOne # glob_parse cs
      else if c = CHR ''['' then
        (case split_bracket cs of
           None \<Rightarrow> Lit c # glob_parse cs
         | Some (neg, body, rest) \<Rightarrow> Cls neg (set_items body) # glob_parse rest)
      else Lit c # glob_parse cs)"
  by pat_completeness auto
termination
  by (relation "measure length") (auto dest: split_bracket_length)

definition tok_ok :: "glob_tok \<Rightarrow> char \<Rightarrow> bool" where
  "tok_ok t c =
     (case t of Lit d \<Rightarrow> c = d | AnyOne \<Rightarrow> True | AnyStar \<Rightarrow> False
      | Cls neg rs \<Rightarrow> neg \<noteq> list_ex (\<lambda>(a, b). a \<le> c \<and> c \<le> b) rs)"

fun glob_match :: "glob_tok list \<Rightarrow> string \<Rightarrow> bool" where
  "glob_match [] s = (s = [])"
| "glob_match (AnyStar # ts) [] = glob_match ts []"
| "glob_match (AnyStar # ts) (c # cs) = (glob_match ts (c # cs) \<or> glob_match (AnyStar # ts) cs)"
| "glob_match (t # ts) [] = False"
| "glob_match (t # ts) (c # cs) = (tok_ok t c \<and> glob_match ts cs)"

definition fnmatch :: "string \<Rightarrow> string \<Rightarrow> bool" where
  "fnmatch name pat = glob_match (glob_parse pat) name"

section \<open>What patterns mean\<close>

lemma glob_match_star: "glob_match (AnyStar # ts) s \<longleftrightarrow> (\<exists>a b. s = a @ b \<and> glob_match ts b)"
proof (induction s)
  case Nil
  then show ?case by simp
next
  case (Cons c s)
  have "(\<exists>a b. c # s = a @ b \<and> glob_match ts b) \<longleftrightarrow>
      glob_match ts (c # s) \<or> (\<exists>a b. s = a @ b \<and> glob_match ts b)"
    by (metis append_Cons append_Nil append_eq_Cons_conv)
  with Cons show ?case by simp
qed

lemma glob_match_star_any [simp]: "glob_match [AnyStar] s"
  by (auto simp: glob_match_star)

definition plain_pattern :: "string \<Rightarrow> bool" where
  "plain_pattern p \<longleftrightarrow> list_all (\<lambda>c. c \<notin> {CHR ''*'', CHR ''?'', CHR ''[''}) p"

lemma glob_parse_plain: "plain_pattern p \<Longrightarrow> glob_parse (p @ q) = map Lit p @ glob_parse q"
  by (induction p) (auto simp: plain_pattern_def)

lemma glob_match_lits: "glob_match (map Lit p @ ts) s \<longleftrightarrow> (\<exists>b. s = p @ b \<and> glob_match ts b)"
proof (induction p arbitrary: s)
  case Nil
  then show ?case by simp
next
  case (Cons c p)
  then show ?case by (cases s) (auto simp: tok_ok_def)
qed

lemma fnmatch_plain: "plain_pattern p \<Longrightarrow> fnmatch s p \<longleftrightarrow> s = p"
  using glob_parse_plain [of p "[]"] glob_match_lits [of p "[]" s] by (simp add: fnmatch_def)

lemma fnmatch_prefix_star: "plain_pattern p \<Longrightarrow> fnmatch s (p @ ''*'') \<longleftrightarrow> prefix p s"
  using glob_parse_plain [of p "''*''"] glob_match_lits [of p "[AnyStar]" s]
  by (auto simp: fnmatch_def prefix_def)

end
