(* ===== verification/Model.thy ===== *)
theory Model
  imports Prelude
begin

text \<open>
  The data of the backend: the enumerations and rows of \<open>app/models\<close>, the request user of
  \<open>app/auth/middleware.py\<close>, the settings of \<open>app/config.py\<close> that the logic reads, and the
  application database as one record of tables. A table is the list of its rows in insertion
  order. A UUID primary key is a number that the database hands out and never reuses.
  Not kept: ORM relationships (they are lookups in the users table) and the rendered German
  title and message of a notification, which are a function of its key and parameters.
\<close>

section \<open>Enumerations\<close>

datatype user_role = TeamMember | SecTeam

datatype rem_status = RemOpen | RemInProgress | RemResolved | RemVerified | RemWontFix

datatype risk_status = RiskRequested | RiskApproved | RiskRejected | RiskExpired

datatype supp_status = SuppRequested | SuppApproved | SuppRejected

datatype supp_type = SuppComponent | SuppCve

datatype prio_level = PrioCritical | PrioHigh | PrioMedium | PrioLow

datatype notif_type = NRiskComment | NRiskApproved | NRiskRejected | NRiskExpiring | NNewPriority
  | NEscalation | NNewCriticalCve | NRemediationCreated | NRemediationStatus | NRemediationOverdue
  | NSuppressionRequested | NSuppressionApproved | NSuppressionRejected | NMention
  | NCveSubscription

fun rem_status_value :: "rem_status \<Rightarrow> string" where
  "rem_status_value RemOpen = ''open''"
| "rem_status_value RemInProgress = ''in_progress''"
| "rem_status_value RemResolved = ''resolved''"
| "rem_status_value RemVerified = ''verified''"
| "rem_status_value RemWontFix = ''wont_fix''"

fun risk_status_value :: "risk_status \<Rightarrow> string" where
  "risk_status_value RiskRequested = ''requested''"
| "risk_status_value RiskApproved = ''approved''"
| "risk_status_value RiskRejected = ''rejected''"
| "risk_status_value RiskExpired = ''expired''"

fun supp_status_value :: "supp_status \<Rightarrow> string" where
  "supp_status_value SuppRequested = ''requested''"
| "supp_status_value SuppApproved = ''approved''"
| "supp_status_value SuppRejected = ''rejected''"

fun prio_level_value :: "prio_level \<Rightarrow> string" where
  "prio_level_value PrioCritical = ''critical''"
| "prio_level_value PrioHigh = ''high''"
| "prio_level_value PrioMedium = ''medium''"
| "prio_level_value PrioLow = ''low''"

section \<open>Users\<close>

record user =
  user_id :: string
  username :: string
  full_name :: "string option"
  email :: string
  role :: user_role

definition display_name_of :: "string option \<Rightarrow> string \<Rightarrow> string" where
  "display_name_of fname uname =
     (let n = py_strip (case fname of None \<Rightarrow> [] | Some f \<Rightarrow> f) in if n \<noteq> [] then n else uname)"

definition user_display_name :: "user \<Rightarrow> string" where
  "user_display_name u = display_name_of (full_name u) (username u)"

record current_user =
  cu_id :: string
  cu_username :: string
  cu_full_name :: "string option"
  cu_email :: string
  cu_role :: user_role
  cu_namespaces :: "pair list"
  cu_has_all :: bool

definition cu_display_name :: "current_user \<Rightarrow> string" where
  "cu_display_name u = display_name_of (cu_full_name u) (cu_username u)"

text \<open>The user row that the request user is taken from.\<close>

definition user_of :: "current_user \<Rightarrow> user" where
  "user_of u = \<lparr>user_id = cu_id u, username = cu_username u, full_name = cu_full_name u,
     email = cu_email u, role = cu_role u\<rparr>"

lemma user_of_simps [simp]: "user_id (user_of u) = cu_id u" "role (user_of u) = cu_role u"
  by (simp_all add: user_of_def)

definition is_sec_team :: "current_user \<Rightarrow> bool" where
  "is_sec_team u \<longleftrightarrow> cu_role u = SecTeam"

definition can_see_all_namespaces :: "current_user \<Rightarrow> bool" where
  "can_see_all_namespaces u \<longleftrightarrow> is_sec_team u \<or> cu_has_all u"

definition has_namespaces :: "current_user \<Rightarrow> bool" where
  "has_namespaces u \<longleftrightarrow> 0 < length (cu_namespaces u) \<or> cu_has_all u"

text \<open>The pairs a user may see when \<open>all_ns\<close> is every pair StackRox knows.\<close>

definition visible_pairs :: "pair list \<Rightarrow> current_user \<Rightarrow> pair list" where
  "visible_pairs all_ns u = (if can_see_all_namespaces u then all_ns else cu_namespaces u)"

section \<open>Sidebar scope\<close>

definition narrow_namespaces :: "pair list \<Rightarrow> string option \<Rightarrow> string option \<Rightarrow> pair list" where
  "narrow_namespaces nss cluster namespace =
     (let n1 = (if truthy cluster then filter (\<lambda>(ns, cl). Some cl = cluster) nss else nss)
      in if truthy namespace then filter (\<lambda>(ns, cl). Some ns = namespace) n1 else n1)"

lemma set_narrow_namespaces:
  "p \<in> set (narrow_namespaces nss cluster namespace) \<longleftrightarrow>
     p \<in> set nss \<and> (truthy cluster \<longrightarrow> Some (snd p) = cluster) \<and>
     (truthy namespace \<longrightarrow> Some (fst p) = namespace)"
  by (cases p) (auto simp: narrow_namespaces_def Let_def)

lemma narrow_namespaces_subset: "set (narrow_namespaces nss cluster namespace) \<subseteq> set nss"
  by (auto simp: set_narrow_namespaces)

lemma narrow_namespaces_None [simp]: "narrow_namespaces nss None None = nss"
  by (simp add: narrow_namespaces_def)

section \<open>Scopes as stored in JSON columns\<close>

text \<open>
  A scope column is a JSON object: \<open>ss_mode\<close> and \<open>ss_targets\<close> are \<open>None\<close> when the key is absent
  (legacy rows). The two optional fields of a target are \<open>null\<close> where they are not given.
\<close>

record scope_target =
  tg_cluster :: string
  tg_namespace :: string
  tg_image :: "string option"
  tg_deployment :: "string option"

record stored_scope =
  ss_mode :: "string option"
  ss_targets :: "scope_target list option"

section \<open>Rows\<close>

record risk_acceptance =
  ra_id :: nat
  ra_cve :: string
  ra_status :: risk_status
  ra_justification :: string
  ra_scope :: stored_scope
  ra_scope_key :: string
  ra_expires_at :: "datetime option"
  ra_created_at :: datetime
  ra_created_by :: string
  ra_reviewed_by :: "string option"
  ra_reviewed_at :: "datetime option"
  ra_assigned_to :: "string option"

record remediation =
  rem_id :: nat
  rem_cve :: string
  rem_namespace :: string
  rem_cluster :: string
  rem_status :: rem_status
  rem_assigned_to :: "string option"
  rem_created_by :: string
  rem_resolved_by :: "string option"
  rem_target_date :: "date option"
  rem_notes :: "string option"
  rem_wont_fix_reason :: "string option"
  rem_resolved_at :: "datetime option"
  rem_verified_at :: "datetime option"
  rem_created_at :: datetime

record supp_rule =
  sr_id :: nat
  sr_status :: supp_status
  sr_type :: supp_type
  sr_component :: "string option"
  sr_version_pattern :: "string option"
  sr_cve :: "string option"
  sr_reason :: string
  sr_url :: "string option"
  sr_scope :: stored_scope
  sr_scope_key :: string
  sr_review_comment :: "string option"
  sr_created_at :: datetime
  sr_created_by :: string
  sr_reviewed_by :: "string option"
  sr_reviewed_at :: "datetime option"

record cve_priority =
  pr_id :: nat
  pr_cve :: string
  pr_level :: prio_level
  pr_reason :: string
  pr_set_by :: string
  pr_deadline :: "datetime option"
  pr_created_at :: datetime
  pr_updated_at :: datetime

record escalation =
  esc_id :: nat
  esc_cve :: string
  esc_namespace :: string
  esc_cluster :: string
  esc_level :: int
  esc_triggered_at :: datetime
  esc_notified :: bool

record esc_warning =
  ew_id :: nat
  ew_cve :: string
  ew_namespace :: string
  ew_cluster :: string
  ew_level :: int

record namespace_contact =
  nc_namespace :: string
  nc_cluster :: string
  nc_email :: string

text \<open>A rule of \<open>escalation_rules\<close>: a JSON object whose keys may be absent.\<close>

record esc_rule =
  er_severity_min :: "int option"
  er_epss_threshold :: "num option"
  er_days :: "int \<Rightarrow> int option"        \<comment> \<open>\<open>days_to_level{n}\<close>\<close>
  er_days_fix :: "int \<Rightarrow> int option"    \<comment> \<open>\<open>days_to_level{n}_after_fix_available\<close>\<close>

record global_settings =
  gs_id :: nat
  gs_min_cvss :: num
  gs_min_epss :: num
  gs_rules :: "esc_rule list"
  gs_warning_days :: int
  gs_fix_overdue_days :: int
  gs_digest_day :: int
  gs_management_email :: string
  gs_updated_by :: "string option"
  gs_updated_at :: datetime

record audit_entry =
  al_user :: "string option"
  al_action :: string
  al_entity :: string
  al_entity_id :: string
  al_details :: "(string \<times> string option) list"
  al_created :: datetime

record notification =
  nt_id :: nat
  nt_user :: string
  nt_type :: notif_type
  nt_key :: string
  nt_params :: "(string \<times> string) list"
  nt_scope :: "pair list option"
  nt_link :: "string option"
  nt_read :: bool
  nt_created :: datetime

record notif_pref =
  np_user :: string
  np_category :: string
  np_in_app :: bool
  np_email :: bool

record email_event =
  ne_id :: nat
  ne_user :: string
  ne_key :: string
  ne_created :: datetime

text \<open>A segment of a structured comment: text, or a mention (user id, user name at the time).\<close>

datatype segment = SegText string | SegMention string string

record ra_comment =
  rc_id :: nat
  rc_ra :: nat
  rc_user :: string
  rc_message :: string
  rc_segments :: "segment list option"
  rc_created :: datetime

record cve_comment =
  cc_id :: nat
  cc_cve :: string
  cc_user :: string
  cc_escalation :: "nat option"
  cc_message :: string
  cc_segments :: "segment list option"
  cc_created :: datetime
  cc_updated :: "datetime option"

text \<open>(CVE, namespace, cluster, reason) of a team alert.\<close>

type_synonym alert_key = "string \<times> string \<times> string \<times> string"

text \<open>The stored state of a CVE subscription (version 1 of the JSON shape).\<close>

datatype sub_scope = AllPairs | SomePairs "pair list"

record sub_scores =
  sc_severity :: "int option"
  sc_cvss :: "num option"
  sc_epss :: "num option"

record sub_location =
  lo_namespace :: string
  lo_cluster :: string
  lo_images :: "string list"
  lo_fixable :: "string list"

record sub_state =
  st_version :: int
  st_scope :: sub_scope
  st_scores :: sub_scores
  st_locations :: "sub_location list"

record cve_subscription =
  su_user :: string
  su_cve :: string
  su_created_at :: datetime
  su_state :: sub_state
  su_checked_at :: datetime

record sub_event =
  se_user :: string
  se_cve :: string
  se_kind :: string
  se_scope :: "pair list"
  se_created :: datetime

record ns_snapshot =
  sn_user :: string
  sn_namespaces :: "pair list"
  sn_has_all :: bool
  sn_hash :: string
  sn_last_seen :: datetime

text \<open>The token of a public badge; \<open>bd_scope\<close> is the JSON list of the pairs it counts, or absent.\<close>

record badge =
  bd_id :: nat
  bd_created_by :: string
  bd_namespace :: "string option"
  bd_cluster :: "string option"
  bd_token :: string
  bd_label :: string
  bd_scope :: "pair list option"
  bd_is_sec_team :: bool
  bd_created_at :: datetime

record cve_snapshot =
  cs_date :: date
  cs_cluster :: string
  cs_namespace :: string
  cs_severity :: int
  cs_total :: nat
  cs_visible :: nat

datatype mail =
    MailEscalation string string string string int       \<comment> \<open>to, CVE, namespace, cluster, level\<close>
  | MailEscalationWarning string string string string int int
  | MailRiskStatus string nat string
  | MailRiskComment string string nat string string     \<comment> \<open>to, CVE, acceptance, author, text\<close>
  | MailSubscriptionSummary string string int int

section \<open>The application database\<close>

record app_db =
  users :: "user list"
  ras :: "risk_acceptance list"
  ra_comments :: "ra_comment list"
  rems :: "remediation list"
  rules :: "supp_rule list"
  prios :: "cve_priority list"
  escs :: "escalation list"
  warnings :: "esc_warning list"
  contacts :: "namespace_contact list"
  gsettings :: "global_settings option"
  notifs :: "notification list"
  notif_prefs :: "notif_pref list"
  email_events :: "email_event list"
  subs :: "cve_subscription list"
  sub_events :: "sub_event list"
  sub_deliveries :: "(string \<times> date \<times> datetime) list"
  snapshots :: "ns_snapshot list"
  audit :: "audit_entry list"
  next_id :: nat
  cve_comments :: "cve_comment list"
  alert_marks :: "(alert_key \<times> datetime) list"
  alert_deliveries :: "(string \<times> date \<times> datetime) list"
  summary_deliveries :: "(string \<times> date \<times> datetime) list"
  badges :: "badge list"
  cve_snapshots :: "cve_snapshot list"
  db_now :: datetime          \<comment> \<open>what the clock reads during the request or the job\<close>

definition empty_db :: app_db where
  "empty_db = \<lparr>users = [], ras = [], ra_comments = [], rems = [], rules = [], prios = [], escs = [],
     warnings = [], contacts = [], gsettings = None, notifs = [], notif_prefs = [], email_events = [],
     subs = [], sub_events = [], sub_deliveries = [], snapshots = [], audit = [], next_id = 1,
     cve_comments = [], alert_marks = [], alert_deliveries = [], summary_deliveries = [],
     badges = [], cve_snapshots = [], db_now = 0\<rparr>"

lemma empty_db_simps [simp]:
  "users empty_db = []" "ras empty_db = []" "ra_comments empty_db = []" "rems empty_db = []"
  "rules empty_db = []" "prios empty_db = []" "escs empty_db = []" "warnings empty_db = []"
  "contacts empty_db = []" "gsettings empty_db = None" "notifs empty_db = []" "notif_prefs empty_db = []"
  "email_events empty_db = []" "subs empty_db = []" "sub_events empty_db = []" "sub_deliveries empty_db = []"
  "snapshots empty_db = []" "audit empty_db = []" "next_id empty_db = 1" "db_now empty_db = 0"
  "cve_comments empty_db = []" "alert_marks empty_db = []" "alert_deliveries empty_db = []"
  "summary_deliveries empty_db = []" "badges empty_db = []" "cve_snapshots empty_db = []"
  by (simp_all add: empty_db_def)

record config =
  cf_default_escalation_email :: string
  cf_management_email :: string
  cf_active_days :: int

definition fresh_id :: "app_db \<Rightarrow> nat \<times> app_db" where
  "fresh_id db = (next_id db, db\<lparr>next_id := Suc (next_id db)\<rparr>)"

text \<open>\<open>log_action\<close> of \<open>audit_service.py\<close>: appends one row.\<close>

definition log_action ::
    "string \<Rightarrow> string \<Rightarrow> string \<Rightarrow> string \<Rightarrow> (string \<times> string option) list \<Rightarrow> app_db \<Rightarrow> app_db" where
  "log_action uid action entity eid details db =
     db\<lparr>audit := audit db @ [\<lparr>al_user = Some uid, al_action = action, al_entity = entity,
        al_entity_id = eid, al_details = details, al_created = db_now db\<rparr>]\<rparr>"

definition sec_team_users :: "app_db \<Rightarrow> user list" where
  "sec_team_users db = filter (\<lambda>u. role u = SecTeam) (users db)"

text \<open>\<open>str(id)\<close>: the decimal digits stand for the text of a UUID.\<close>

function digits_of :: "nat \<Rightarrow> string" where
  "digits_of n = (if n < 10 then [char_of (48 + n)] else digits_of (n div 10) @ [char_of (48 + n mod 10)])"
  by pat_completeness auto
termination by (relation "measure id") auto

declare digits_of.simps [simp del]

definition id_str :: "nat \<Rightarrow> string" where "id_str n = digits_of n"

lemma log_action_simps [simp]:
  "users (log_action u a e i d db) = users db"
  "ras (log_action u a e i d db) = ras db"
  "ra_comments (log_action u a e i d db) = ra_comments db"
  "rems (log_action u a e i d db) = rems db"
  "rules (log_action u a e i d db) = rules db"
  "prios (log_action u a e i d db) = prios db"
  "escs (log_action u a e i d db) = escs db"
  "warnings (log_action u a e i d db) = warnings db"
  "contacts (log_action u a e i d db) = contacts db"
  "gsettings (log_action u a e i d db) = gsettings db"
  "notifs (log_action u a e i d db) = notifs db"
  "notif_prefs (log_action u a e i d db) = notif_prefs db"
  "email_events (log_action u a e i d db) = email_events db"
  "subs (log_action u a e i d db) = subs db"
  "sub_events (log_action u a e i d db) = sub_events db"
  "sub_deliveries (log_action u a e i d db) = sub_deliveries db"
  "snapshots (log_action u a e i d db) = snapshots db"
  "next_id (log_action u a e i d db) = next_id db"
  "db_now (log_action u a e i d db) = db_now db"
  "cve_comments (log_action u a e i d db) = cve_comments db"
  "alert_marks (log_action u a e i d db) = alert_marks db"
  "alert_deliveries (log_action u a e i d db) = alert_deliveries db"
  "summary_deliveries (log_action u a e i d db) = summary_deliveries db"
  "badges (log_action u a e i d db) = badges db"
  "cve_snapshots (log_action u a e i d db) = cve_snapshots db"
  by (simp_all add: log_action_def)

end
