(* ===== verification/StackRox.thy ===== *)
theory StackRox
  imports Versions Model
begin

text \<open>
  The StackRox Central database as the backend reads it, and the SQL queries of
  \<open>app/stackrox/queries\<close> as functions on its tables. A nullable column is an option, an SQL
  equation with NULL on a side is false, \<open>MAX\<close> and \<open>MIN\<close> skip NULL, \<open>GROUP BY\<close> yields its groups in
  the order of their first rows (SQL leaves that order open, and no property depends on it where
  the query has no \<open>ORDER BY\<close>). The severity column is never NULL (a protobuf enumeration). The
  scores the backend holds in memory (\<open>effective_scores.py\<close>) are a table too; it replaces
  severity, CVSS and EPSS of every row of a CVE it knows.
\<close>

section \<open>Tables\<close>

record deployment =
  dp_id :: string
  dp_name :: string
  dp_namespace :: string
  dp_cluster :: string

record container =
  ct_deployment :: string
  ct_image_id :: string
  ct_image_idv2 :: "string option"
  ct_image_name :: "string option"

record image_cve =
  ic_imageid :: "string option"
  ic_imageidv2 :: "string option"
  ic_cve :: string
  ic_severity :: int
  ic_cvss :: "num option"
  ic_epss :: "num option"
  ic_first_seen :: "datetime option"
  ic_published :: "datetime option"
  ic_fix_since :: "datetime option"
  ic_fixable :: "bool option"
  ic_fixedby :: "string option"
  ic_component :: "string option"
  ic_origin :: "int option"

record component =
  cp_id :: string
  cp_name :: "string option"
  cp_version :: "string option"
  cp_os :: "string option"

record stackrox =
  sx_deployments :: "deployment list"
  sx_containers :: "container list"
  sx_image_cves :: "image_cve list"
  sx_images_v2 :: "(string \<times> int \<times> datetime option) list"
    \<comment> \<open>id, \<open>scanstats_componentcount\<close>, \<open>scan_scantime\<close>\<close>
  sx_components :: "component list"
  sx_scores :: "(string \<times> int \<times> num \<times> num) list"    \<comment> \<open>CVE, severity, CVSS, EPSS\<close>

section \<open>SQL aggregates\<close>

fun somes :: "'a option list \<Rightarrow> 'a list" where
  "somes [] = []"
| "somes (None # xs) = somes xs"
| "somes (Some x # xs) = x # somes xs"

lemma set_somes [simp]: "x \<in> set (somes xs) \<longleftrightarrow> Some x \<in> set xs"
  by (induction xs rule: somes.induct) auto

lemma somes_map_Some [simp]: "somes (map (\<lambda>x. Some (f x)) xs) = map f xs"
  by (induction xs) auto

definition sql_max :: "'a::linorder option list \<Rightarrow> 'a option" where
  "sql_max xs = (case somes xs of [] \<Rightarrow> None | y # ys \<Rightarrow> Some (fold max ys y))"

definition sql_min :: "'a::linorder option list \<Rightarrow> 'a option" where
  "sql_min xs = (case somes xs of [] \<Rightarrow> None | y # ys \<Rightarrow> Some (fold min ys y))"

definition coalesce :: "'a \<Rightarrow> 'a option \<Rightarrow> 'a" where
  "coalesce d x = (case x of None \<Rightarrow> d | Some v \<Rightarrow> v)"

lemma coalesce_simps [simp]: "coalesce d None = d" "coalesce d (Some v) = v"
  by (simp_all add: coalesce_def)

definition max0 :: "num option list \<Rightarrow> num" where
  "max0 xs = coalesce 0 (sql_max (map (\<lambda>x. Some (coalesce 0 x)) xs))"

definition group_by :: "('a \<Rightarrow> 'k) \<Rightarrow> 'a list \<Rightarrow> ('k \<times> 'a list) list" where
  "group_by k xs = map (\<lambda>g. (g, filter (\<lambda>x. k x = g) xs)) (dedupe (map k xs))"

lemma fold_max_ge: "(y::'a::linorder) \<in> set (b # xs) \<Longrightarrow> y \<le> fold max xs b"
proof (induction xs arbitrary: b y)
  case Nil
  then show ?case by simp
next
  case (Cons a xs)
  have b: "max a b \<le> fold max xs (max a b)" by (rule Cons.IH) simp
  show ?case
  proof (cases "y \<in> set xs")
    case True
    then show ?thesis using Cons.IH [of y "max a b"] by simp
  next
    case False
    with Cons.prems have "y \<le> max a b" by auto
    then have "y \<le> fold max xs (max a b)" using b by (rule order.trans)
    then show ?thesis by simp
  qed
qed

lemma fold_max_in: "fold max xs (b::'a::linorder) \<in> set (b # xs)"
  by (induction xs arbitrary: b) (auto simp: max_def split: if_splits)

lemma fold_min_le: "(y::'a::linorder) \<in> set (b # xs) \<Longrightarrow> fold min xs b \<le> y"
proof (induction xs arbitrary: b y)
  case Nil
  then show ?case by simp
next
  case (Cons a xs)
  have b: "fold min xs (min a b) \<le> min a b" by (rule Cons.IH) simp
  show ?case
  proof (cases "y \<in> set xs")
    case True
    then show ?thesis using Cons.IH [of y "min a b"] by simp
  next
    case False
    with Cons.prems have "min a b \<le> y" by auto
    with b have "fold min xs (min a b) \<le> y" by (rule order.trans)
    then show ?thesis by simp
  qed
qed

lemma fold_min_in: "fold min xs (b::'a::linorder) \<in> set (b # xs)"
  by (induction xs arbitrary: b) (auto simp: min_def split: if_splits)

lemma sql_max_Some_iff:
  "sql_max xs = Some m \<longleftrightarrow> Some m \<in> set xs \<and> (\<forall>x. Some x \<in> set xs \<longrightarrow> x \<le> m)"
proof (cases "somes xs")
  case Nil
  then have "\<forall>x. Some x \<notin> set xs" by (metis empty_iff list.set(1) set_somes)
  with Nil show ?thesis by (auto simp: sql_max_def)
next
  case (Cons y ys)
  then have s: "Some x \<in> set xs \<longleftrightarrow> x \<in> set (y # ys)" for x by (metis set_somes)
  show ?thesis
    unfolding s using Cons fold_max_in [of ys y] fold_max_ge [of _ y ys]
    by (auto simp: sql_max_def simp del: list.set intro: order.antisym)
qed

lemma sql_min_Some_iff:
  "sql_min xs = Some m \<longleftrightarrow> Some m \<in> set xs \<and> (\<forall>x. Some x \<in> set xs \<longrightarrow> m \<le> x)"
proof (cases "somes xs")
  case Nil
  then have "\<forall>x. Some x \<notin> set xs" by (metis empty_iff list.set(1) set_somes)
  with Nil show ?thesis by (auto simp: sql_min_def)
next
  case (Cons y ys)
  then have s: "Some x \<in> set xs \<longleftrightarrow> x \<in> set (y # ys)" for x by (metis set_somes)
  show ?thesis
    unfolding s using Cons fold_min_in [of ys y] fold_min_le [of _ y ys]
    by (auto simp: sql_min_def simp del: list.set intro: order.antisym)
qed

lemma sql_max_None_iff: "sql_max xs = None \<longleftrightarrow> (\<forall>x. Some x \<notin> set xs)"
  by (cases "somes xs") (auto simp: sql_max_def simp flip: set_somes)

lemma coalesce_max_ge: "Some v \<in> set xs \<Longrightarrow> v \<le> coalesce d (sql_max xs)"
proof -
  assume v: "Some v \<in> set xs"
  then obtain m where m: "sql_max xs = Some m" using sql_max_None_iff [of xs] by (cases "sql_max xs") auto
  then have "v \<le> m" using v unfolding sql_max_Some_iff by blast
  with m show ?thesis by simp
qed

lemma coalesce_max_in: "coalesce d (sql_max xs) = d \<or> Some (coalesce d (sql_max xs)) \<in> set xs"
proof (cases "sql_max xs")
  case (Some m)
  then have "Some m \<in> set xs" unfolding sql_max_Some_iff by blast
  with Some show ?thesis by simp
qed simp

lemma sql_max_const: "xs \<noteq> [] \<Longrightarrow> (\<And>x. x \<in> set xs \<Longrightarrow> f x = Some m) \<Longrightarrow> sql_max (map f xs) = Some m"
  unfolding sql_max_Some_iff by (cases xs) auto

lemma fst_group_by: "map fst (group_by k xs) = dedupe (map k xs)"
  by (simp add: group_by_def comp_def)

lemma in_group_by: "(g, rs) \<in> set (group_by k xs) \<longleftrightarrow>
    g \<in> k ` set xs \<and> rs = filter (\<lambda>x. k x = g) xs"
  by (auto simp: group_by_def)

section \<open>The CTE \<open>cve_rows\<close>\<close>

type_synonym cve_row = "container \<times> image_cve"

definition cve_rows_raw :: "stackrox \<Rightarrow> cve_row list" where
  "cve_rows_raw sx =
     [(dc, ic). dc \<leftarrow> sx_containers sx, ic \<leftarrow> sx_image_cves sx,
        ic_imageidv2 ic \<noteq> None \<and> ic_imageidv2 ic = ct_image_idv2 dc] @
     [(dc, ic). dc \<leftarrow> sx_containers sx, ic \<leftarrow> sx_image_cves sx,
        ic_imageid ic = Some (ct_image_id dc) \<and>
        \<not> list_ex (\<lambda>(iv, n, scan). Some iv = ct_image_idv2 dc \<and> 0 < n) (sx_images_v2 sx)]"

definition effective_score :: "stackrox \<Rightarrow> string \<Rightarrow> (int \<times> num \<times> num) option" where
  "effective_score sx cve =
     (let es = map snd (filter (\<lambda>e. fst e = cve) (sx_scores sx)) in
      case es of [] \<Rightarrow> None
      | e # rest \<Rightarrow> Some (fold max (map fst rest) (fst e),
          fold max (map (fst \<circ> snd) rest) (fst (snd e)),
          fold max (map (snd \<circ> snd) rest) (snd (snd e))))"

definition with_scores :: "stackrox \<Rightarrow> image_cve \<Rightarrow> image_cve" where
  "with_scores sx ic =
     (case effective_score sx (ic_cve ic) of None \<Rightarrow> ic
      | Some (sev, cvss, epss) \<Rightarrow>
          ic\<lparr>ic_severity := sev, ic_cvss := Some cvss, ic_epss := Some epss\<rparr>)"

definition cve_rows :: "stackrox \<Rightarrow> cve_row list" where
  "cve_rows sx = map (\<lambda>(dc, ic). (dc, with_scores sx ic)) (cve_rows_raw sx)"

text \<open>\<open>deployments d JOIN cve_rows ic LEFT JOIN image_component_v2 comp\<close>.\<close>

record vrow =
  vr_dep :: deployment
  vr_ct :: container
  vr_ic :: image_cve
  vr_comp :: "component option"

definition comps_of :: "stackrox \<Rightarrow> image_cve \<Rightarrow> component option list" where
  "comps_of sx ic =
     (let cs = filter (\<lambda>c. Some (cp_id c) = ic_component ic) (sx_components sx)
      in if cs = [] then [None] else map Some cs)"

definition joined :: "stackrox \<Rightarrow> vrow list" where
  "joined sx =
     [\<lparr>vr_dep = d, vr_ct = dc, vr_ic = ic, vr_comp = c\<rparr>.
        d \<leftarrow> sx_deployments sx, (dc, ic) \<leftarrow> cve_rows sx, ct_deployment dc = dp_id d,
        c \<leftarrow> comps_of sx ic]"

definition vr_cve :: "vrow \<Rightarrow> string" where "vr_cve v = ic_cve (vr_ic v)"

definition vr_pair :: "vrow \<Rightarrow> pair" where
  "vr_pair v = (dp_namespace (vr_dep v), dp_cluster (vr_dep v))"

definition vr_comp_name :: "vrow \<Rightarrow> string option" where
  "vr_comp_name v = Option.bind (vr_comp v) cp_name"

definition vr_comp_version :: "vrow \<Rightarrow> string" where
  "vr_comp_version v = coalesce [] (Option.bind (vr_comp v) cp_version)"

text \<open>\<open>_namespace_filter\<close>: \<open>(d.namespace, d.clustername) IN (VALUES \<dots>)\<close>.\<close>

definition namespace_filter :: "pair list \<Rightarrow> vrow list \<Rightarrow> vrow list" where
  "namespace_filter nss = filter (\<lambda>v. vr_pair v \<in> set nss)"

section \<open>Queries\<close>

definition list_namespaces :: "stackrox \<Rightarrow> pair list" where
  "list_namespaces sx =
     sort_key (\<lambda>(ns, cl). (cl, ns)) (dedupe (map (\<lambda>d. (dp_namespace d, dp_cluster d)) (sx_deployments sx)))"

record cve_data =
  cd_cve :: string
  cd_severity :: int
  cd_cvss :: num
  cd_epss :: num
  cd_first_seen :: "datetime option"
  cd_published :: "datetime option"
  cd_fix_since :: "datetime option"
  cd_images :: nat
  cd_deployments :: nat
  cd_fixable :: bool
  cd_fixed_by :: "string option"
  cd_origins :: "int list"

definition cve_data_of :: "pep440 \<Rightarrow> string \<times> vrow list \<Rightarrow> cve_data" where
  "cve_data_of P g =
     (let ics = map vr_ic (snd g) in
      \<lparr>cd_cve = fst g,
       cd_severity = coalesce 0 (sql_max (map (\<lambda>i. Some (ic_severity i)) ics)),
       cd_cvss = max0 (map ic_cvss ics),
       cd_epss = max0 (map ic_epss ics),
       cd_first_seen = sql_min (map ic_first_seen ics),
       cd_published = sql_min (map ic_published ics),
       cd_fix_since = sql_min (map ic_fix_since ics),
       cd_images = length (remdups (map (ct_image_id \<circ> vr_ct) (snd g))),
       cd_deployments = length (remdups (map (dp_id \<circ> vr_dep) (snd g))),
       cd_fixable = list_ex (\<lambda>i. coalesce False (ic_fixable i)) ics,
       cd_fixed_by = pick_fixed_by P
          (Some (map Some (filter (\<lambda>s. s \<noteq> []) (dedupe (somes (map ic_fixedby ics)))))),
       cd_origins = dedupe (somes (map ic_origin ics))\<rparr>)"

definition passes :: "num \<Rightarrow> num \<Rightarrow> string set \<Rightarrow> string \<Rightarrow> num \<Rightarrow> num \<Rightarrow> bool" where
  "passes min_cvss min_epss always cve cvss epss \<longleftrightarrow>
     (min_cvss \<le> cvss \<and> min_epss \<le> epss) \<or> cve \<in> always"

definition cves_of :: "pep440 \<Rightarrow> num \<Rightarrow> num \<Rightarrow> string set \<Rightarrow> vrow list \<Rightarrow> cve_data list" where
  "cves_of P min_cvss min_epss always vs =
     sort_key (\<lambda>c. (- cd_severity c, - cd_cvss c))
       (filter (\<lambda>c. passes min_cvss min_epss always (cd_cve c) (cd_cvss c) (cd_epss c))
         (map (cve_data_of P) (group_by vr_cve vs)))"

definition get_cves_for_namespaces ::
    "pep440 \<Rightarrow> stackrox \<Rightarrow> pair list \<Rightarrow> num \<Rightarrow> num \<Rightarrow> string set \<Rightarrow> cve_data list" where
  "get_cves_for_namespaces P sx nss min_cvss min_epss always =
     (if nss = [] then []
      else cves_of P min_cvss min_epss always (namespace_filter nss (joined sx)))"

definition get_all_cves :: "pep440 \<Rightarrow> stackrox \<Rightarrow> num \<Rightarrow> num \<Rightarrow> string set \<Rightarrow> cve_data list" where
  "get_all_cves P sx min_cvss min_epss always = cves_of P min_cvss min_epss always (joined sx)"

record affected =
  af_deployment :: string
  af_name :: string
  af_namespace :: string
  af_cluster :: string
  af_image :: "string option"
  af_image_id :: string
  af_first_seen :: "datetime option"

definition get_affected_deployments :: "stackrox \<Rightarrow> string \<Rightarrow> pair list \<Rightarrow> affected list" where
  "get_affected_deployments sx cve nss =
     (if nss = [] then []
      else sort_key (\<lambda>a. (af_namespace a, af_name a))
        (map (\<lambda>((d, img, imgid), vs).
           \<lparr>af_deployment = dp_id d, af_name = dp_name d, af_namespace = dp_namespace d,
            af_cluster = dp_cluster d, af_image = img, af_image_id = imgid,
            af_first_seen = sql_min (map (ic_first_seen \<circ> vr_ic) vs)\<rparr>)
          (group_by (\<lambda>v. (vr_dep v, ct_image_name (vr_ct v), ct_image_id (vr_ct v)))
            (filter (\<lambda>v. vr_cve v = cve) (namespace_filter nss (joined sx))))))"

definition get_namespaces_with_cve :: "stackrox \<Rightarrow> string \<Rightarrow> pair list" where
  "get_namespaces_with_cve sx cve =
     dedupe (map vr_pair (filter (\<lambda>v. vr_cve v = cve) (joined sx)))"

text \<open>The values of this map are (cluster, namespace) pairs, the other way round.\<close>

definition get_cve_namespace_cluster_map ::
    "stackrox \<Rightarrow> string list \<Rightarrow> pair list option \<Rightarrow> string \<Rightarrow> (string \<times> string) set" where
  "get_cve_namespace_cluster_map sx cves nss cve =
     (if cve \<notin> set cves \<or> nss = Some [] then {}
      else (\<lambda>v. (dp_cluster (vr_dep v), dp_namespace (vr_dep v))) `
        set (filter (\<lambda>v. vr_cve v = cve)
          (case nss of None \<Rightarrow> joined sx | Some ps \<Rightarrow> namespace_filter ps (joined sx))))"

definition get_cve_component_map ::
    "stackrox \<Rightarrow> string list \<Rightarrow> pair list \<Rightarrow> string \<Rightarrow> string list" where
  "get_cve_component_map sx cves nss cve =
     (if cve \<notin> set cves \<or> nss = [] then []
      else dedupe (somes (map vr_comp_name
        (filter (\<lambda>v. vr_cve v = cve) (namespace_filter nss (joined sx))))))"

definition component_versions :: "vrow list \<Rightarrow> (string \<times> string) list" where
  "component_versions vs =
     dedupe (somes (map (\<lambda>v. map_option (\<lambda>n. (n, vr_comp_version v)) (vr_comp_name v)) vs))"

definition get_cve_component_version_map ::
    "stackrox \<Rightarrow> string list \<Rightarrow> pair list \<Rightarrow> string \<Rightarrow> (string \<times> string) list" where
  "get_cve_component_version_map sx cves nss cve =
     (if cve \<notin> set cves \<or> nss = [] then []
      else component_versions (filter (\<lambda>v. vr_cve v = cve) (namespace_filter nss (joined sx))))"

definition get_all_deployed_cve_ids :: "stackrox \<Rightarrow> string list" where
  "get_all_deployed_cve_ids sx = dedupe (map vr_cve (joined sx))"

definition get_global_component_version_map :: "stackrox \<Rightarrow> string \<Rightarrow> (string \<times> string) list" where
  "get_global_component_version_map sx cve =
     component_versions (filter (\<lambda>v. vr_cve v = cve) (joined sx))"

definition cve_visible_in_namespaces :: "stackrox \<Rightarrow> string \<Rightarrow> pair list \<Rightarrow> bool" where
  "cve_visible_in_namespaces sx cve nss =
     (nss \<noteq> [] \<and> list_ex (\<lambda>v. vr_cve v = cve) (namespace_filter nss (joined sx)))"

definition get_cve_ids_for_deployment :: "stackrox \<Rightarrow> string \<Rightarrow> pair list \<Rightarrow> string list" where
  "get_cve_ids_for_deployment sx name nss =
     (if nss = [] then []
      else dedupe (map vr_cve
        (filter (\<lambda>v. dp_name (vr_dep v) = name) (namespace_filter nss (joined sx)))))"

definition get_cve_ids_for_deployment_id :: "stackrox \<Rightarrow> string \<Rightarrow> pair list \<Rightarrow> string list" where
  "get_cve_ids_for_deployment_id sx did nss =
     (if nss = [] then []
      else dedupe (map vr_cve
        (filter (\<lambda>v. dp_id (vr_dep v) = did) (namespace_filter nss (joined sx)))))"

text \<open>One row per (CVE, namespace, cluster), for the escalation jobs and the preview.\<close>

record loc_row =
  lr_cve :: string
  lr_namespace :: string
  lr_cluster :: string
  lr_severity :: int
  lr_epss :: num
  lr_first_seen :: "datetime option"
  lr_fix_since :: "datetime option"
  lr_cvss :: num
  lr_fixable :: bool
  lr_components :: "(string \<times> string) list"

definition loc_row_of :: "(string \<times> pair) \<times> vrow list \<Rightarrow> loc_row" where
  "loc_row_of g =
     (let ics = map vr_ic (snd g) in
      \<lparr>lr_cve = fst (fst g), lr_namespace = fst (snd (fst g)), lr_cluster = snd (snd (fst g)),
       lr_severity = coalesce 0 (sql_max (map (\<lambda>i. Some (ic_severity i)) ics)),
       lr_epss = max0 (map ic_epss ics),
       lr_first_seen = sql_min (map ic_first_seen ics),
       lr_fix_since = sql_min (map ic_fix_since ics),
       lr_cvss = max0 (map ic_cvss ics),
       lr_fixable = list_ex (\<lambda>i. coalesce False (ic_fixable i)) ics,
       lr_components = component_versions (snd g)\<rparr>)"

definition loc_rows :: "num \<Rightarrow> num \<Rightarrow> string set \<Rightarrow> vrow list \<Rightarrow> loc_row list" where
  "loc_rows min_cvss min_epss always vs =
     filter (\<lambda>r. passes min_cvss min_epss always (lr_cve r) (lr_cvss r) (lr_epss r))
       (map loc_row_of (group_by (\<lambda>v. (vr_cve v, vr_pair v)) vs))"

definition get_cves_by_namespace_detail ::
    "stackrox \<Rightarrow> pair list \<Rightarrow> num \<Rightarrow> num \<Rightarrow> string set \<Rightarrow> loc_row list" where
  "get_cves_by_namespace_detail sx nss min_cvss min_epss always =
     (if nss = [] then [] else loc_rows min_cvss min_epss always (namespace_filter nss (joined sx)))"

definition get_team_alert_candidates ::
    "stackrox \<Rightarrow> num \<Rightarrow> num \<Rightarrow> string set \<Rightarrow> loc_row list" where
  "get_team_alert_candidates sx min_cvss min_epss always =
     loc_rows min_cvss min_epss always (joined sx)"

record sub_row =
  sw_cve :: string
  sw_namespace :: string
  sw_cluster :: string
  sw_severity :: "int option"
  sw_cvss :: "num option"
  sw_epss :: "num option"
  sw_images :: "string list"
  sw_fixable :: "string list"

definition get_subscription_locations :: "stackrox \<Rightarrow> string list \<Rightarrow> sub_row list" where
  "get_subscription_locations sx cves =
     (if cves = [] then []
      else map (\<lambda>((cve, ns, cl), vs).
        \<lparr>sw_cve = cve, sw_namespace = ns, sw_cluster = cl,
         sw_severity = sql_max (map (\<lambda>v. Some (ic_severity (vr_ic v))) vs),
         sw_cvss = sql_max (map (ic_cvss \<circ> vr_ic) vs),
         sw_epss = sql_max (map (ic_epss \<circ> vr_ic) vs),
         sw_images = dedupe (somes (map (ct_image_name \<circ> vr_ct) vs)),
         sw_fixable = dedupe (somes (map vr_comp_name
            (filter (\<lambda>v. coalesce False (ic_fixable (vr_ic v))) vs)))\<rparr>)
       (group_by (\<lambda>v. (vr_cve v, vr_pair v)) (filter (\<lambda>v. vr_cve v \<in> set cves) (joined sx))))"

section \<open>What the queries return\<close>

lemma in_joined_comps: "comps_of sx ic \<noteq> []"
  by (simp add: comps_of_def Let_def)

lemma set_get_cves_for_namespaces:
  "c \<in> set (get_cves_for_namespaces P sx nss a b w) \<longleftrightarrow>
     (\<exists>cve \<in> vr_cve ` {v \<in> set (joined sx). vr_pair v \<in> set nss}.
        c = cve_data_of P (cve, filter (\<lambda>v. vr_cve v = cve) (namespace_filter nss (joined sx))) \<and>
        passes a b w (cd_cve c) (cd_cvss c) (cd_epss c))"
  by (auto simp: get_cves_for_namespaces_def cves_of_def group_by_def namespace_filter_def)

lemma cd_cve_cve_data_of [simp]: "cd_cve (cve_data_of P g) = fst g"
  by (simp add: cve_data_of_def Let_def)

lemma get_cves_for_namespaces_sound:
  assumes "c \<in> set (get_cves_for_namespaces P sx nss a b w)"
  shows "\<exists>v \<in> set (joined sx). vr_cve v = cd_cve c \<and> vr_pair v \<in> set nss"
  using assms by (auto simp: set_get_cves_for_namespaces)

lemma get_all_cves_sound:
  assumes "c \<in> set (get_all_cves P sx a b w)"
  shows "\<exists>v \<in> set (joined sx). vr_cve v = cd_cve c"
  using assms by (auto simp: get_all_cves_def cves_of_def group_by_def)

lemma distinct_cves_of: "distinct (map cd_cve (cves_of P a b w vs))"
proof -
  have "distinct (map cd_cve (map (cve_data_of P) (group_by vr_cve vs)))"
    using distinct_dedupe [of "map vr_cve vs"] by (simp add: group_by_def comp_def)
  then have "distinct (map cd_cve (filter Q (map (cve_data_of P) (group_by vr_cve vs))))" for Q
    by (rule distinct_map_filter)
  then show ?thesis
    by (simp add: cves_of_def distinct_map)
qed

lemma cves_of_passes:
  "c \<in> set (cves_of P a b w vs) \<Longrightarrow> passes a b w (cd_cve c) (cd_cvss c) (cd_epss c)"
  by (simp add: cves_of_def)

lemma affected_in_namespaces:
  assumes "a \<in> set (get_affected_deployments sx cve nss)"
  shows "(af_namespace a, af_cluster a) \<in> set nss"
proof -
  from assms obtain v where "v \<in> set (namespace_filter nss (joined sx))"
    and "af_namespace a = dp_namespace (vr_dep v)" and "af_cluster a = dp_cluster (vr_dep v)"
    by (auto simp: get_affected_deployments_def group_by_def split: if_splits prod.splits)
  then show ?thesis by (simp add: namespace_filter_def vr_pair_def)
qed

lemma affected_iff:
  "(\<exists>a \<in> set (get_affected_deployments sx cve nss). (af_namespace a, af_cluster a) = p) \<longleftrightarrow>
   (\<exists>v \<in> set (joined sx). vr_cve v = cve \<and> vr_pair v = p \<and> p \<in> set nss)"
proof (cases "nss = []")
  case True
  then show ?thesis by (simp add: get_affected_deployments_def)
next
  case False
  then show ?thesis
    by (force simp: get_affected_deployments_def group_by_def namespace_filter_def vr_pair_def
        image_iff split: prod.splits)
qed

lemma set_list_namespaces:
  "set (list_namespaces sx) = (\<lambda>d. (dp_namespace d, dp_cluster d)) ` set (sx_deployments sx)"
  by (simp add: list_namespaces_def)

lemma joined_pair_known: "v \<in> set (joined sx) \<Longrightarrow> vr_pair v \<in> set (list_namespaces sx)"
  by (auto simp: joined_def vr_pair_def set_list_namespaces)

lemma namespace_filter_all: "namespace_filter (list_namespaces sx) (joined sx) = joined sx"
  by (simp add: namespace_filter_def joined_pair_known)

lemma cves_all_namespaces:
  "list_namespaces sx \<noteq> [] \<Longrightarrow>
   get_cves_for_namespaces P sx (list_namespaces sx) a b w = get_all_cves P sx a b w"
  by (simp add: get_cves_for_namespaces_def get_all_cves_def namespace_filter_all)

lemma loc_rows_passes:
  "r \<in> set (loc_rows a b w vs) \<Longrightarrow> passes a b w (lr_cve r) (lr_cvss r) (lr_epss r)"
  by (simp add: loc_rows_def)

end
