(* ===== verification/Scopes.thy ===== *)
theory Scopes
  imports StackRox
begin

text \<open>
  The scopes of risk acceptances and suppression rules: \<open>app/schemas/risk_acceptance.py\<close> and
  \<open>app/services/risk_acceptance_service.py\<close>. A stored scope is the JSON object of the database
  column, a \<open>risk_scope\<close> the validated pydantic object. \<open>md5\<close> is a parameter of the scope key.
  The lemmas show that resolving a scope keeps the set of deployments it covers, that it forgets
  order and repetition of the targets, and that the hashed text determines the scope.
\<close>

section \<open>Scope objects\<close>

datatype scope_mode = ModeAll | ModeNamespace | ModeImage | ModeDeployment

fun scope_mode_value :: "scope_mode \<Rightarrow> string" where
  "scope_mode_value ModeAll = ''all''"
| "scope_mode_value ModeNamespace = ''namespace''"
| "scope_mode_value ModeImage = ''image''"
| "scope_mode_value ModeDeployment = ''deployment''"

definition scope_mode_of :: "string \<Rightarrow> scope_mode option" where
  "scope_mode_of s =
     (if s = ''all'' then Some ModeAll else if s = ''namespace'' then Some ModeNamespace
      else if s = ''image'' then Some ModeImage
      else if s = ''deployment'' then Some ModeDeployment else None)"

record risk_scope =
  rs_mode :: scope_mode
  rs_targets :: "scope_target list"

definition len_ok :: "nat \<Rightarrow> string \<Rightarrow> bool" where
  "len_ok n s \<longleftrightarrow> 1 \<le> length s \<and> length s \<le> n"

definition target_ok :: "scope_target \<Rightarrow> bool" where
  "target_ok t \<longleftrightarrow> len_ok 255 (tg_cluster t) \<and> len_ok 255 (tg_namespace t) \<and>
     (case tg_image t of None \<Rightarrow> True | Some i \<Rightarrow> len_ok 1024 i) \<and>
     (case tg_deployment t of None \<Rightarrow> True | Some d \<Rightarrow> len_ok 255 d)"

definition risk_scope_ok :: "risk_scope \<Rightarrow> bool" where
  "risk_scope_ok s \<longleftrightarrow> list_all target_ok (rs_targets s) \<and>
     (if rs_mode s = ModeAll then rs_targets s = [] else rs_targets s \<noteq> [])"

text \<open>The constructor \<open>RiskScope(...)\<close> on constructed targets: pydantic validates.\<close>

definition mk_scope :: "scope_mode \<Rightarrow> scope_target list \<Rightarrow> risk_scope result" where
  "mk_scope m ts =
     (let s = \<lparr>rs_mode = m, rs_targets = ts\<rparr>
      in if risk_scope_ok s then Inr s else Inl (ServerError ''ValidationError''))"

lemma mk_scope_Inr_iff:
  "mk_scope m ts = Inr s \<longleftrightarrow> s = \<lparr>rs_mode = m, rs_targets = ts\<rparr> \<and> risk_scope_ok s"
  by (auto simp: mk_scope_def Let_def)

text \<open>\<open>model_dump(mode="json")\<close>.\<close>

definition dump_scope :: "risk_scope \<Rightarrow> stored_scope" where
  "dump_scope s = \<lparr>ss_mode = Some (scope_mode_value (rs_mode s)), ss_targets = Some (rs_targets s)\<rparr>"

definition normalize_scope :: "stored_scope \<Rightarrow> risk_scope result" where
  "normalize_scope s =
     (case (ss_mode s, ss_targets s) of
        (Some m, Some ts) \<Rightarrow>
          (case scope_mode_of m of None \<Rightarrow> Inl (ServerError ''ValidationError'')
           | Some mode \<Rightarrow> mk_scope mode ts)
      | _ \<Rightarrow> mk_scope ModeAll [])"

lemma scope_mode_of_value [simp]: "scope_mode_of (scope_mode_value m) = Some m"
  by (cases m) (simp_all add: scope_mode_of_def)

lemma scope_mode_value_inj [simp]: "scope_mode_value m = scope_mode_value n \<longleftrightarrow> m = n"
  by (cases m; cases n) simp_all

lemma normalize_dump: "risk_scope_ok s \<Longrightarrow> normalize_scope (dump_scope s) = Inr s"
  by (cases s) (simp add: normalize_scope_def dump_scope_def mk_scope_def)

section \<open>Predicates on scopes\<close>

definition target_pair :: "scope_target \<Rightarrow> pair" where
  "target_pair t = (tg_namespace t, tg_cluster t)"

definition is_single_team_scope :: "risk_scope \<Rightarrow> bool" where
  "is_single_team_scope s =
     (if rs_mode s = ModeAll then False
      else length (remdups (map (\<lambda>t. (tg_cluster t, tg_namespace t)) (rs_targets s))) = 1)"

definition get_scope_namespaces :: "stored_scope \<Rightarrow> pair set result" where
  "get_scope_namespaces s =
     rbind (normalize_scope s) (\<lambda>ns.
       if rs_mode ns = ModeAll then Inr {} else Inr (set (map target_pair (rs_targets ns))))"

definition user_can_access_ra :: "current_user \<Rightarrow> risk_acceptance \<Rightarrow> bool result" where
  "user_can_access_ra u ra =
     (if can_see_all_namespaces u then Inr True
      else if ra_created_by ra = cu_id u then Inr True
      else rbind (get_scope_namespaces (ra_scope ra)) (\<lambda>ps.
        if ps = {} then Inr (has_namespaces u)
        else Inr (ps \<inter> set (cu_namespaces u) \<noteq> {})))"

definition str_of_opt :: "string option \<Rightarrow> string" where
  "str_of_opt s = (case s of None \<Rightarrow> ''None'' | Some v \<Rightarrow> v)"

definition deployment_covered_by_scope :: "stored_scope \<Rightarrow> affected \<Rightarrow> bool" where
  "deployment_covered_by_scope s d =
     (let mode = (case ss_mode s of None \<Rightarrow> ''all'' | Some m \<Rightarrow> m);
          targets = (case ss_targets s of None \<Rightarrow> [] | Some ts \<Rightarrow> ts);
          here = (\<lambda>t. tg_cluster t = af_cluster d \<and> tg_namespace t = af_namespace d) in
      if mode = ''all'' then True
      else if mode = ''namespace'' then list_ex here targets
      else if mode = ''image'' then list_ex (\<lambda>t. here t \<and> tg_image t = af_image d) targets
      else if mode = ''deployment''
        then list_ex (\<lambda>t. str_of_opt (tg_deployment t) = af_deployment d) targets
      else False)"

section \<open>Resolving the scope of a request\<close>

definition ns_target :: "string \<times> string \<Rightarrow> scope_target" where
  "ns_target p = \<lparr>tg_cluster = fst p, tg_namespace = snd p, tg_image = None, tg_deployment = None\<rparr>"

definition img_target :: "string \<times> string \<times> string \<Rightarrow> scope_target" where
  "img_target p = \<lparr>tg_cluster = fst p, tg_namespace = fst (snd p), tg_image = Some (snd (snd p)),
     tg_deployment = None\<rparr>"

definition dep_target :: "affected \<Rightarrow> scope_target" where
  "dep_target d = \<lparr>tg_cluster = af_cluster d, tg_namespace = af_namespace d, tg_image = af_image d,
     tg_deployment = Some (af_deployment d)\<rparr>"

definition dep_key :: "scope_target \<Rightarrow> string \<times> string \<times> string" where
  "dep_key t = (tg_cluster t, tg_namespace t, case tg_deployment t of None \<Rightarrow> [] | Some d \<Rightarrow> d)"

definition resolve_ns :: "affected list \<Rightarrow> scope_target \<Rightarrow> (string \<times> string) result" where
  "resolve_ns ds t =
     (let key = (tg_cluster t, tg_namespace t) in
      if key \<notin> (\<lambda>d. (af_cluster d, af_namespace d)) ` set ds
      then Inl (ApiError 400 ''scope_namespaces_without_cve'') else Inr key)"

definition resolve_img :: "affected list \<Rightarrow> scope_target \<Rightarrow> (string \<times> string \<times> string) result" where
  "resolve_img ds t =
     (if \<not> truthy (tg_image t) then Inl (ApiError 400 ''scope_image_requires_name'')
      else let key = (tg_cluster t, tg_namespace t, the (tg_image t)) in
        if key \<notin> set [(af_cluster d, af_namespace d, i). d \<leftarrow> ds, i \<leftarrow> opt_list (af_image d)]
        then Inl (ApiError 400 ''scope_images_without_cve'') else Inr key)"

text \<open>The deployment loop; \<open>seen\<close> holds the identifiers that were added.\<close>

fun resolve_deps :: "affected list \<Rightarrow> string list \<Rightarrow> scope_target list \<Rightarrow> scope_target list result" where
  "resolve_deps ds seen [] = Inr []"
| "resolve_deps ds seen (t # ts) =
     (if \<not> truthy (tg_deployment t) then Inl (ApiError 400 ''scope_deployment_requires_id'')
      else let i = the (tg_deployment t) in
        if i \<in> set seen then resolve_deps ds seen ts
        else (case dict_of af_deployment ds i of
                None \<Rightarrow> Inl (ApiError 400 ''scope_deployments_without_cve'')
              | Some d \<Rightarrow>
                  (if \<not> target_ok (dep_target d) then Inl (ServerError ''ValidationError'')
                   else rbind (resolve_deps ds (i # seen) ts) (\<lambda>rest. Inr (dep_target d # rest)))))"

definition validate_and_resolve_scope :: "risk_scope \<Rightarrow> affected list \<Rightarrow> risk_scope result" where
  "validate_and_resolve_scope b ds =
     (case rs_mode b of
        ModeAll \<Rightarrow> mk_scope ModeAll []
      | ModeNamespace \<Rightarrow>
          rbind (traverse (resolve_ns ds) (rs_targets b)) (\<lambda>ks.
            mk_scope ModeNamespace (map ns_target (sorted_set ks)))
      | ModeImage \<Rightarrow>
          rbind (traverse (resolve_img ds) (rs_targets b)) (\<lambda>ks.
            mk_scope ModeImage (map img_target (sorted_set ks)))
      | ModeDeployment \<Rightarrow>
          rbind (resolve_deps ds [] (rs_targets b)) (\<lambda>ts.
            if ts = [] then Inl (ApiError 400 ''scope_deployment_requires_target'')
            else mk_scope ModeDeployment (sort_key dep_key ts)))"


subsection \<open>Lemmas\<close>

lemma resolve_ns_Inr_iff:
  "resolve_ns ds t = Inr k \<longleftrightarrow> k = (tg_cluster t, tg_namespace t) \<and>
     (\<exists>d \<in> set ds. af_cluster d = tg_cluster t \<and> af_namespace d = tg_namespace t)"
proof -
  have "(tg_cluster t, tg_namespace t) \<in> (\<lambda>d. (af_cluster d, af_namespace d)) ` set ds \<longleftrightarrow>
      (\<exists>d \<in> set ds. af_cluster d = tg_cluster t \<and> af_namespace d = tg_namespace t)"
    by (auto intro: rev_image_eqI)
  then show ?thesis by (auto simp: resolve_ns_def Let_def)
qed

lemma resolve_img_Inr_iff:
  "resolve_img ds t = Inr k \<longleftrightarrow>
     (\<exists>i. tg_image t = Some i \<and> i \<noteq> [] \<and> k = (tg_cluster t, tg_namespace t, i) \<and>
       (\<exists>d \<in> set ds. af_cluster d = tg_cluster t \<and> af_namespace d = tg_namespace t \<and>
          af_image d = Some i))"
  by (cases "tg_image t")
    (auto simp: resolve_img_def Let_def opt_list_def split: option.splits if_splits)

lemma resolve_deps_Cons:
  "resolve_deps ds seen (t # ts) = Inr rs \<longleftrightarrow>
     (\<exists>i. tg_deployment t = Some i \<and> i \<noteq> [] \<and>
       (if i \<in> set seen then resolve_deps ds seen ts = Inr rs
        else \<exists>d rest. dict_of af_deployment ds i = Some d \<and> target_ok (dep_target d) \<and>
               resolve_deps ds (i # seen) ts = Inr rest \<and> rs = dep_target d # rest))"
  by (cases "tg_deployment t") (auto simp: Let_def rbind_Inr_iff split: option.splits if_splits)

declare resolve_deps.simps(2) [simp del]

lemma resolve_deps_step:
  assumes "resolve_deps ds seen (t # ts) = Inr rs"
  obtains (seen) i where "tg_deployment t = Some i" "i \<noteq> []" "i \<in> set seen"
    "resolve_deps ds seen ts = Inr rs"
  | (added) d rest where "tg_deployment t = Some (af_deployment d)" "af_deployment d \<noteq> []"
      "af_deployment d \<notin> set seen" "d \<in> set ds" "target_ok (dep_target d)"
      "dict_of af_deployment ds (af_deployment d) = Some d"
      "resolve_deps ds (af_deployment d # seen) ts = Inr rest" "rs = dep_target d # rest"
  using assms by (auto simp: resolve_deps_Cons dest: dict_of_SomeD split: if_splits)

lemma tg_dep_target [simp]:
  "tg_deployment (dep_target d) = Some (af_deployment d)"
  "tg_cluster (dep_target d) = af_cluster d" "tg_namespace (dep_target d) = af_namespace d"
  by (simp_all add: dep_target_def)

lemma resolve_deps_targets:
  assumes "resolve_deps ds seen ts = Inr rs" and "r \<in> set rs"
  shows "\<exists>d. r = dep_target d \<and> dict_of af_deployment ds (af_deployment d) = Some d \<and> target_ok r \<and>
           af_deployment d \<notin> set seen \<and> (\<exists>t \<in> set ts. tg_deployment t = Some (af_deployment d))"
  using assms
proof (induction ts arbitrary: seen rs)
  case Nil
  then show ?case by simp
next
  case (Cons t ts)
  from Cons.prems(1) show ?case
  proof (cases rule: resolve_deps_step)
    case (seen i)
    from Cons.IH [OF this(4) Cons.prems(2)] show ?thesis by auto
  next
    case (added d rest)
    show ?thesis
    proof (cases "r \<in> set rest")
      case True
      from Cons.IH [OF added(7) this] show ?thesis by auto
    next
      case False
      with added Cons.prems have "r = dep_target d" by simp
      with added show ?thesis by auto
    qed
  qed
qed

lemma resolve_deps_complete:
  assumes "resolve_deps ds seen ts = Inr rs" and "t \<in> set ts"
  shows "\<exists>i. tg_deployment t = Some i \<and> i \<noteq> [] \<and>
           (i \<in> set seen \<or> (\<exists>r \<in> set rs. tg_deployment r = Some i))"
  using assms
proof (induction ts arbitrary: seen rs)
  case Nil
  then show ?case by simp
next
  case (Cons u ts)
  from Cons.prems(1) show ?case
  proof (cases rule: resolve_deps_step)
    case (seen i)
    with Cons.IH [OF seen(4)] Cons.prems(2) show ?thesis by auto
  next
    case (added d rest)
    show ?thesis
    proof (cases "t = u")
      case True
      with added show ?thesis by auto
    next
      case False
      with Cons.prems have "t \<in> set ts" by simp
      from Cons.IH [OF added(7) this] added show ?thesis by auto
    qed
  qed
qed

lemma resolve_deps_distinct:
  "resolve_deps ds seen ts = Inr rs \<Longrightarrow> distinct (map tg_deployment rs)"
proof (induction ts arbitrary: seen rs)
  case Nil
  then show ?case by simp
next
  case (Cons u ts)
  from Cons.prems show ?case
  proof (cases rule: resolve_deps_step)
    case (seen i)
    then show ?thesis by (intro Cons.IH)
  next
    case (added d rest)
    have "Some (af_deployment d) \<notin> tg_deployment ` set rest"
      by (auto dest!: resolve_deps_targets [OF added(7)])
    with added Cons.IH [OF added(7)] show ?thesis by simp
  qed
qed

lemma rs_mode_resolved:
  "validate_and_resolve_scope b ds = Inr r \<Longrightarrow> rs_mode r = rs_mode b"
  by (cases "rs_mode b")
    (auto simp: validate_and_resolve_scope_def mk_scope_Inr_iff rbind_Inr_iff split: if_splits)

lemma resolved_ok: "validate_and_resolve_scope b ds = Inr r \<Longrightarrow> risk_scope_ok r"
  by (cases "rs_mode b")
    (auto simp: validate_and_resolve_scope_def mk_scope_Inr_iff rbind_Inr_iff split: if_splits)

lemma covered_dump:
  "deployment_covered_by_scope (dump_scope s) d =
     (case rs_mode s of ModeAll \<Rightarrow> True
      | ModeNamespace \<Rightarrow> \<exists>t \<in> set (rs_targets s). tg_cluster t = af_cluster d \<and> tg_namespace t = af_namespace d
      | ModeImage \<Rightarrow> \<exists>t \<in> set (rs_targets s). tg_cluster t = af_cluster d \<and> tg_namespace t = af_namespace d \<and>
                        tg_image t = af_image d
      | ModeDeployment \<Rightarrow> \<exists>t \<in> set (rs_targets s). str_of_opt (tg_deployment t) = af_deployment d)"
  by (cases "rs_mode s") (auto simp: deployment_covered_by_scope_def dump_scope_def list_ex_iff)

lemma resolved_targets_in:
  assumes "validate_and_resolve_scope b ds = Inr r" and "t \<in> set (rs_targets r)"
  shows "\<exists>d \<in> set ds. target_pair t = (af_namespace d, af_cluster d)"
proof (cases "rs_mode b")
  case ModeAll
  with assms show ?thesis by (auto simp: validate_and_resolve_scope_def mk_scope_Inr_iff)
next
  case ModeNamespace
  with assms obtain ks where ks: "traverse (resolve_ns ds) (rs_targets b) = Inr ks" "t \<in> ns_target ` set ks"
    by (auto simp: validate_and_resolve_scope_def mk_scope_Inr_iff rbind_Inr_iff)
  then obtain k u where "t = ns_target k" "resolve_ns ds u = Inr k"
    by (auto simp: traverse_set [OF ks(1)])
  then show ?thesis by (auto simp: resolve_ns_Inr_iff ns_target_def target_pair_def) metis
next
  case ModeImage
  with assms obtain ks where ks: "traverse (resolve_img ds) (rs_targets b) = Inr ks" "t \<in> img_target ` set ks"
    by (auto simp: validate_and_resolve_scope_def mk_scope_Inr_iff rbind_Inr_iff)
  then obtain k u where "t = img_target k" "resolve_img ds u = Inr k"
    by (auto simp: traverse_set [OF ks(1)])
  then show ?thesis by (auto simp: resolve_img_Inr_iff img_target_def target_pair_def) metis
next
  case ModeDeployment
  with assms obtain ts where "resolve_deps ds [] (rs_targets b) = Inr ts" "t \<in> set ts"
    by (auto simp: validate_and_resolve_scope_def mk_scope_Inr_iff rbind_Inr_iff split: if_splits)
  then show ?thesis
    by (auto dest!: resolve_deps_targets dest: dict_of_SomeD simp: target_pair_def)
qed

lemma resolve_ns_keys:
  assumes "traverse (resolve_ns ds) ts = Inr ks"
  shows "set ks = (\<lambda>t. (tg_cluster t, tg_namespace t)) ` set ts"
proof -
  have "resolve_ns ds t = Inr (tg_cluster t, tg_namespace t)" if "t \<in> set ts" for t
    using traverse_inputs [OF assms that] by (auto simp: resolve_ns_Inr_iff)
  then have "k \<in> set ks \<longleftrightarrow> (\<exists>t \<in> set ts. k = (tg_cluster t, tg_namespace t))" for k
    unfolding traverse_set [OF assms] by auto
  then show ?thesis by auto
qed

lemma resolve_img_keys:
  assumes "traverse (resolve_img ds) ts = Inr ks"
  shows "(c, n, i) \<in> set ks \<longleftrightarrow>
    (\<exists>t \<in> set ts. tg_cluster t = c \<and> tg_namespace t = n \<and> tg_image t = Some i)"
proof
  assume "(c, n, i) \<in> set ks"
  then show "\<exists>t \<in> set ts. tg_cluster t = c \<and> tg_namespace t = n \<and> tg_image t = Some i"
    by (auto simp: traverse_set [OF assms] resolve_img_Inr_iff)
next
  assume "\<exists>t \<in> set ts. tg_cluster t = c \<and> tg_namespace t = n \<and> tg_image t = Some i"
  then obtain t where t: "t \<in> set ts" "tg_cluster t = c" "tg_namespace t = n" "tg_image t = Some i" by blast
  from traverse_inputs [OF assms t(1)] t(2-) show "(c, n, i) \<in> set ks"
    by (auto simp: resolve_img_Inr_iff)
qed

lemma resolve_img_some:
  assumes "traverse (resolve_img ds) ts = Inr ks" and "t \<in> set ts"
  shows "tg_image t \<noteq> None"
  using traverse_inputs [OF assms] by (auto simp: resolve_img_Inr_iff)

lemma resolve_deps_ids:
  assumes "resolve_deps ds [] ts = Inr rs"
  shows "tg_deployment ` set rs = tg_deployment ` set ts"
proof
  show "tg_deployment ` set rs \<subseteq> tg_deployment ` set ts"
  proof
    fix i assume "i \<in> tg_deployment ` set rs"
    then obtain r where r: "r \<in> set rs" "i = tg_deployment r" by auto
    from resolve_deps_targets [OF assms r(1)] r(2) show "i \<in> tg_deployment ` set ts"
      by (auto simp: image_iff) (metis)
  qed
  show "tg_deployment ` set ts \<subseteq> tg_deployment ` set rs"
  proof
    fix i assume "i \<in> tg_deployment ` set ts"
    then obtain t where t: "t \<in> set ts" "i = tg_deployment t" by auto
    from resolve_deps_complete [OF assms t(1)] t(2) show "i \<in> tg_deployment ` set rs"
      by (auto simp: image_iff) (metis)
  qed
qed

lemma resolve_deps_set:
  assumes "resolve_deps ds [] ts = Inr rs"
  shows "set rs = {dep_target d |d. dict_of af_deployment ds (af_deployment d) = Some d \<and>
     Some (af_deployment d) \<in> tg_deployment ` set ts}"
    (is "_ = ?S")
proof
  show "set rs \<subseteq> ?S"
  proof
    fix r assume "r \<in> set rs"
    from resolve_deps_targets [OF assms this] obtain d t where
      "r = dep_target d" "dict_of af_deployment ds (af_deployment d) = Some d"
      "t \<in> set ts" "tg_deployment t = Some (af_deployment d)" by blast
    then show "r \<in> ?S" by (auto simp: image_iff intro!: exI [of _ d] bexI [of _ t])
  qed
  show "?S \<subseteq> set rs"
  proof
    fix r assume "r \<in> ?S"
    then obtain d where d: "r = dep_target d" "dict_of af_deployment ds (af_deployment d) = Some d"
      "Some (af_deployment d) \<in> tg_deployment ` set rs"
      by (auto simp: resolve_deps_ids [OF assms])
    then obtain q where q: "q \<in> set rs" "tg_deployment q = Some (af_deployment d)" by auto
    from resolve_deps_targets [OF assms q(1)] obtain e where e: "q = dep_target e"
      "dict_of af_deployment ds (af_deployment e) = Some e" by blast
    from q(2) e(1) have "af_deployment e = af_deployment d" by simp
    with d(2) e(2) have "e = d" by (metis option.inject)
    with q(1) e(1) d(1) show "r \<in> set rs" by metis
  qed
qed

text \<open>Lists with distinct identifiers and the same elements sort alike.\<close>

lemma sort_key_unique:
  assumes "set xs = set ys" "distinct xs" "distinct ys" "inj_on k (set xs)"
  shows "sort_key k xs = sort_key k ys"
proof -
  have "map k (sort_key k xs) = map k (sort_key k ys)"
    using assms by (intro sorted_distinct_set_unique) (simp_all add: distinct_map)
  moreover have "inj_on k (set (sort_key k xs) \<union> set (sort_key k ys))" using assms by simp
  ultimately show ?thesis by (rule map_inj_on)
qed

lemma inj_dep_key:
  assumes "resolve_deps ds [] ts = Inr rs"
  shows "inj_on dep_key (set rs)"
proof (rule inj_onI)
  fix x y assume xy: "x \<in> set rs" "y \<in> set rs" "dep_key x = dep_key y"
  from resolve_deps_targets [OF assms xy(1)] obtain d where d: "x = dep_target d"
    "dict_of af_deployment ds (af_deployment d) = Some d" by blast
  from resolve_deps_targets [OF assms xy(2)] obtain e where e: "y = dep_target e"
    "dict_of af_deployment ds (af_deployment e) = Some e" by blast
  from xy(3) d(1) e(1) have "af_deployment d = af_deployment e" by (simp add: dep_key_def)
  with d(2) e(2) have "d = e" by (metis option.inject)
  with d(1) e(1) show "x = y" by metis
qed

lemma resolve_deps_again:
  assumes "\<And>r. r \<in> set rs \<Longrightarrow> \<exists>d. r = dep_target d \<and> dict_of af_deployment ds (af_deployment d) = Some d \<and>
      target_ok r \<and> af_deployment d \<notin> set seen"
    and "distinct (map tg_deployment rs)"
  shows "resolve_deps ds seen rs = Inr rs"
  using assms
proof (induction rs arbitrary: seen)
  case Nil
  then show ?case by simp
next
  case (Cons r rs)
  then obtain d where d: "r = dep_target d" "dict_of af_deployment ds (af_deployment d) = Some d"
    "target_ok r" "af_deployment d \<notin> set seen" by force
  have ne: "af_deployment d \<noteq> []" using d by (auto simp: target_ok_def len_ok_def dep_target_def)
  have "resolve_deps ds (af_deployment d # seen) rs = Inr rs"
  proof (rule Cons.IH)
    fix q assume "q \<in> set rs"
    with Cons.prems(1) [of q] obtain e where e: "q = dep_target e"
      "dict_of af_deployment ds (af_deployment e) = Some e" "target_ok q" "af_deployment e \<notin> set seen"
      by auto
    moreover have "tg_deployment q \<noteq> tg_deployment r"
      using Cons.prems(2) \<open>q \<in> set rs\<close> by (metis distinct.simps(2) image_eqI list.map(2) set_map)
    then have "af_deployment e \<noteq> af_deployment d" unfolding e(1) d(1) tg_dep_target by blast
    ultimately show "\<exists>d'. q = dep_target d' \<and> dict_of af_deployment ds (af_deployment d') = Some d' \<and>
      target_ok q \<and> af_deployment d' \<notin> set (af_deployment d # seen)"
      by (metis set_ConsD)
  qed (use Cons.prems in simp)
  with d(1-3) have "\<exists>e rest. dict_of af_deployment ds (af_deployment d) = Some e \<and>
      target_ok (dep_target e) \<and> resolve_deps ds (af_deployment d # seen) rs = Inr rest \<and>
      r # rs = dep_target e # rest" by blast
  moreover have "tg_deployment r = Some (af_deployment d)" unfolding d(1) by (rule tg_dep_target)
  ultimately show ?case unfolding resolve_deps_Cons using ne d(4) by (metis (no_types))
qed

section \<open>The scope key\<close>

text \<open>
  \<open>json.dumps(..., sort_keys=True, separators=(",", ":"))\<close> with its default escapes. The keys of a
  target in order are \<open>cluster_name\<close>, \<open>deployment_id\<close>, \<open>image_name\<close>, \<open>namespace\<close>.
\<close>

definition hex_digit :: "nat \<Rightarrow> char" where
  "hex_digit n = ''0123456789abcdef'' ! n"

definition json_char :: "char \<Rightarrow> string" where
  "json_char c =
     (let n = (of_char c :: nat) in
      if n = 34 then [CHR 0x5C, CHR 0x22] else if n = 92 then [CHR 0x5C, CHR 0x5C]
      else if n = 10 then [CHR 0x5C, CHR ''n''] else if n = 13 then [CHR 0x5C, CHR ''r'']
      else if n = 9 then [CHR 0x5C, CHR ''t''] else if n = 12 then [CHR 0x5C, CHR ''f'']
      else if n = 8 then [CHR 0x5C, CHR ''b'']
      else if 32 \<le> n \<and> n \<le> 126 then [c]
      else [CHR 0x5C, CHR ''u'', CHR ''0'', CHR ''0'', hex_digit (n div 16), hex_digit (n mod 16)])"

definition json_string :: "string \<Rightarrow> string" where
  "json_string s = [CHR 0x22] @ concat (map json_char s) @ [CHR 0x22]"

definition json_opt :: "string option \<Rightarrow> string" where
  "json_opt s = (case s of None \<Rightarrow> ''null'' | Some v \<Rightarrow> json_string v)"

definition json_key :: "string \<Rightarrow> string" where "json_key k = json_string k @ '':''"

definition json_target :: "scope_target \<Rightarrow> string" where
  "json_target t =
     ''{'' @ json_key ''cluster_name'' @ json_string (tg_cluster t) @
     '','' @ json_key ''deployment_id'' @ json_opt (tg_deployment t) @
     '','' @ json_key ''image_name'' @ json_opt (tg_image t) @
     '','' @ json_key ''namespace'' @ json_string (tg_namespace t) @ ''}''"

fun json_targets :: "scope_target list \<Rightarrow> string" where
  "json_targets [] = '']''"
| "json_targets [t] = json_target t @ '']''"
| "json_targets (t # u # ts) = json_target t @ '','' @ json_targets (u # ts)"

definition scope_canonical :: "risk_scope \<Rightarrow> string" where
  "scope_canonical s =
     ''{'' @ json_key ''mode'' @ json_string (scope_mode_value (rs_mode s)) @
     '','' @ json_key ''targets'' @ ''['' @ json_targets (rs_targets s) @ ''}''"

definition scope_key :: "(string \<Rightarrow> string) \<Rightarrow> risk_scope \<Rightarrow> string" where
  "scope_key md5 s = md5 (scope_canonical s)"

text \<open>Reading one escaped character back.\<close>

definition unhex :: "char \<Rightarrow> nat" where
  "unhex c = length (takeWhile (\<lambda>d. d \<noteq> c) ''0123456789abcdef'')"

lemma unhex_hex_digit: "n < 16 \<Longrightarrow> unhex (hex_digit n) = n"
proof -
  assume "n < 16"
  then have "n \<in> set [0..<16]" by simp
  moreover have "list_all (\<lambda>n. unhex (hex_digit n) = n) [0..<16]" by code_simp
  ultimately show ?thesis by (simp only: list_all_iff)
qed

definition unjson_char :: "string \<Rightarrow> char \<times> string" where
  "unjson_char s =
     (if hd s \<noteq> CHR 0x5C then (hd s, tl s)
      else let b = s ! 1 in
        if b = CHR 0x22 then (CHR 0x22, drop 2 s) else if b = CHR 0x5C then (CHR 0x5C, drop 2 s)
        else if b = CHR ''n'' then (CHR 0x0A, drop 2 s)
        else if b = CHR ''r'' then (CHR 0x0D, drop 2 s)
        else if b = CHR ''t'' then (CHR 0x09, drop 2 s)
        else if b = CHR ''f'' then (CHR 0x0C, drop 2 s)
        else if b = CHR ''b'' then (CHR 0x08, drop 2 s)
        else (char_of (16 * unhex (s ! 4) + unhex (s ! 5)), drop 6 s))"

lemma unjson_json_char: "unjson_char (json_char c @ x) = (c, x)"
proof -
  define n where "n = (of_char c :: nat)"
  have c: "c = char_of n" and "n < 256" by (simp_all add: n_def)
  then have h: "unhex (hex_digit (n div 16)) = n div 16" "unhex (hex_digit (n mod 16)) = n mod 16"
    by (simp_all add: unhex_hex_digit)
  consider "n \<in> {34, 92, 10, 13, 9, 12, 8}" | "32 \<le> n" "n \<le> 126" "n \<noteq> 34" "n \<noteq> 92"
    | "n < 32 \<or> 126 < n" "n \<notin> {10, 13, 9, 12, 8}" by fastforce
  then show ?thesis
  proof cases
    case 1
    have e: "c = d" if "n = of_char d" for d using that by (simp add: n_def)
    from 1 consider "c = CHR 0x22" | "c = CHR 0x5C" | "c = CHR 0x0A" | "c = CHR 0x0D"
      | "c = CHR 0x09" | "c = CHR 0x0C" | "c = CHR 0x08"
      using e [of "CHR 0x22"] e [of "CHR 0x5C"] e [of "CHR 0x0A"] e [of "CHR 0x0D"]
        e [of "CHR 0x09"] e [of "CHR 0x0C"] e [of "CHR 0x08"] by (simp del: One_nat_def) blast
    then show ?thesis by cases (simp_all add: json_char_def unjson_char_def)
  next
    case 2
    then have "c \<noteq> CHR 0x5C" by (auto simp: n_def)
    with 2 show ?thesis by (simp add: json_char_def n_def [symmetric] unjson_char_def)
  next
    case 3
    then have "json_char c = [CHR 0x5C, CHR ''u'', CHR ''0'', CHR ''0'', hex_digit (n div 16), hex_digit (n mod 16)]"
      by (auto simp: json_char_def n_def [symmetric])
    then show ?thesis by (simp add: unjson_char_def h) (simp add: c)
  qed
qed

lemma json_char_hd: "hd (json_char c @ z) \<noteq> CHR 0x22"
proof
  assume h: "hd (json_char c @ z) = CHR 0x22"
  have "fst (unjson_char (json_char c @ z)) = CHR 0x22"
    unfolding unjson_char_def h by simp
  then have "c = CHR 0x22" by (simp add: unjson_json_char)
  with h show False by (simp add: json_char_def)
qed

lemma json_char_prefix: "json_char c @ x = json_char d @ y \<Longrightarrow> c = d \<and> x = y"
proof -
  assume eq: "json_char c @ x = json_char d @ y"
  from unjson_json_char [of c x] have "(d, y) = (c, x)"
    unfolding eq unjson_json_char [of d y] .
  then show ?thesis by simp
qed

lemma json_chars_prefix:
  "concat (map json_char s) @ CHR 0x22 # x = concat (map json_char t) @ CHR 0x22 # y \<Longrightarrow> s = t \<and> x = y"
proof (induction s arbitrary: t)
  case Nil
  then show ?case
  proof (cases t)
    case (Cons d t')
    with Nil have "CHR 0x22 # x = json_char d @ concat (map json_char t') @ CHR 0x22 # y" by simp
    then show ?thesis using json_char_hd by (metis list.sel(1))
  qed simp
next
  case (Cons c s)
  then show ?case
  proof (cases t)
    case Nil
    with Cons.prems have "json_char c @ concat (map json_char s) @ CHR 0x22 # x = CHR 0x22 # y" by simp
    then show ?thesis using json_char_hd by (metis list.sel(1))
  next
    case t: (Cons d t')
    with Cons.prems have "json_char c @ concat (map json_char s) @ CHR 0x22 # x =
        json_char d @ concat (map json_char t') @ CHR 0x22 # y" by simp
    from json_char_prefix [OF this] Cons.IH [of t'] t show ?thesis by simp
  qed
qed

lemma json_string_prefix: "json_string s @ x = json_string t @ y \<Longrightarrow> s = t \<and> x = y"
proof -
  assume "json_string s @ x = json_string t @ y"
  then have "concat (map json_char s) @ CHR 0x22 # x = concat (map json_char t) @ CHR 0x22 # y"
    by (simp add: json_string_def)
  then show ?thesis by (rule json_chars_prefix)
qed

lemma json_opt_prefix: "json_opt s @ x = json_opt t @ y \<Longrightarrow> s = t \<and> x = y"
  using json_string_prefix [of "the s" x "the t" y]
  by (cases s; cases t) (simp_all add: json_opt_def, auto simp: json_string_def)

lemma json_target_prefix:
  assumes "json_target t @ x = json_target u @ y"
  shows "t = u \<and> x = y"
proof -
  from assms have "json_string (tg_cluster t) @ '','' @ json_key ''deployment_id'' @ json_opt (tg_deployment t) @
     '','' @ json_key ''image_name'' @ json_opt (tg_image t) @
     '','' @ json_key ''namespace'' @ json_string (tg_namespace t) @ ''}'' @ x =
     json_string (tg_cluster u) @ '','' @ json_key ''deployment_id'' @ json_opt (tg_deployment u) @
     '','' @ json_key ''image_name'' @ json_opt (tg_image u) @
     '','' @ json_key ''namespace'' @ json_string (tg_namespace u) @ ''}'' @ y"
    by (simp add: json_target_def)
  from json_string_prefix [OF this] have 1: "tg_cluster t = tg_cluster u" and
    "json_opt (tg_deployment t) @
     '','' @ json_key ''image_name'' @ json_opt (tg_image t) @
     '','' @ json_key ''namespace'' @ json_string (tg_namespace t) @ ''}'' @ x =
     json_opt (tg_deployment u) @
     '','' @ json_key ''image_name'' @ json_opt (tg_image u) @
     '','' @ json_key ''namespace'' @ json_string (tg_namespace u) @ ''}'' @ y"
    by simp_all
  from json_opt_prefix [OF this(2)] have 2: "tg_deployment t = tg_deployment u" and
    "json_opt (tg_image t) @ '','' @ json_key ''namespace'' @ json_string (tg_namespace t) @ ''}'' @ x =
     json_opt (tg_image u) @ '','' @ json_key ''namespace'' @ json_string (tg_namespace u) @ ''}'' @ y"
    by simp_all
  from json_opt_prefix [OF this(2)] have 3: "tg_image t = tg_image u" and
    "json_string (tg_namespace t) @ ''}'' @ x = json_string (tg_namespace u) @ ''}'' @ y"
    by simp_all
  from json_string_prefix [OF this(2)] 1 2 3 show ?thesis
    by (cases t; cases u) simp
qed

lemma json_target_not_bracket [simp]: "json_target t @ x \<noteq> CHR '']'' # y" "CHR '']'' # y \<noteq> json_target t @ x"
  by (simp_all add: json_target_def)

lemma json_targets_prefix: "json_targets ts @ x = json_targets us @ y \<Longrightarrow> ts = us \<and> x = y"
proof (induction ts arbitrary: us rule: json_targets.induct)
  case 1
  then show ?case by (cases us rule: json_targets.cases) simp_all
next
  case (2 t)
  then show ?case
    by (cases us rule: json_targets.cases) (simp_all, (drule json_target_prefix, simp)+)
next
  case (3 t v vs)
  show ?case
  proof (cases us rule: json_targets.cases)
    case 1
    with "3.prems" show ?thesis by simp
  next
    case (2 u)
    with "3.prems" have "json_target t @ '','' @ json_targets (v # vs) @ x = json_target u @ '']'' @ y" by simp
    from json_target_prefix [OF this] show ?thesis by simp
  next
    case u: (3 u w ws)
    with "3.prems" have eq: "json_target t @ '','' @ json_targets (v # vs) @ x =
        json_target u @ '','' @ json_targets (w # ws) @ y" by simp
    from json_target_prefix [OF this] have "t = u" "json_targets (v # vs) @ x = json_targets (w # ws) @ y"
      by simp_all
    with "3.IH" [OF this(2)] u show ?thesis by simp
  qed
qed

text \<open>The text that \<open>scope_key\<close> hashes determines the scope: two different scopes never have the
  same canonical JSON, so equal keys of different scopes are collisions of MD5 only.\<close>

theorem scope_canonical_inj: "inj scope_canonical"
proof (rule injI)
  fix s t assume "scope_canonical s = scope_canonical t"
  then have "json_string (scope_mode_value (rs_mode s)) @ '','' @ json_key ''targets'' @ ''['' @
      json_targets (rs_targets s) @ ''}'' =
    json_string (scope_mode_value (rs_mode t)) @ '','' @ json_key ''targets'' @ ''['' @
      json_targets (rs_targets t) @ ''}''"
    by (simp add: scope_canonical_def)
  from json_string_prefix [OF this] have "rs_mode s = rs_mode t"
    and "json_targets (rs_targets s) @ ''}'' = json_targets (rs_targets t) @ ''}''"
    by simp_all
  with json_targets_prefix [OF this(2)] show "s = t" by (cases s; cases t) simp
qed


lemma resolve_img_covered:
  assumes "traverse (resolve_img ds) ts = Inr ks"
  shows "(\<exists>k \<in> set ks. fst k = c \<and> fst (snd k) = n \<and> Some (snd (snd k)) = i) \<longleftrightarrow>
    (\<exists>t \<in> set ts. tg_cluster t = c \<and> tg_namespace t = n \<and> tg_image t = i)" (is "?l \<longleftrightarrow> ?r")
proof
  assume ?l
  then obtain j where "(c, n, j) \<in> set ks" "i = Some j" by (metis prod.collapse)
  then show ?r by (simp add: resolve_img_keys [OF assms])
next
  assume ?r
  then obtain t where t: "t \<in> set ts" "tg_cluster t = c" "tg_namespace t = n" "tg_image t = i" by blast
  from resolve_img_some [OF assms t(1)] t(4) obtain j where "i = Some j" by blast
  with t have "(c, n, j) \<in> set ks" by (auto simp: resolve_img_keys [OF assms])
  with \<open>i = Some j\<close> show ?l by force
qed

text \<open>C35: Resolving a scope against the affected deployments keeps its meaning: the stored scope covers
  exactly the deployments that the requested scope covers, keeps the mode, names only namespaces
  where the CVE is deployed, and is a valid scope.\<close>

theorem resolved_scope_covers:
  assumes "validate_and_resolve_scope b ds = Inr r"
  shows "deployment_covered_by_scope (dump_scope r) d = deployment_covered_by_scope (dump_scope b) d \<and>
    rs_mode r = rs_mode b \<and> risk_scope_ok r \<and>
    target_pair ` set (rs_targets r) \<subseteq> (\<lambda>d. (af_namespace d, af_cluster d)) ` set ds"
proof (intro conjI)
  show "rs_mode r = rs_mode b" by (rule rs_mode_resolved [OF assms])
  show "risk_scope_ok r" by (rule resolved_ok [OF assms])
  show "target_pair ` set (rs_targets r) \<subseteq> (\<lambda>d. (af_namespace d, af_cluster d)) ` set ds"
    using resolved_targets_in [OF assms] by (auto simp: image_iff)
  show "deployment_covered_by_scope (dump_scope r) d = deployment_covered_by_scope (dump_scope b) d"
  proof (cases "rs_mode b")
    case ModeAll
    with assms show ?thesis by (auto simp: covered_dump rs_mode_resolved)
  next
    case ModeNamespace
    with assms obtain ks where ks: "traverse (resolve_ns ds) (rs_targets b) = Inr ks"
      "r = \<lparr>rs_mode = ModeNamespace, rs_targets = map ns_target (sorted_set ks)\<rparr>"
      by (auto simp: validate_and_resolve_scope_def mk_scope_Inr_iff rbind_Inr_iff)
    with ModeNamespace show ?thesis
      by (auto simp: covered_dump resolve_ns_keys [OF ks(1)] ns_target_def)
  next
    case ModeImage
    with assms obtain ks where ks: "traverse (resolve_img ds) (rs_targets b) = Inr ks"
      "r = \<lparr>rs_mode = ModeImage, rs_targets = map img_target (sorted_set ks)\<rparr>"
      by (auto simp: validate_and_resolve_scope_def mk_scope_Inr_iff rbind_Inr_iff)
    have "(\<exists>k \<in> set ks. fst k = af_cluster d \<and> fst (snd k) = af_namespace d \<and> Some (snd (snd k)) = af_image d)
      \<longleftrightarrow> (\<exists>t \<in> set (rs_targets b). tg_cluster t = af_cluster d \<and> tg_namespace t = af_namespace d \<and>
            tg_image t = af_image d)"
      by (rule resolve_img_covered [OF ks(1)])
    with ks ModeImage show ?thesis by (simp add: covered_dump img_target_def)
  next
    case ModeDeployment
    with assms obtain ts where ts: "resolve_deps ds [] (rs_targets b) = Inr ts"
      "r = \<lparr>rs_mode = ModeDeployment, rs_targets = sort_key dep_key ts\<rparr>"
      by (auto simp: validate_and_resolve_scope_def mk_scope_Inr_iff rbind_Inr_iff split: if_splits)
    have *: "(\<exists>t \<in> set xs. str_of_opt (tg_deployment t) = i) = (i \<in> str_of_opt ` tg_deployment ` set xs)"
      for xs i by auto
    have "deployment_covered_by_scope (dump_scope r) d \<longleftrightarrow> af_deployment d \<in> str_of_opt ` tg_deployment ` set ts"
      unfolding * [symmetric] using ts by (simp add: covered_dump)
    also have "\<dots> \<longleftrightarrow> af_deployment d \<in> str_of_opt ` tg_deployment ` set (rs_targets b)"
      unfolding resolve_deps_ids [OF ts(1)] ..
    also have "\<dots> \<longleftrightarrow> deployment_covered_by_scope (dump_scope b) d"
      unfolding * [symmetric] using ModeDeployment by (simp add: covered_dump)
    finally show ?thesis .
  qed
qed

definition sc_dep :: affected where
  "sc_dep = \<lparr>af_deployment = ''d1'', af_name = ''api'', af_namespace = ''shop'', af_cluster = ''c1'',
     af_image = Some ''img:1'', af_image_id = ''i1'', af_first_seen = None\<rparr>"

definition sc_body :: risk_scope where
  "sc_body = \<lparr>rs_mode = ModeDeployment,
     rs_targets = [\<lparr>tg_cluster = ''x'', tg_namespace = ''y'', tg_image = None, tg_deployment = Some ''d1''\<rparr>,
       \<lparr>tg_cluster = ''x'', tg_namespace = ''y'', tg_image = None, tg_deployment = Some ''d1''\<rparr>]\<rparr>"

definition sc_resolved :: risk_scope where
  "sc_resolved = \<lparr>rs_mode = ModeDeployment, rs_targets = [dep_target sc_dep]\<rparr>"

lemma sc_resolve: "validate_and_resolve_scope sc_body [sc_dep] = Inr sc_resolved"
  by (simp add: validate_and_resolve_scope_def sc_body_def sc_resolved_def resolve_deps.simps
      sc_dep_def dict_of_def target_ok_def len_ok_def dep_target_def mk_scope_def risk_scope_ok_def)

theorem resolved_scope_covers_witness:
  "deployment_covered_by_scope (dump_scope sc_resolved) sc_dep =
     deployment_covered_by_scope (dump_scope sc_body) sc_dep"
  using resolved_scope_covers [OF sc_resolve] by blast

lemma resolved_canonical_ns:
  assumes "validate_and_resolve_scope b ds = Inr r" and mode: "rs_mode b = ModeNamespace"
  shows "validate_and_resolve_scope r ds = Inr r \<and>
    (\<forall>c q. validate_and_resolve_scope c ds = Inr q \<and> rs_mode c = rs_mode b \<and>
       set (rs_targets c) = set (rs_targets b) \<longrightarrow> q = r)"
proof -
  from mode obtain ks where ks: "traverse (resolve_ns ds) (rs_targets b) = Inr ks"
    "r = \<lparr>rs_mode = ModeNamespace, rs_targets = map ns_target (sorted_set ks)\<rparr>" "risk_scope_ok r"
    using assms(1) by (auto simp: validate_and_resolve_scope_def mk_scope_Inr_iff rbind_Inr_iff)
  have "traverse (resolve_ns ds) (map ns_target (sorted_set ks)) = Inr (map (\<lambda>t. (tg_cluster t, tg_namespace t)) (map ns_target (sorted_set ks)))"
    by (rule traverse_total)
      (use traverse_set [OF ks(1)] in \<open>auto simp: resolve_ns_Inr_iff ns_target_def\<close>)
  then have again: "traverse (resolve_ns ds) (rs_targets r) = Inr (sorted_set ks)"
    using ks(2) by (simp add: ns_target_def comp_def)
  have "sorted_set (sorted_set ks) = sorted_set ks" by (rule sorted_set_eqI) simp
  with again ks(2,3) have 1: "validate_and_resolve_scope r ds = Inr r"
    by (simp add: validate_and_resolve_scope_def mk_scope_Inr_iff rbind_Inr_iff)
  have "q = r" if q: "validate_and_resolve_scope c ds = Inr q" "rs_mode c = rs_mode b"
    "set (rs_targets c) = set (rs_targets b)" for c q
  proof -
    from q mode obtain js where js: "traverse (resolve_ns ds) (rs_targets c) = Inr js"
      "q = \<lparr>rs_mode = ModeNamespace, rs_targets = map ns_target (sorted_set js)\<rparr>"
      by (auto simp: validate_and_resolve_scope_def mk_scope_Inr_iff rbind_Inr_iff)
    have "sorted_set js = sorted_set ks"
      by (rule sorted_set_eqI) (simp add: resolve_ns_keys [OF js(1)] resolve_ns_keys [OF ks(1)] q)
    with js ks show ?thesis by simp
  qed
  with 1 show ?thesis by blast
qed

lemma resolved_canonical_img:
  assumes "validate_and_resolve_scope b ds = Inr r" and mode: "rs_mode b = ModeImage"
  shows "validate_and_resolve_scope r ds = Inr r \<and>
    (\<forall>c q. validate_and_resolve_scope c ds = Inr q \<and> rs_mode c = rs_mode b \<and>
       set (rs_targets c) = set (rs_targets b) \<longrightarrow> q = r)"
proof -
  from mode obtain ks where ks: "traverse (resolve_img ds) (rs_targets b) = Inr ks"
    "r = \<lparr>rs_mode = ModeImage, rs_targets = map img_target (sorted_set ks)\<rparr>" "risk_scope_ok r"
    using assms(1) by (auto simp: validate_and_resolve_scope_def mk_scope_Inr_iff rbind_Inr_iff)
  have "traverse (resolve_img ds) (map img_target (sorted_set ks)) =
      Inr (map (\<lambda>t. (tg_cluster t, tg_namespace t, the (tg_image t))) (map img_target (sorted_set ks)))"
    by (rule traverse_total)
      (use traverse_set [OF ks(1)] in \<open>auto simp: resolve_img_Inr_iff img_target_def\<close>)
  then have again: "traverse (resolve_img ds) (rs_targets r) = Inr (sorted_set ks)"
    using ks(2) by (simp add: img_target_def comp_def)
  have "sorted_set (sorted_set ks) = sorted_set ks" by (rule sorted_set_eqI) simp
  with again ks(2,3) have 1: "validate_and_resolve_scope r ds = Inr r"
    by (simp add: validate_and_resolve_scope_def mk_scope_Inr_iff rbind_Inr_iff)
  have "q = r" if q: "validate_and_resolve_scope c ds = Inr q" "rs_mode c = rs_mode b"
    "set (rs_targets c) = set (rs_targets b)" for c q
  proof -
    from q mode obtain js where js: "traverse (resolve_img ds) (rs_targets c) = Inr js"
      "q = \<lparr>rs_mode = ModeImage, rs_targets = map img_target (sorted_set js)\<rparr>"
      by (auto simp: validate_and_resolve_scope_def mk_scope_Inr_iff rbind_Inr_iff)
    have "(k \<in> set js) = (k \<in> set ks)" for k
      using resolve_img_keys [OF js(1)] resolve_img_keys [OF ks(1)] q(3) by (cases k) simp
    then have "sorted_set js = sorted_set ks" by (intro sorted_set_eqI) blast
    with js ks show ?thesis by simp
  qed
  with 1 show ?thesis by blast
qed

lemma resolved_canonical_dep:
  assumes "validate_and_resolve_scope b ds = Inr r" and mode: "rs_mode b = ModeDeployment"
  shows "validate_and_resolve_scope r ds = Inr r \<and>
    (\<forall>c q. validate_and_resolve_scope c ds = Inr q \<and> rs_mode c = rs_mode b \<and>
       set (rs_targets c) = set (rs_targets b) \<longrightarrow> q = r)"
proof -
  from mode obtain ts where ts: "resolve_deps ds [] (rs_targets b) = Inr ts" "ts \<noteq> []"
    "r = \<lparr>rs_mode = ModeDeployment, rs_targets = sort_key dep_key ts\<rparr>" "risk_scope_ok r"
    using assms(1) by (auto simp: validate_and_resolve_scope_def mk_scope_Inr_iff rbind_Inr_iff split: if_splits)
  have "resolve_deps ds [] (sort_key dep_key ts) = Inr (sort_key dep_key ts)"
  proof (rule resolve_deps_again)
    show "\<exists>d. x = dep_target d \<and> dict_of af_deployment ds (af_deployment d) = Some d \<and>
        target_ok x \<and> af_deployment d \<notin> set []" if "x \<in> set (sort_key dep_key ts)" for x
      using resolve_deps_targets [OF ts(1), of x] that by auto
    show "distinct (map tg_deployment (sort_key dep_key ts))"
      using resolve_deps_distinct [OF ts(1)] by (simp add: distinct_map)
  qed
  moreover have "sort_key dep_key (sort_key dep_key ts) = sort_key dep_key ts"
    by (rule sort_key_id_if_sorted) simp
  moreover have "sort_key dep_key ts \<noteq> []" using ts(2) by (metis length_0_conv length_sort)
  ultimately have 1: "validate_and_resolve_scope r ds = Inr r"
    using ts(2-4) by (simp add: validate_and_resolve_scope_def mk_scope_Inr_iff rbind_Inr_iff)
  have "q = r" if q: "validate_and_resolve_scope c ds = Inr q" "rs_mode c = rs_mode b"
    "set (rs_targets c) = set (rs_targets b)" for c q
  proof -
    from q mode obtain us where us: "resolve_deps ds [] (rs_targets c) = Inr us"
      "q = \<lparr>rs_mode = ModeDeployment, rs_targets = sort_key dep_key us\<rparr>"
      by (auto simp: validate_and_resolve_scope_def mk_scope_Inr_iff rbind_Inr_iff split: if_splits)
    have "sort_key dep_key us = sort_key dep_key ts"
    proof (rule sort_key_unique)
      show "set us = set ts" by (simp add: resolve_deps_set [OF us(1)] resolve_deps_set [OF ts(1)] q)
      show "distinct us" "distinct ts"
        using resolve_deps_distinct [OF us(1)] resolve_deps_distinct [OF ts(1)] by (simp_all add: distinct_map)
      show "inj_on dep_key (set us)" by (rule inj_dep_key [OF us(1)])
    qed
    with us ts show ?thesis by simp
  qed
  with 1 show ?thesis by blast
qed

text \<open>A resolved scope is canonical. Resolving it again leaves it alone, and two requests of the same
  mode with the same set of targets, in any order and with repetitions, resolve to the same scope, so
  they get the same scope key and the duplicate check sees them as one.\<close>

theorem resolved_scope_canonical:
  assumes "validate_and_resolve_scope b ds = Inr r"
  shows "validate_and_resolve_scope r ds = Inr r \<and>
    (\<forall>c q. validate_and_resolve_scope c ds = Inr q \<and> rs_mode c = rs_mode b \<and>
       set (rs_targets c) = set (rs_targets b) \<longrightarrow> q = r)"
proof (cases "rs_mode b")
  case ModeAll
  with assms show ?thesis by (auto simp: validate_and_resolve_scope_def mk_scope_Inr_iff)
next
  case ModeNamespace
  with assms show ?thesis by (rule resolved_canonical_ns)
next
  case ModeImage
  with assms show ?thesis by (rule resolved_canonical_img)
next
  case ModeDeployment
  with assms show ?thesis by (rule resolved_canonical_dep)
qed

theorem resolved_scope_canonical_witness: "validate_and_resolve_scope sc_resolved [sc_dep] = Inr sc_resolved"
  using resolved_scope_canonical [OF sc_resolve] by blast

end
