(* ===== verification/Suppression.thy ===== *)
theory Suppression
  imports Glob Scopes
begin

text \<open>
  Which approved suppression rules hide which CVE: the first half of
  \<open>app/services/cve_filter_service.py\<close>. \<open>compute_suppressed_cves\<close> answers for a user's whole view,
  \<open>is_location_suppressed\<close> for one (namespace, cluster) pair; the lemmas relate the two. In the maps
  of locations the pairs are (cluster, namespace), as in the code.
\<close>

section \<open>Rules\<close>

text \<open>\<open>rule.scope or {"mode": "all", "targets": []}\<close>: an empty object means everywhere.\<close>

definition rule_mode :: "supp_rule \<Rightarrow> string option" where
  "rule_mode r =
     (if ss_mode (sr_scope r) = None \<and> ss_targets (sr_scope r) = None then Some ''all''
      else ss_mode (sr_scope r))"

definition rule_targets :: "supp_rule \<Rightarrow> scope_target list" where
  "rule_targets r = (case ss_targets (sr_scope r) of None \<Rightarrow> [] | Some ts \<Rightarrow> ts)"

definition matches_component_rule :: "supp_rule \<Rightarrow> (string \<times> string) list \<Rightarrow> bool" where
  "matches_component_rule r comps =
     list_ex (\<lambda>(n, v). Some n = sr_component r \<and>
        (case sr_version_pattern r of None \<Rightarrow> True | Some p \<Rightarrow> fnmatch v p)) comps"

definition covered_pairs :: "supp_rule list \<Rightarrow> (string \<times> string) set" where
  "covered_pairs rs =
     set [(tg_cluster t, tg_namespace t). r \<leftarrow> rs, rule_mode r = Some ''namespace'', t \<leftarrow> rule_targets r]"

definition is_cve_suppressed_by_rules ::
    "string \<Rightarrow> supp_rule list \<Rightarrow> (string \<Rightarrow> (string \<times> string) set) \<Rightarrow> (string \<times> string) set option \<Rightarrow> bool" where
  "is_cve_suppressed_by_rules cve rs locs user_ns =
     (let matching = filter (\<lambda>r. sr_cve r = Some cve) rs in
      if matching = [] then False
      else if list_ex (\<lambda>r. rule_mode r = Some ''all'') matching then True
      else if locs cve = {} then False
      else let visible = (case user_ns of None \<Rightarrow> locs cve | Some u \<Rightarrow> locs cve \<inter> u) in
        if visible = {} then False else visible \<subseteq> covered_pairs matching)"

definition cve_rule_hides :: "string \<Rightarrow> string \<Rightarrow> string \<Rightarrow> supp_rule \<Rightarrow> bool" where
  "cve_rule_hides cve ns cl r \<longleftrightarrow>
     sr_cve r = Some cve \<and>
     (rule_mode r = Some ''all'' \<or>
      list_ex (\<lambda>t. tg_namespace t = ns \<and> tg_cluster t = cl) (rule_targets r))"

definition is_location_suppressed ::
    "string \<Rightarrow> string \<Rightarrow> string \<Rightarrow> (string \<times> string) list \<Rightarrow> supp_rule list \<Rightarrow> supp_rule list \<Rightarrow> bool" where
  "is_location_suppressed cve ns cl comps cve_rules comp_rules =
     (list_ex (cve_rule_hides cve ns cl) cve_rules \<or>
      list_ex (\<lambda>r. matches_component_rule r comps) comp_rules)"

text \<open>\<open>locs = None\<close> is a caller without a map of locations.\<close>

definition compute_suppressed_cves ::
    "supp_rule list \<Rightarrow> supp_rule list \<Rightarrow> (string \<Rightarrow> (string \<times> string) list) \<Rightarrow> string list \<Rightarrow>
     (string \<Rightarrow> (string \<times> string) set) option \<Rightarrow> (string \<times> string) set option \<Rightarrow> string list" where
  "compute_suppressed_cves cve_rules comp_rules comps all_ids locs user_ns =
     (let candidates = filter (\<lambda>c. c \<in> set (somes (map sr_cve cve_rules))) all_ids;
          direct = (case locs of None \<Rightarrow> candidates
            | Some m \<Rightarrow> filter (\<lambda>c. is_cve_suppressed_by_rules c cve_rules m user_ns) candidates)
      in direct @ filter (\<lambda>c. c \<notin> set direct \<and>
            list_ex (\<lambda>r. matches_component_rule r (comps c)) comp_rules) all_ids)"

definition rule_matched_count ::
    "string list \<Rightarrow> (string \<Rightarrow> (string \<times> string) list) \<Rightarrow> supp_rule \<Rightarrow> nat" where
  "rule_matched_count all_ids comps r =
     (case sr_type r of
        SuppCve \<Rightarrow> if sr_cve r \<in> Some ` set all_ids then 1 else 0
      | SuppComponent \<Rightarrow> length (filter (\<lambda>c. matches_component_rule r (comps c)) (remdups all_ids)))"

definition compute_per_rule_matched_counts ::
    "supp_rule list \<Rightarrow> string list \<Rightarrow> (string \<Rightarrow> (string \<times> string) list) \<Rightarrow> nat \<rightharpoonup> nat" where
  "compute_per_rule_matched_counts rs all_ids comps =
     map_of (rev (map (\<lambda>r. (sr_id r, rule_matched_count all_ids comps r)) rs))"

definition load_suppression_sets ::
    "app_db \<Rightarrow> supp_rule list \<times> supp_rule list \<times> supp_rule list \<times> supp_rule list" where
  "load_suppression_sets db =
     (let rs = filter (\<lambda>r. sr_status r \<in> {SuppApproved, SuppRequested}) (rules db);
          pick = (\<lambda>t s. filter (\<lambda>r. sr_type r = t \<and> sr_status r = s) rs) in
      (pick SuppCve SuppApproved, pick SuppComponent SuppApproved,
       pick SuppCve SuppRequested, pick SuppComponent SuppRequested))"

definition load_approved_suppression_rules :: "app_db \<Rightarrow> supp_rule list \<times> supp_rule list" where
  "load_approved_suppression_rules db =
     (let (c, k, _, _) = load_suppression_sets db in (c, k))"

text \<open>(suppressed, suppression requested) for a user's view of the CVEs \<open>ids\<close>.\<close>

definition compute_suppression_sets ::
    "app_db \<Rightarrow> stackrox \<Rightarrow> current_user \<Rightarrow> string list \<Rightarrow> pair list option \<Rightarrow> string list \<times> string list" where
  "compute_suppression_sets db sx u ids ns_for =
     (let (acve, acomp, rcve, rcomp) = load_suppression_sets db;
          has_comp = (acomp \<noteq> [] \<or> rcomp \<noteq> []);
          has_scoped = list_ex (\<lambda>r. ss_mode (sr_scope r) = Some ''namespace'') (acve @ rcve);
          map_ns = (if (has_comp \<or> has_scoped) \<and> ns_for = None \<and> can_see_all_namespaces u
                    then Some (list_namespaces sx) else ns_for);
          comps = (if has_comp \<and> ids \<noteq> [] \<and> (map_ns \<noteq> None \<and> map_ns \<noteq> Some [])
                   then get_cve_component_version_map sx ids (the map_ns) else (\<lambda>_. []));
          locs = (if has_scoped \<and> ids \<noteq> []
                  then Some (get_cve_namespace_cluster_map sx (dedupe (somes (map sr_cve (acve @ rcve)))) map_ns)
                  else None);
          user_ns = (if \<not> can_see_all_namespaces u \<and> has_namespaces u
                     then Some ((\<lambda>(ns, cl). (cl, ns)) ` set (case ns_for of None \<Rightarrow> [] | Some ps \<Rightarrow> ps))
                     else None)
      in (compute_suppressed_cves acve acomp comps ids locs user_ns,
          compute_suppressed_cves rcve rcomp comps ids locs user_ns))"

section \<open>Lemmas\<close>

lemma matches_component_mono:
  "matches_component_rule r cs \<Longrightarrow> set cs \<subseteq> set ds \<Longrightarrow> matches_component_rule r ds"
  by (auto simp: matches_component_rule_def list_ex_iff)

lemma in_covered_pairs:
  "(cl, ns) \<in> covered_pairs rs \<longleftrightarrow>
     (\<exists>r \<in> set rs. rule_mode r = Some ''namespace'' \<and>
        (\<exists>t \<in> set (rule_targets r). tg_cluster t = cl \<and> tg_namespace t = ns))"
  by (auto simp: covered_pairs_def)

lemma in_compute_suppressed:
  "c \<in> set (compute_suppressed_cves cve_rules comp_rules comps ids locs user_ns) \<longleftrightarrow>
     c \<in> set ids \<and>
     ((\<exists>r \<in> set cve_rules. sr_cve r = Some c) \<and>
        (case locs of None \<Rightarrow> True | Some m \<Rightarrow> is_cve_suppressed_by_rules c cve_rules m user_ns) \<or>
      (\<exists>r \<in> set comp_rules. matches_component_rule r (comps c)))"
proof -
  have "c \<in> set (somes (map sr_cve cve_rules)) \<longleftrightarrow> (\<exists>r \<in> set cve_rules. sr_cve r = Some c)"
    by force
  then show ?thesis
    by (cases locs) (auto simp: compute_suppressed_cves_def Let_def list_ex_iff)
qed

lemma is_cve_suppressed_iff:
  "is_cve_suppressed_by_rules c rs locs user_ns \<longleftrightarrow>
     (\<exists>r \<in> set rs. sr_cve r = Some c \<and> rule_mode r = Some ''all'') \<or>
     (let vis = (case user_ns of None \<Rightarrow> locs c | Some u \<Rightarrow> locs c \<inter> u) in
      vis \<noteq> {} \<and> vis \<subseteq> covered_pairs (filter (\<lambda>r. sr_cve r = Some c) rs))"
proof (cases "filter (\<lambda>r. sr_cve r = Some c) rs = []")
  case True
  then have "\<not> (\<exists>r \<in> set rs. sr_cve r = Some c)" by (simp add: filter_empty_conv)
  with True show ?thesis
    by (auto simp: is_cve_suppressed_by_rules_def Let_def covered_pairs_def)
next
  case False
  then show ?thesis
    by (auto simp: is_cve_suppressed_by_rules_def Let_def list_ex_iff split: option.splits)
qed

text \<open>The locations of a CVE that a user sees.\<close>

definition visible_locs ::
    "(string \<Rightarrow> (string \<times> string) set) \<Rightarrow> (string \<times> string) set option \<Rightarrow> string \<Rightarrow> (string \<times> string) set" where
  "visible_locs locs user_ns c = (case user_ns of None \<Rightarrow> locs c | Some u \<Rightarrow> locs c \<inter> u)"

lemma location_suppressed_iff:
  "is_location_suppressed c ns cl comps cve_rules comp_rules \<longleftrightarrow>
     (\<exists>r \<in> set cve_rules. sr_cve r = Some c \<and> (rule_mode r = Some ''all'' \<or>
         (\<exists>t \<in> set (rule_targets r). tg_cluster t = cl \<and> tg_namespace t = ns))) \<or>
     (\<exists>r \<in> set comp_rules. matches_component_rule r comps)"
  by (auto simp: is_location_suppressed_def cve_rule_hides_def list_ex_iff)

text \<open>C34: The two suppression predicates agree where they can. If a user's visible locations of a CVE,
  at least one, are each suppressed, the CVE is hidden from the user's list; if it is hidden and no
  component rule matches it, then each of those locations is suppressed. The rules' scopes are global or
  lists of namespaces, and the components of a location are among those of the view.\<close>

theorem view_and_location_suppression:
  assumes "c \<in> set ids"
    and modes: "\<And>r. r \<in> set cve_rules \<Longrightarrow> rule_mode r = Some ''all'' \<or> rule_mode r = Some ''namespace''"
    and comps: "\<And>cl ns. (cl, ns) \<in> visible_locs locs user_ns c \<Longrightarrow> set (comps_at cl ns) \<subseteq> set (comps c)"
    and seen: "visible_locs locs user_ns c \<noteq> {}"
  shows "((\<forall>(cl, ns) \<in> visible_locs locs user_ns c.
            is_location_suppressed c ns cl (comps_at cl ns) cve_rules comp_rules) \<longrightarrow>
          c \<in> set (compute_suppressed_cves cve_rules comp_rules comps ids (Some locs) user_ns)) \<and>
         (c \<in> set (compute_suppressed_cves cve_rules comp_rules comps ids (Some locs) user_ns) \<and>
          (\<forall>r \<in> set comp_rules. \<not> matches_component_rule r (comps c)) \<longrightarrow>
          (\<forall>(cl, ns) \<in> visible_locs locs user_ns c.
            is_location_suppressed c ns cl (comps_at cl ns) cve_rules comp_rules))"
proof (intro conjI impI)
  let ?V = "visible_locs locs user_ns c"
  let ?rs = "filter (\<lambda>r. sr_cve r = Some c) cve_rules"
  have sup: "is_cve_suppressed_by_rules c cve_rules locs user_ns \<longleftrightarrow>
      (\<exists>r \<in> set cve_rules. sr_cve r = Some c \<and> rule_mode r = Some ''all'') \<or> ?V \<subseteq> covered_pairs ?rs"
    using seen by (simp add: is_cve_suppressed_iff visible_locs_def)
  { assume all: "\<forall>(cl, ns) \<in> ?V. is_location_suppressed c ns cl (comps_at cl ns) cve_rules comp_rules"
    show "c \<in> set (compute_suppressed_cves cve_rules comp_rules comps ids (Some locs) user_ns)"
    proof (cases "(\<exists>r \<in> set comp_rules. matches_component_rule r (comps c)) \<or>
        (\<exists>r \<in> set cve_rules. sr_cve r = Some c \<and> rule_mode r = Some ''all'')")
      case True
      with \<open>c \<in> set ids\<close> sup show ?thesis by (auto simp: in_compute_suppressed)
    next
      case False
      have cov: "p \<in> covered_pairs ?rs" if "p \<in> ?V" for p
      proof -
        obtain cl ns where p: "p = (cl, ns)" by (cases p)
        with all that have "is_location_suppressed c ns cl (comps_at cl ns) cve_rules comp_rules" by auto
        moreover have "\<not> (\<exists>r \<in> set comp_rules. matches_component_rule r (comps_at cl ns))"
          using False comps that matches_component_mono unfolding p by blast
        ultimately obtain r t where "r \<in> set cve_rules" "sr_cve r = Some c" "t \<in> set (rule_targets r)"
          "tg_cluster t = cl" "tg_namespace t = ns" "rule_mode r \<noteq> Some ''all''"
          using False by (auto simp: location_suppressed_iff)
        with modes [of r] show ?thesis unfolding p in_covered_pairs by auto
      qed
      with seen obtain p where "p \<in> covered_pairs ?rs" by blast
      then have "\<exists>r \<in> set cve_rules. sr_cve r = Some c" by (cases p) (auto simp: in_covered_pairs)
      with cov sup \<open>c \<in> set ids\<close> show ?thesis by (auto simp: in_compute_suppressed)
    qed }
  { assume "c \<in> set (compute_suppressed_cves cve_rules comp_rules comps ids (Some locs) user_ns) \<and>
      (\<forall>r \<in> set comp_rules. \<not> matches_component_rule r (comps c))"
    then have "is_cve_suppressed_by_rules c cve_rules locs user_ns" by (auto simp: in_compute_suppressed)
    then show "\<forall>(cl, ns) \<in> ?V. is_location_suppressed c ns cl (comps_at cl ns) cve_rules comp_rules"
      using sup by (fastforce simp: location_suppressed_iff in_covered_pairs) }
qed

text \<open>A rule for the examples.\<close>

definition ex_cve_rule :: supp_rule where
  "ex_cve_rule = \<lparr>sr_id = 1, sr_status = SuppApproved, sr_type = SuppCve, sr_component = None,
     sr_version_pattern = None, sr_cve = Some ''CVE-2024-1'', sr_reason = ''not reachable'', sr_url = None,
     sr_scope = \<lparr>ss_mode = Some ''namespace'', ss_targets = Some [ns_target (''c1'', ''shop'')]\<rparr>,
     sr_scope_key = ''k'', sr_review_comment = None, sr_created_at = 0, sr_created_by = ''u'',
     sr_reviewed_by = None, sr_reviewed_at = None\<rparr>"

definition ex_comp_rule :: supp_rule where
  "ex_comp_rule = ex_cve_rule\<lparr>sr_id := 2, sr_type := SuppComponent, sr_component := Some ''openssl'',
     sr_version_pattern := Some ''1.0*'', sr_cve := None,
     sr_scope := \<lparr>ss_mode = Some ''all'', ss_targets = Some []\<rparr>\<rparr>"

theorem view_and_location_suppression_witness:
  "''CVE-2024-1'' \<in> set (compute_suppressed_cves [ex_cve_rule] [] (\<lambda>_. []) [''CVE-2024-1'']
     (Some (\<lambda>_. {(''c1'', ''shop'')})) None)"
proof -
  let ?locs = "\<lambda>_ :: string. {(''c1'', ''shop'')}"
  have "(\<forall>(cl, ns) \<in> visible_locs ?locs None ''CVE-2024-1''.
      is_location_suppressed ''CVE-2024-1'' ns cl [] [ex_cve_rule] []) \<longrightarrow>
    ''CVE-2024-1'' \<in> set (compute_suppressed_cves [ex_cve_rule] [] (\<lambda>_. []) [''CVE-2024-1''] (Some ?locs) None)"
    by (rule view_and_location_suppression [where c = "''CVE-2024-1''" and ids = "[''CVE-2024-1'']"
        and cve_rules = "[ex_cve_rule]" and locs = ?locs and user_ns = None and comps = "\<lambda>_. []"
        and comps_at = "\<lambda>_ _. []" and comp_rules = "[]", THEN conjunct1])
      (simp_all add: ex_cve_rule_def rule_mode_def visible_locs_def)
  then show ?thesis
    by (simp add: visible_locs_def location_suppressed_iff ex_cve_rule_def rule_mode_def rule_targets_def ns_target_def)
qed

text \<open>The list and the alerts can disagree: a component rule for one version of a component hides a CVE
  from the whole list although the user's other location, which runs another version, is not
  suppressed and is alerted about.\<close>

theorem component_rule_hides_unsuppressed_location:
  "let comps_at = (\<lambda>ns. if ns = ''shop'' then [(''openssl'', ''1.0.2'')] else [(''openssl'', ''3.0.1'')]);
       comps = (\<lambda>_. comps_at ''shop'' @ comps_at ''pay'');
       locs = (\<lambda>_. {(''c1'', ''shop''), (''c1'', ''pay'')})
   in ''CVE-2024-1'' \<in> set (compute_suppressed_cves [] [ex_comp_rule] comps [''CVE-2024-1''] (Some locs) None) \<and>
      \<not> is_location_suppressed ''CVE-2024-1'' ''pay'' ''c1'' (comps_at ''pay'') [] [ex_comp_rule]"
proof -
  have "fnmatch ''1.0.2'' ''1.0*''" "\<not> fnmatch ''3.0.1'' ''1.0*''"
    using fnmatch_prefix_star [of "''1.0''" "''1.0.2''"] fnmatch_prefix_star [of "''1.0''" "''3.0.1''"]
    by (simp_all add: plain_pattern_def)
  then show ?thesis
    by (simp add: in_compute_suppressed matches_component_rule_def ex_comp_rule_def ex_cve_rule_def
        is_location_suppressed_def)
qed

end
