(* ===== verification/Examples.thy ===== *)
theory Examples
  imports StackRox
begin

text \<open>
  A small world for the witnesses: one cluster with the namespaces \<open>shop\<close> and \<open>pay\<close>, one deployment in
  each, one image with one CVE in \<open>shop\<close>, a member of the team of \<open>shop\<close> and a member of the security
  team.
\<close>

definition ex_P :: pep440 where
  "ex_P = \<lparr>pep_valid = (\<lambda>_. False), pep_less = (\<lambda>_ _. False)\<rparr>"

definition ex_shop :: deployment where
  "ex_shop = \<lparr>dp_id = ''d1'', dp_name = ''api'', dp_namespace = ''shop'', dp_cluster = ''c1''\<rparr>"

definition ex_pay :: deployment where
  "ex_pay = \<lparr>dp_id = ''d2'', dp_name = ''worker'', dp_namespace = ''pay'', dp_cluster = ''c1''\<rparr>"

definition ex_ct :: container where
  "ex_ct = \<lparr>ct_deployment = ''d1'', ct_image_id = ''i1'', ct_image_idv2 = None,
     ct_image_name = Some ''img:1''\<rparr>"

definition ex_ic :: image_cve where
  "ex_ic = \<lparr>ic_imageid = Some ''i1'', ic_imageidv2 = None, ic_cve = ''CVE-2024-1'', ic_severity = 4,
     ic_cvss = Some 9, ic_epss = Some (1/2), ic_first_seen = Some 0, ic_published = None,
     ic_fix_since = None, ic_fixable = Some False, ic_fixedby = None, ic_component = Some ''k1'',
     ic_origin = Some 1\<rparr>"

definition ex_comp :: component where
  "ex_comp = \<lparr>cp_id = ''k1'', cp_name = Some ''openssl'', cp_version = Some ''1.0.2'', cp_os = None\<rparr>"

definition ex_sx :: stackrox where
  "ex_sx = \<lparr>sx_deployments = [ex_shop, ex_pay], sx_containers = [ex_ct], sx_image_cves = [ex_ic],
     sx_images_v2 = [], sx_components = [ex_comp], sx_scores = []\<rparr>"

definition ex_settings :: global_settings where
  "ex_settings = \<lparr>gs_id = 0, gs_min_cvss = 7, gs_min_epss = 0, gs_rules = [], gs_warning_days = 3,
     gs_fix_overdue_days = 30, gs_digest_day = 0, gs_management_email = [], gs_updated_by = None,
     gs_updated_at = 0\<rparr>"

definition ex_db :: app_db where
  "ex_db = empty_db\<lparr>gsettings := Some ex_settings\<rparr>"

definition ex_member :: current_user where
  "ex_member = \<lparr>cu_id = ''u1'', cu_username = ''ann'', cu_full_name = None, cu_email = ''ann@x'',
     cu_role = TeamMember, cu_namespaces = [(''shop'', ''c1'')], cu_has_all = False\<rparr>"

definition ex_sec :: current_user where
  "ex_sec = \<lparr>cu_id = ''s1'', cu_username = ''sam'', cu_full_name = None, cu_email = ''sam@x'',
     cu_role = SecTeam, cu_namespaces = [], cu_has_all = True\<rparr>"

lemmas ex_world = ex_P_def ex_shop_def ex_pay_def ex_ct_def ex_ic_def ex_comp_def ex_sx_def
  ex_settings_def ex_db_def ex_member_def ex_sec_def

definition ex_row :: vrow where
  "ex_row = \<lparr>vr_dep = ex_shop, vr_ct = ex_ct, vr_ic = ex_ic, vr_comp = Some ex_comp\<rparr>"

lemma joined_ex: "joined ex_sx = [ex_row]"
  by (simp add: joined_def cve_rows_def cve_rows_raw_def with_scores_def effective_score_def comps_of_def
      ex_row_def ex_world)

lemma list_namespaces_ex: "list_namespaces ex_sx = [(''pay'', ''c1''), (''shop'', ''c1'')]"
  by (simp add: list_namespaces_def ex_world insort_key_def)

lemma ex_row_simps [simp]:
  "vr_cve ex_row = ''CVE-2024-1''" "vr_pair ex_row = (''shop'', ''c1'')"
  "vr_comp_name ex_row = Some ''openssl''" "vr_comp_version ex_row = ''1.0.2''"
  "dp_id (vr_dep ex_row) = ''d1''" "dp_cluster (vr_dep ex_row) = ''c1''"
  "dp_namespace (vr_dep ex_row) = ''shop''"
  by (simp_all add: vr_cve_def vr_pair_def vr_comp_name_def vr_comp_version_def ex_row_def ex_world)

lemma ex_user_simps [simp]:
  "\<not> can_see_all_namespaces ex_member" "has_namespaces ex_member" "\<not> is_sec_team ex_member"
  "cu_namespaces ex_member = [(''shop'', ''c1'')]" "can_see_all_namespaces ex_sec" "is_sec_team ex_sec"
  by (simp_all add: can_see_all_namespaces_def has_namespaces_def is_sec_team_def ex_member_def ex_sec_def)

lemma ex_db_simps [simp]:
  "users ex_db = []" "ras ex_db = []" "rems ex_db = []" "rules ex_db = []" "prios ex_db = []"
  "escs ex_db = []" "subs ex_db = []" "gsettings ex_db = Some ex_settings"
  by (simp_all add: ex_db_def)

end
