(* ===== verification/CveView.thy ===== *)
theory CveView
  imports Suppression Examples
begin

text \<open>
  The list of CVEs that a user sees: the second half of \<open>app/services/cve_filter_service.py\<close>, with
  \<open>app/stackrox/vuln_origin.py\<close>. \<open>fetch_filtered_cves\<close> is a chain of filters over the query of
  \<open>StackRox\<close>; each filter of the code is a definition. The lemmas show that an item is deployed in a
  namespace the user may see, that it passes the thresholds or has a priority or a risk acceptance, and
  how the list is ordered. Not kept: the impact score and the operating system of an item.
\<close>

section \<open>Vulnerability feeds\<close>

definition origin_table :: "(int \<times> string) list" where
  "origin_table = [(0, ''other''), (1, ''osv''), (2, ''alpine''), (3, ''amazon''), (4, ''debian''),
     (5, ''oracle''), (6, ''photon''), (7, ''red_hat''), (8, ''suse''), (9, ''ubuntu'')]"

definition origin_name :: "int option \<Rightarrow> string option" where
  "origin_name code =
     (case code of None \<Rightarrow> None
      | Some c \<Rightarrow> (case map_of origin_table c of None \<Rightarrow> Some ''other'' | Some n \<Rightarrow> Some n))"

definition origin_names :: "int option list \<Rightarrow> string list" where
  "origin_names codes = sorted_set (somes (map origin_name codes))"

text \<open>\<open>origin_filter_sql\<close>: the predicate on one row.\<close>

definition origin_filter :: "string \<Rightarrow> int option \<Rightarrow> bool result" where
  "origin_filter origin code =
     (if origin = ''other''
      then Inr (case code of None \<Rightarrow> False
        | Some c \<Rightarrow> c \<notin> set (map fst (filter (\<lambda>(c, n). n \<noteq> ''other'') origin_table)))
      else case map_of (map (\<lambda>(c, n). (n, c)) origin_table) origin of
             None \<Rightarrow> Inl (ServerError ''KeyError'')
           | Some k \<Rightarrow> Inr (code = Some k))"

section \<open>Thresholds\<close>

definition resolve_view_thresholds ::
    "current_user \<Rightarrow> global_settings option \<Rightarrow> bool \<Rightarrow> num \<times> num" where
  "resolve_view_thresholds u settings ignore =
     (if is_sec_team u then (0, 0)
      else if ignore then (0, 0)
      else case settings of None \<Rightarrow> (0, 0) | Some s \<Rightarrow> (gs_min_cvss s, gs_min_epss s))"

section \<open>Remediation status of a CVE\<close>

datatype cve_rem = Unremediated | InProgress | Remediated

fun cve_rem_value :: "cve_rem \<Rightarrow> string" where
  "cve_rem_value Unremediated = ''unremediated''"
| "cve_rem_value InProgress = ''in_progress''"
| "cve_rem_value Remediated = ''remediated''"

definition terminal_status :: "rem_status \<Rightarrow> bool" where
  "terminal_status s \<longleftrightarrow> s \<in> {RemResolved, RemVerified, RemWontFix}"

text \<open>\<open>rem_lookup\<close>: a later row of a pair overwrites an earlier one; pairs are (cluster, namespace).\<close>

definition rem_lookup :: "remediation list \<Rightarrow> (string \<times> string) set \<Rightarrow> (string \<times> string) \<rightharpoonup> rem_status" where
  "rem_lookup rs pairs =
     map_option rem_status \<circ>
       dict_of (\<lambda>r. (rem_cluster r, rem_namespace r))
         (filter (\<lambda>r. (rem_cluster r, rem_namespace r) \<in> pairs) rs)"

definition classify_cve :: "remediation list \<Rightarrow> (string \<times> string) set \<Rightarrow> cve_rem" where
  "classify_cve rs pairs =
     (let hit = filter (\<lambda>r. (rem_cluster r, rem_namespace r) \<in> pairs) rs;
          keys = map (\<lambda>r. (rem_cluster r, rem_namespace r)) hit in
      if rs = [] \<or> pairs = {} then Unremediated
      else if hit = [] then Unremediated
      else if list_ex (\<lambda>k. \<not> terminal_status (the (rem_lookup rs pairs k))) keys then InProgress
      else if pairs \<subseteq> set keys then Remediated
      else Unremediated)"

definition compute_remediation_status ::
    "app_db \<Rightarrow> stackrox \<Rightarrow> string list \<Rightarrow> pair list option \<Rightarrow> string \<rightharpoonup> cve_rem" where
  "compute_remediation_status db sx ids nss =
     (\<lambda>c. if c \<notin> set ids then None
          else Some (classify_cve (filter (\<lambda>r. rem_cve r = c) (rems db))
                 (get_cve_namespace_cluster_map sx ids (if nss = Some [] then None else nss) c)))"

section \<open>Items\<close>

record cve_item =
  ci_cve :: string
  ci_severity :: int
  ci_cvss :: num
  ci_epss :: num
  ci_fixable :: bool
  ci_fixed_by :: "string option"
  ci_images :: nat
  ci_deployments :: nat
  ci_first_seen :: "datetime option"
  ci_published :: "datetime option"
  ci_fix_since :: "datetime option"
  ci_origins :: "string list"
  ci_components :: "string list"
  ci_priority :: "cve_priority option"
  ci_ra :: "risk_acceptance option"
  ci_suppressed :: bool
  ci_requested :: bool
  ci_subscribed :: bool
  ci_rem :: cve_rem

definition build_cve_item ::
    "(string \<rightharpoonup> cve_priority) \<Rightarrow> (string \<rightharpoonup> risk_acceptance) \<Rightarrow> (string \<Rightarrow> string list) \<Rightarrow>
     string list \<Rightarrow> string list \<Rightarrow> cve_data \<Rightarrow> cve_item" where
  "build_cve_item prio acc comps supp req c =
     \<lparr>ci_cve = cd_cve c, ci_severity = cd_severity c, ci_cvss = cd_cvss c, ci_epss = cd_epss c,
      ci_fixable = cd_fixable c, ci_fixed_by = cd_fixed_by c, ci_images = cd_images c,
      ci_deployments = cd_deployments c, ci_first_seen = cd_first_seen c,
      ci_published = cd_published c, ci_fix_since = cd_fix_since c,
      ci_origins = origin_names (map Some (cd_origins c)),
      ci_components = sorted_set (comps (cd_cve c)),
      ci_priority = prio (cd_cve c), ci_ra = acc (cd_cve c),
      ci_suppressed = (cd_cve c \<in> set supp), ci_requested = (cd_cve c \<in> set req),
      ci_subscribed = False, ci_rem = Unremediated\<rparr>"

section \<open>The request\<close>

record cve_query =
  cq_search :: "string option"
  cq_severity :: "int option"
  cq_fixable :: "bool option"
  cq_prioritized_only :: bool
  cq_sort_by :: string
  cq_sort_desc :: bool
  cq_cvss_min :: "num option"
  cq_epss_min :: "num option"
  cq_component :: "string option"
  cq_risk_status :: "string option"
  cq_cluster :: "string option"
  cq_namespace :: "string option"
  cq_age_min :: "int option"
  cq_age_max :: "int option"
  cq_deployment :: "string option"
  cq_show_suppressed :: bool
  cq_remediation_status :: "string option"
  cq_show_remediated :: bool
  cq_fix_overdue :: bool
  cq_deployment_id :: "string option"
  cq_restrict :: "pair list option"
  cq_ignore_thresholds :: bool
  cq_origin :: "string option"
  cq_subscribed_only :: bool

definition priorities_of :: "app_db \<Rightarrow> string \<rightharpoonup> cve_priority" where
  "priorities_of db = dict_of pr_cve (prios db)"

definition acceptances_of :: "app_db \<Rightarrow> string \<rightharpoonup> risk_acceptance" where
  "acceptances_of db =
     dict_of ra_cve (filter (\<lambda>r. ra_status r \<in> {RiskRequested, RiskApproved}) (ras db))"

definition always_show :: "app_db \<Rightarrow> string set" where
  "always_show db =
     pr_cve ` set (prios db) \<union>
     ra_cve ` set (filter (\<lambda>r. ra_status r \<in> {RiskRequested, RiskApproved}) (ras db))"

text \<open>The namespaces of the request and the CVEs in them; \<open>None\<close> is the early return of \<open>[]\<close>.\<close>

definition view_cves ::
    "pep440 \<Rightarrow> current_user \<Rightarrow> app_db \<Rightarrow> stackrox \<Rightarrow> cve_query \<Rightarrow> (pair list \<times> cve_data list) option" where
  "view_cves P u db sx q =
     (let (mc, me) = resolve_view_thresholds u (gsettings db) (cq_ignore_thresholds q);
          w = always_show db in
      case cq_restrict q of
        Some rn \<Rightarrow>
          (if \<not> can_see_all_namespaces u \<and> \<not> has_namespaces u then None
           else let allowed = (if can_see_all_namespaces u then rn
                               else filter (\<lambda>p. p \<in> set (cu_namespaces u)) rn);
                    nss = narrow_namespaces allowed (cq_cluster q) (cq_namespace q)
                in if nss = [] then None else Some (nss, get_cves_for_namespaces P sx nss mc me w))
      | None \<Rightarrow>
          (if can_see_all_namespaces u
           then if cq_cluster q \<noteq> None \<or> cq_namespace q \<noteq> None
                then let nss = narrow_namespaces (list_namespaces sx) (cq_cluster q) (cq_namespace q)
                     in Some (nss, get_cves_for_namespaces P sx nss mc me w)
                else Some (list_namespaces sx, get_all_cves P sx mc me w)
           else if \<not> has_namespaces u then None
           else let nss = narrow_namespaces (cu_namespaces u) (cq_cluster q) (cq_namespace q)
                in Some (nss, get_cves_for_namespaces P sx nss mc me w)))"

definition subscribed_cve_ids :: "app_db \<Rightarrow> string \<Rightarrow> string list" where
  "subscribed_cve_ids db uid = map su_cve (filter (\<lambda>s. su_user s = uid) (subs db))"

text \<open>The filters after the remediation status, in the order of the code.\<close>

definition item_filters :: "cve_query \<Rightarrow> (string \<Rightarrow> string list) \<Rightarrow> cve_item \<Rightarrow> bool" where
  "item_filters q comps i \<longleftrightarrow>
     given_text (cq_search q) (\<lambda>s i. has_substring (py_lower s) (py_lower (ci_cve i))) i \<and>
     given (cq_severity q) (\<lambda>s i. ci_severity i = s) i \<and>
     given (cq_fixable q) (\<lambda>f i. ci_fixable i = f) i \<and>
     (cq_prioritized_only q \<longrightarrow> ci_priority i \<noteq> None) \<and>
     given (cq_cvss_min q) (\<lambda>m i. m \<le> ci_cvss i) i \<and>
     given (cq_epss_min q) (\<lambda>m i. m \<le> ci_epss i) i \<and>
     given (cq_origin q) (\<lambda>f i. f \<in> set (ci_origins i)) i \<and>
     (if cq_risk_status q = Some ''any'' then ci_ra i \<noteq> None
      else if cq_risk_status q \<in> {Some ''requested'', Some ''approved''}
        then map_option (risk_status_value \<circ> ra_status) (ci_ra i) = cq_risk_status q
      else True) \<and>
     given_text (cq_component q)
       (\<lambda>c i. list_ex (\<lambda>n. has_substring (py_lower c) (py_lower n)) (comps (ci_cve i))) i"

definition overdue_filter :: "global_settings option \<Rightarrow> datetime \<Rightarrow> cve_item \<Rightarrow> bool" where
  "overdue_filter settings now i =
     (let days = (case settings of None \<Rightarrow> 30 | Some s \<Rightarrow> gs_fix_overdue_days s) in
      case ci_fix_since i of None \<Rightarrow> False | Some t \<Rightarrow> t \<le> now - timedelta_days days)"

definition age_filter :: "int option \<Rightarrow> int option \<Rightarrow> datetime \<Rightarrow> cve_item \<Rightarrow> bool" where
  "age_filter lo hi now i =
     (case ci_first_seen i of None \<Rightarrow> False
      | Some t \<Rightarrow> given lo (\<lambda>m d. m \<le> d) (days_of (now - t)) \<and> given hi (\<lambda>m d. d \<le> m) (days_of (now - t)))"

definition sort_value :: "string \<Rightarrow> cve_item \<Rightarrow> num" where
  "sort_value by i =
     (let time = (\<lambda>t. of_int (case t of None \<Rightarrow> datetime_min | Some v \<Rightarrow> v)) in
      if by = ''cvss'' then ci_cvss i else if by = ''epss_probability'' then ci_epss i
      else if by = ''affected_deployments'' then of_nat (ci_deployments i)
      else if by = ''first_seen'' then time (ci_first_seen i)
      else if by = ''published_on'' then time (ci_published i)
      else if by = ''fix_available_since'' then time (ci_fix_since i)
      else of_int (ci_severity i))"

definition sort_items :: "string \<Rightarrow> bool \<Rightarrow> cve_item list \<Rightarrow> cve_item list" where
  "sort_items by desc items =
     sort_key (\<lambda>i. if ci_priority i \<noteq> None then 0 else (1::nat))
       ((if desc then sort_key_rev else sort_key) (sort_value by) items)"

definition deployment_filter ::
    "current_user \<Rightarrow> stackrox \<Rightarrow> cve_query \<Rightarrow> cve_item list \<Rightarrow> cve_item list" where
  "deployment_filter u sx q items =
     (if (truthy (cq_deployment q) \<or> truthy (cq_deployment_id q)) \<and> items \<noteq> [] then
        let nss = narrow_namespaces (visible_pairs (list_namespaces sx) u) (cq_cluster q) (cq_namespace q);
            i1 = (if truthy (cq_deployment q)
                  then filter (\<lambda>i. ci_cve i \<in> set (get_cve_ids_for_deployment sx (the (cq_deployment q)) nss)) items
                  else items)
        in if truthy (cq_deployment_id q)
           then filter (\<lambda>i. ci_cve i \<in> set (get_cve_ids_for_deployment_id sx (the (cq_deployment_id q)) nss)) i1
           else i1
      else items)"

definition remediation_stage ::
    "app_db \<Rightarrow> stackrox \<Rightarrow> cve_query \<Rightarrow> pair list \<Rightarrow> cve_item list \<Rightarrow> cve_item list" where
  "remediation_stage db sx q nss items =
     (if items = [] then []
      else let st = compute_remediation_status db sx (map ci_cve items) (if nss = [] then None else Some nss);
               i1 = map (\<lambda>i. i\<lparr>ci_rem := coalesce Unremediated (st (ci_cve i))\<rparr>) items;
               i2 = (if \<not> cq_show_remediated q \<and> cq_remediation_status q = None
                     then filter (\<lambda>i. ci_rem i \<noteq> Remediated) i1 else i1)
           in filter (given_text (cq_remediation_status q) (\<lambda>s i. cve_rem_value (ci_rem i) = s)) i2)"

definition fetch_filtered_cves ::
    "pep440 \<Rightarrow> current_user \<Rightarrow> app_db \<Rightarrow> stackrox \<Rightarrow> datetime \<Rightarrow> cve_query \<Rightarrow> cve_item list" where
  "fetch_filtered_cves P u db sx now q =
     (case view_cves P u db sx q of None \<Rightarrow> []
      | Some (nss, cves) \<Rightarrow>
          let ids = map cd_cve cves;
              comps = get_cve_component_map sx ids nss;
              (supp, req) = compute_suppression_sets db sx u ids (Some nss);
              items = map (build_cve_item (priorities_of db) (acceptances_of db) comps supp req) cves;
              i1 = (if cq_show_suppressed q then items else filter (\<lambda>i. \<not> ci_suppressed i) items);
              subscribed = subscribed_cve_ids db (cu_id u);
              i2 = map (\<lambda>i. i\<lparr>ci_subscribed := ci_cve i \<in> set subscribed\<rparr>) i1;
              i3 = (if cq_subscribed_only q then filter ci_subscribed i2 else i2);
              i4 = filter (item_filters q comps) (remediation_stage db sx q nss i3);
              i5 = (if cq_fix_overdue q then filter (overdue_filter (gsettings db) now) i4 else i4);
              i6 = (if cq_age_min q \<noteq> None \<or> cq_age_max q \<noteq> None
                    then filter (age_filter (cq_age_min q) (cq_age_max q) now) i5 else i5);
              i7 = deployment_filter u sx q i6
          in sort_items (cq_sort_by q) (cq_sort_desc q) i7)"


section \<open>Lemmas\<close>

lemma always_show_iff:
  "c \<in> always_show db \<longleftrightarrow> priorities_of db c \<noteq> None \<or> acceptances_of db c \<noteq> None"
  by (auto simp: always_show_def priorities_of_def acceptances_of_def dict_of_None_iff)

definition view_pairs :: "current_user \<Rightarrow> stackrox \<Rightarrow> cve_query \<Rightarrow> pair set" where
  "view_pairs u sx q =
     {p \<in> set (visible_pairs (list_namespaces sx) u).
        (truthy (cq_cluster q) \<longrightarrow> Some (snd p) = cq_cluster q) \<and>
        (truthy (cq_namespace q) \<longrightarrow> Some (fst p) = cq_namespace q) \<and>
        (case cq_restrict q of None \<Rightarrow> True | Some rn \<Rightarrow> p \<in> set rn)}"

lemma view_cves_sound:
  assumes "view_cves P u db sx q = Some (nss, cves)" and "c \<in> set cves"
  shows "\<exists>v \<in> set (joined sx). vr_cve v = cd_cve c \<and> vr_pair v \<in> view_pairs u sx q"
proof -
  from assms have "\<exists>v \<in> set (joined sx). vr_cve v = cd_cve c \<and>
      vr_pair v \<in> set (narrow_namespaces (case cq_restrict q of
          None \<Rightarrow> visible_pairs (list_namespaces sx) u
        | Some rn \<Rightarrow> if can_see_all_namespaces u then rn else filter (\<lambda>p. p \<in> set (cu_namespaces u)) rn)
      (cq_cluster q) (cq_namespace q))"
    by (auto simp: view_cves_def Let_def visible_pairs_def set_narrow_namespaces joined_pair_known
        dest!: get_cves_for_namespaces_sound get_all_cves_sound split: prod.splits option.splits if_splits)
  then obtain v where v: "v \<in> set (joined sx)" "vr_cve v = cd_cve c"
    "vr_pair v \<in> set (narrow_namespaces (case cq_restrict q of
          None \<Rightarrow> visible_pairs (list_namespaces sx) u
        | Some rn \<Rightarrow> if can_see_all_namespaces u then rn else filter (\<lambda>p. p \<in> set (cu_namespaces u)) rn)
      (cq_cluster q) (cq_namespace q))" by blast
  then have "vr_pair v \<in> view_pairs u sx q"
    using joined_pair_known [OF v(1)]
    by (auto simp: view_pairs_def set_narrow_namespaces visible_pairs_def split: option.splits if_splits)
  with v show ?thesis by blast
qed

lemma view_cves_passes:
  assumes "view_cves P u db sx q = Some (nss, cves)" and "c \<in> set cves"
    and "resolve_view_thresholds u (gsettings db) (cq_ignore_thresholds q) = (mc, me)"
  shows "passes mc me (always_show db) (cd_cve c) (cd_cvss c) (cd_epss c)"
  using assms
  by (auto simp: view_cves_def Let_def get_cves_for_namespaces_def get_all_cves_def
      dest!: cves_of_passes split: option.splits if_splits)

lemma view_cves_distinct:
  "view_cves P u db sx q = Some (nss, cves) \<Longrightarrow> distinct (map cd_cve cves)"
  by (auto simp: view_cves_def Let_def get_cves_for_namespaces_def get_all_cves_def distinct_cves_of
      split: option.splits if_splits prod.splits)

lemma in_remediation_stage:
  assumes "i \<in> set (remediation_stage db sx q nss items)"
  shows "\<exists>j \<in> set items. \<exists>r. i = j\<lparr>ci_rem := r\<rparr> \<and>
    (cq_remediation_status q = None \<and> \<not> cq_show_remediated q \<longrightarrow> r \<noteq> Remediated)"
proof -
  define st where "st = compute_remediation_status db sx (map ci_cve items) (if nss = [] then None else Some nss)"
  from assms obtain j where "j \<in> set items" "i = j\<lparr>ci_rem := coalesce Unremediated (st (ci_cve j))\<rparr>"
    "cq_remediation_status q = None \<and> \<not> cq_show_remediated q \<longrightarrow> ci_rem i \<noteq> Remediated"
    by (simp add: remediation_stage_def Let_def st_def [symmetric] split: if_splits) auto
  then show ?thesis by (intro bexI [of _ j] exI [of _ "coalesce Unremediated (st (ci_cve j))"]) simp_all
qed

lemma map_remediation_stage:
  "distinct (map ci_cve items) \<Longrightarrow> distinct (map ci_cve (remediation_stage db sx q nss items))"
  by (auto simp: remediation_stage_def Let_def comp_def intro!: distinct_map_filter)

lemma set_deployment_filter: "set (deployment_filter u sx q items) \<subseteq> set items"
  by (auto simp: deployment_filter_def Let_def split: if_splits)

lemma distinct_deployment_filter:
  "distinct (map ci_cve items) \<Longrightarrow> distinct (map ci_cve (deployment_filter u sx q items))"
  by (auto simp: deployment_filter_def Let_def intro!: distinct_map_filter)

lemma set_sort_items [simp]: "set (sort_items by desc items) = set items"
  by (simp add: sort_items_def)

lemma ci_cve_build [simp]: "ci_cve (build_cve_item p a c s r d) = cd_cve d"
  by (simp add: build_cve_item_def)

definition base_items ::
    "app_db \<Rightarrow> stackrox \<Rightarrow> cve_data list \<Rightarrow> pair list \<Rightarrow> string list \<times> string list \<Rightarrow> cve_item list" where
  "base_items db sx cves nss sr =
     map (build_cve_item (priorities_of db) (acceptances_of db)
       (get_cve_component_map sx (map cd_cve cves) nss) (fst sr) (snd sr)) cves"

definition listed_items ::
    "current_user \<Rightarrow> app_db \<Rightarrow> cve_query \<Rightarrow> cve_item list \<Rightarrow> cve_item list" where
  "listed_items u db q items =
     filter (\<lambda>i. cq_subscribed_only q \<longrightarrow> ci_subscribed i)
       (map (\<lambda>i. i\<lparr>ci_subscribed := ci_cve i \<in> set (subscribed_cve_ids db (cu_id u))\<rparr>)
         (filter (\<lambda>i. cq_show_suppressed q \<or> \<not> ci_suppressed i) items))"

lemma fetch_unfold:
  assumes "view_cves P u db sx q = Some (nss, cves)"
  shows "fetch_filtered_cves P u db sx now q =
    sort_items (cq_sort_by q) (cq_sort_desc q) (deployment_filter u sx q
      (filter (\<lambda>i. cq_age_min q \<noteq> None \<or> cq_age_max q \<noteq> None \<longrightarrow> age_filter (cq_age_min q) (cq_age_max q) now i)
      (filter (\<lambda>i. cq_fix_overdue q \<longrightarrow> overdue_filter (gsettings db) now i)
      (filter (item_filters q (get_cve_component_map sx (map cd_cve cves) nss))
        (remediation_stage db sx q nss (listed_items u db q (base_items db sx cves nss
          (compute_suppression_sets db sx u (map cd_cve cves) (Some nss)))))))))"
proof -
  obtain supp req where sr: "compute_suppression_sets db sx u (map cd_cve cves) (Some nss) = (supp, req)"
    by (metis surj_pair)
  have f: "(if b then filter f xs else xs) = filter (\<lambda>i. b \<longrightarrow> f i) xs"
    "(if b then xs else filter f xs) = filter (\<lambda>i. b \<or> f i) xs" for b f and xs :: "cve_item list"
    by (cases b; simp)+
  show ?thesis
    unfolding fetch_filtered_cves_def assms option.case prod.case Let_def sr f fst_conv snd_conv
      base_items_def listed_items_def ..
qed

lemma fetch_None: "view_cves P u db sx q = None \<Longrightarrow> fetch_filtered_cves P u db sx now q = []"
  by (simp add: fetch_filtered_cves_def)

lemma fetch_item:
  assumes "i \<in> set (fetch_filtered_cves P u db sx now q)"
  obtains nss cves c supp req b r where
    "view_cves P u db sx q = Some (nss, cves)" "c \<in> set cves"
    "i = (build_cve_item (priorities_of db) (acceptances_of db)
        (get_cve_component_map sx (map cd_cve cves) nss) supp req c)\<lparr>ci_subscribed := b, ci_rem := r\<rparr>"
    "compute_suppression_sets db sx u (map cd_cve cves) (Some nss) = (supp, req)"
    "cq_show_suppressed q \<or> cd_cve c \<notin> set supp"
    "cq_subscribed_only q \<longrightarrow> cd_cve c \<in> set (subscribed_cve_ids db (cu_id u))"
    "item_filters q (get_cve_component_map sx (map cd_cve cves) nss) i"
    "cq_remediation_status q = None \<and> \<not> cq_show_remediated q \<longrightarrow> r \<noteq> Remediated"
proof -
  obtain nss cves where v: "view_cves P u db sx q = Some (nss, cves)"
    using assms fetch_None by (cases "view_cves P u db sx q") auto
  obtain supp req where sr: "compute_suppression_sets db sx u (map cd_cve cves) (Some nss) = (supp, req)"
    by (metis surj_pair)
  let ?comps = "get_cve_component_map sx (map cd_cve cves) nss"
  let ?items = "listed_items u db q (base_items db sx cves nss (supp, req))"
  have "i \<in> set (filter (item_filters q ?comps) (remediation_stage db sx q nss ?items))"
    using subsetD [OF set_deployment_filter assms [unfolded fetch_unfold [OF v] sr set_sort_items]]
    unfolding set_filter by blast
  then have f: "item_filters q ?comps i" and "i \<in> set (remediation_stage db sx q nss ?items)" by simp_all
  then obtain j r where j: "j \<in> set ?items" "i = j\<lparr>ci_rem := r\<rparr>"
    "cq_remediation_status q = None \<and> \<not> cq_show_remediated q \<longrightarrow> r \<noteq> Remediated"
    using in_remediation_stage by blast
  from j(1) obtain k where k: "k \<in> set (base_items db sx cves nss (supp, req))"
    "cq_show_suppressed q \<or> \<not> ci_suppressed k"
    "j = k\<lparr>ci_subscribed := ci_cve k \<in> set (subscribed_cve_ids db (cu_id u))\<rparr>"
    "cq_subscribed_only q \<longrightarrow> ci_cve k \<in> set (subscribed_cve_ids db (cu_id u))"
    unfolding listed_items_def by auto
  from k(1) obtain c where c: "c \<in> set cves"
    "k = build_cve_item (priorities_of db) (acceptances_of db) ?comps supp req c"
    unfolding base_items_def by auto
  from k(2) c(2) have c3: "cq_show_suppressed q \<or> cd_cve c \<notin> set supp" by (simp add: build_cve_item_def)
  from k(4) c(2) have c4: "cq_subscribed_only q \<longrightarrow> cd_cve c \<in> set (subscribed_cve_ids db (cu_id u))" by simp
  show ?thesis
    by (rule that [OF v c(1) _ sr c3 c4 f j(3)]) (simp only: j(2) k(3) c(2))
qed

lemma distinct_listed: "distinct (map ci_cve items) \<Longrightarrow> distinct (map ci_cve (listed_items u db q items))"
  unfolding listed_items_def by (intro distinct_map_filter) (simp add: comp_def distinct_map_filter)

lemma fetch_distinct: "distinct (map ci_cve (fetch_filtered_cves P u db sx now q))"
proof (cases "view_cves P u db sx q")
  case None
  then show ?thesis by (simp add: fetch_None)
next
  case (Some a)
  then obtain nss cves where v: "view_cves P u db sx q = Some (nss, cves)" by (cases a) simp
  have "distinct (map ci_cve (base_items db sx cves nss sr))" for sr
    using view_cves_distinct [OF v] by (simp add: base_items_def comp_def)
  then show ?thesis
    unfolding fetch_unfold [OF v] sort_items_def distinct_map_sort_key
    by (cases "cq_sort_desc q")
      (simp_all only: if_True if_False distinct_map_sort_key distinct_map_sort_key_rev
        distinct_deployment_filter distinct_map_filter map_remediation_stage distinct_listed)
qed

section \<open>Properties\<close>

definition ex_query :: cve_query where
  "ex_query = \<lparr>cq_search = None, cq_severity = None, cq_fixable = None, cq_prioritized_only = False,
     cq_sort_by = ''severity'', cq_sort_desc = True, cq_cvss_min = None, cq_epss_min = None,
     cq_component = Some ''ssl'', cq_risk_status = None, cq_cluster = Some ''c1'', cq_namespace = None,
     cq_age_min = Some 1, cq_age_max = None, cq_deployment = None, cq_show_suppressed = False,
     cq_remediation_status = None, cq_show_remediated = False, cq_fix_overdue = False,
     cq_deployment_id = Some ''d1'', cq_restrict = None, cq_ignore_thresholds = False,
     cq_origin = Some ''osv'', cq_subscribed_only = False\<rparr>"

definition ex_cve :: cve_data where
  "ex_cve = \<lparr>cd_cve = ''CVE-2024-1'', cd_severity = 4, cd_cvss = 9, cd_epss = 1/2, cd_first_seen = Some 0,
     cd_published = None, cd_fix_since = None, cd_images = 1, cd_deployments = 1, cd_fixable = False,
     cd_fixed_by = None, cd_origins = [1]\<rparr>"

definition ex_item :: cve_item where
  "ex_item = build_cve_item Map.empty Map.empty (\<lambda>_. [''openssl'']) [] [] ex_cve"

lemma ex_cve_data: "cve_data_of ex_P (''CVE-2024-1'', [ex_row]) = ex_cve"
  by (simp add: cve_data_of_def ex_cve_def ex_row_def ex_world max0_def sql_max_def sql_min_def
      pick_fixed_by_def rank_versions_def distinct_candidates_def sort_cmp_rev_def Let_def)

lemma ex_view: "view_cves ex_P ex_member ex_db ex_sx ex_query = Some ([(''shop'', ''c1'')], [ex_cve])"
proof -
  have "get_cves_for_namespaces ex_P ex_sx [(''shop'', ''c1'')] 7 0 w = [ex_cve]" for w
    by (simp add: get_cves_for_namespaces_def cves_of_def joined_ex group_by_def namespace_filter_def
        ex_cve_data passes_def) (simp add: ex_cve_def)
  then show ?thesis
    by (simp add: view_cves_def Let_def ex_query_def resolve_view_thresholds_def ex_settings_def
        narrow_namespaces_def)
qed

lemma ex_suppression: "compute_suppression_sets ex_db ex_sx ex_member ids (Some nss) = ([], [])"
  by (simp add: compute_suppression_sets_def load_suppression_sets_def Let_def compute_suppressed_cves_def)

lemma ex_component_map:
  "get_cve_component_map ex_sx [''CVE-2024-1''] [(''shop'', ''c1'')] ''CVE-2024-1'' = [''openssl'']"
  by (simp add: get_cve_component_map_def joined_ex namespace_filter_def)

lemma ex_base: "base_items ex_db ex_sx [ex_cve] [(''shop'', ''c1'')] ([], []) = [ex_item]"
  by (simp add: base_items_def ex_item_def build_cve_item_def ex_cve_def ex_component_map
      priorities_of_def acceptances_of_def)

lemma ex_listed: "listed_items ex_member ex_db ex_query [ex_item] = [ex_item]"
  by (simp add: listed_items_def ex_query_def subscribed_cve_ids_def ex_item_def build_cve_item_def)

lemma ex_remediated: "remediation_stage ex_db ex_sx ex_query [(''shop'', ''c1'')] [ex_item] = [ex_item]"
  by (simp add: remediation_stage_def ex_query_def ex_item_def build_cve_item_def compute_remediation_status_def
      classify_cve_def)

lemma ex_filters:
  "item_filters ex_query (get_cve_component_map ex_sx [''CVE-2024-1''] [(''shop'', ''c1'')]) ex_item"
  by (simp add: item_filters_def ex_query_def ex_item_def build_cve_item_def ex_cve_def ex_component_map
      origin_names_def origin_name_def origin_table_def py_lower_def lower_char_def)

lemma ex_age: "age_filter (Some 1) None (timedelta_days 2) ex_item"
  by (simp add: age_filter_def ex_item_def build_cve_item_def ex_cve_def days_of_def timedelta_days_def day_us_def)

lemma ex_deployment: "deployment_filter ex_member ex_sx ex_query [ex_item] = [ex_item]"
  by (simp add: deployment_filter_def ex_query_def Let_def visible_pairs_def narrow_namespaces_def
      get_cve_ids_for_deployment_id_def joined_ex namespace_filter_def ex_item_def ex_cve_def)

lemma ex_fetch: "fetch_filtered_cves ex_P ex_member ex_db ex_sx (timedelta_days 2) ex_query = [ex_item]"
proof -
  have "cd_cve ex_cve = ''CVE-2024-1''" "\<not> cq_fix_overdue ex_query" "cq_age_min ex_query = Some 1"
    "cq_age_max ex_query = None"
    by (simp_all add: ex_cve_def ex_query_def)
  then show ?thesis
    unfolding fetch_unfold [OF ex_view] list.map ex_suppression ex_base ex_listed ex_remediated
    by (simp add: ex_filters ex_age ex_deployment sort_items_def sort_key_rev_def)
qed

lemma ex_in_fetch: "ex_item \<in> set (fetch_filtered_cves ex_P ex_member ex_db ex_sx (timedelta_days 2) ex_query)"
  by (simp add: ex_fetch)

text \<open>C19: A user's list holds only CVEs that are deployed in a namespace the user may see, within the
  cluster, the namespace and the restriction of the request: no filter, threshold opt-out, priority or
  risk acceptance shows a CVE from elsewhere.\<close>

theorem fetch_only_visible:
  assumes "i \<in> set (fetch_filtered_cves P u db sx now q)"
  shows "\<exists>v \<in> set (joined sx). vr_cve v = ci_cve i \<and> vr_pair v \<in> view_pairs u sx q"
  using assms
proof (rule fetch_item)
  fix nss cves c supp req b r
  assume v: "view_cves P u db sx q = Some (nss, cves)" "c \<in> set cves"
    and i: "i = (build_cve_item (priorities_of db) (acceptances_of db)
        (get_cve_component_map sx (map cd_cve cves) nss) supp req c)\<lparr>ci_subscribed := b, ci_rem := r\<rparr>"
  from view_cves_sound [OF v] show ?thesis unfolding i by simp
qed

theorem fetch_only_visible_witness:
  "\<exists>v \<in> set (joined ex_sx). vr_cve v = ci_cve ex_item \<and> vr_pair v \<in> view_pairs ex_member ex_sx ex_query"
  by (rule fetch_only_visible [OF ex_in_fetch])

text \<open>The floor of scores applies to the list unless it is lifted: an item reaches both thresholds,
  or the CVE has a priority or an active risk acceptance, or the user is on the security team, or the
  request ignores the thresholds, or there are no settings.\<close>

theorem fetch_respects_thresholds:
  assumes "i \<in> set (fetch_filtered_cves P u db sx now q)"
    and "\<not> is_sec_team u" and "\<not> cq_ignore_thresholds q" and "gsettings db = Some s"
  shows "(gs_min_cvss s \<le> ci_cvss i \<and> gs_min_epss s \<le> ci_epss i) \<or>
    ci_priority i \<noteq> None \<or> ci_ra i \<noteq> None"
  using assms(1)
proof (rule fetch_item)
  fix nss cves c supp req b r
  assume v: "view_cves P u db sx q = Some (nss, cves)" "c \<in> set cves"
    and i: "i = (build_cve_item (priorities_of db) (acceptances_of db)
        (get_cve_component_map sx (map cd_cve cves) nss) supp req c)\<lparr>ci_subscribed := b, ci_rem := r\<rparr>"
  have "passes (gs_min_cvss s) (gs_min_epss s) (always_show db) (cd_cve c) (cd_cvss c) (cd_epss c)"
    by (rule view_cves_passes [OF v]) (use assms in \<open>simp add: resolve_view_thresholds_def\<close>)
  then show ?thesis
    unfolding i by (auto simp: passes_def always_show_iff build_cve_item_def)
qed

theorem fetch_respects_thresholds_witness:
  "(gs_min_cvss ex_settings \<le> ci_cvss ex_item \<and> gs_min_epss ex_settings \<le> ci_epss ex_item) \<or>
    ci_priority ex_item \<noteq> None \<or> ci_ra ex_item \<noteq> None"
  by (rule fetch_respects_thresholds [OF ex_in_fetch]) (simp_all add: ex_query_def)

text \<open>The list names every CVE once, the prioritized ones first, and within each group it is sorted by
  the requested column in the requested direction.\<close>

theorem fetch_ordered:
  "distinct (map ci_cve (fetch_filtered_cves P u db sx now q)) \<and>
   sorted_wrt (\<lambda>a b. ci_priority a \<noteq> None \<and> ci_priority b = None \<or>
      (ci_priority a = None) = (ci_priority b = None) \<and>
      (if cq_sort_desc q then sort_value (cq_sort_by q) b \<le> sort_value (cq_sort_by q) a
       else sort_value (cq_sort_by q) a \<le> sort_value (cq_sort_by q) b))
     (fetch_filtered_cves P u db sx now q)"
proof
  show "distinct (map ci_cve (fetch_filtered_cves P u db sx now q))" by (rule fetch_distinct)
  have *: "sorted_wrt (\<lambda>a b. ci_priority a \<noteq> None \<and> ci_priority b = None \<or>
      (ci_priority a = None) = (ci_priority b = None) \<and>
      (if desc then sort_value by b \<le> sort_value by a else sort_value by a \<le> sort_value by b))
    (sort_items by desc items)" for "by" desc items
  proof -
    have "sorted_wrt (\<lambda>a b. if desc then sort_value by b \<le> sort_value by a else sort_value by a \<le> sort_value by b)
      ((if desc then sort_key_rev else sort_key) (sort_value by) items)"
      using sorted_wrt_sort_key_rev sorted_wrt_sort_key by (cases desc) simp_all
    from sort_key_then [OF this, of "\<lambda>i. if ci_priority i \<noteq> None then 0 else (1::nat)"]
    show ?thesis unfolding sort_items_def
      by (rule sorted_wrt_mono_rel [rotated]) (auto split: if_splits)
  qed
  show "sorted_wrt (\<lambda>a b. ci_priority a \<noteq> None \<and> ci_priority b = None \<or>
      (ci_priority a = None) = (ci_priority b = None) \<and>
      (if cq_sort_desc q then sort_value (cq_sort_by q) b \<le> sort_value (cq_sort_by q) a
       else sort_value (cq_sort_by q) a \<le> sort_value (cq_sort_by q) b))
     (fetch_filtered_cves P u db sx now q)"
  proof (cases "view_cves P u db sx q")
    case None
    then show ?thesis by (simp add: fetch_None)
  next
    case (Some a)
    then have v: "view_cves P u db sx q = Some (fst a, snd a)" by simp
    show ?thesis unfolding fetch_unfold [OF v] by (rule *)
  qed
qed


section \<open>Remediation status\<close>

lemma rem_lookup_hit:
  assumes "distinct (map (\<lambda>r. (rem_cluster r, rem_namespace r)) rs)" and "r \<in> set rs"
    and "(rem_cluster r, rem_namespace r) \<in> pairs"
  shows "rem_lookup rs pairs (rem_cluster r, rem_namespace r) = Some (rem_status r)"
proof -
  let ?k = "\<lambda>r. (rem_cluster r, rem_namespace r)"
  have "distinct (map ?k (filter (\<lambda>r. ?k r \<in> pairs) rs))" by (rule distinct_map_filter [OF assms(1)])
  from dict_of_distinct [OF this, of r] assms(2,3) show ?thesis by (simp add: rem_lookup_def)
qed

text \<open>The remediation status of a CVE in a view: in progress if a remediation of an affected location is
  not finished; remediated if every affected location, at least one, has a finished remediation;
  unremediated otherwise. Remediations of locations that are no longer affected do not count. A location
  has at most one remediation of a CVE (a unique constraint of the table).\<close>

theorem classify_cve_correct:
  assumes "distinct (map (\<lambda>r. (rem_cluster r, rem_namespace r)) rs)"
  shows "(classify_cve rs pairs = InProgress \<longleftrightarrow>
      (\<exists>r \<in> set rs. (rem_cluster r, rem_namespace r) \<in> pairs \<and> \<not> terminal_status (rem_status r))) \<and>
    (classify_cve rs pairs = Remediated \<longleftrightarrow> pairs \<noteq> {} \<and>
      (\<forall>p \<in> pairs. \<exists>r \<in> set rs. (rem_cluster r, rem_namespace r) = p \<and> terminal_status (rem_status r)))"
proof -
  let ?k = "\<lambda>r. (rem_cluster r, rem_namespace r)"
  let ?hit = "filter (\<lambda>r. ?k r \<in> pairs) rs"
  have open_iff: "list_ex (\<lambda>k. \<not> terminal_status (the (rem_lookup rs pairs k))) (map ?k ?hit) \<longleftrightarrow>
      (\<exists>r \<in> set rs. ?k r \<in> pairs \<and> \<not> terminal_status (rem_status r))"
    using rem_lookup_hit [OF assms, of _ pairs] by (auto simp: list_ex_iff)
  have uniq: "r = s" if "r \<in> set rs" "s \<in> set rs" "?k r = ?k s" for r s
    using assms that by (auto simp: distinct_map dest: inj_onD)
  have c: "classify_cve rs pairs = (if rs = [] \<or> pairs = {} \<or> ?hit = [] then Unremediated
      else if \<exists>r \<in> set rs. ?k r \<in> pairs \<and> \<not> terminal_status (rem_status r) then InProgress
      else if pairs \<subseteq> ?k ` set ?hit then Remediated else Unremediated)"
    unfolding classify_cve_def Let_def open_iff set_map by presburger
  show ?thesis
  proof (cases "\<exists>r \<in> set rs. ?k r \<in> pairs \<and> \<not> terminal_status (rem_status r)")
    case True
    then obtain r where r: "r \<in> set rs" "?k r \<in> pairs" "\<not> terminal_status (rem_status r)" by blast
    then have "?hit \<noteq> []" "rs \<noteq> []" "pairs \<noteq> {}" by (auto simp: filter_empty_conv)
    with True have "classify_cve rs pairs = InProgress" unfolding c by simp
    moreover have "\<not> (\<forall>p \<in> pairs. \<exists>s \<in> set rs. ?k s = p \<and> terminal_status (rem_status s))"
      using r uniq by metis
    ultimately show ?thesis using True by simp
  next
    case False
    define hit where "hit = ?hit"
    have n: "rs = [] \<Longrightarrow> hit = []" by (simp add: hit_def)
    have c': "classify_cve rs pairs = (if rs = [] \<or> pairs = {} \<or> hit = [] then Unremediated
        else if pairs \<subseteq> ?k ` set hit then Remediated else Unremediated)"
      unfolding c hit_def using False by presburger
    have "classify_cve rs pairs = Remediated \<longleftrightarrow> pairs \<noteq> {} \<and> pairs \<subseteq> ?k ` set hit"
      unfolding c' using n by (cases "hit = []") auto
    then have "classify_cve rs pairs = Remediated \<longleftrightarrow> pairs \<noteq> {} \<and> pairs \<subseteq> ?k ` set ?hit"
      unfolding hit_def .
    moreover have "pairs \<subseteq> ?k ` set ?hit \<longleftrightarrow> (\<forall>p \<in> pairs. \<exists>r \<in> set rs. ?k r = p)" by auto
    moreover have "classify_cve rs pairs \<noteq> InProgress" unfolding c' by simp
    moreover have "(\<forall>p \<in> pairs. \<exists>r \<in> set rs. ?k r = p) \<longleftrightarrow>
        (\<forall>p \<in> pairs. \<exists>r \<in> set rs. ?k r = p \<and> terminal_status (rem_status r))"
    proof (intro ball_cong refl)
      fix p assume "p \<in> pairs"
      with False have "terminal_status (rem_status r)" if "r \<in> set rs" "?k r = p" for r using that by auto
      then show "(\<exists>r \<in> set rs. ?k r = p) \<longleftrightarrow> (\<exists>r \<in> set rs. ?k r = p \<and> terminal_status (rem_status r))" by blast
    qed
    ultimately show ?thesis using False by simp
  qed
qed

definition ex_rem :: remediation where
  "ex_rem = \<lparr>rem_id = 1, rem_cve = ''CVE-2024-1'', rem_namespace = ''shop'', rem_cluster = ''c1'',
     rem_status = RemResolved, rem_assigned_to = None, rem_created_by = ''u1'', rem_resolved_by = Some ''u1'',
     rem_target_date = None, rem_notes = None, rem_wont_fix_reason = None, rem_resolved_at = Some 5,
     rem_verified_at = None, rem_created_at = 0\<rparr>"

theorem classify_cve_correct_witness:
  "classify_cve [ex_rem] {(''c1'', ''shop'')} = Remediated \<and>
   classify_cve [ex_rem] {(''c1'', ''shop''), (''c1'', ''pay'')} \<noteq> InProgress"
  using classify_cve_correct [of "[ex_rem]" "{(''c1'', ''shop'')}"]
    classify_cve_correct [of "[ex_rem]" "{(''c1'', ''shop''), (''c1'', ''pay'')}"]
  by (simp add: ex_rem_def terminal_status_def)

theorem fetch_ordered_witness:
  "distinct (map ci_cve (fetch_filtered_cves ex_P ex_member ex_db ex_sx 0 ex_query))"
  using fetch_ordered [of ex_P ex_member ex_db ex_sx 0 ex_query] by blast

end
