(* ===== verification/EscalationRules.thy ===== *)
theory EscalationRules
  imports CveView
begin

text \<open>
  The escalation rules: \<open>app/services/escalation_rules.py\<close> (which rule applies, when its levels are
  due, which locations can escalate) and \<open>app/services/escalation_preview.py\<close> (the list of what is
  due within the warning window). A level that a rule does not give is \<open>None\<close>. \<open>casefold\<close> is
  \<open>lower\<close> on ASCII.
\<close>

section \<open>Rules and deadlines\<close>

definition rule_severity :: "esc_rule \<Rightarrow> int" where "rule_severity r = coalesce 0 (er_severity_min r)"

definition rule_epss :: "esc_rule \<Rightarrow> num" where "rule_epss r = coalesce 0 (er_epss_threshold r)"

definition rule_matches :: "esc_rule \<Rightarrow> int \<Rightarrow> num \<Rightarrow> bool" where
  "rule_matches r severity epss \<longleftrightarrow> rule_severity r \<le> severity \<and> rule_epss r \<le> epss"

definition pick_matching_rule :: "esc_rule list \<Rightarrow> int \<Rightarrow> num \<Rightarrow> esc_rule option" where
  "pick_matching_rule rs severity epss =
     (case filter (\<lambda>r. rule_matches r severity epss) rs of
        [] \<Rightarrow> None
      | m # ms \<Rightarrow> Some (max_by (\<lambda>r. (rule_severity r, rule_epss r)) m ms))"

definition levels :: "int list" where "levels = [1, 2, 3]"

definition anchor :: "int option \<Rightarrow> datetime option \<Rightarrow> datetime list" where
  "anchor days ts =
     (case (days, ts) of (Some d, Some t) \<Rightarrow> [t + timedelta_days d] | _ \<Rightarrow> [])"

definition level_deadlines ::
    "esc_rule \<Rightarrow> datetime option \<Rightarrow> datetime option \<Rightarrow> (int \<times> datetime) list" where
  "level_deadlines r first_seen fix_since =
     [(l, d). l \<leftarrow> levels,
        d \<leftarrow> opt_list (sql_min (map Some (anchor (er_days r l) first_seen @ anchor (er_days_fix r l) fix_since)))]"

definition escalation_candidate_rows ::
    "loc_row list \<Rightarrow> string set \<Rightarrow> supp_rule list \<Rightarrow> supp_rule list \<Rightarrow> loc_row list" where
  "escalation_candidate_rows rows accepted cve_rules comp_rules =
     filter (\<lambda>r. lr_cve r \<notin> accepted \<and>
       \<not> is_location_suppressed (lr_cve r) (lr_namespace r) (lr_cluster r) (lr_components r)
           cve_rules comp_rules) rows"

section \<open>The preview\<close>

record upcoming =
  up_cve :: string
  up_severity :: int
  up_epss :: num
  up_age_days :: int
  up_level :: int
  up_days :: int

definition filter_upcoming_escalations ::
    "upcoming list \<Rightarrow> string option \<Rightarrow> int option \<Rightarrow> int option \<Rightarrow> int option \<Rightarrow> int \<Rightarrow> int \<Rightarrow>
     upcoming list \<times> nat" where
  "filter_upcoming_escalations items search lvl severity days_max page sz =
     (let f = filter (\<lambda>u.
        given_text search (\<lambda>s u. has_substring (py_lower s) (py_lower (up_cve u))) u \<and>
        given lvl (\<lambda>l u. up_level u = l) u \<and> given severity (\<lambda>s u. up_severity u = s) u \<and>
        given days_max (\<lambda>d u. up_days u \<le> d) u) items
      in (page_slice page sz f, length f))"

text \<open>The anchors of a CVE over its rows: \<open>None\<close> if it has no row.\<close>

definition anchors_by_cve ::
    "loc_row list \<Rightarrow> string \<rightharpoonup> datetime option \<times> datetime option" where
  "anchors_by_cve rows cve =
     (let mine = filter (\<lambda>r. lr_cve r = cve) rows in
      if mine = [] then None
      else Some (sql_min (map lr_first_seen mine), sql_min (map lr_fix_since mine)))"

definition with_anchors :: "(string \<rightharpoonup> datetime option \<times> datetime option) \<Rightarrow> cve_data list \<Rightarrow> cve_data list" where
  "with_anchors anchors cves =
     [c\<lparr>cd_first_seen := fst a, cd_fix_since := snd a\<rparr>. c \<leftarrow> cves, a \<leftarrow> opt_list (anchors (cd_cve c))]"

definition accepted_ids :: "app_db \<Rightarrow> string set" where
  "accepted_ids db = ra_cve ` set (filter (\<lambda>r. ra_status r = RiskApproved) (ras db))"

definition always_show_open :: "app_db \<Rightarrow> string set" where
  "always_show_open db = pr_cve ` set (prios db) \<union>
     ra_cve ` set (filter (\<lambda>r. ra_status r = RiskRequested) (ras db))"

definition existing_levels :: "app_db \<Rightarrow> string \<Rightarrow> int set" where
  "existing_levels db cve = esc_level ` set (filter (\<lambda>e. esc_cve e = cve) (escs db))"

text \<open>The loop over the levels with its \<open>break\<close>.\<close>

fun next_upcoming :: "datetime \<Rightarrow> int \<Rightarrow> int set \<Rightarrow> (int \<times> datetime) list \<Rightarrow> (int \<times> int) option" where
  "next_upcoming now warn existing [] = None"
| "next_upcoming now warn existing ((l, d) # rest) =
     (if l \<in> existing then next_upcoming now warn existing rest
      else let days = days_of (d - now) in
        if 0 < days \<and> days \<le> warn then Some (l, days) else next_upcoming now warn existing rest)"

definition upcoming_of ::
    "app_db \<Rightarrow> global_settings \<Rightarrow> datetime \<Rightarrow> cve_data \<Rightarrow> upcoming option" where
  "upcoming_of db s now c =
     (if cd_cve c \<in> accepted_ids db then None
      else case pick_matching_rule (gs_rules s) (cd_severity c) (cd_epss c) of
        None \<Rightarrow> None
      | Some r \<Rightarrow>
          map_option (\<lambda>(l, days).
            \<lparr>up_cve = cd_cve c, up_severity = cd_severity c, up_epss = cd_epss c,
             up_age_days = (case cd_first_seen c of None \<Rightarrow> 0 | Some t \<Rightarrow> days_of (now - t)),
             up_level = l, up_days = days\<rparr>)
          (next_upcoming now (gs_warning_days s) (existing_levels db (cd_cve c))
            (level_deadlines r (cd_first_seen c) (cd_fix_since c))))"

definition preview_cves ::
    "pep440 \<Rightarrow> app_db \<Rightarrow> stackrox \<Rightarrow> pair list \<Rightarrow> global_settings \<Rightarrow> cve_data list" where
  "preview_cves P db sx nss s =
     (let w = always_show_open db;
          cves = (if nss \<noteq> [] then get_cves_for_namespaces P sx nss (gs_min_cvss s) (gs_min_epss s) w
                  else get_all_cves P sx (gs_min_cvss s) (gs_min_epss s) w);
          (cve_rules, comp_rules) = load_approved_suppression_rules db
      in if cve_rules \<noteq> [] \<or> comp_rules \<noteq> []
         then let pairs = (if nss \<noteq> [] then nss else list_namespaces sx);
                  rows = get_cves_by_namespace_detail sx pairs (gs_min_cvss s) (gs_min_epss s) w
              in with_anchors (anchors_by_cve
                   (escalation_candidate_rows rows (accepted_ids db) cve_rules comp_rules)) cves
         else cves)"

definition compute_upcoming_escalations ::
    "pep440 \<Rightarrow> app_db \<Rightarrow> stackrox \<Rightarrow> pair list \<Rightarrow> global_settings \<Rightarrow> datetime \<Rightarrow> upcoming list" where
  "compute_upcoming_escalations P db sx nss s now =
     (if gs_rules s = [] then []
      else sort_key up_days (somes (map (upcoming_of db s now) (preview_cves P db sx nss s))))"

section \<open>Lemmas\<close>

lemma in_level_deadlines:
  "(l, d) \<in> set (level_deadlines r fs fx) \<longleftrightarrow> l \<in> {1, 2, 3} \<and>
     d \<in> set (anchor (er_days r l) fs @ anchor (er_days_fix r l) fx) \<and>
     (\<forall>e \<in> set (anchor (er_days r l) fs @ anchor (er_days_fix r l) fx). d \<le> e)"
proof -
  have "sql_min (map Some xs) = Some d \<longleftrightarrow> d \<in> set xs \<and> (\<forall>e \<in> set xs. d \<le> e)" for xs :: "datetime list"
    by (auto simp: sql_min_Some_iff)
  then show ?thesis by (auto simp: level_deadlines_def levels_def simp del: map_append)
qed

lemma in_anchor:
  "d \<in> set (anchor days ts) \<longleftrightarrow> (\<exists>n t. days = Some n \<and> ts = Some t \<and> d = t + timedelta_days n)"
  by (auto simp: anchor_def split: option.splits)

lemma distinct_levels: "distinct (map fst (level_deadlines r fs fx))"
proof -
  have "map fst [(l, d). d \<leftarrow> opt_list x] = (if x = None then [] else [l])" for l :: int and x :: "datetime option"
    by (cases x) auto
  then show ?thesis by (simp add: level_deadlines_def levels_def)
qed

lemma next_upcoming_Some:
  "next_upcoming now warn ex ds = Some (l, n) \<Longrightarrow>
     \<exists>d. (l, d) \<in> set ds \<and> l \<notin> ex \<and> n = days_of (d - now) \<and> 0 < n \<and> n \<le> warn"
  by (induction ds) (fastforce simp: Let_def split: if_splits)+

lemma next_upcoming_None_iff:
  "next_upcoming now warn ex ds = None \<longleftrightarrow>
     (\<forall>(l, d) \<in> set ds. l \<notin> ex \<longrightarrow> \<not> (0 < days_of (d - now) \<and> days_of (d - now) \<le> warn))"
  by (induction ds) (auto simp: Let_def split: if_splits)

lemma in_escalation_candidate_rows:
  "r \<in> set (escalation_candidate_rows rows acc cr kr) \<longleftrightarrow> r \<in> set rows \<and> lr_cve r \<notin> acc \<and>
     \<not> is_location_suppressed (lr_cve r) (lr_namespace r) (lr_cluster r) (lr_components r) cr kr"
  by (simp add: escalation_candidate_rows_def)

section \<open>Properties\<close>

text \<open>The rule that applies to a CVE is the strictest one that matches: none iff none matches;
  otherwise a rule of the list whose severity bound is the highest among the matching ones and whose
  EPSS bound is the highest among those of that severity.\<close>

theorem pick_matching_rule_strictest:
  "(pick_matching_rule rs sev epss = None \<longleftrightarrow> (\<forall>r \<in> set rs. \<not> rule_matches r sev epss)) \<and>
   (\<forall>r. pick_matching_rule rs sev epss = Some r \<longrightarrow> r \<in> set rs \<and> rule_matches r sev epss \<and>
      (\<forall>q \<in> set rs. rule_matches q sev epss \<longrightarrow>
         rule_severity q < rule_severity r \<or>
         rule_severity q = rule_severity r \<and> rule_epss q \<le> rule_epss r))"
proof (cases "filter (\<lambda>r. rule_matches r sev epss) rs")
  case Nil
  then show ?thesis by (auto simp: pick_matching_rule_def filter_empty_conv)
next
  case (Cons m ms)
  let ?k = "\<lambda>r. (rule_severity r, rule_epss r)"
  have set: "set (m # ms) = {r \<in> set rs. rule_matches r sev epss}" unfolding Cons [symmetric] by simp
  have "pick_matching_rule rs sev epss = Some (max_by ?k m ms)"
    by (simp add: pick_matching_rule_def Cons)
  moreover have "max_by ?k m ms \<in> {r \<in> set rs. rule_matches r sev epss}"
    using max_by_in [of ?k m ms] unfolding set .
  moreover have "?k q \<le> ?k (max_by ?k m ms)" if "q \<in> set rs" "rule_matches q sev epss" for q
    by (rule max_by_ge) (use that set in auto)
  then have "rule_severity q < rule_severity (max_by ?k m ms) \<or>
      rule_severity q = rule_severity (max_by ?k m ms) \<and> rule_epss q \<le> rule_epss (max_by ?k m ms)"
    if "q \<in> set rs" "rule_matches q sev epss" for q
    using that by (fastforce simp: less_eq_prod_def)
  ultimately show ?thesis by auto
qed

text \<open>A level of a rule is due at the earliest of its configured anchors: \<open>first_seen\<close> plus its days,
  or the day a fix appeared plus its days after a fix; it has no deadline when neither anchor has both an
  offset and a timestamp, and every level has at most one.\<close>

theorem level_deadlines_earliest:
  "distinct (map fst (level_deadlines r fs fx)) \<and>
   ((l, d) \<in> set (level_deadlines r fs fx) \<longleftrightarrow> l \<in> {1, 2, 3} \<and>
      (let due = {t + timedelta_days n |t n. (fs = Some t \<and> er_days r l = Some n) \<or>
                    (fx = Some t \<and> er_days_fix r l = Some n)}
       in d \<in> due \<and> (\<forall>e \<in> due. d \<le> e)))"
proof -
  have "set (anchor (er_days r l) fs @ anchor (er_days_fix r l) fx) =
      {t + timedelta_days n |t n. (fs = Some t \<and> er_days r l = Some n) \<or>
         (fx = Some t \<and> er_days_fix r l = Some n)}"
    by (auto simp: in_anchor) blast+
  then show ?thesis unfolding in_level_deadlines Let_def using distinct_levels by simp
qed

lemma in_compute_upcoming:
  "up \<in> set (compute_upcoming_escalations P db sx nss s now) \<longleftrightarrow>
     gs_rules s \<noteq> [] \<and> (\<exists>c \<in> set (preview_cves P db sx nss s). upcoming_of db s now c = Some up)"
  by (auto simp: compute_upcoming_escalations_def image_iff) (metis)+

lemma upcoming_of_Some:
  assumes "upcoming_of db s now c = Some up"
  shows "up_cve up = cd_cve c \<and> cd_cve c \<notin> accepted_ids db \<and>
    (\<exists>r d. pick_matching_rule (gs_rules s) (cd_severity c) (cd_epss c) = Some r \<and>
       (up_level up, d) \<in> set (level_deadlines r (cd_first_seen c) (cd_fix_since c)) \<and>
       up_level up \<notin> existing_levels db (cd_cve c) \<and>
       up_days up = days_of (d - now) \<and> 0 < up_days up \<and> up_days up \<le> gs_warning_days s)"
  using assms
  by (auto simp: upcoming_of_def dest!: next_upcoming_Some split: if_splits option.splits)

lemma in_with_anchors:
  "c' \<in> set (with_anchors an cves) \<longleftrightarrow>
     (\<exists>c \<in> set cves. \<exists>a. an (cd_cve c) = Some a \<and> c' = c\<lparr>cd_first_seen := fst a, cd_fix_since := snd a\<rparr>)"
  by (force simp: with_anchors_def)

lemma preview_cves_rules:
  assumes "c \<in> set (preview_cves P db sx nss s)"
    and "load_approved_suppression_rules db = (cr, kr)" and "cr \<noteq> [] \<or> kr \<noteq> []"
  shows "\<exists>row \<in> set (get_cves_by_namespace_detail sx (if nss \<noteq> [] then nss else list_namespaces sx)
      (gs_min_cvss s) (gs_min_epss s) (always_show_open db)).
    lr_cve row = cd_cve c \<and> lr_cve row \<notin> accepted_ids db \<and>
    \<not> is_location_suppressed (lr_cve row) (lr_namespace row) (lr_cluster row) (lr_components row) cr kr"
proof -
  let ?rows = "escalation_candidate_rows (get_cves_by_namespace_detail sx (if nss \<noteq> [] then nss else list_namespaces sx)
      (gs_min_cvss s) (gs_min_epss s) (always_show_open db)) (accepted_ids db) cr kr"
  from assms obtain a where "anchors_by_cve ?rows (cd_cve c) = Some a"
    by (auto simp: preview_cves_def Let_def in_with_anchors split: if_splits)
  then have "filter (\<lambda>r. lr_cve r = cd_cve c) ?rows \<noteq> []"
    by (auto simp: anchors_by_cve_def Let_def split: if_splits)
  then obtain row where "row \<in> set ?rows" "lr_cve row = cd_cve c" by (auto simp: filter_empty_conv)
  then show ?thesis unfolding in_escalation_candidate_rows by auto
qed

text \<open>The preview lists only what can still fire: the CVE has no approved risk acceptance; the level is
  the level of the strictest matching rule, has not been reached for this CVE, and is due in more than
  zero and at most \<open>warning_days\<close> days; and when approved suppression rules exist, some location in scope
  is not suppressed. The list is sorted by the days that remain.\<close>

theorem preview_lists_what_can_fire:
  assumes "up \<in> set (compute_upcoming_escalations P db sx nss s now)"
  shows "up_cve up \<notin> accepted_ids db \<and> 0 < up_days up \<and> up_days up \<le> gs_warning_days s \<and>
    up_level up \<in> {1, 2, 3} \<and> up_level up \<notin> existing_levels db (up_cve up) \<and>
    sorted (map up_days (compute_upcoming_escalations P db sx nss s now)) \<and>
    (\<forall>cr kr. load_approved_suppression_rules db = (cr, kr) \<and> (cr \<noteq> [] \<or> kr \<noteq> []) \<longrightarrow>
       (\<exists>row \<in> set (get_cves_by_namespace_detail sx (if nss \<noteq> [] then nss else list_namespaces sx)
            (gs_min_cvss s) (gs_min_epss s) (always_show_open db)).
          lr_cve row = up_cve up \<and>
          \<not> is_location_suppressed (lr_cve row) (lr_namespace row) (lr_cluster row) (lr_components row) cr kr))"
proof -
  from assms obtain c where c: "c \<in> set (preview_cves P db sx nss s)" "upcoming_of db s now c = Some up"
    unfolding in_compute_upcoming by blast
  note u = upcoming_of_Some [OF c(2)]
  have "sorted (map up_days (compute_upcoming_escalations P db sx nss s now))"
    by (simp add: compute_upcoming_escalations_def)
  moreover have "up_level up \<in> {1, 2, 3}" using u in_level_deadlines by blast
  ultimately show ?thesis using u preview_cves_rules [OF c(1)] by auto
qed

definition ex_rule :: esc_rule where
  "ex_rule = \<lparr>er_severity_min = Some 4, er_epss_threshold = Some 0,
     er_days = (\<lambda>l. if l = 1 then Some 7 else None), er_days_fix = (\<lambda>_. None)\<rparr>"

definition ex_esc_settings :: global_settings where
  "ex_esc_settings = ex_settings\<lparr>gs_rules := [ex_rule]\<rparr>"

definition ex_upcoming :: upcoming where
  "ex_upcoming = \<lparr>up_cve = ''CVE-2024-1'', up_severity = 4, up_epss = 1/2, up_age_days = 5, up_level = 1,
     up_days = 2\<rparr>"

lemma ex_rule_picked: "pick_matching_rule [ex_rule] 4 (1/2) = Some ex_rule"
  by (simp add: pick_matching_rule_def rule_matches_def rule_severity_def rule_epss_def ex_rule_def)

lemma ex_deadlines: "level_deadlines ex_rule (Some 0) None = [(1, timedelta_days 7)]"
  by (simp add: level_deadlines_def levels_def anchor_def ex_rule_def sql_min_def)

lemma ex_cves: "get_cves_for_namespaces ex_P ex_sx [(''shop'', ''c1'')] 7 0 w = [ex_cve]"
  by (simp add: get_cves_for_namespaces_def cves_of_def joined_ex group_by_def namespace_filter_def
      ex_cve_data passes_def) (simp add: ex_cve_def)

lemma ex_upcoming_in:
  "ex_upcoming \<in> set (compute_upcoming_escalations ex_P ex_db ex_sx [(''shop'', ''c1'')] ex_esc_settings
     (timedelta_days 5))"
  by (simp add: in_compute_upcoming preview_cves_def load_approved_suppression_rules_def
      load_suppression_sets_def ex_esc_settings_def ex_settings_def Let_def ex_cves upcoming_of_def
      accepted_ids_def existing_levels_def ex_cve_def ex_rule_picked ex_deadlines ex_upcoming_def
      timedelta_days_def days_of_def day_us_def)

theorem preview_lists_what_can_fire_witness:
  "up_cve ex_upcoming \<notin> accepted_ids ex_db \<and> up_days ex_upcoming \<le> gs_warning_days ex_esc_settings"
  using preview_lists_what_can_fire [OF ex_upcoming_in] by blast

theorem pick_matching_rule_strictest_witness:
  "ex_rule \<in> set [ex_rule] \<and> rule_matches ex_rule 4 (1/2)"
  using pick_matching_rule_strictest [of "[ex_rule]" 4 "1/2"] ex_rule_picked by blast

theorem level_deadlines_earliest_witness:
  "(1, timedelta_days 7) \<in> set (level_deadlines ex_rule (Some 0) None)"
proof -
  have "er_days ex_rule 1 = Some 7" "er_days_fix ex_rule 1 = None" by (simp_all add: ex_rule_def)
  with level_deadlines_earliest [of ex_rule "Some 0" None 1 "timedelta_days 7"] show ?thesis
    by (simp add: Let_def)
qed

end
