(* ===== verification/CommentContent.thy ===== *)
theory CommentContent
  imports Model
begin

text \<open>
  Structured comments: \<open>app/services/comment_content.py\<close>. A message holds mentions as \<open>@[username]\<close>;
  its segments are text and mentions of user ids. A mention segment of the code is a dict with
  \<open>user_id\<close> and \<open>username\<close>. The lemmas show that rendering the segments of a message gives the message
  back, up to the case of the user names, and that the segments are minimal.
\<close>

text \<open>A match of \<open>@\[([^\]]+)\]\<close> at the start: the name and what follows.\<close>

definition mention_at :: "string \<Rightarrow> (string \<times> string) option" where
  "mention_at s =
     (case s of a # b # t \<Rightarrow>
        let n = takeWhile (\<lambda>c. c \<noteq> CHR '']'') t; r = dropWhile (\<lambda>c. c \<noteq> CHR '']'') t in
        if a = CHR ''@'' \<and> b = CHR ''['' \<and> n \<noteq> [] \<and> r \<noteq> [] then Some (n, tl r) else None
      | _ \<Rightarrow> None)"

fun next_mention :: "string \<Rightarrow> (string \<times> string \<times> string) option" where
  "next_mention [] = None"
| "next_mention (c # s) =
     (case mention_at (c # s) of Some (n, r) \<Rightarrow> Some ([], n, r)
      | None \<Rightarrow> map_option (\<lambda>(b, n, r). (c # b, n, r)) (next_mention s))"

definition mention_text :: "string \<Rightarrow> string" where
  "mention_text n = ''@['' @ n @ '']''"

lemma mention_at_Some: "mention_at s = Some (n, r) \<Longrightarrow> s = mention_text n @ r \<and> n \<noteq> []"
proof -
  assume m: "mention_at s = Some (n, r)"
  then obtain t where t: "s = CHR ''@'' # CHR ''['' # t" "n = takeWhile (\<lambda>c. c \<noteq> CHR '']'') t" "n \<noteq> []"
    "dropWhile (\<lambda>c. c \<noteq> CHR '']'') t \<noteq> []" "r = tl (dropWhile (\<lambda>c. c \<noteq> CHR '']'') t)"
    by (auto simp: mention_at_def Let_def split: list.splits if_splits)
  have "dropWhile (\<lambda>c. c \<noteq> CHR '']'') t = CHR '']'' # r"
    using t(4,5) hd_dropWhile [OF t(4)] by (cases "dropWhile (\<lambda>c. c \<noteq> CHR '']'') t") auto
  then have "t = n @ CHR '']'' # r"
    using takeWhile_dropWhile_id [of "\<lambda>c. c \<noteq> CHR '']''" t] t(2) by simp
  with t(1,3) show ?thesis by (simp add: mention_text_def)
qed

lemma next_mention_Some: "next_mention s = Some (b, n, r) \<Longrightarrow> s = b @ mention_text n @ r \<and> n \<noteq> []"
proof (induction s arbitrary: b)
  case Nil
  then show ?case by simp
next
  case (Cons c s)
  then show ?case by (fastforce split: option.splits prod.splits dest: mention_at_Some)
qed

text \<open>\<open>finditer\<close>: the matches, each with the text before it, and the text after the last.\<close>

function find_mentions :: "string \<Rightarrow> (string \<times> string) list \<times> string" where
  "find_mentions s =
     (case next_mention s of None \<Rightarrow> ([], s)
      | Some (b, n, r) \<Rightarrow> (case find_mentions r of (ms, t) \<Rightarrow> ((b, n) # ms, t)))"
  by pat_completeness auto
termination
  by (relation "measure length") (auto dest!: next_mention_Some simp: mention_text_def)

declare find_mentions.simps [simp del]

definition legacy_mention_names :: "string \<Rightarrow> string list" where
  "legacy_mention_names s = dedupe (map (py_lower \<circ> snd) (fst (find_mentions s)))"

fun append_text :: "segment list \<Rightarrow> string \<Rightarrow> segment list" where
  "append_text segs t =
     (if t = [] then segs
      else case (segs, last segs) of
        (_ # _, SegText u) \<Rightarrow> butlast segs @ [SegText (u @ t)]
      | _ \<Rightarrow> segs @ [SegText t])"

declare append_text.simps [simp del]

definition parse_step ::
    "(string \<rightharpoonup> string \<times> string) \<Rightarrow> segment list \<Rightarrow> string \<times> string \<Rightarrow> segment list" where
  "parse_step f segs m =
     (let segs1 = append_text segs (fst m) in
      case f (py_lower (snd m)) of
        Some (uid, canonical) \<Rightarrow> segs1 @ [SegMention uid canonical]
      | None \<Rightarrow> append_text segs1 (mention_text (snd m)))"

definition parse_message_to_segments :: "string \<Rightarrow> (string \<rightharpoonup> string \<times> string) \<Rightarrow> segment list" where
  "parse_message_to_segments s f =
     (case find_mentions s of (ms, t) \<Rightarrow> append_text (foldl (parse_step f) [] ms) t)"

fun segment_text :: "segment \<Rightarrow> string" where
  "segment_text (SegText t) = t"
| "segment_text (SegMention uid n) = mention_text n"

definition segments_to_message :: "segment list \<Rightarrow> string" where
  "segments_to_message segs = concat (map segment_text segs)"

definition segments_to_display_text :: "segment list \<Rightarrow> (string \<rightharpoonup> string) \<Rightarrow> string" where
  "segments_to_display_text segs names =
     concat (map (\<lambda>s. case s of SegText t \<Rightarrow> t
       | SegMention uid n \<Rightarrow> CHR ''@'' # (case names uid of None \<Rightarrow> n | Some d \<Rightarrow> d)) segs)"

fun mention_id :: "segment \<Rightarrow> string list" where
  "mention_id (SegText t) = []"
| "mention_id (SegMention uid n) = (if uid = [] then [] else [uid])"

definition mention_user_ids :: "segment list option \<Rightarrow> string list" where
  "mention_user_ids segs = (case segs of None \<Rightarrow> [] | Some ss \<Rightarrow> dedupe (concat (map mention_id ss)))"

text \<open>An enriched mention also carries the current display name.\<close>

datatype enriched = EnrText string | EnrMention string string string

definition enrich_segments :: "segment list option \<Rightarrow> (string \<rightharpoonup> string) \<Rightarrow> enriched list option" where
  "enrich_segments segs names =
     map_option (map (\<lambda>s. case s of SegText t \<Rightarrow> EnrText t
       | SegMention uid n \<Rightarrow> EnrMention uid n (case names uid of None \<Rightarrow> n | Some d \<Rightarrow> d))) segs"

section \<open>Lemmas\<close>

lemma message_append_text [simp]:
  "segments_to_message (append_text segs t) = segments_to_message segs @ t"
proof (cases segs rule: rev_cases)
  case Nil
  then show ?thesis by (simp add: append_text.simps segments_to_message_def)
next
  case (snoc ys y)
  then show ?thesis
    by (cases ys; cases y) (simp_all add: append_text.simps segments_to_message_def)
qed

lemma message_snoc [simp]: "segments_to_message (segs @ [s]) = segments_to_message segs @ segment_text s"
  by (simp add: segments_to_message_def)

lemma py_lower_simps [simp]: "py_lower [] = []" "py_lower (c # s) = lower_char c # py_lower s"
  by (simp_all add: py_lower_def)

lemma py_lower_append [simp]: "py_lower (a @ b) = py_lower a @ py_lower b"
  by (simp add: py_lower_def)

definition unparse :: "(string \<times> string) list \<times> string \<Rightarrow> string" where
  "unparse p = concat (map (\<lambda>(b, n). b @ mention_text n) (fst p)) @ snd p"

lemma unparse_find_mentions: "unparse (find_mentions s) = s"
proof (induction s rule: find_mentions.induct)
  case (1 s)
  show ?case
  proof (cases "next_mention s")
    case None
    then show ?thesis by (subst find_mentions.simps) (simp add: unparse_def)
  next
    case (Some a)
    then obtain b n r where a: "next_mention s = Some (b, n, r)" by (cases a) simp
    from 1 [OF a refl refl] have "unparse (find_mentions r) = r" .
    then have "unparse (find_mentions s) = b @ mention_text n @ r"
      by (subst find_mentions.simps) (auto simp: a unparse_def split: prod.splits)
    with next_mention_Some [OF a] show ?thesis by simp
  qed
qed

definition name_ok :: "(string \<rightharpoonup> string \<times> string) \<Rightarrow> bool" where
  "name_ok f \<longleftrightarrow> (\<forall>k uid n. f k = Some (uid, n) \<longrightarrow> py_lower n = k)"

lemma lower_parse_step:
  assumes "name_ok f"
  shows "py_lower (segments_to_message (parse_step f segs m)) =
    py_lower (segments_to_message segs @ fst m @ mention_text (snd m))"
  using assms
  by (auto simp: parse_step_def Let_def mention_text_def name_ok_def split: option.splits)

lemma lower_parse_fold:
  assumes "name_ok f"
  shows "py_lower (segments_to_message (foldl (parse_step f) segs ms)) =
    py_lower (segments_to_message segs @ concat (map (\<lambda>(b, n). b @ mention_text n) ms))"
  by (induction ms arbitrary: segs) (simp_all add: lower_parse_step [OF assms] split: prod.splits)

lemma exact_parse_fold:
  assumes "\<And>b n uid c. (b, n) \<in> set ms \<Longrightarrow> f (py_lower n) = Some (uid, c) \<Longrightarrow> c = n"
  shows "segments_to_message (foldl (parse_step f) segs ms) =
    segments_to_message segs @ concat (map (\<lambda>(b, n). b @ mention_text n) ms)"
  using assms
proof (induction ms arbitrary: segs)
  case Nil
  then show ?case by simp
next
  case (Cons m ms)
  have "segments_to_message (parse_step f segs m) = segments_to_message segs @ fst m @ mention_text (snd m)"
    using Cons.prems [of "fst m" "snd m"] by (auto simp: parse_step_def Let_def split: option.splits)
  moreover have "segments_to_message (foldl (parse_step f) (parse_step f segs m) ms) =
      segments_to_message (parse_step f segs m) @ concat (map (\<lambda>(b, n). b @ mention_text n) ms)"
    by (rule Cons.IH) (use Cons.prems in auto)
  ultimately show ?case by (simp split: prod.split)
qed

text \<open>No empty text and no two texts in a row.\<close>

fun minimal :: "segment list \<Rightarrow> bool" where
  "minimal [] = True"
| "minimal [SegText t] = (t \<noteq> [])"
| "minimal (SegText t # SegText u # r) = False"
| "minimal (SegText t # r) = (t \<noteq> [] \<and> minimal r)"
| "minimal (SegMention u n # r) = minimal r"

lemma minimal_snoc_mention: "minimal segs \<Longrightarrow> minimal (segs @ [SegMention u n])"
  by (induction segs rule: minimal.induct) auto

lemma minimal_append_text: "minimal segs \<Longrightarrow> minimal (append_text segs t)"
proof (induction segs rule: minimal.induct)
  case (4 u v w r)
  then show ?case by (cases r) (auto simp: append_text.simps split: segment.splits)
next
  case (5 u n r)
  then show ?case by (cases r) (auto simp: append_text.simps split: segment.splits)
qed (auto simp: append_text.simps)

lemma minimal_parse: "minimal (parse_message_to_segments s f)"
proof -
  have "minimal (foldl (parse_step f) segs ms)" if "minimal segs" for segs ms
    using that
    by (induction ms arbitrary: segs)
      (auto simp: parse_step_def Let_def minimal_append_text minimal_snoc_mention split: option.splits)
  then show ?thesis by (auto simp: parse_message_to_segments_def minimal_append_text split: prod.splits)
qed

lemma lower_parse_message:
  assumes "name_ok f"
  shows "py_lower (segments_to_message (parse_message_to_segments s f)) = py_lower s"
proof -
  obtain ms t where p: "find_mentions s = (ms, t)" by fastforce
  then have s: "concat (map (\<lambda>(b, n). b @ mention_text n) ms) @ t = s"
    using unparse_find_mentions [of s] by (simp add: unparse_def)
  have "py_lower (segments_to_message (parse_message_to_segments s f)) =
      py_lower (concat (map (\<lambda>(b, n). b @ mention_text n) ms)) @ py_lower t"
    using lower_parse_fold [OF assms, of "[]" ms] p
    by (simp add: parse_message_to_segments_def segments_to_message_def [of "[]"])
  also have "\<dots> = py_lower s" unfolding py_lower_append [symmetric] s ..
  finally show ?thesis .
qed

section \<open>Properties\<close>

text \<open>C39: Parsing a message and rendering its segments gives the message back up to the case of the names,
  and exactly when every resolved name is written as the user's own; the segments are minimal: no empty
  text and no two texts next to each other.\<close>

theorem message_roundtrip:
  assumes "name_ok f"
  shows "py_lower (segments_to_message (parse_message_to_segments s f)) = py_lower s \<and>
    minimal (parse_message_to_segments s f) \<and>
    ((\<forall>b n uid c. (b, n) \<in> set (fst (find_mentions s)) \<longrightarrow> f (py_lower n) = Some (uid, c) \<longrightarrow> c = n) \<longrightarrow>
       segments_to_message (parse_message_to_segments s f) = s)"
proof (intro conjI impI)
  obtain ms t where p: "find_mentions s = (ms, t)" by fastforce
  then have s: "concat (map (\<lambda>(b, n). b @ mention_text n) ms) @ t = s"
    using unparse_find_mentions [of s] by (simp add: unparse_def)
  have e: "segments_to_message [] = []" by (simp add: segments_to_message_def)
  show "py_lower (segments_to_message (parse_message_to_segments s f)) = py_lower s"
    by (rule lower_parse_message [OF assms])
  show "minimal (parse_message_to_segments s f)" by (rule minimal_parse)
  assume "\<forall>b n uid c. (b, n) \<in> set (fst (find_mentions s)) \<longrightarrow> f (py_lower n) = Some (uid, c) \<longrightarrow> c = n"
  then have "segments_to_message (foldl (parse_step f) [] ms) = concat (map (\<lambda>(b, n). b @ mention_text n) ms)"
    using p by (subst exact_parse_fold) (auto simp: e)
  with p s show "segments_to_message (parse_message_to_segments s f) = s"
    by (simp add: parse_message_to_segments_def)
qed

definition ex_names :: "string \<rightharpoonup> string \<times> string" where
  "ex_names = [''ann'' \<mapsto> (''u1'', ''Ann'')]"

theorem message_roundtrip_witness:
  "py_lower (segments_to_message (parse_message_to_segments ''hi @[ANN], @[bob]'' ex_names)) =
     py_lower ''hi @[ANN], @[bob]''"
proof -
  have "py_lower ''Ann'' = ''ann''" by code_simp
  then have "name_ok ex_names" by (simp add: name_ok_def ex_names_def)
  from message_roundtrip [OF this] show ?thesis by blast
qed

end
