(* ===== verification/Notifications.thy ===== *)
theory Notifications
  imports CommentContent
begin

text \<open>
  In-app notifications and their preferences: \<open>app/notifications/preferences.py\<close> and
  \<open>app/notifications/service.py\<close>. \<open>create_notification\<close> writes the row unless the user turned the
  category off, and queues the message key for the daily email if the user opted in. Every
  \<open>notify_*\<close> function is a loop of it. The stored rendering is not kept, only whether the key is known.
  Foreign keys are taken to hold. \<open>valid_email\<close> stands for the library that validates addresses.
  The locale \<open>quiet\<close> is what every caller relies on: notifying changes no other table.
\<close>

section \<open>Preferences\<close>

record category =
  cat_types :: "notif_type list"
  cat_in_app :: "bool option"
  cat_email :: "bool option"

definition categories :: "(string \<times> category) list" where
  "categories =
     [(''risk_acceptance'', \<lparr>cat_types = [NRiskComment, NRiskApproved, NRiskRejected, NRiskExpiring],
         cat_in_app = Some True, cat_email = Some True\<rparr>),
      (''remediation'', \<lparr>cat_types = [NRemediationCreated, NRemediationStatus, NRemediationOverdue],
         cat_in_app = Some True, cat_email = Some False\<rparr>),
      (''risk_acceptance_updates'', \<lparr>cat_types = [], cat_in_app = None, cat_email = Some False\<rparr>),
      (''suppression'', \<lparr>cat_types = [NSuppressionRequested, NSuppressionApproved, NSuppressionRejected],
         cat_in_app = Some True, cat_email = Some False\<rparr>),
      (''priority'', \<lparr>cat_types = [NNewPriority], cat_in_app = Some True, cat_email = Some False\<rparr>),
      (''new_critical_cve'', \<lparr>cat_types = [NNewCriticalCve], cat_in_app = Some True, cat_email = Some False\<rparr>),
      (''escalation'', \<lparr>cat_types = [NEscalation], cat_in_app = Some True, cat_email = Some False\<rparr>),
      (''cve_subscription'', \<lparr>cat_types = [NCveSubscription], cat_in_app = Some True, cat_email = Some False\<rparr>),
      (''team_digest'', \<lparr>cat_types = [], cat_in_app = None, cat_email = Some False\<rparr>),
      (''alert_email_critical'', \<lparr>cat_types = [], cat_in_app = None, cat_email = Some False\<rparr>)]"

definition email_summary_keys :: "string \<rightharpoonup> string" where
  "email_summary_keys = map_of
     [(''remediation_created'', ''remediation''), (''remediation_assigned'', ''remediation''),
      (''remediation_status'', ''remediation''), (''remediation_target_date_changed'', ''remediation''),
      (''suppression_requested'', ''suppression''), (''suppression_status'', ''suppression''),
      (''escalation'', ''escalation''), (''risk_reviewer_assigned'', ''risk_acceptance_updates''),
      (''risk_comment_sec_team'', ''risk_acceptance_updates'')]"

definition category_for_type :: "notif_type \<Rightarrow> string option" where
  "category_for_type t =
     map_of (rev (concat (map (\<lambda>(n, c). map (\<lambda>ty. (ty, n)) (cat_types c)) categories))) t"

record effective_preference =
  ep_category :: string
  ep_in_app :: "bool option"
  ep_email :: "bool option"

definition stored_preference :: "app_db \<Rightarrow> string \<Rightarrow> string \<Rightarrow> notif_pref option" where
  "stored_preference db uid cat =
     (case filter (\<lambda>p. np_user p = uid \<and> np_category p = cat) (notif_prefs db) of
        [] \<Rightarrow> None | p # _ \<Rightarrow> Some p)"

definition effective :: "string \<Rightarrow> notif_pref option \<Rightarrow> effective_preference result" where
  "effective cat stored =
     (case map_of categories cat of None \<Rightarrow> Inl (ServerError ''KeyError'')
      | Some c \<Rightarrow> Inr
          (let pick = (\<lambda>d v. case stored of None \<Rightarrow> d | Some s \<Rightarrow> if d = None then None else Some (v s)) in
           \<lparr>ep_category = cat, ep_in_app = pick (cat_in_app c) np_in_app,
            ep_email = pick (cat_email c) np_email\<rparr>))"

definition get_preferences :: "app_db \<Rightarrow> string \<Rightarrow> effective_preference list result" where
  "get_preferences db uid = traverse (\<lambda>(n, c). effective n (stored_preference db uid n)) categories"

definition wants :: "app_db \<Rightarrow> string \<Rightarrow> string \<Rightarrow> bool \<Rightarrow> bool result" where
  "wants db uid cat by_email =
     rbind (effective cat (stored_preference db uid cat)) (\<lambda>e.
       Inr ((if by_email then ep_email e else ep_in_app e) = Some True))"

definition set_preference :: "string \<Rightarrow> effective_preference \<Rightarrow> app_db \<Rightarrow> app_db result" where
  "set_preference uid up db =
     (case map_of categories (ep_category up) of None \<Rightarrow> Inl (ServerError ''KeyError'')
      | Some c \<Rightarrow>
          rbind (effective (ep_category up) (stored_preference db uid (ep_category up))) (\<lambda>cur.
            let in_app = (if cat_in_app c \<noteq> None \<and> ep_in_app up \<noteq> None then ep_in_app up else ep_in_app cur);
                mail = (if cat_email c \<noteq> None \<and> ep_email up \<noteq> None then ep_email up else ep_email cur);
                row = \<lparr>np_user = uid, np_category = ep_category up, np_in_app = (in_app = Some True),
                       np_email = (mail = Some True)\<rparr>;
                others = filter (\<lambda>p. \<not> (np_user p = uid \<and> np_category p = ep_category up)) (notif_prefs db)
            in Inr (db\<lparr>notif_prefs := others @ [row]\<rparr>)))"

fun set_preferences :: "string \<Rightarrow> effective_preference list \<Rightarrow> app_db \<Rightarrow> app_db result" where
  "set_preferences uid [] db = Inr db"
| "set_preferences uid (u # us) db = rbind (set_preference uid u db) (set_preferences uid us)"

section \<open>Creating a notification\<close>

definition message_keys :: "string list" where
  "message_keys = [''risk_comment'', ''risk_comment_sec_team'', ''risk_status'', ''risk_expiring'',
     ''risk_reviewer_assigned'', ''new_priority'', ''escalation'', ''remediation_created'',
     ''remediation_assigned'', ''remediation_status'', ''remediation_target_date_changed'',
     ''remediation_overdue'', ''suppression_requested'', ''suppression_status'', ''new_relevant_cve'',
     ''team_cve_alert_summary'', ''team_priority_alert_summary'', ''cve_prioritized_team'', ''mention'',
     ''subscription.comment'', ''subscription.priority_set'', ''subscription.priority_changed'',
     ''subscription.priority_removed'', ''subscription.risk_acceptance'', ''subscription.remediation'',
     ''subscription.escalation'', ''subscription.scores_changed'', ''subscription.fix_available'',
     ''subscription.new_images'', ''subscription.no_longer_affected'', ''subscription.summary'']"

definition queue_email :: "string \<Rightarrow> string \<Rightarrow> app_db \<Rightarrow> app_db" where
  "queue_email uid key db =
     (let (i, db1) = fresh_id db in
      db1\<lparr>email_events := email_events db1 @
        [\<lparr>ne_id = i, ne_user = uid, ne_key = key, ne_created = db_now db\<rparr>]\<rparr>)"

definition wants_email :: "app_db \<Rightarrow> string \<Rightarrow> string \<Rightarrow> bool result" where
  "wants_email db uid key =
     (case email_summary_keys key of None \<Rightarrow> Inr False | Some cat \<Rightarrow> wants db uid cat True)"

definition wants_in_app :: "app_db \<Rightarrow> string \<Rightarrow> notif_type \<Rightarrow> bool result" where
  "wants_in_app db uid t =
     (case category_for_type t of None \<Rightarrow> Inr True | Some cat \<Rightarrow> wants db uid cat False)"

definition create_notification ::
    "string \<Rightarrow> notif_type \<Rightarrow> string \<Rightarrow> (string \<times> string) list \<Rightarrow> string option \<Rightarrow> pair list option \<Rightarrow>
     app_db \<Rightarrow> app_db result" where
  "create_notification uid t key params link scope db =
     rbind (wants_email db uid key) (\<lambda>mail.
       let db1 = (if mail then queue_email uid key db else db) in
       rbind (wants_in_app db1 uid t) (\<lambda>app.
         if \<not> app then Inr db1
         else if key \<notin> set message_keys then Inl (ServerError ''ValueError'')
         else let (i, db2) = fresh_id db1 in
           Inr (db2\<lparr>notifs := notifs db2 @ [\<lparr>nt_id = i, nt_user = uid, nt_type = t, nt_key = key,
             nt_params = params, nt_scope = scope, nt_link = link, nt_read = False, nt_created = db_now db2\<rparr>]\<rparr>)))"

text \<open>A loop over recipients or rows whose body may raise.\<close>

fun notify_all :: "'a list \<Rightarrow> ('a \<Rightarrow> app_db \<Rightarrow> app_db result) \<Rightarrow> app_db \<Rightarrow> app_db result" where
  "notify_all [] f db = Inr db"
| "notify_all (u # us) f db = rbind (f u db) (notify_all us f)"

text \<open>
  The contract of a job that visits rows of a table and rewrites the row it visits: \<open>key\<close> identifies a
  row and \<open>g\<close> is what the visit makes of it. The loop then rewrites exactly the visited rows.
\<close>

locale row_loop =
  fixes tab :: "app_db \<Rightarrow> 'r list" and key :: "'r \<Rightarrow> nat" and g :: "'r \<Rightarrow> 'r"
    and visit :: "'r \<Rightarrow> app_db \<Rightarrow> app_db result" and inv :: "app_db \<Rightarrow> bool"
  assumes visit: "inv db \<Longrightarrow> distinct (map key (tab db)) \<Longrightarrow> r \<in> set (tab db) \<Longrightarrow> visit r db = Inr db' \<Longrightarrow>
      tab db' = map (\<lambda>x. if x = r then g r else x) (tab db) \<and> inv db' \<and> next_id db \<le> next_id db'"
    and key_g: "key (g r) = key r"
begin

lemma loop:
  assumes "notify_all rs visit db = Inr db'" and "inv db" and "distinct (map key (tab db))"
    and "set rs \<subseteq> set (tab db)" and "distinct rs"
  shows "tab db' = map (\<lambda>r. if r \<in> set rs then g r else r) (tab db) \<and> inv db' \<and> next_id db \<le> next_id db'"
  using assms
proof (induction rs arbitrary: db)
  case Nil
  then show ?case by simp
next
  case (Cons r rs)
  from Cons.prems obtain m where m: "visit r db = Inr m" and rest: "notify_all rs visit m = Inr db'"
    by (auto simp: rbind_Inr_iff)
  have f: "tab m = map (\<lambda>x. if x = r then g r else x) (tab db) \<and> inv m \<and> next_id db \<le> next_id m"
    using visit [OF Cons.prems(2,3) _ m] Cons.prems(4) by simp
  then have ids: "map key (tab m) = map key (tab db)" by (auto simp: key_g)
  have sub: "set rs \<subseteq> set (tab m)" using Cons.prems(4,5) f by (auto simp: image_iff)
  have 1: "tab db' = map (\<lambda>r. if r \<in> set rs then g r else r) (tab m) \<and> inv db' \<and> next_id m \<le> next_id db'"
  proof (rule Cons.IH [OF rest])
    show "distinct (map key (tab m))" unfolding ids by (rule Cons.prems(3))
  qed (use f sub Cons.prems(5) in simp_all)
  have "x = r" if "x \<in> set (tab db)" "key x = key r" for x
    using Cons.prems(3,4) that by (auto simp: distinct_map dest: inj_onD)
  then have "g r \<notin> set rs \<or> g r = r" using Cons.prems(4) key_g [of r] by auto
  with 1 f Cons.prems(5) show ?case by auto
qed

end

definition ra_link :: "risk_acceptance \<Rightarrow> string" where
  "ra_link ra = ''/risk-acceptances/'' @ id_str (ra_id ra)"

definition sec_team_ids :: "app_db \<Rightarrow> string list" where
  "sec_team_ids db = map user_id (sec_team_users db)"

definition notify_risk_comment ::
    "risk_acceptance \<Rightarrow> user \<Rightarrow> string list \<Rightarrow> app_db \<Rightarrow> app_db result" where
  "notify_risk_comment ra author excluded db =
     (let params = [(''cve_id'', ra_cve ra), (''author'', user_display_name author)] in
      if role author = TeamMember
      then notify_all (filter (\<lambda>u. u \<notin> set excluded) (sec_team_ids db))
             (\<lambda>u. create_notification u NRiskComment ''risk_comment_sec_team'' params (Some (ra_link ra)) None) db
      else if ra_created_by ra \<noteq> user_id author \<and> ra_created_by ra \<notin> set excluded
        then create_notification (ra_created_by ra) NRiskComment ''risk_comment'' params (Some (ra_link ra)) None db
      else Inr db)"

definition notify_risk_status_change :: "risk_acceptance \<Rightarrow> app_db \<Rightarrow> app_db result" where
  "notify_risk_status_change ra =
     create_notification (ra_created_by ra)
       (if ra_status ra = RiskApproved then NRiskApproved else NRiskRejected) ''risk_status''
       [(''cve_id'', ra_cve ra), (''status'', risk_status_value (ra_status ra))] (Some (ra_link ra)) None"

definition risk_expiring_sent :: "risk_acceptance \<Rightarrow> app_db \<Rightarrow> bool" where
  "risk_expiring_sent ra db =
     list_ex (\<lambda>n. nt_user n = ra_created_by ra \<and> nt_type n = NRiskExpiring \<and> nt_link n = Some (ra_link ra))
       (notifs db)"

definition notify_risk_expiring :: "risk_acceptance \<Rightarrow> app_db \<Rightarrow> app_db result" where
  "notify_risk_expiring ra db =
     (if risk_expiring_sent ra db then Inr db
      else create_notification (ra_created_by ra) NRiskExpiring ''risk_expiring''
        [(''cve_id'', ra_cve ra)] (Some (ra_link ra)) None db)"

definition notify_new_priority :: "string \<Rightarrow> string \<Rightarrow> app_db \<Rightarrow> app_db result" where
  "notify_new_priority cve lvl db =
     notify_all (sec_team_ids db) (\<lambda>u. create_notification u NNewPriority ''new_priority''
       [(''cve_id'', cve), (''priority_level'', lvl)] (Some ''/priorities'') None) db"

definition int_str :: "int \<Rightarrow> string" where
  "int_str i = (if i < 0 then CHR ''-'' # digits_of (nat (- i)) else digits_of (nat i))"

definition notify_escalation :: "string \<Rightarrow> string \<Rightarrow> string \<Rightarrow> int \<Rightarrow> app_db \<Rightarrow> app_db result" where
  "notify_escalation cve ns cl lvl db =
     notify_all (sec_team_ids db) (\<lambda>u. create_notification u NEscalation ''escalation''
       [(''cve_id'', cve), (''namespace'', ns), (''cluster_name'', cl), (''level'', int_str lvl)]
       (Some (''/vulnerabilities/'' @ cve)) None) db"

definition remediation_params :: "remediation \<Rightarrow> string \<Rightarrow> (string \<times> string) list" where
  "remediation_params r actor = [(''cve_id'', rem_cve r), (''namespace'', rem_namespace r),
     (''cluster_name'', rem_cluster r), (''actor'', actor)]"

text \<open>The actor is given by id and display name.\<close>

definition notify_remediation_created :: "remediation \<Rightarrow> string \<Rightarrow> string \<Rightarrow> app_db \<Rightarrow> app_db result" where
  "notify_remediation_created r actor aname db =
     (case rem_assigned_to r of
        Some a \<Rightarrow> if a \<noteq> [] \<and> a \<noteq> actor
          then create_notification a NRemediationCreated ''remediation_created'' (remediation_params r aname)
                 (Some ''/remediations'') None db
          else Inr db
      | None \<Rightarrow> Inr db)"

definition notify_remediation_assigned ::
    "remediation \<Rightarrow> string \<Rightarrow> string \<Rightarrow> string \<Rightarrow> app_db \<Rightarrow> app_db result" where
  "notify_remediation_assigned r actor aname assignee db =
     (if assignee = actor then Inr db
      else create_notification assignee NRemediationCreated ''remediation_assigned''
        (remediation_params r aname) (Some ''/remediations?mine=1'') None db)"

definition remediation_recipients :: "remediation \<Rightarrow> string list" where
  "remediation_recipients r =
     dedupe (rem_created_by r # (if truthy (rem_assigned_to r) then [the (rem_assigned_to r)] else []))"

definition notify_remediation_status_change ::
    "remediation \<Rightarrow> string \<Rightarrow> string \<Rightarrow> rem_status \<Rightarrow> app_db \<Rightarrow> app_db result" where
  "notify_remediation_status_change r actor aname new_status =
     notify_all (filter (\<lambda>u. u \<noteq> actor) (remediation_recipients r))
       (\<lambda>u. create_notification u NRemediationStatus ''remediation_status''
          (remediation_params r aname @ [(''status'', rem_status_value new_status)]) (Some ''/remediations'') None)"

definition notify_remediation_target_date_changed ::
    "(date \<Rightarrow> string) \<Rightarrow> remediation \<Rightarrow> string \<Rightarrow> string \<Rightarrow> date option \<Rightarrow> date option \<Rightarrow> string list \<Rightarrow>
     app_db \<Rightarrow> app_db result" where
  "notify_remediation_target_date_changed fmt r actor aname old new excluded =
     (let show_date = (\<lambda>d. case d of None \<Rightarrow> ''-'' | Some t \<Rightarrow> fmt t) in
      notify_all (filter (\<lambda>u. u \<noteq> actor \<and> u \<notin> set excluded) (remediation_recipients r))
        (\<lambda>u. create_notification u NRemediationStatus ''remediation_target_date_changed''
           (remediation_params r aname @ [(''old_date'', show_date old), (''new_date'', show_date new)])
           (Some ''/remediations'') None))"

definition notify_remediation_overdue :: "remediation \<Rightarrow> app_db \<Rightarrow> app_db result" where
  "notify_remediation_overdue r =
     notify_all (remediation_recipients r)
       (\<lambda>u. create_notification u NRemediationOverdue ''remediation_overdue''
          [(''cve_id'', rem_cve r), (''namespace'', rem_namespace r), (''cluster_name'', rem_cluster r)]
          (Some ''/remediations'') None)"

definition suppression_target :: "supp_rule \<Rightarrow> string" where
  "suppression_target r =
     (if truthy (sr_cve r) then the (sr_cve r) else case sr_component r of None \<Rightarrow> ''None'' | Some c \<Rightarrow> c)"

definition notify_suppression_requested :: "supp_rule \<Rightarrow> string \<Rightarrow> string \<Rightarrow> app_db \<Rightarrow> app_db result" where
  "notify_suppression_requested r creator cname db =
     notify_all (filter (\<lambda>u. u \<noteq> creator) (sec_team_ids db))
       (\<lambda>u. create_notification u NSuppressionRequested ''suppression_requested''
          [(''target'', suppression_target r), (''actor'', cname)] (Some ''/suppression-rules'') None) db"

definition notify_suppression_status_change :: "supp_rule \<Rightarrow> string \<Rightarrow> app_db \<Rightarrow> app_db result" where
  "notify_suppression_status_change r reviewer db =
     (if sr_created_by r \<noteq> reviewer
      then create_notification (sr_created_by r)
        (if sr_status r = SuppApproved then NSuppressionApproved else NSuppressionRejected)
        ''suppression_status''
        [(''target'', suppression_target r), (''status'', supp_status_value (sr_status r))]
        (Some ''/suppression-rules'') None db
      else Inr db)"

section \<open>Mentions\<close>

definition max_mention_recipients :: nat where "max_mention_recipients = 20"

record mention_email =
  me_to :: string
  me_recipient :: string
  me_author :: string
  me_context :: string
  me_link :: string

definition emit_mentions ::
    "(string \<Rightarrow> string option) \<Rightarrow> user list \<Rightarrow> user \<Rightarrow> string \<Rightarrow> string \<Rightarrow> app_db \<Rightarrow>
     (app_db \<times> string list \<times> mention_email list) result" where
  "emit_mentions valid_email us author link ctx db =
     rbind (notify_all (map user_id us) (\<lambda>u. create_notification u NMention ''mention''
              [(''author'', user_display_name author)] (Some link) None) db)
       (\<lambda>db1. Inr (db1, map user_id us,
          [\<lparr>me_to = a, me_recipient = user_id u, me_author = user_display_name author, me_context = ctx,
            me_link = link\<rparr>. u \<leftarrow> us, a \<leftarrow> opt_list (valid_email (email u))]))"

fun dedupe_users :: "string list \<Rightarrow> user list \<Rightarrow> user list" where
  "dedupe_users seen [] = []"
| "dedupe_users seen (u # us) =
     (if user_id u \<in> set seen then dedupe_users seen us
      else u # dedupe_users (user_id u # seen) us)"

definition notify_mention_users ::
    "(string \<Rightarrow> string option) \<Rightarrow> user list \<Rightarrow> user \<Rightarrow> string \<Rightarrow> string \<Rightarrow> string list \<Rightarrow> app_db \<Rightarrow>
     (app_db \<times> string list \<times> mention_email list) result" where
  "notify_mention_users valid_email recipients author link ctx previous db =
     (let resolved = dedupe_users [user_id author] recipients in
      if max_mention_recipients < length resolved then Inl (ApiError 400 ''too_many_mentions'')
      else let fresh = filter (\<lambda>u. user_id u \<notin> set previous) resolved in
        if fresh = [] then Inr (db, [], []) else emit_mentions valid_email fresh author link ctx db)"

definition notify_mentions ::
    "(string \<Rightarrow> string option) \<Rightarrow> string \<Rightarrow> user \<Rightarrow> string \<Rightarrow> string \<Rightarrow> string option \<Rightarrow> app_db \<Rightarrow>
     (app_db \<times> string list \<times> mention_email list) result" where
  "notify_mentions valid_email message author link ctx previous db =
     (let names = legacy_mention_names message in
      if names = [] then Inr (db, [], [])
      else let found = sort_key (\<lambda>u. (py_lower (username u), user_id u))
                 (filter (\<lambda>u. py_lower (username u) \<in> set names) (users db));
               resolved = filter (\<lambda>u. user_id u \<noteq> user_id author) found in
        if max_mention_recipients < length resolved then Inl (ApiError 400 ''too_many_mentions'')
        else let old = (case previous of None \<Rightarrow> [] | Some m \<Rightarrow> legacy_mention_names m);
                 fresh = filter (\<lambda>u. py_lower (username u) \<notin> set old) resolved in
          if fresh = [] then Inr (db, [], []) else emit_mentions valid_email fresh author link ctx db)"

section \<open>What notifying leaves alone\<close>

definition core :: "app_db \<Rightarrow> app_db" where
  "core db = db\<lparr>notifs := [], email_events := [], next_id := 0\<rparr>"

lemma core_eqD:
  assumes "core a = core b"
  shows "users a = users b" "ras a = ras b" "ra_comments a = ra_comments b" "rems a = rems b"
    "rules a = rules b" "prios a = prios b" "escs a = escs b" "warnings a = warnings b"
    "contacts a = contacts b" "gsettings a = gsettings b" "notif_prefs a = notif_prefs b"
    "subs a = subs b" "sub_events a = sub_events b" "sub_deliveries a = sub_deliveries b"
    "snapshots a = snapshots b" "audit a = audit b" "db_now a = db_now b"
    "cve_comments a = cve_comments b" "alert_marks a = alert_marks b" "alert_deliveries a = alert_deliveries b"
    "summary_deliveries a = summary_deliveries b" "badges a = badges b" "cve_snapshots a = cve_snapshots b"
  using assms by (cases a; cases b; simp add: core_def)+

locale quiet =
  fixes f :: "app_db \<Rightarrow> app_db result"
  assumes frame: "f db = Inr db' \<Longrightarrow> core db' = core db"
    and grows: "f db = Inr db' \<Longrightarrow> prefix (notifs db) (notifs db') \<and> next_id db \<le> next_id db'"
begin

lemmas unchanged = core_eqD [OF frame]

lemma keeps_notifs: "f db = Inr db' \<Longrightarrow> n \<in> set (notifs db) \<Longrightarrow> n \<in> set (notifs db')"
  using grows by (blast dest: set_mono_prefix)

end

lemma quiet_Inr: "quiet Inr"
  by unfold_locales auto

lemma quiet_bind:
  assumes "quiet f" and "\<And>db. quiet (g db)"
  shows "quiet (\<lambda>db. rbind (f db) (g db))"
proof
  fix db db' assume "rbind (f db) (g db) = Inr db'"
  then obtain m where m: "f db = Inr m" "g db m = Inr db'" by (auto simp: rbind_Inr_iff)
  show "core db' = core db"
    using quiet.frame [OF assms(1) m(1)] quiet.frame [OF assms(2) m(2)] by simp
  show "prefix (notifs db) (notifs db') \<and> next_id db \<le> next_id db'"
    using quiet.grows [OF assms(1) m(1)] quiet.grows [OF assms(2) m(2)] by (auto intro: prefix_order.trans)
qed

lemma quiet_notify_all: "(\<And>u. quiet (f u)) \<Longrightarrow> quiet (notify_all us f)"
proof (induction us)
  case Nil
  then show ?case using quiet_Inr by (simp add: fun_eq_iff quiet_def)
next
  case (Cons u us)
  have "notify_all (u # us) f = (\<lambda>db. rbind (f u db) (notify_all us f))" by (simp add: fun_eq_iff)
  with quiet_bind [of "f u" "\<lambda>_. notify_all us f"] Cons show ?case by simp
qed

lemma queue_email_simps [simp]:
  "core (queue_email u k db) = core db" "notifs (queue_email u k db) = notifs db"
  "next_id (queue_email u k db) = Suc (next_id db)"
  "notif_prefs (queue_email u k db) = notif_prefs db"
  by (simp_all add: queue_email_def fresh_id_def core_def)

interpretation create: quiet "create_notification uid t key params link scope" for uid t key params link scope
proof
  fix db db' assume "create_notification uid t key params link scope db = Inr db'"
  then show "core db' = core db" and "prefix (notifs db) (notifs db') \<and> next_id db \<le> next_id db'"
    by (auto simp: create_notification_def rbind_Inr_iff Let_def fresh_id_def core_def queue_email_def
        split: if_splits)
qed

lemma quiet_create: "quiet (create_notification uid t key params link scope)"
  by (rule create.quiet_axioms)

lemma quiet_if: "quiet f \<Longrightarrow> quiet g \<Longrightarrow> quiet (\<lambda>db. if c db then f db else g db)"
  by (auto simp: quiet_def)

lemma quiet_dep: "(\<And>x. quiet (f x)) \<Longrightarrow> quiet (\<lambda>db. f (h db) db)"
  by (auto simp: quiet_def)

lemmas quiet_intros = quiet_Inr quiet_create quiet_if quiet_notify_all

interpretation risk_comment: quiet "notify_risk_comment ra author excluded" for ra author excluded
  unfolding notify_risk_comment_def Let_def
  by (intro quiet_intros quiet_dep [of "\<lambda>us. notify_all us _"])

interpretation risk_status: quiet "notify_risk_status_change ra" for ra
  unfolding notify_risk_status_change_def by (rule quiet_create)

interpretation risk_expiring: quiet "notify_risk_expiring ra" for ra
  unfolding notify_risk_expiring_def by (intro quiet_intros)

interpretation new_priority: quiet "notify_new_priority cve lvl" for cve lvl
  unfolding notify_new_priority_def by (rule quiet_dep [of "\<lambda>us. notify_all us _"]) (intro quiet_intros)

interpretation escalated: quiet "notify_escalation cve ns cl lvl" for cve ns cl lvl
  unfolding notify_escalation_def by (rule quiet_dep [of "\<lambda>us. notify_all us _"]) (intro quiet_intros)

interpretation rem_created: quiet "notify_remediation_created r actor aname" for r actor aname
  unfolding notify_remediation_created_def
  by (cases "rem_assigned_to r") (auto intro!: quiet_intros simp: quiet_Inr)

interpretation rem_assigned: quiet "notify_remediation_assigned r actor aname assignee"
  for r actor aname assignee
  unfolding notify_remediation_assigned_def by (intro quiet_intros)

interpretation rem_status: quiet "notify_remediation_status_change r actor aname st" for r actor aname st
  unfolding notify_remediation_status_change_def by (intro quiet_intros)

interpretation rem_target: quiet "notify_remediation_target_date_changed fmt r actor aname old new excluded"
  for fmt r actor aname old new excluded
  unfolding notify_remediation_target_date_changed_def Let_def by (intro quiet_intros)

interpretation rem_overdue: quiet "notify_remediation_overdue r" for r
  unfolding notify_remediation_overdue_def by (intro quiet_intros)

interpretation supp_requested: quiet "notify_suppression_requested r creator cname" for r creator cname
  unfolding notify_suppression_requested_def
  by (rule quiet_dep [of "\<lambda>us. notify_all us _"]) (intro quiet_intros)

interpretation supp_status: quiet "notify_suppression_status_change r reviewer" for r reviewer
  unfolding notify_suppression_status_change_def by (intro quiet_intros)

interpretation mention_all: quiet "notify_all us (\<lambda>u. create_notification u NMention ''mention'' ps l None)"
  for us ps l
  by (intro quiet_intros)

text \<open>Who is told about a mention, and that nobody else is.\<close>

lemma in_dedupe_users: "u \<in> set (dedupe_users seen us) \<Longrightarrow> u \<in> set us \<and> user_id u \<notin> set seen"
  by (induction seen us rule: dedupe_users.induct) (auto split: if_splits)

lemma dedupe_users_ids: "user_id ` set (dedupe_users seen us) = user_id ` set us - set seen"
  by (induction seen us rule: dedupe_users.induct) (auto split: if_splits)

lemma distinct_dedupe_users: "distinct (map user_id (dedupe_users seen us))"
proof (induction seen us rule: dedupe_users.induct)
  case (2 seen u us)
  then show ?case using dedupe_users_ids [of "user_id u # seen" us] by auto
qed simp

text \<open>The rows that creating notifications for some users adds belong to these users.\<close>

definition adds_for :: "string set \<Rightarrow> app_db \<Rightarrow> app_db \<Rightarrow> bool" where
  "adds_for us db db' \<longleftrightarrow> (\<exists>ns. notifs db' = notifs db @ ns \<and> nt_user ` set ns \<subseteq> us)"

lemma adds_for_refl [simp]: "adds_for us db db"
  by (simp add: adds_for_def)

lemma adds_for_trans: "adds_for us a b \<Longrightarrow> adds_for us b c \<Longrightarrow> adds_for us a c"
  by (force simp: adds_for_def)

lemma adds_for_mono: "adds_for us a b \<Longrightarrow> us \<subseteq> vs \<Longrightarrow> adds_for vs a b"
  by (force simp: adds_for_def)

lemma create_adds_for: "create_notification u t k ps l sc db = Inr db' \<Longrightarrow> adds_for {u} db db'"
  by (auto simp: create_notification_def rbind_Inr_iff Let_def fresh_id_def adds_for_def split: if_splits)

lemma notify_all_adds_for:
  "(\<And>u db db'. u \<in> set us \<Longrightarrow> f u db = Inr db' \<Longrightarrow> adds_for vs db db') \<Longrightarrow>
   notify_all us f db = Inr db' \<Longrightarrow> adds_for vs db db'"
proof (induction us arbitrary: db)
  case (Cons u us)
  then obtain m where m: "f u db = Inr m" "notify_all us f m = Inr db'" by (auto simp: rbind_Inr_iff)
  have "adds_for vs db m" by (rule Cons.prems(1) [OF _ m(1)]) simp
  moreover have "adds_for vs m db'" by (rule Cons.IH [OF Cons.prems(1) m(2)]) simp_all
  ultimately show ?case by (rule adds_for_trans)
qed simp

lemma notify_mention_users_Inr:
  assumes "notify_mention_users ve rs author link ctx previous db = Inr (db', ids, mails)"
  shows "core db' = core db \<and> prefix (notifs db) (notifs db') \<and> next_id db \<le> next_id db' \<and> distinct ids \<and>
    set ids = user_id ` set rs - {user_id author} - set previous \<and>
    length ids \<le> max_mention_recipients \<and> me_recipient ` set mails \<subseteq> set ids \<and> adds_for (set ids) db db'"
proof -
  define resolved where "resolved = dedupe_users [user_id author] rs"
  define fresh where "fresh = filter (\<lambda>u. user_id u \<notin> set previous) resolved"
  have len: "length resolved \<le> max_mention_recipients"
    using assms by (auto simp: notify_mention_users_def resolved_def Let_def split: if_splits)
  have ids: "set (map user_id fresh) = user_id ` set rs - {user_id author} - set previous"
  proof -
    have "set (map user_id fresh) = user_id ` set resolved - set previous" by (auto simp: fresh_def)
    then show ?thesis using dedupe_users_ids [of "[user_id author]" rs] by (simp add: resolved_def)
  qed
  have "length fresh \<le> length resolved" by (simp add: fresh_def)
  then have l: "length (map user_id fresh) \<le> max_mention_recipients" using len by simp
  have d: "distinct (map user_id fresh)"
    unfolding fresh_def using distinct_dedupe_users [of "[user_id author]" rs]
    by (intro distinct_map_filter) (simp add: resolved_def)
  show ?thesis
  proof (cases "fresh = []")
    case True
    then have "db' = db" "ids = []" "mails = []"
      using assms len by (auto simp: notify_mention_users_def resolved_def fresh_def Let_def)
    with True ids show ?thesis by (simp add: max_mention_recipients_def)
  next
    case False
    then have e: "emit_mentions ve fresh author link ctx db = Inr (db', ids, mails)"
      using assms len by (simp add: notify_mention_users_def resolved_def [symmetric] fresh_def [symmetric] Let_def)
    then have n: "notify_all (map user_id fresh) (\<lambda>u. create_notification u NMention ''mention''
        [(''author'', user_display_name author)] (Some link) None) db = Inr db'" and i: "ids = map user_id fresh"
      and m: "me_recipient ` set mails \<subseteq> set (map user_id fresh)"
      by (auto simp: emit_mentions_def rbind_Inr_iff)
    have "adds_for (set (map user_id fresh)) db db'"
    proof (rule notify_all_adds_for [OF _ n])
      fix v a b
      assume v: "v \<in> set (map user_id fresh)"
        and "create_notification v NMention ''mention'' [(''author'', user_display_name author)] (Some link) None a = Inr b"
      from create_adds_for [OF this(2)] have "adds_for {v} a b" .
      then show "adds_for (set (map user_id fresh)) a b" by (rule adds_for_mono) (use v in simp)
    qed
    with mention_all.frame [OF n] mention_all.grows [OF n] show ?thesis unfolding i using ids l d m by simp
  qed
qed

section \<open>Every notification of the code succeeds\<close>

lemma known_categories:
  "category_for_type t = Some c \<Longrightarrow> map_of categories c \<noteq> None"
  by (cases t) (auto simp: category_for_type_def categories_def)

lemma summary_categories: "email_summary_keys k = Some c \<Longrightarrow> map_of categories c \<noteq> None"
  by (auto simp: email_summary_keys_def categories_def split: if_splits)

lemma effective_total: "map_of categories c \<noteq> None \<Longrightarrow> \<exists>e. effective c s = Inr e"
  by (auto simp: effective_def)

lemma wants_total: "map_of categories c \<noteq> None \<Longrightarrow> \<exists>b. wants db uid c ch = Inr b"
  using effective_total [of c "stored_preference db uid c"] by (auto simp: wants_def)

lemma wants_email_total: "\<exists>b. wants_email db uid k = Inr b"
  using wants_total summary_categories by (auto simp: wants_email_def split: option.split)

lemma wants_in_app_total: "\<exists>b. wants_in_app db uid t = Inr b"
  using wants_total known_categories by (auto simp: wants_in_app_def split: option.split)

lemma wants_in_app_prefs: "notif_prefs db' = notif_prefs db \<Longrightarrow> wants_in_app db' uid t = wants_in_app db uid t"
  by (cases "category_for_type t") (simp_all add: wants_in_app_def wants_def stored_preference_def)

lemma create_total: "key \<in> set message_keys \<Longrightarrow> \<exists>db'. create_notification uid t key params link scope db = Inr db'"
proof -
  assume k: "key \<in> set message_keys"
  obtain m where m: "wants_email db uid key = Inr m" using wants_email_total by blast
  obtain a where a: "wants_in_app (if m then queue_email uid key db else db) uid t = Inr a"
    using wants_in_app_total by blast
  show ?thesis using k m a by (cases a) (auto simp: create_notification_def Let_def split: prod.split)
qed

lemma notify_all_total: "(\<And>u db. u \<in> set us \<Longrightarrow> \<exists>db'. f u db = Inr db') \<Longrightarrow> \<exists>db'. notify_all us f db = Inr db'"
proof (induction us arbitrary: db)
  case Nil
  then show ?case by simp
next
  case (Cons u us)
  from Cons.prems [of u db] obtain d where "f u db = Inr d" by auto
  with Cons show ?case by auto
qed

lemma known_keys [simp]:
  "''risk_comment'' \<in> set message_keys" "''risk_comment_sec_team'' \<in> set message_keys"
  "''risk_status'' \<in> set message_keys" "''risk_expiring'' \<in> set message_keys"
  "''risk_reviewer_assigned'' \<in> set message_keys" "''new_priority'' \<in> set message_keys"
  "''escalation'' \<in> set message_keys" "''remediation_created'' \<in> set message_keys"
  "''remediation_assigned'' \<in> set message_keys" "''remediation_status'' \<in> set message_keys"
  "''remediation_target_date_changed'' \<in> set message_keys" "''remediation_overdue'' \<in> set message_keys"
  "''suppression_requested'' \<in> set message_keys" "''suppression_status'' \<in> set message_keys"
  "''mention'' \<in> set message_keys"
  by (simp_all add: message_keys_def)

lemma notify_total:
  "\<exists>db'. notify_risk_status_change ra db = Inr db'"
  "\<exists>db'. notify_risk_expiring ra db = Inr db'"
  "\<exists>db'. notify_escalation cve ns cl lvl db = Inr db'"
  "\<exists>db'. notify_new_priority cve l db = Inr db'"
  "\<exists>db'. notify_remediation_created r actor aname db = Inr db'"
  "\<exists>db'. notify_remediation_assigned r actor aname assignee db = Inr db'"
  "\<exists>db'. notify_remediation_status_change r actor aname st db = Inr db'"
  "\<exists>db'. notify_remediation_overdue r db = Inr db'"
  "\<exists>db'. notify_suppression_requested sr creator cname db = Inr db'"
  "\<exists>db'. notify_suppression_status_change sr reviewer db = Inr db'"
  by (auto simp: notify_risk_status_change_def notify_risk_expiring_def notify_escalation_def
      notify_new_priority_def notify_remediation_created_def notify_remediation_assigned_def
      notify_remediation_status_change_def notify_remediation_overdue_def notify_suppression_requested_def
      notify_suppression_status_change_def create_total intro!: notify_all_total split: option.split)

section \<open>Properties\<close>

text \<open>A notification with a known key always succeeds. It adds one unread row for the user iff the
  category of its type is mandatory or wanted in the app, and queues one email event iff the key is part
  of the daily summary and the user wants the email; the two choices are independent and no other table
  changes.\<close>

theorem create_notification_effect:
  assumes "key \<in> set message_keys"
  shows "\<exists>db' i j. create_notification uid t key params link scope db = Inr db' \<and> core db' = core db \<and>
    notifs db' = notifs db @ (if wants_in_app db uid t = Inr True then
      [\<lparr>nt_id = i, nt_user = uid, nt_type = t, nt_key = key, nt_params = params, nt_scope = scope,
        nt_link = link, nt_read = False, nt_created = db_now db\<rparr>] else []) \<and>
    email_events db' = email_events db @ (if wants_email db uid key = Inr True then
      [\<lparr>ne_id = j, ne_user = uid, ne_key = key, ne_created = db_now db\<rparr>] else []) \<and>
    (category_for_type t = None \<longrightarrow> wants_in_app db uid t = Inr True)"
proof -
  obtain m where m: "wants_email db uid key = Inr m" using wants_email_total by blast
  define db1 where "db1 = (if m then queue_email uid key db else db)"
  obtain a where a: "wants_in_app db uid t = Inr a" using wants_in_app_total by blast
  have a1: "wants_in_app db1 uid t = Inr a"
    using a wants_in_app_prefs [of db1 db] by (simp add: db1_def)
  have c: "create_notification uid t key params link scope db = (if \<not> a then Inr db1
      else let (i, db2) = fresh_id db1 in Inr (db2\<lparr>notifs := notifs db2 @ [\<lparr>nt_id = i, nt_user = uid,
        nt_type = t, nt_key = key, nt_params = params, nt_scope = scope, nt_link = link, nt_read = False, nt_created = db_now db2\<rparr>]\<rparr>))"
    using assms a1 m by (simp add: create_notification_def Let_def db1_def [symmetric])
  have "core db1 = core db" "notifs db1 = notifs db" by (simp_all add: db1_def)
  moreover from this(1) have "db_now db1 = db_now db" by (rule core_eqD)
  moreover have "email_events db1 = email_events db @ (if m then
      [\<lparr>ne_id = next_id db, ne_user = uid, ne_key = key, ne_created = db_now db\<rparr>] else [])"
    by (simp add: db1_def queue_email_def fresh_id_def)
  moreover have "category_for_type t = None \<longrightarrow> a" using a by (auto simp: wants_in_app_def)
  ultimately show ?thesis
    unfolding c m a
    by (cases a; cases m) (auto simp: fresh_id_def core_def)
qed

theorem create_notification_effect_witness:
  "\<exists>db'. create_notification ''u1'' NMention ''mention'' [(''author'', ''ann'')] None None empty_db = Inr db' \<and>
     length (notifs db') = 1"
  using create_notification_effect [OF known_keys(15), of "''u1''" NMention "[(''author'', ''ann'')]" None None
      empty_db]
  by (auto simp: category_for_type_def categories_def)

lemma stored_after_set:
  "stored_preference (db\<lparr>notif_prefs := filter (\<lambda>p. \<not> (np_user p = uid \<and> np_category p = c)) ps @ [row]\<rparr>) v d =
     (if v = np_user row \<and> d = np_category row then
        (case filter (\<lambda>p. np_user p = v \<and> np_category p = d) (filter (\<lambda>p. \<not> (np_user p = uid \<and> np_category p = c)) ps)
         of [] \<Rightarrow> Some row | p # _ \<Rightarrow> Some p)
      else stored_preference (db\<lparr>notif_prefs := filter (\<lambda>p. \<not> (np_user p = uid \<and> np_category p = c)) ps\<rparr>) v d)"
  by (auto simp: stored_preference_def split: list.splits)

lemma stored_other:
  "(v, d) \<noteq> (uid, c) \<Longrightarrow>
   stored_preference (db\<lparr>notif_prefs := filter (\<lambda>p. \<not> (np_user p = uid \<and> np_category p = c)) (notif_prefs db)\<rparr>) v d =
   stored_preference db v d"
proof -
  assume "(v, d) \<noteq> (uid, c)"
  then have "filter (\<lambda>p. np_user p = v \<and> np_category p = d) (filter (\<lambda>p. \<not> (np_user p = uid \<and> np_category p = c)) ps) =
      filter (\<lambda>p. np_user p = v \<and> np_category p = d) ps" for ps :: "notif_pref list"
    by (auto simp: filter_filter intro!: filter_cong)
  moreover have "notif_prefs (db\<lparr>notif_prefs := ps\<rparr>) = ps" for ps by simp
  ultimately show ?thesis unfolding stored_preference_def by (simp only:)
qed

text \<open>Storing a preference and reading it back gives, for every channel the category has, the updated
  value or, where the update leaves it out, the old one; a channel the category does not have stays
  absent; and every other preference of every user is unchanged.\<close>

theorem set_preference_roundtrip:
  assumes "set_preference uid up db = Inr db'" and "map_of categories (ep_category up) = Some c"
    and "effective (ep_category up) (stored_preference db uid (ep_category up)) = Inr old"
  shows "effective (ep_category up) (stored_preference db' uid (ep_category up)) =
      Inr \<lparr>ep_category = ep_category up,
        ep_in_app = (if cat_in_app c = None then None else if ep_in_app up \<noteq> None then ep_in_app up else ep_in_app old),
        ep_email = (if cat_email c = None then None else if ep_email up \<noteq> None then ep_email up else ep_email old)\<rparr> \<and>
    (\<forall>v d. (v, d) \<noteq> (uid, ep_category up) \<longrightarrow> stored_preference db' v d = stored_preference db v d)"
proof -
  let ?cat = "ep_category up"
  let ?ps = "filter (\<lambda>p. \<not> (np_user p = uid \<and> np_category p = ?cat)) (notif_prefs db)"
  define in_app where "in_app = (if cat_in_app c \<noteq> None \<and> ep_in_app up \<noteq> None then ep_in_app up else ep_in_app old)"
  define mail where "mail = (if cat_email c \<noteq> None \<and> ep_email up \<noteq> None then ep_email up else ep_email old)"
  define row where "row = \<lparr>np_user = uid, np_category = ?cat, np_in_app = (in_app = Some True),
      np_email = (mail = Some True)\<rparr>"
  have db': "db' = db\<lparr>notif_prefs := ?ps @ [row]\<rparr>"
    using assms by (simp add: set_preference_def Let_def row_def in_app_def mail_def)
  have s: "stored_preference db' uid ?cat = Some row"
    unfolding db' stored_after_set by (simp add: row_def filter_empty_conv split: list.split)
  have old_in: "cat_in_app c \<noteq> None \<Longrightarrow> ep_in_app old \<noteq> None" "cat_in_app c = None \<Longrightarrow> ep_in_app old = None"
    and old_mail: "cat_email c \<noteq> None \<Longrightarrow> ep_email old \<noteq> None" "cat_email c = None \<Longrightarrow> ep_email old = None"
    using assms(2,3) by (auto simp: effective_def Let_def split: option.splits if_splits)
  have some: "Some (x = Some True) = x" if "x \<noteq> None" for x using that by auto
  have 1: "effective ?cat (stored_preference db' uid ?cat) =
      Inr \<lparr>ep_category = ?cat,
        ep_in_app = (if cat_in_app c = None then None else if ep_in_app up \<noteq> None then ep_in_app up else ep_in_app old),
        ep_email = (if cat_email c = None then None else if ep_email up \<noteq> None then ep_email up else ep_email old)\<rparr>"
    unfolding s using assms(2) old_in old_mail
    by (simp add: effective_def Let_def row_def in_app_def mail_def some)
  have 2: "stored_preference db' v d = stored_preference db v d" if "(v, d) \<noteq> (uid, ?cat)" for v d
    unfolding db' stored_after_set using stored_other [OF that] that by (auto simp: row_def)
  from 1 2 show ?thesis by blast
qed

definition ex_update :: effective_preference where
  "ex_update = \<lparr>ep_category = ''team_digest'', ep_in_app = Some True, ep_email = Some True\<rparr>"

theorem set_preference_roundtrip_witness:
  "\<exists>db'. set_preference ''u1'' ex_update empty_db = Inr db' \<and>
     effective ''team_digest'' (stored_preference db' ''u1'' ''team_digest'') =
       Inr \<lparr>ep_category = ''team_digest'', ep_in_app = None, ep_email = Some True\<rparr>"
proof -
  let ?c = "\<lparr>cat_types = [], cat_in_app = None, cat_email = Some False\<rparr>"
  have c: "map_of categories ''team_digest'' = Some ?c" by (simp add: categories_def)
  then have e: "effective ''team_digest'' (stored_preference empty_db ''u1'' ''team_digest'') =
      Inr \<lparr>ep_category = ''team_digest'', ep_in_app = None, ep_email = Some False\<rparr>"
    by (simp add: effective_def stored_preference_def)
  obtain db' where s: "set_preference ''u1'' ex_update empty_db = Inr db'"
    using c e by (simp add: set_preference_def ex_update_def Let_def)
  have u: "ep_category ex_update = ''team_digest''" "ep_in_app ex_update = Some True"
    "ep_email ex_update = Some True" by (simp_all add: ex_update_def)
  from set_preference_roundtrip [OF s, of ?c] c e s show ?thesis by (auto simp: u)
qed

end
