(* ===== verification/Snapshots.thy ===== *)
theory Snapshots
  imports Scopes
begin

text \<open>
  Namespace snapshots: \<open>app/services/namespace_snapshot.py\<close>. A sign-in records the user's namespaces;
  background jobs pick their recipients from the fresh snapshots. \<open>sha256\<close> is a parameter.
\<close>

definition touch_interval :: int where "touch_interval = 3600000000"

fun sep_by :: "string \<Rightarrow> string list \<Rightarrow> string" where
  "sep_by s [] = []"
| "sep_by s [x] = x"
| "sep_by s (x # y # xs) = x @ s @ sep_by s (y # xs)"

definition ns_canonical :: "pair list \<Rightarrow> bool \<Rightarrow> string" where
  "ns_canonical nss has_all =
     ''{'' @ json_string ''all'' @ '': '' @ (if has_all then ''true'' else ''false'') @ '', '' @
     json_string ''ns'' @ '': ['' @
     sep_by '', '' (map (\<lambda>(n, c). ''['' @ json_string n @ '', '' @ json_string c @ '']'') (sort nss)) @ '']}''"

definition namespaces_hash :: "(string \<Rightarrow> string) \<Rightarrow> pair list \<Rightarrow> bool \<Rightarrow> string" where
  "namespaces_hash sha256 nss has_all = sha256 (ns_canonical nss has_all)"

definition snapshot_of :: "app_db \<Rightarrow> string \<Rightarrow> ns_snapshot option" where
  "snapshot_of db uid =
     (case filter (\<lambda>s. sn_user s = uid) (snapshots db) of [] \<Rightarrow> None | s # _ \<Rightarrow> Some s)"

definition record_namespace_snapshot ::
    "(string \<Rightarrow> string) \<Rightarrow> current_user \<Rightarrow> datetime \<Rightarrow> app_db \<Rightarrow> app_db" where
  "record_namespace_snapshot sha256 u now db =
     (let digest = namespaces_hash sha256 (cu_namespaces u) (cu_has_all u);
          row = \<lparr>sn_user = cu_id u, sn_namespaces = sort (cu_namespaces u), sn_has_all = cu_has_all u,
            sn_hash = digest, sn_last_seen = now\<rparr>
      in case snapshot_of db (cu_id u) of
        None \<Rightarrow> db\<lparr>snapshots := snapshots db @ [row]\<rparr>
      | Some s \<Rightarrow>
          (if sn_hash s = digest \<and> now - sn_last_seen s < touch_interval then db
           else db\<lparr>snapshots := map (\<lambda>x. if sn_user x = cu_id u then row else x) (snapshots db)\<rparr>))"

record active_recipient =
  ar_user :: user
  ar_namespaces :: "pair list"
  ar_has_all :: bool

definition as_current_user :: "active_recipient \<Rightarrow> current_user" where
  "as_current_user r =
     \<lparr>cu_id = user_id (ar_user r), cu_username = username (ar_user r), cu_full_name = full_name (ar_user r),
      cu_email = email (ar_user r), cu_role = role (ar_user r), cu_namespaces = ar_namespaces r,
      cu_has_all = ar_has_all r\<rparr>"

definition load_active_recipients :: "app_db \<Rightarrow> int \<Rightarrow> datetime \<Rightarrow> active_recipient list" where
  "load_active_recipients db days now =
     sort_key (\<lambda>r. user_id (ar_user r))
       [\<lparr>ar_user = u, ar_namespaces = sn_namespaces s, ar_has_all = sn_has_all s\<rparr>.
          u \<leftarrow> users db, s \<leftarrow> snapshots db, sn_user s = user_id u \<and> now - timedelta_days days \<le> sn_last_seen s]"

lemma in_load_active_recipients:
  "r \<in> set (load_active_recipients db days now) \<longleftrightarrow>
     (\<exists>s \<in> set (snapshots db). ar_user r \<in> set (users db) \<and> sn_user s = user_id (ar_user r) \<and>
        now - timedelta_days days \<le> sn_last_seen s \<and>
        r = \<lparr>ar_user = ar_user r, ar_namespaces = sn_namespaces s, ar_has_all = sn_has_all s\<rparr>)"
  by (auto simp: load_active_recipients_def)

lemma snapshot_of_Some: "snapshot_of db uid = Some s \<Longrightarrow> s \<in> set (snapshots db) \<and> sn_user s = uid"
proof -
  assume "snapshot_of db uid = Some s"
  then have "s \<in> set (filter (\<lambda>s. sn_user s = uid) (snapshots db))"
    unfolding snapshot_of_def by (cases "filter (\<lambda>s. sn_user s = uid) (snapshots db)") simp_all
  then show ?thesis by simp
qed

text \<open>One snapshot per user, as the primary key of the table demands.\<close>

definition snapshots_ok :: "app_db \<Rightarrow> bool" where
  "snapshots_ok db \<longleftrightarrow> distinct (map sn_user (snapshots db))"

lemma snapshot_of_row:
  assumes "snapshots_ok db" and "s \<in> set (snapshots db)"
  shows "snapshot_of db (sn_user s) = Some s"
proof -
  have "x = s" if "x \<in> set (snapshots db)" "sn_user x = sn_user s" for x
    using assms that by (auto simp: snapshots_ok_def distinct_map dest: inj_onD)
  then have 1: "set (filter (\<lambda>x. sn_user x = sn_user s) (snapshots db)) \<subseteq> {s}" by auto
  have 2: "s \<in> set (filter (\<lambda>x. sn_user x = sn_user s) (snapshots db))" using assms(2) by simp
  show ?thesis
  proof (cases "filter (\<lambda>x. sn_user x = sn_user s) (snapshots db)")
    case Nil
    with 2 show ?thesis by (metis empty_iff list.set(1))
  next
    case (Cons x xs)
    with 1 have "x = s" by (metis insert_iff list.set_intros(1) singletonD subsetD)
    with Cons show ?thesis by (simp add: snapshot_of_def)
  qed
qed

lemma record_snapshots_ok:
  "snapshots_ok db \<Longrightarrow> snapshots_ok (record_namespace_snapshot sha256 u now db)"
proof -
  assume ok: "snapshots_ok db"
  show ?thesis
  proof (cases "snapshot_of db (cu_id u)")
    case None
    then have "cu_id u \<notin> sn_user ` set (snapshots db)"
      by (auto simp: snapshot_of_def filter_empty_conv split: list.splits)
    with ok None show ?thesis by (simp add: record_namespace_snapshot_def Let_def snapshots_ok_def)
  next
    case (Some s)
    have "map sn_user (map (\<lambda>x. if sn_user x = cu_id u then r else x) xs) = map sn_user xs"
      if "sn_user r = cu_id u" for r :: ns_snapshot and xs
      using that by auto
    with ok Some show ?thesis by (simp add: record_namespace_snapshot_def Let_def snapshots_ok_def del: map_map)
  qed
qed

text \<open>After a sign-in the user has one snapshot, of the hash of the current namespaces, not older than an
  hour; the snapshots of the other users are unchanged.\<close>

theorem record_snapshot_fresh:
  assumes "snapshots_ok db"
  shows "snapshots_ok (record_namespace_snapshot sha256 u now db) \<and>
    (\<exists>s. snapshot_of (record_namespace_snapshot sha256 u now db) (cu_id u) = Some s \<and>
       sn_hash s = namespaces_hash sha256 (cu_namespaces u) (cu_has_all u) \<and>
       now - sn_last_seen s < touch_interval) \<and>
    (\<forall>v. v \<noteq> cu_id u \<longrightarrow>
       snapshot_of (record_namespace_snapshot sha256 u now db) v = snapshot_of db v)"
proof (intro conjI allI impI)
  let ?db' = "record_namespace_snapshot sha256 u now db"
  let ?row = "\<lparr>sn_user = cu_id u, sn_namespaces = sort (cu_namespaces u), sn_has_all = cu_has_all u,
            sn_hash = namespaces_hash sha256 (cu_namespaces u) (cu_has_all u), sn_last_seen = now\<rparr>"
  show ok: "snapshots_ok ?db'" by (rule record_snapshots_ok [OF assms])
  have "?db' = db \<and> (\<exists>s. snapshot_of db (cu_id u) = Some s \<and> sn_hash s = sn_hash ?row \<and>
      now - sn_last_seen s < touch_interval) \<or> ?row \<in> set (snapshots ?db')"
    by (auto simp: record_namespace_snapshot_def Let_def split: option.split dest: snapshot_of_Some)
  then show "\<exists>s. snapshot_of ?db' (cu_id u) = Some s \<and>
      sn_hash s = namespaces_hash sha256 (cu_namespaces u) (cu_has_all u) \<and>
      now - sn_last_seen s < touch_interval"
  proof
    assume "?row \<in> set (snapshots ?db')"
    from snapshot_of_row [OF ok this] show ?thesis by (simp add: touch_interval_def)
  qed auto
  fix v assume v: "v \<noteq> cu_id u"
  have "filter (\<lambda>s. sn_user s = v) (map (\<lambda>x. if sn_user x = cu_id u then ?row else x) xs) =
      filter (\<lambda>s. sn_user s = v) xs" for xs
    using v by (induction xs) auto
  with v show "snapshot_of ?db' v = snapshot_of db v"
    by (simp add: record_namespace_snapshot_def Let_def snapshot_of_def split: option.split)
qed

theorem record_snapshot_fresh_witness:
  "snapshots_ok (record_namespace_snapshot id
     \<lparr>cu_id = ''u1'', cu_username = ''ann'', cu_full_name = None, cu_email = ''a'', cu_role = TeamMember,
      cu_namespaces = [(''shop'', ''c1'')], cu_has_all = False\<rparr> 0 empty_db)"
proof -
  have "snapshots_ok empty_db" by (simp add: snapshots_ok_def)
  from record_snapshot_fresh [OF this] show ?thesis by blast
qed

end
