(* ===== verification/Subscriptions.thy ===== *)
theory Subscriptions
  imports Notifications Snapshots
begin

text \<open>
  CVE subscriptions: \<open>app/services/cve_subscription_service.py\<close>. A subscription stores the state of a
  CVE as its subscriber sees it; the hourly job builds the state again and sends the differences;
  application events are broadcast to all subscribers. The lemmas show that no event names a location
  outside the subscriber's scope and that a change of access alone sends nothing. \<open>state\<close> is the
  version 1 shape. Sending the mails is not modelled, only the claims and their contents.
\<close>

section \<open>States\<close>

definition state_version :: int where "state_version = 1"
definition max_subscriptions_per_user :: nat where "max_subscriptions_per_user = 500"
definition epss_notify_delta :: num where "epss_notify_delta = 1 / 20"
definition max_diff_notifications_per_user :: nat where "max_diff_notifications_per_user = 10"
definition diff_batch_size :: nat where "diff_batch_size = 200"
definition event_retention_days :: int where "event_retention_days = 30"
definition email_default_window :: int where "email_default_window = timedelta_days 1"

definition image_identity :: "string \<Rightarrow> string" where
  "image_identity spec = takeWhile (\<lambda>c. c \<noteq> CHR ''@'') spec"

definition row_pair :: "sub_row \<Rightarrow> pair" where
  "row_pair r = (sw_namespace r, sw_cluster r)"

definition lo_pair :: "sub_location \<Rightarrow> pair" where
  "lo_pair l = (lo_namespace l, lo_cluster l)"

definition location_of :: "sub_row \<Rightarrow> sub_location" where
  "location_of r = \<lparr>lo_namespace = sw_namespace r, lo_cluster = sw_cluster r,
     lo_images = sorted_set (map image_identity (sw_images r)),
     lo_fixable = sorted_set (sw_fixable r)\<rparr>"

definition row_visible :: "pair list option \<Rightarrow> sub_row \<Rightarrow> bool" where
  "row_visible visible r \<longleftrightarrow> (case visible of None \<Rightarrow> True | Some ps \<Rightarrow> row_pair r \<in> set ps)"

definition build_state :: "sub_row list \<Rightarrow> pair list option \<Rightarrow> sub_state" where
  "build_state rows visible =
     \<lparr>st_version = state_version,
      st_scope = (case visible of None \<Rightarrow> AllPairs | Some ps \<Rightarrow> SomePairs (sorted_set ps)),
      st_scores = \<lparr>sc_severity = sql_max (map sw_severity rows), sc_cvss = sql_max (map sw_cvss rows),
        sc_epss = sql_max (map sw_epss rows)\<rparr>,
      st_locations = sort_key (\<lambda>l. (lo_cluster l, lo_namespace l))
        (map location_of (filter (row_visible visible) rows))\<rparr>"

definition scope_contains :: "sub_scope \<Rightarrow> pair \<Rightarrow> bool" where
  "scope_contains s p = (case s of AllPairs \<Rightarrow> True | SomePairs ps \<Rightarrow> p \<in> set ps)"

definition locations_by_pair :: "sub_state \<Rightarrow> pair \<rightharpoonup> sub_location" where
  "locations_by_pair s = dict_of lo_pair (st_locations s)"

section \<open>Differences\<close>

definition crosses :: "num \<Rightarrow> num \<Rightarrow> num \<Rightarrow> bool" where
  "crosses old new threshold =
     (if threshold \<le> 0 then False else (threshold \<le> old) \<noteq> (threshold \<le> new))"

text \<open>\<open>round(x)\<close> to the even neighbour on a tie; \<open>round(x, 1)\<close> and \<open>:.1f\<close> in tenths.\<close>

definition round_even :: "num \<Rightarrow> int" where
  "round_even x =
     (let f = \<lfloor>x\<rfloor>; d = x - of_int f in
      if d < 1 / 2 then f else if 1 / 2 < d then f + 1 else if even f then f else f + 1)"

definition fmt_tenths :: "int \<Rightarrow> string" where
  "fmt_tenths t = int_str (t div 10) @ ''.'' @ int_str (t mod 10)"

definition fmt_cvss :: "num option \<Rightarrow> string" where
  "fmt_cvss v = (case v of None \<Rightarrow> ''-'' | Some x \<Rightarrow> fmt_tenths (round_even (x * 10)))"

definition fmt_epss :: "num option \<Rightarrow> string" where
  "fmt_epss v = (case v of None \<Rightarrow> ''-'' | Some x \<Rightarrow> fmt_tenths (round_even (x * 1000)) @ ''%'')"

definition changed_opt :: "('a \<Rightarrow> 'a \<Rightarrow> bool) \<Rightarrow> 'a option \<Rightarrow> 'a option \<Rightarrow> bool" where
  "changed_opt f a b = (case (a, b) of (Some x, Some y) \<Rightarrow> f x y | _ \<Rightarrow> False)"

definition diff_scores :: "sub_scores \<Rightarrow> sub_scores \<Rightarrow> num \<Rightarrow> sub_scores \<times> bool" where
  "diff_scores old new threshold =
     (if sc_severity new = None \<and> sc_cvss new = None \<and> sc_epss new = None then (old, False)
      else let sev = changed_opt (\<noteq>) (sc_severity old) (sc_severity new);
               cvss = changed_opt (\<lambda>a b. round_even (a * 10) \<noteq> round_even (b * 10)) (sc_cvss old) (sc_cvss new);
               epss = changed_opt (\<lambda>a b. epss_notify_delta \<le> \<bar>b - a\<bar> \<or> crosses a b threshold)
                        (sc_epss old) (sc_epss new);
               changed = sev \<or> cvss \<or> epss
           in (\<lparr>sc_severity = sc_severity new, sc_cvss = sc_cvss new,
                sc_epss = (if epss \<or> sc_epss old = None \<or> changed then sc_epss new else sc_epss old)\<rparr>, changed))"

record diff_event =
  de_kind :: string
  de_params :: "(string \<times> string) list"
  de_scope :: "pair list"

text \<open>\<open>sorted(pairs, key=lambda p: (p[1], p[0]))\<close>.\<close>

definition by_cluster :: "pair list \<Rightarrow> pair list" where
  "by_cluster ps = sort_key (\<lambda>p. (snd p, fst p)) ps"

definition new_image_pairs :: "sub_state \<Rightarrow> sub_state \<Rightarrow> pair list" where
  "new_image_pairs old new =
     filter (\<lambda>p. case locations_by_pair old p of
         None \<Rightarrow> scope_contains (st_scope old) p
       | Some prev \<Rightarrow> \<not> set (lo_images (the (locations_by_pair new p))) \<subseteq> set (lo_images prev))
       (dedupe (map lo_pair (st_locations new)))"

definition fix_pairs :: "sub_state \<Rightarrow> sub_state \<Rightarrow> pair list" where
  "fix_pairs old new =
     filter (\<lambda>p. case locations_by_pair old p of
         None \<Rightarrow> False
       | Some prev \<Rightarrow> \<not> set (lo_fixable (the (locations_by_pair new p))) \<subseteq> set (lo_fixable prev))
       (dedupe (map lo_pair (st_locations new)))"

definition gone_pairs :: "sub_state \<Rightarrow> sub_state \<Rightarrow> pair list" where
  "gone_pairs old new =
     filter (\<lambda>p. locations_by_pair new p = None \<and> scope_contains (st_scope new) p)
       (dedupe (map lo_pair (st_locations old)))"

definition pair_events :: "(string \<times> pair list) list \<Rightarrow> diff_event list" where
  "pair_events ks =
     map (\<lambda>(k, ps). \<lparr>de_kind = k, de_params = [], de_scope = by_cluster ps\<rparr>) (filter (\<lambda>(k, ps). ps \<noteq> []) ks)"

definition diff_state :: "sub_state \<Rightarrow> sub_state \<Rightarrow> num \<Rightarrow> sub_state \<times> diff_event list" where
  "diff_state old new threshold =
     (if st_version old \<noteq> state_version then (new, [])
      else let (scores, changed) = diff_scores (st_scores old) (st_scores new) threshold;
               visible_now = map lo_pair (st_locations new);
               score_events = (if changed \<and> visible_now \<noteq> [] then
                   [\<lparr>de_kind = ''scores_changed'',
                     de_params = [(''cvss_old'', fmt_cvss (sc_cvss (st_scores old))),
                       (''cvss'', fmt_cvss (sc_cvss scores)),
                       (''epss_old'', fmt_epss (sc_epss (st_scores old))),
                       (''epss'', fmt_epss (sc_epss (st_scores new)))],
                     de_scope = visible_now\<rparr>] else []);
               stored = (if changed \<and> visible_now = [] then scores\<lparr>sc_epss := sc_epss (st_scores old)\<rparr> else scores)
           in (new\<lparr>st_scores := stored\<rparr>,
               score_events @ pair_events [(''new_images'', new_image_pairs old new),
                 (''fix_available'', fix_pairs old new), (''no_longer_affected'', gone_pairs old new)]))"

section \<open>Subscribing\<close>

definition visible_pairs_for :: "current_user \<Rightarrow> pair list option" where
  "visible_pairs_for u = (if can_see_all_namespaces u then None else Some (cu_namespaces u))"

definition is_subscribed :: "app_db \<Rightarrow> string \<Rightarrow> string \<Rightarrow> bool" where
  "is_subscribed db uid cve = list_ex (\<lambda>s. su_user s = uid \<and> su_cve s = cve) (subs db)"

definition list_for_user :: "app_db \<Rightarrow> string \<Rightarrow> cve_subscription list" where
  "list_for_user db uid = sort_key_rev su_created_at (filter (\<lambda>s. su_user s = uid) (subs db))"

definition subscribe ::
    "stackrox \<Rightarrow> current_user \<Rightarrow> string \<Rightarrow> app_db \<Rightarrow> (app_db \<times> bool) result" where
  "subscribe sx u cve db =
     (if is_subscribed db (cu_id u) cve then Inr (db, False)
      else if max_subscriptions_per_user \<le> length (filter (\<lambda>s. su_user s = cu_id u) (subs db))
        then Inl (ApiError 400 ''too_many_subscriptions'')
      else if visible_pairs_for u = Some [] then Inl (ApiError 404 ''cve_not_found'')
      else let st = build_state (get_subscription_locations sx [cve]) (visible_pairs_for u) in
        if st_locations st = [] then Inl (ApiError 404 ''cve_not_found'')
        else Inr (log_action (cu_id u) ''cve_subscribed'' ''cve'' cve []
          (db\<lparr>subs := subs db @ [\<lparr>su_user = cu_id u, su_cve = cve, su_created_at = db_now db,
            su_state = st, su_checked_at = db_now db\<rparr>]\<rparr>), True))"

definition unsubscribe :: "string \<Rightarrow> string \<Rightarrow> app_db \<Rightarrow> app_db \<times> bool" where
  "unsubscribe uid cve db =
     (let removed = is_subscribed db uid cve;
          db1 = db\<lparr>subs := filter (\<lambda>s. \<not> (su_user s = uid \<and> su_cve s = cve)) (subs db)\<rparr>
      in (if removed then log_action uid ''cve_unsubscribed'' ''cve'' cve [] db1 else db1, removed))"

section \<open>Emitting\<close>

text \<open>An empty object and mode \<open>all\<close> give \<open>None\<close>, and so does a scope without targets.\<close>

definition risk_acceptance_scope_pairs :: "stored_scope \<Rightarrow> pair list option" where
  "risk_acceptance_scope_pairs s =
     (if ss_mode s = Some ''all'' then None
      else let ps = sorted_set (map target_pair
                 (filter (\<lambda>t. tg_namespace t \<noteq> []) (case ss_targets s of None \<Rightarrow> [] | Some ts \<Rightarrow> ts)))
           in if ps = [] then None else Some ps)"

definition cve_link :: "string \<Rightarrow> string" where "cve_link cve = ''/vulnerabilities/'' @ cve"

definition add_sub_event :: "string \<Rightarrow> string \<Rightarrow> string \<Rightarrow> pair list \<Rightarrow> datetime \<Rightarrow> app_db \<Rightarrow> app_db" where
  "add_sub_event uid cve kind scope now db =
     db\<lparr>sub_events := sub_events db @ [\<lparr>se_user = uid, se_cve = cve, se_kind = kind, se_scope = scope,
        se_created = now\<rparr>]\<rparr>"

definition emit ::
    "string \<Rightarrow> string \<Rightarrow> string \<Rightarrow> (string \<times> string) list \<Rightarrow> string \<Rightarrow> pair list \<Rightarrow> datetime \<Rightarrow>
     app_db \<Rightarrow> app_db result" where
  "emit uid cve kind params link scope now db =
     create_notification uid NCveSubscription (''subscription.'' @ kind) ((''cve_id'', cve) # params)
       (Some link) (Some scope) (add_sub_event uid cve kind scope now db)"

text \<open>\<open>sx = None\<close> is a caller without a StackRox session; a failing query is not modelled.\<close>

definition broadcast_recipients :: "app_db \<Rightarrow> string \<Rightarrow> string option \<Rightarrow> string list \<Rightarrow> string list" where
  "broadcast_recipients db cve actor excluded =
     sort (map su_user (filter (\<lambda>s. su_cve s = cve \<and> su_user s \<notin> set excluded \<and>
       (case actor of None \<Rightarrow> True | Some a \<Rightarrow> a = [] \<or> su_user s \<noteq> a)) (subs db)))"

definition broadcast_subscription_event ::
    "stackrox option \<Rightarrow> string \<Rightarrow> string \<Rightarrow> (string \<times> string) list \<Rightarrow> string option \<Rightarrow> string option \<Rightarrow>
     string list \<Rightarrow> pair list option \<Rightarrow> app_db \<Rightarrow> app_db result" where
  "broadcast_subscription_event sx cve kind params link actor excluded scope db =
     (let recipients = broadcast_recipients db cve actor excluded in
      if recipients = [] then Inr db
      else case (case scope of Some ps \<Rightarrow> Some ps | None \<Rightarrow> map_option (\<lambda>s. get_namespaces_with_cve s cve) sx) of
        None \<Rightarrow> Inr db
      | Some ps \<Rightarrow>
          notify_all recipients (\<lambda>uid. emit uid cve kind params
            (if truthy link then the link else cve_link cve) (by_cluster (dedupe ps)) (db_now db)) db)"

section \<open>The hourly job\<close>

record pending_event =
  pe_cve :: string
  pe_event :: diff_event

fun emit_pending :: "string \<Rightarrow> datetime \<Rightarrow> pending_event list \<Rightarrow> app_db \<Rightarrow> app_db result" where
  "emit_pending uid now [] db = Inr db"
| "emit_pending uid now (p # ps) db =
     rbind (emit uid (pe_cve p) (de_kind (pe_event p)) (de_params (pe_event p)) (cve_link (pe_cve p))
              (de_scope (pe_event p)) now db) (emit_pending uid now ps)"

definition summary_link :: string where "summary_link = ''/vulnerabilities?subscribed=1''"

definition flush_user_events :: "string \<Rightarrow> pending_event list \<Rightarrow> datetime \<Rightarrow> app_db \<Rightarrow> app_db result" where
  "flush_user_events uid pending now db =
     (if max_diff_notifications_per_user < length pending then
        let db1 = fold (\<lambda>p. add_sub_event uid (pe_cve p) (de_kind (pe_event p)) (de_scope (pe_event p)) now)
                    pending db;
            scope = by_cluster (dedupe (concat (map (\<lambda>p. de_scope (pe_event p)) pending)))
        in create_notification uid NCveSubscription ''subscription.summary''
             [(''count'', digits_of (length pending))] (Some summary_link) (Some scope) db1
      else emit_pending uid now pending db)"

definition epss_threshold :: "app_db \<Rightarrow> num" where
  "epss_threshold db = (case gsettings db of None \<Rightarrow> 0 | Some s \<Rightarrow> gs_min_epss s)"

definition recipient_visible :: "active_recipient \<Rightarrow> pair list option" where
  "recipient_visible r =
     (if can_see_all_namespaces (as_current_user r) then None else Some (ar_namespaces r))"

definition recipient_for :: "active_recipient list \<Rightarrow> string \<Rightarrow> active_recipient option" where
  "recipient_for rs uid = dict_of (\<lambda>r. user_id (ar_user r)) rs uid"

text \<open>One subscription: the state to store and its events; \<open>None\<close> for an inactive subscriber.\<close>

definition check_subscription ::
    "active_recipient list \<Rightarrow> sub_row list \<Rightarrow> num \<Rightarrow> cve_subscription \<Rightarrow> (sub_state \<times> diff_event list) option" where
  "check_subscription rs rows threshold s =
     (case recipient_for rs (su_user s) of None \<Rightarrow> None
      | Some r \<Rightarrow> Some (diff_state (su_state s)
          (build_state (filter (\<lambda>w. sw_cve w = su_cve s) rows) (recipient_visible r)) threshold))"

definition update_checked ::
    "(cve_subscription \<Rightarrow> (sub_state \<times> diff_event list) option) \<Rightarrow> string list \<Rightarrow> datetime \<Rightarrow>
     cve_subscription \<Rightarrow> cve_subscription" where
  "update_checked check batch now s =
     (if su_cve s \<in> set batch then
        (case check s of None \<Rightarrow> s | Some (st, es) \<Rightarrow> s\<lparr>su_state := st, su_checked_at := now\<rparr>)
      else s)"

fun flush_all :: "datetime \<Rightarrow> (string \<times> pending_event list) list \<Rightarrow> app_db \<Rightarrow> app_db result" where
  "flush_all now [] db = Inr db"
| "flush_all now ((u, ps) # rest) db = rbind (flush_user_events u ps now db) (flush_all now rest)"

definition diff_batch ::
    "stackrox \<Rightarrow> active_recipient list \<Rightarrow> num \<Rightarrow> datetime \<Rightarrow> string list \<Rightarrow> app_db \<Rightarrow> app_db result" where
  "diff_batch sx rs threshold now batch db =
     (let rows = get_subscription_locations sx batch;
          check = check_subscription rs rows threshold;
          mine = filter (\<lambda>s. su_cve s \<in> set batch) (subs db);
          pending = [(su_user s, \<lparr>pe_cve = su_cve s, pe_event = e\<rparr>).
             s \<leftarrow> mine, e \<leftarrow> (case check s of None \<Rightarrow> [] | Some (st, es) \<Rightarrow> es)];
          db1 = db\<lparr>subs := map (update_checked check batch now) (subs db)\<rparr>
      in flush_all now (map (\<lambda>(u, xs). (u, map snd xs)) (group_by fst pending)) db1)"

function batches :: "nat \<Rightarrow> 'a list \<Rightarrow> 'a list list" where
  "batches n xs = (if xs = [] \<or> n = 0 then [] else take n xs # batches n (drop n xs))"
  by pat_completeness auto
termination by (relation "measure (\<lambda>(n, xs). length xs)") auto

declare batches.simps [simp del]

text \<open>Every batch commits; a later batch that raises leaves the earlier ones stored.\<close>

fun diff_batches ::
    "stackrox \<Rightarrow> active_recipient list \<Rightarrow> num \<Rightarrow> datetime \<Rightarrow> string list list \<Rightarrow> app_db \<Rightarrow> app_db" where
  "diff_batches sx rs threshold now [] db = db"
| "diff_batches sx rs threshold now (b # bs) db =
     (case diff_batch sx rs threshold now b db of Inl e \<Rightarrow> db
      | Inr db' \<Rightarrow> diff_batches sx rs threshold now bs db')"

definition run_subscription_diff :: "config \<Rightarrow> stackrox \<Rightarrow> datetime \<Rightarrow> app_db \<Rightarrow> app_db" where
  "run_subscription_diff cf sx now db =
     diff_batches sx (load_active_recipients db (cf_active_days cf) now) (epss_threshold db) now
       (batches diff_batch_size (sorted_set (map su_cve (subs db)))) db"

section \<open>The daily summary email\<close>

definition event_visible :: "active_recipient \<Rightarrow> sub_event \<Rightarrow> bool" where
  "event_visible r e =
     (if can_see_all_namespaces (as_current_user r) then True
      else list_ex (\<lambda>p. p \<in> set (ar_namespaces r)) (se_scope e))"

definition plan_subscription_email ::
    "app_db \<Rightarrow> active_recipient \<Rightarrow> datetime \<Rightarrow> (nat \<times> nat) option" where
  "plan_subscription_email db r now =
     (let uid = user_id (ar_user r);
          last_sent = sql_max (map (\<lambda>d. Some (snd (snd d))) (filter (\<lambda>d. fst d = uid) (sub_deliveries db)));
          cursor = (case last_sent of None \<Rightarrow> now - email_default_window | Some t \<Rightarrow> t);
          visible = filter (\<lambda>e. se_user e = uid \<and> cursor < se_created e \<and> se_created e \<le> now \<and> event_visible r e)
            (sub_events db)
      in if visible = [] then None else Some (length visible, length (remdups (map se_cve visible))))"

definition email_job ::
    "(string \<Rightarrow> string option) \<Rightarrow> datetime \<Rightarrow> app_db \<Rightarrow> active_recipient \<Rightarrow> (string \<times> mail) option" where
  "email_job valid_email now db r =
     (let u = ar_user r in
      if wants db (user_id u) ''cve_subscription'' True \<noteq> Inr True then None
      else if list_ex (\<lambda>d. fst d = user_id u \<and> fst (snd d) = date_of now) (sub_deliveries db) then None
      else case plan_subscription_email db r now of None \<Rightarrow> None
        | Some (n, m) \<Rightarrow> map_option (\<lambda>a. (user_id u, MailSubscriptionSummary a (user_display_name u) (int n) (int m)))
            (valid_email (email u)))"

definition run_subscription_email_digest ::
    "(string \<Rightarrow> string option) \<Rightarrow> config \<Rightarrow> datetime \<Rightarrow> app_db \<Rightarrow> app_db \<times> mail list" where
  "run_subscription_email_digest valid_email cf now db =
     (let jobs = somes (map (email_job valid_email now db) (load_active_recipients db (cf_active_days cf) now));
          cutoff = now - timedelta_days event_retention_days
      in (db\<lparr>sub_deliveries := filter (\<lambda>d. date_of cutoff \<le> fst (snd d))
                (sub_deliveries db @ map (\<lambda>(u, m). (u, date_of now, now)) jobs),
             sub_events := filter (\<lambda>e. cutoff \<le> se_created e) (sub_events db)\<rparr>,
          map snd jobs))"

section \<open>What emitting leaves alone\<close>

definition core2 :: "app_db \<Rightarrow> app_db" where
  "core2 db = core (db\<lparr>sub_events := []\<rparr>)"

lemma core2_eqD:
  assumes "core2 a = core2 b"
  shows "users a = users b" "ras a = ras b" "ra_comments a = ra_comments b" "rems a = rems b"
    "rules a = rules b" "prios a = prios b" "escs a = escs b" "warnings a = warnings b"
    "contacts a = contacts b" "gsettings a = gsettings b" "notif_prefs a = notif_prefs b"
    "subs a = subs b" "sub_deliveries a = sub_deliveries b"
    "snapshots a = snapshots b" "audit a = audit b" "db_now a = db_now b"
    "cve_comments a = cve_comments b" "alert_marks a = alert_marks b" "alert_deliveries a = alert_deliveries b"
    "summary_deliveries a = summary_deliveries b"
  using core_eqD [OF assms [unfolded core2_def]] by simp_all

lemma core2_core: "core a = core b \<Longrightarrow> core2 a = core2 b"
  by (cases a; cases b; simp add: core2_def core_def)

text \<open>The contract of every operation that notifies subscribers: \<open>quiet\<close> but for the event log.\<close>

locale notifying =
  fixes f :: "app_db \<Rightarrow> app_db result"
  assumes frame2: "f db = Inr db' \<Longrightarrow> core2 db' = core2 db"
    and grows2: "f db = Inr db' \<Longrightarrow>
      prefix (notifs db) (notifs db') \<and> prefix (sub_events db) (sub_events db') \<and> next_id db \<le> next_id db'"
begin

lemmas unchanged2 = core2_eqD [OF frame2]

lemma keeps_events: "f db = Inr db' \<Longrightarrow> e \<in> set (sub_events db) \<Longrightarrow> e \<in> set (sub_events db')"
  using grows2 by (blast dest: set_mono_prefix)

end

sublocale quiet \<subseteq> notifying
proof
  fix db db' assume f: "f db = Inr db'"
  show "core2 db' = core2 db" by (rule core2_core [OF frame [OF f]])
  show "prefix (notifs db) (notifs db') \<and> prefix (sub_events db) (sub_events db') \<and> next_id db \<le> next_id db'"
    using grows [OF f] unchanged(13) [OF f] by simp
qed

lemma notifying_Inr: "notifying Inr"
  by unfold_locales auto

lemma notifying_bind:
  assumes "notifying f" and "\<And>db. notifying (g db)"
  shows "notifying (\<lambda>db. rbind (f db) (g db))"
proof
  fix db db' assume "rbind (f db) (g db) = Inr db'"
  then obtain m where m: "f db = Inr m" "g db m = Inr db'" by (auto simp: rbind_Inr_iff)
  show "core2 db' = core2 db"
    using notifying.frame2 [OF assms(1) m(1)] notifying.frame2 [OF assms(2) m(2)] by simp
  show "prefix (notifs db) (notifs db') \<and> prefix (sub_events db) (sub_events db') \<and> next_id db \<le> next_id db'"
    using notifying.grows2 [OF assms(1) m(1)] notifying.grows2 [OF assms(2) m(2)]
    by (auto intro: prefix_order.trans)
qed

lemma notifying_dep: "(\<And>x. notifying (f x)) \<Longrightarrow> notifying (\<lambda>db. f (h db) db)"
  by (auto simp: notifying_def)

lemma notifying_all: "(\<And>u. notifying (f u)) \<Longrightarrow> notifying (notify_all us f)"
proof (induction us)
  case Nil
  then show ?case using notifying_Inr by (simp add: fun_eq_iff notifying_def)
next
  case (Cons u us)
  have "notify_all (u # us) f = (\<lambda>db. rbind (f u db) (notify_all us f))" by (simp add: fun_eq_iff)
  with notifying_bind [of "f u" "\<lambda>_. notify_all us f"] Cons show ?case by simp
qed

lemma add_sub_event_simps [simp]:
  "core2 (add_sub_event u c k s now db) = core2 db" "notifs (add_sub_event u c k s now db) = notifs db"
  "next_id (add_sub_event u c k s now db) = next_id db"
  "sub_events (add_sub_event u c k s now db) = sub_events db @
     [\<lparr>se_user = u, se_cve = c, se_kind = k, se_scope = s, se_created = now\<rparr>]"
  "notif_prefs (add_sub_event u c k s now db) = notif_prefs db"
  by (simp_all add: add_sub_event_def core2_def core_def)

interpretation emit: notifying "emit uid cve kind params link scope now" for uid cve kind params link scope now
proof
  fix db db' assume "emit uid cve kind params link scope now db = Inr db'"
  then have c: "create_notification uid NCveSubscription (''subscription.'' @ kind) ((''cve_id'', cve) # params)
      (Some link) (Some scope) (add_sub_event uid cve kind scope now db) = Inr db'" by (simp add: emit_def)
  show "core2 db' = core2 db" using create.frame2 [OF c] by simp
  show "prefix (notifs db) (notifs db') \<and> prefix (sub_events db) (sub_events db') \<and> next_id db \<le> next_id db'"
    using create.grows2 [OF c] by (auto simp: prefix_def)
qed

interpretation broadcast: notifying "broadcast_subscription_event sx cve kind params link actor excluded scope"
  for sx cve kind params link actor excluded scope
proof
  fix db db' assume b: "broadcast_subscription_event sx cve kind params link actor excluded scope db = Inr db'"
  let ?rs = "broadcast_recipients db cve actor excluded"
  have "db' = db \<or> (\<exists>l ps now. notify_all ?rs (\<lambda>uid. emit uid cve kind params l ps now) db = Inr db')"
    using b by (auto simp: broadcast_subscription_event_def Let_def split: if_splits option.splits)
  moreover have "notifying (notify_all ?rs (\<lambda>uid. emit uid cve kind params l ps now))" for l ps now
    by (intro notifying_all emit.notifying_axioms)
  ultimately show "core2 db' = core2 db"
    and "prefix (notifs db) (notifs db') \<and> prefix (sub_events db) (sub_events db') \<and> next_id db \<le> next_id db'"
    using notifying.frame2 notifying.grows2 by blast+
qed

interpretation flush: notifying "flush_user_events uid pending now" for uid pending now
proof
  have e: "notifying (emit_pending uid now ps)" for ps
  proof (induction ps)
    case Nil
    then show ?case using notifying_Inr by (simp add: fun_eq_iff notifying_def)
  next
    case (Cons p ps)
    have "emit_pending uid now (p # ps) = (\<lambda>db. rbind (emit uid (pe_cve p) (de_kind (pe_event p))
        (de_params (pe_event p)) (cve_link (pe_cve p)) (de_scope (pe_event p)) now db) (emit_pending uid now ps))"
      by (simp add: fun_eq_iff)
    with notifying_bind [OF emit.notifying_axioms, of "\<lambda>_. emit_pending uid now ps"] Cons show ?case by simp
  qed
  have f: "core2 (fold (\<lambda>p. add_sub_event uid (pe_cve p) (de_kind (pe_event p)) (de_scope (pe_event p)) now) ps db) = core2 db \<and>
      notifs (fold (\<lambda>p. add_sub_event uid (pe_cve p) (de_kind (pe_event p)) (de_scope (pe_event p)) now) ps db) = notifs db \<and>
      next_id (fold (\<lambda>p. add_sub_event uid (pe_cve p) (de_kind (pe_event p)) (de_scope (pe_event p)) now) ps db) = next_id db \<and>
      prefix (sub_events db)
        (sub_events (fold (\<lambda>p. add_sub_event uid (pe_cve p) (de_kind (pe_event p)) (de_scope (pe_event p)) now) ps db))"
    for ps :: "pending_event list" and db
  proof (induction ps arbitrary: db)
    case Nil
    then show ?case by simp
  next
    case (Cons p ps)
    from Cons [of "add_sub_event uid (pe_cve p) (de_kind (pe_event p)) (de_scope (pe_event p)) now db"]
    show ?case by (auto simp: prefix_def)
  qed
  fix db db' assume fl: "flush_user_events uid pending now db = Inr db'"
  show "core2 db' = core2 db"
    using fl notifying.frame2 [OF e] create.frame2 f
    by (auto simp: flush_user_events_def Let_def split: if_splits)
  show "prefix (notifs db) (notifs db') \<and> prefix (sub_events db) (sub_events db') \<and> next_id db \<le> next_id db'"
  proof (cases "max_diff_notifications_per_user < length pending")
    case True
    let ?db1 = "fold (\<lambda>p. add_sub_event uid (pe_cve p) (de_kind (pe_event p)) (de_scope (pe_event p)) now) pending db"
    from True fl obtain k ps l sc where "create_notification uid NCveSubscription k ps l sc ?db1 = Inr db'"
      by (auto simp: flush_user_events_def Let_def)
    from create.grows2 [OF this] f [of pending db] show ?thesis by (auto intro: prefix_order.trans)
  next
    case False
    with fl show ?thesis using notifying.grows2 [OF e] by (simp add: flush_user_events_def)
  qed
qed

section \<open>Lemmas on states\<close>

lemma lo_pair_location_of [simp]: "lo_pair (location_of r) = row_pair r"
  by (simp add: lo_pair_def location_of_def row_pair_def)

lemma set_build_locations:
  "set (st_locations (build_state rows vis)) = location_of ` {r \<in> set rows. row_visible vis r}"
  by (auto simp: build_state_def)

lemma locations_by_pair_build:
  assumes "distinct (map row_pair rows)" and "r \<in> set rows" and "row_visible vis r"
  shows "locations_by_pair (build_state rows vis) (row_pair r) = Some (location_of r)"
proof -
  let ?ls = "st_locations (build_state rows vis)"
  have "distinct (map lo_pair ?ls)"
    using assms(1) by (simp add: build_state_def distinct_map_sort_key comp_def distinct_map_filter)
  moreover have "location_of r \<in> set ?ls" using assms(2,3) by (auto simp: set_build_locations)
  ultimately show ?thesis
    unfolding locations_by_pair_def using dict_of_distinct [of lo_pair ?ls "location_of r"] by simp
qed

lemma locations_by_pair_None:
  "locations_by_pair (build_state rows vis) p = None \<longleftrightarrow> (\<forall>r \<in> set rows. row_visible vis r \<longrightarrow> row_pair r \<noteq> p)"
  by (auto simp: locations_by_pair_def dict_of_None_iff set_build_locations image_iff)

lemma scope_contains_build:
  "scope_contains (st_scope (build_state rows vis)) p \<longleftrightarrow> (case vis of None \<Rightarrow> True | Some ps \<Rightarrow> p \<in> set ps)"
  by (auto simp: scope_contains_def build_state_def split: option.split)

lemma row_visible_scope: "row_visible vis r \<longleftrightarrow> scope_contains (st_scope (build_state rows vis)) (row_pair r)"
  by (simp add: row_visible_def scope_contains_build)

lemma set_by_cluster [simp]: "set (by_cluster ps) = set ps"
  by (simp add: by_cluster_def)

lemma st_version_build [simp]: "st_version (build_state rows vis) = state_version"
  by (simp add: build_state_def)

lemma st_scores_build: "st_scores (build_state rows vis) = st_scores (build_state rows None)"
  by (simp_all add: build_state_def)

lemma diff_scores_same: "diff_scores s s thr = (s, False)"
  by (cases s) (auto simp: diff_scores_def changed_opt_def crosses_def epss_notify_delta_def Let_def split: option.split)

text \<open>The rows of one CVE: the query groups by location, so no location comes twice.\<close>

definition cve_rows_for :: "stackrox \<Rightarrow> string list \<Rightarrow> string \<Rightarrow> sub_row list" where
  "cve_rows_for sx cves cve = filter (\<lambda>w. sw_cve w = cve) (get_subscription_locations sx cves)"

lemma distinct_cve_rows_for: "distinct (map row_pair (cve_rows_for sx cves cve))"
proof -
  define rows where "rows = get_subscription_locations sx cves"
  have "map (\<lambda>r. (sw_cve r, row_pair r)) rows =
      (if cves = [] then [] else dedupe (map (\<lambda>v. (vr_cve v, vr_pair v)) (filter (\<lambda>v. vr_cve v \<in> set cves) (joined sx))))"
    unfolding rows_def get_subscription_locations_def
    by (auto simp: group_by_def comp_def row_pair_def split: prod.split intro!: map_idI)
  then have d: "distinct (map (\<lambda>r. (sw_cve r, row_pair r)) rows)" by simp
  have "inj_on row_pair (set (filter (\<lambda>w. sw_cve w = cve) rows))"
    using d by (auto simp: distinct_map inj_on_def)
  moreover have "distinct rows" using d by (simp add: distinct_map)
  ultimately show ?thesis by (simp add: cve_rows_for_def rows_def [symmetric] distinct_map)
qed

lemma diff_event_scope:
  assumes "e \<in> set (snd (diff_state old new thr))" and "p \<in> set (de_scope e)"
  shows "p \<in> lo_pair ` set (st_locations new) \<or>
    (p \<in> lo_pair ` set (st_locations old) \<and> scope_contains (st_scope new) p)"
  using assms
  by (auto simp: diff_state_def Let_def pair_events_def new_image_pairs_def fix_pairs_def gone_pairs_def
      split: if_splits prod.splits)

section \<open>Properties\<close>

text \<open>C36: No event of the hourly diff names a location outside the subscriber's current scope, whatever
  the stored state was: not a location the subscriber lost, and not one that is unaffected and out of
  sight.\<close>

theorem diff_events_in_scope:
  assumes "e \<in> set (snd (diff_state old (build_state rows vis) thr))" and "p \<in> set (de_scope e)"
  shows "scope_contains (st_scope (build_state rows vis)) p"
  using diff_event_scope [OF assms] row_visible_scope [of vis _ rows]
  by (auto simp: set_build_locations)

definition ex_sub_row :: sub_row where
  "ex_sub_row = \<lparr>sw_cve = ''CVE-2024-1'', sw_namespace = ''shop'', sw_cluster = ''c1'', sw_severity = Some 4,
     sw_cvss = Some 9, sw_epss = Some (1/2), sw_images = [''img:1@sha256:ab''], sw_fixable = []\<rparr>"

definition ex_gone :: diff_event where
  "ex_gone = \<lparr>de_kind = ''no_longer_affected'', de_params = [], de_scope = [(''shop'', ''c1'')]\<rparr>"

lemma ex_gone_in:
  "ex_gone \<in> set (snd (diff_state (build_state [ex_sub_row] None) (build_state [] None) 0))"
  by (simp add: diff_state_def build_state_def Let_def ex_sub_row_def row_visible_def sql_max_def diff_scores_def
      pair_events_def gone_pairs_def new_image_pairs_def fix_pairs_def locations_by_pair_def location_of_def
      lo_pair_def scope_contains_def by_cluster_def ex_gone_def state_version_def)

theorem diff_events_in_scope_witness: "scope_contains (st_scope (build_state [] None)) (''shop'', ''c1'')"
  by (rule diff_events_in_scope [OF ex_gone_in]) (simp add: ex_gone_def)

text \<open>A change of access is silent: if StackRox reports the same rows, moving from any set of visible
  namespaces to any other produces no event, and the stored state is the freshly built one.\<close>

theorem access_change_is_silent:
  "diff_state (build_state (cve_rows_for sx cves cve) vis) (build_state (cve_rows_for sx cves cve) vis') thr =
     (build_state (cve_rows_for sx cves cve) vis', [])"
proof -
  let ?rows = "cve_rows_for sx cves cve"
  note at = locations_by_pair_build [OF distinct_cve_rows_for [of sx cves cve]]
  let ?old = "build_state ?rows vis" and ?new = "build_state ?rows vis'"
  have row: "\<exists>r \<in> set ?rows. row_visible v r \<and> p = row_pair r"
    if "p \<in> lo_pair ` set (st_locations (build_state ?rows v))" for p v
    using that by (auto simp: set_build_locations)
  have same: "locations_by_pair ?old p = locations_by_pair ?new p"
    if "p \<in> lo_pair ` set (st_locations ?new)" "locations_by_pair ?old p \<noteq> None" for p
  proof -
    from row [OF that(1)] obtain r where r: "r \<in> set ?rows" "row_visible vis' r" "p = row_pair r" by blast
    from that(2) obtain q where q: "q \<in> set ?rows" "row_visible vis q" "row_pair q = p"
      by (auto simp: locations_by_pair_None)
    have "row_visible vis r" using q r by (simp add: row_visible_def split: option.splits)
    with at [OF r(1)] r show ?thesis by simp
  qed
  have unseen: "\<not> scope_contains (st_scope ?old) p"
    if "p \<in> lo_pair ` set (st_locations ?new)" "locations_by_pair ?old p = None" for p
    using row [OF that(1)] that(2) row_visible_scope [of vis _ ?rows] by (auto simp: locations_by_pair_None)
  have 1: "new_image_pairs ?old ?new = []"
  proof -
    have "\<not> (case locations_by_pair ?old p of None \<Rightarrow> scope_contains (st_scope ?old) p
        | Some prev \<Rightarrow> \<not> set (lo_images (the (locations_by_pair ?new p))) \<subseteq> set (lo_images prev))"
      if "p \<in> lo_pair ` set (st_locations ?new)" for p
    proof (cases "locations_by_pair ?old p")
      case None
      with unseen [OF that] show ?thesis by simp
    next
      case (Some prev)
      with same [OF that] have "locations_by_pair ?new p = Some prev" by simp
      with Some show ?thesis by simp
    qed
    then show ?thesis by (simp add: new_image_pairs_def filter_empty_conv)
  qed
  have 2: "fix_pairs ?old ?new = []"
  proof -
    have "\<not> (case locations_by_pair ?old p of None \<Rightarrow> False
        | Some prev \<Rightarrow> \<not> set (lo_fixable (the (locations_by_pair ?new p))) \<subseteq> set (lo_fixable prev))"
      if "p \<in> lo_pair ` set (st_locations ?new)" for p
    proof (cases "locations_by_pair ?old p")
      case None
      then show ?thesis by simp
    next
      case (Some prev)
      with same [OF that] have "locations_by_pair ?new p = Some prev" by simp
      with Some show ?thesis by simp
    qed
    then show ?thesis by (simp add: fix_pairs_def filter_empty_conv)
  qed
  have 3: "gone_pairs ?old ?new = []"
  proof -
    have "\<not> (locations_by_pair ?new p = None \<and> scope_contains (st_scope ?new) p)"
      if "p \<in> lo_pair ` set (st_locations ?old)" for p
      using row [OF that] row_visible_scope [of vis' _ ?rows] by (auto simp: locations_by_pair_None)
    then show ?thesis by (simp add: gone_pairs_def filter_empty_conv)
  qed
  have s: "diff_scores (st_scores ?old) (st_scores ?new) thr = (st_scores ?new, False)"
    using diff_scores_same by (metis st_scores_build)
  show ?thesis
    by (simp add: diff_state_def Let_def s 1 2 3 pair_events_def)
qed

section \<open>Subscribing and broadcasting\<close>

text \<open>The primary key (user, CVE) and the cap per user.\<close>

definition subs_ok :: "app_db \<Rightarrow> bool" where
  "subs_ok db \<longleftrightarrow> distinct (map (\<lambda>s. (su_user s, su_cve s)) (subs db)) \<and>
     (\<forall>u. length (filter (\<lambda>s. su_user s = u) (subs db)) \<le> max_subscriptions_per_user)"

lemma subscribe_subs_ok:
  assumes "subs_ok db" and "subscribe sx u cve db = Inr (db', b)"
  shows "subs_ok db'"
proof (cases "is_subscribed db (cu_id u) cve")
  case True
  with assms show ?thesis by (simp add: subscribe_def)
next
  case False
  with assms obtain st where len: "length (filter (\<lambda>s. su_user s = cu_id u) (subs db)) < max_subscriptions_per_user"
    and db': "subs db' = subs db @ [\<lparr>su_user = cu_id u, su_cve = cve, su_created_at = db_now db,
      su_state = st, su_checked_at = db_now db\<rparr>]"
    by (auto simp: subscribe_def Let_def split: if_splits)
  with assms(1) False show ?thesis
    by (auto simp: subs_ok_def is_subscribed_def list_ex_iff)
qed

lemma length_filter_filter: "length (filter P (filter Q xs)) \<le> length (filter P xs)"
  by (induction xs) auto

lemma unsubscribe_subs_ok: "subs_ok db \<Longrightarrow> subs_ok (fst (unsubscribe uid cve db))"
proof -
  assume ok: "subs_ok db"
  let ?f = "filter (\<lambda>s. \<not> (su_user s = uid \<and> su_cve s = cve)) (subs db)"
  have s: "subs (fst (unsubscribe uid cve db)) = ?f" by (simp add: unsubscribe_def Let_def)
  have "distinct (map (\<lambda>s. (su_user s, su_cve s)) ?f)"
    using ok by (intro distinct_map_filter) (simp add: subs_ok_def)
  moreover have "length (filter (\<lambda>s. su_user s = u) ?f) \<le> length (filter (\<lambda>s. su_user s = u) (subs db))" for u
    by (rule length_filter_filter)
  ultimately show ?thesis unfolding subs_ok_def s using ok [unfolded subs_ok_def]
    by (meson order.trans)
qed

lemma flush_all_notifying: "notifying (flush_all now us)"
proof (induction us)
  case Nil
  then show ?case using notifying_Inr by (simp add: fun_eq_iff notifying_def)
next
  case (Cons x us)
  obtain u ps where x: "x = (u, ps)" by (cases x)
  have "flush_all now (x # us) = (\<lambda>db. rbind (flush_user_events u ps now db) (flush_all now us))"
    by (simp add: fun_eq_iff x)
  with notifying_bind [OF flush.notifying_axioms, of "\<lambda>_. flush_all now us"] Cons show ?case by simp
qed

lemma update_checked_key [simp]:
  "su_user (update_checked f b now s) = su_user s" "su_cve (update_checked f b now s) = su_cve s"
  by (simp_all add: update_checked_def split: option.split prod.split)

lemma diff_batch_subs:
  assumes "diff_batch sx rs thr now b db = Inr db'"
  shows "subs db' = map (update_checked (check_subscription rs (get_subscription_locations sx b) thr) b now) (subs db)"
  using assms notifying.unchanged2(12) [OF flush_all_notifying]
  unfolding diff_batch_def Let_def by fastforce

lemma diff_batches_subs_ok: "subs_ok db \<Longrightarrow> subs_ok (diff_batches sx rs thr now bs db)"
proof (induction bs arbitrary: db)
  case Nil
  then show ?case by simp
next
  case (Cons b bs)
  have "subs_ok db'" if "diff_batch sx rs thr now b db = Inr db'" for db'
    using Cons.prems unfolding subs_ok_def diff_batch_subs [OF that]
    by (simp add: comp_def filter_map)
  with Cons show ?case by (simp split: sum.split)
qed

text \<open>A user has one subscription per CVE and never more than the cap: subscribing, unsubscribing and
  the hourly job keep this. A successful subscription is one of a CVE that is deployed where the user
  can see it.\<close>

theorem subscriptions_invariant:
  assumes "subs_ok db"
  shows "(\<forall>db' b. subscribe sx u cve db = Inr (db', b) \<longrightarrow> subs_ok db' \<and> is_subscribed db' (cu_id u) cve) \<and>
    subs_ok (fst (unsubscribe uid cve db)) \<and> \<not> is_subscribed (fst (unsubscribe uid cve db)) uid cve \<and>
    subs_ok (run_subscription_diff cf sx now db)"
proof (intro conjI allI impI)
  fix db' b assume s: "subscribe sx u cve db = Inr (db', b)"
  show "subs_ok db'" by (rule subscribe_subs_ok [OF assms s])
  show "is_subscribed db' (cu_id u) cve"
    using s by (auto simp: subscribe_def is_subscribed_def Let_def split: if_splits)
next
  show "subs_ok (fst (unsubscribe uid cve db))" by (rule unsubscribe_subs_ok [OF assms])
  show "\<not> is_subscribed (fst (unsubscribe uid cve db)) uid cve"
    by (simp add: unsubscribe_def Let_def is_subscribed_def list_ex_iff)
  show "subs_ok (run_subscription_diff cf sx now db)"
    unfolding run_subscription_diff_def by (rule diff_batches_subs_ok [OF assms])
qed

theorem subscriptions_invariant_witness: "subs_ok (fst (unsubscribe ''u1'' ''CVE-2024-1'' empty_db))"
proof -
  have "subs_ok empty_db" by (simp add: subs_ok_def max_subscriptions_per_user_def)
  from subscriptions_invariant [OF this] show ?thesis by blast
qed

lemma emit_events:
  "emit uid cve kind params link scope now db = Inr db' \<Longrightarrow>
   sub_events db' = sub_events db @ [\<lparr>se_user = uid, se_cve = cve, se_kind = kind, se_scope = scope, se_created = now\<rparr>]"
  unfolding emit_def using create.unchanged(13) by fastforce

lemma emit_all_events:
  "notify_all us (\<lambda>uid. emit uid cve kind params link scope now) db = Inr db' \<Longrightarrow>
   sub_events db' = sub_events db @ map (\<lambda>u. \<lparr>se_user = u, se_cve = cve, se_kind = kind, se_scope = scope,
      se_created = now\<rparr>) us"
  by (induction us arbitrary: db) (auto simp: rbind_Inr_iff dest!: emit_events)

lemma emit_total: "''subscription.'' @ kind \<in> set message_keys \<Longrightarrow>
    \<exists>db'. emit uid cve kind params link scope now db = Inr db'"
  unfolding emit_def by (rule create_total)

lemma broadcast_total: "''subscription.'' @ kind \<in> set message_keys \<Longrightarrow>
    \<exists>db'. broadcast_subscription_event sx cve kind params link actor excluded scope db = Inr db'"
  using notify_all_total [of "broadcast_recipients db cve actor excluded"] emit_total
  by (auto simp: broadcast_subscription_event_def Let_def split: option.split)

text \<open>A broadcast writes one event for each subscriber of the CVE who is neither the actor nor excluded,
  about the pairs it is given in the order of cluster and namespace, and for nobody else; its own
  notifications apart, it changes nothing.\<close>

theorem broadcast_reaches_subscribers:
  assumes "broadcast_subscription_event sx cve kind params link actor excluded (Some ps) db = Inr db'"
  shows "core2 db' = core2 db \<and>
    sub_events db' = sub_events db @ map (\<lambda>u. \<lparr>se_user = u, se_cve = cve, se_kind = kind,
       se_scope = by_cluster (dedupe ps), se_created = db_now db\<rparr>) (broadcast_recipients db cve actor excluded) \<and>
    (\<forall>u. u \<in> set (broadcast_recipients db cve actor excluded) \<longleftrightarrow>
       is_subscribed db u cve \<and> u \<notin> set excluded \<and> (truthy actor \<longrightarrow> actor \<noteq> Some u))"
proof (intro conjI allI)
  show "core2 db' = core2 db" by (rule broadcast.frame2 [OF assms])
  show "sub_events db' = sub_events db @ map (\<lambda>u. \<lparr>se_user = u, se_cve = cve, se_kind = kind,
       se_scope = by_cluster (dedupe ps), se_created = db_now db\<rparr>) (broadcast_recipients db cve actor excluded)"
    using assms by (auto simp: broadcast_subscription_event_def Let_def dest!: emit_all_events split: if_splits)
  fix u
  show "u \<in> set (broadcast_recipients db cve actor excluded) \<longleftrightarrow>
       is_subscribed db u cve \<and> u \<notin> set excluded \<and> (truthy actor \<longrightarrow> actor \<noteq> Some u)"
    by (cases actor) (auto simp: broadcast_recipients_def is_subscribed_def list_ex_iff)
qed

theorem broadcast_reaches_subscribers_witness:
  "broadcast_recipients empty_db ''CVE-2024-1'' None [] = []"
  using broadcast_reaches_subscribers [of None "''CVE-2024-1''" "''comment''" "[]" None None "[]"
      "[(''shop'', ''c1'')]" empty_db empty_db]
  by (simp add: broadcast_subscription_event_def broadcast_recipients_def)

definition deliveries_ok :: "app_db \<Rightarrow> bool" where
  "deliveries_ok db \<longleftrightarrow> distinct (map (\<lambda>d. (fst d, fst (snd d))) (sub_deliveries db)) \<and>
     distinct (map user_id (users db)) \<and> snapshots_ok db"

lemma distinct_recipients:
  assumes "distinct (map user_id (users db))" and "snapshots_ok db"
  shows "distinct (map (\<lambda>r. user_id (ar_user r)) (load_active_recipients db days now))"
proof -
  have one: "length (filter (\<lambda>s. sn_user s = i) (snapshots db)) \<le> 1" for i
    using assms(2) by (intro filter_key_le_1) (simp add: snapshots_ok_def)
  let ?f = "\<lambda>u. filter (\<lambda>s. sn_user s = user_id u \<and> now - timedelta_days days \<le> sn_last_seen s) (snapshots db)"
  have le: "length (?f u) \<le> 1" for u
  proof -
    have "length (?f u) \<le> length (filter (\<lambda>s. sn_user s = user_id u) (snapshots db))"
      using length_filter_filter [of "\<lambda>s. sn_user s = user_id u" "\<lambda>s. now - timedelta_days days \<le> sn_last_seen s" "snapshots db"]
      by (simp add: conj_commute)
    with one [of "user_id u"] show ?thesis by simp
  qed
  define g where "g = (\<lambda>u. map (\<lambda>s. \<lparr>ar_user = u, ar_namespaces = sn_namespaces s, ar_has_all = sn_has_all s\<rparr>) (?f u))"
  have lg: "length (g u) \<le> 1" for u using le by (simp add: g_def)
  have ids: "map (\<lambda>r. user_id (ar_user r)) (g u) = [] \<or> map (\<lambda>r. user_id (ar_user r)) (g u) = [user_id u]" for u
    using le [of u] by (cases "?f u"; cases "tl (?f u)") (auto simp: g_def)
  have "distinct (map (\<lambda>r. user_id (ar_user r)) (concat (map g us)))" if "distinct (map user_id us)" for us
    using that
  proof (induction us)
    case Nil
    then show ?case by simp
  next
    case (Cons u us)
    define A where "A = map (\<lambda>r. user_id (ar_user r)) (concat (map g us))"
    have "set A \<subseteq> user_id ` set us" unfolding A_def by (auto simp: g_def)
    moreover have "distinct A" "user_id u \<notin> user_id ` set us" using Cons by (auto simp: A_def)
    ultimately have "distinct ([user_id u] @ A)" "distinct A" by auto
    with ids [of u] have "distinct (map (\<lambda>r. user_id (ar_user r)) (g u) @ A)" by (elim disjE) simp_all
    then show ?case by (simp add: A_def)
  qed
  moreover have "[\<lparr>ar_user = u, ar_namespaces = sn_namespaces s, ar_has_all = sn_has_all s\<rparr>.
          u \<leftarrow> users db, s \<leftarrow> snapshots db, sn_user s = user_id u \<and> now - timedelta_days days \<le> sn_last_seen s] =
      concat (map g (users db))"
  proof -
    have "concat (map (\<lambda>s. if P s then [h s] else []) xs) = map h (filter P xs)" 
      for P and h :: "ns_snapshot \<Rightarrow> active_recipient" and xs :: "ns_snapshot list"
      by (induction xs) auto
    then show ?thesis by (simp add: g_def)
  qed
  ultimately show ?thesis
    using assms(1) unfolding load_active_recipients_def distinct_map_sort_key by simp
qed

lemma email_job_user: "email_job ve now db r = Some (u, m) \<Longrightarrow> u = user_id (ar_user r) \<and>
    (u, date_of now) \<notin> (\<lambda>d. (fst d, fst (snd d))) ` set (sub_deliveries db)"
  by (force simp: email_job_def Let_def list_ex_iff split: if_splits option.splits)

lemma email_jobs_distinct:
  "distinct (map (\<lambda>r. user_id (ar_user r)) rs) \<Longrightarrow> distinct (map fst (somes (map (email_job ve now db) rs)))"
proof (induction rs)
  case Nil
  then show ?case by simp
next
  case (Cons r rs)
  have sub: "fst ` set (somes (map (email_job ve now db) rs)) \<subseteq> (\<lambda>r. user_id (ar_user r)) ` set rs"
  proof
    fix u
    assume "u \<in> fst ` set (somes (map (email_job ve now db) rs))"
    then obtain m r' where "r' \<in> set rs" "email_job ve now db r' = Some (u, m)"
      by (clarsimp simp: image_iff) metis
    then show "u \<in> (\<lambda>r. user_id (ar_user r)) ` set rs"
      using email_job_user [of ve now db r' u m] by auto
  qed
  show ?case
  proof (cases "email_job ve now db r")
    case None
    then show ?thesis using Cons by simp
  next
    case (Some a)
    then have "fst a = user_id (ar_user r)" using email_job_user [of ve now db r "fst a" "snd a"] by simp
    then have "fst a \<notin> fst ` set (somes (map (email_job ve now db) rs))"
      using sub Cons.prems by auto
    then show ?thesis using Some Cons by simp
  qed
qed

text \<open>At most one summary email per user and UTC day: the digest keeps the claims (user, day) distinct,
  and every mail it returns belongs to a claim of today that was not there before.\<close>

theorem digest_once_a_day:
  assumes "deliveries_ok db"
  shows "deliveries_ok (fst (run_subscription_email_digest ve cf now db)) \<and>
    (\<exists>us. distinct us \<and> length us = length (snd (run_subscription_email_digest ve cf now db)) \<and>
       (\<forall>u \<in> set us. (u, date_of now) \<notin> (\<lambda>d. (fst d, fst (snd d))) ` set (sub_deliveries db) \<and>
          (u, date_of now, now) \<in> set (sub_deliveries (fst (run_subscription_email_digest ve cf now db)))))"
proof -
  let ?rs = "load_active_recipients db (cf_active_days cf) now"
  define jobs where "jobs = somes (map (email_job ve now db) ?rs)"
  let ?key = "\<lambda>d :: string \<times> date \<times> datetime. (fst d, fst (snd d))"
  let ?new = "map (\<lambda>(u, m). (u, date_of now, now)) jobs"
  let ?cut = "now - timedelta_days event_retention_days"
  have du: "distinct (map fst jobs)"
    using email_jobs_distinct [OF distinct_recipients] assms unfolding jobs_def deliveries_ok_def by blast
  have fresh: "(u, date_of now) \<notin> ?key ` set (sub_deliveries db)" if "u \<in> fst ` set jobs" for u
  proof -
    from that obtain m r' where "email_job ve now db r' = Some (u, m)"
      by (clarsimp simp: jobs_def image_iff) metis
    then show ?thesis using email_job_user [of ve now db r' u m] by blast
  qed
  have r: "sub_deliveries (fst (run_subscription_email_digest ve cf now db)) =
      filter (\<lambda>d. date_of ?cut \<le> fst (snd d)) (sub_deliveries db @ ?new)"
    "snd (run_subscription_email_digest ve cf now db) = map snd jobs"
    "users (fst (run_subscription_email_digest ve cf now db)) = users db"
    "snapshots (fst (run_subscription_email_digest ve cf now db)) = snapshots db"
    by (simp_all add: run_subscription_email_digest_def Let_def jobs_def)
  have keys: "map ?key ?new = map (\<lambda>u. (u, date_of now)) (map fst jobs)"
    by (simp add: comp_def case_prod_unfold)
  have "distinct (map ?key (sub_deliveries db @ ?new))"
    unfolding map_append distinct_append keys
  proof (intro conjI)
    show "distinct (map ?key (sub_deliveries db))" using assms by (simp add: deliveries_ok_def)
    show "distinct (map (\<lambda>u. (u, date_of now)) (map fst jobs))" using du by (subst distinct_map) (simp add: inj_on_def)
    show "set (map ?key (sub_deliveries db)) \<inter> set (map (\<lambda>u. (u, date_of now)) (map fst jobs)) = {}"
      using fresh by (fastforce simp: image_iff)
  qed
  then have "deliveries_ok (fst (run_subscription_email_digest ve cf now db))"
    using assms unfolding deliveries_ok_def r snapshots_ok_def by (blast intro: distinct_map_filter)
  moreover have "date_of ?cut \<le> date_of now"
    by (auto simp: date_of_def timedelta_days_def event_retention_days_def day_us_def intro: zdiv_mono1)
  then have "\<forall>u \<in> set (map fst jobs). (u, date_of now, now) \<in> set (filter (\<lambda>d. date_of ?cut \<le> fst (snd d)) (sub_deliveries db @ ?new))"
    by force
  ultimately show ?thesis
    unfolding r using du fresh by (intro conjI exI [of _ "map fst jobs"]) auto
qed

theorem digest_once_a_day_witness:
  "deliveries_ok (fst (run_subscription_email_digest (\<lambda>_. None)
     \<lparr>cf_default_escalation_email = [], cf_management_email = [], cf_active_days = 30\<rparr> 0 empty_db))"
proof -
  have "deliveries_ok empty_db" by (simp add: deliveries_ok_def snapshots_ok_def)
  from digest_once_a_day [OF this] show ?thesis by blast
qed

end
