(* ===== verification/Remediations.thy ===== *)
theory Remediations
  imports Subscriptions Examples
begin

text \<open>
  Remediations: \<open>app/services/remediation_service.py\<close> and \<open>app/routers/remediations.py\<close>. A remediation
  follows one CVE in one (namespace, cluster). A handler returns an error, after which nothing is
  committed, or the new database. The bodies are taken as validated by the schemas; \<open>fmt\<close> is
  \<open>date.isoformat\<close>. The race in which two requests insert the same pair between the check and the flush
  is outside a model of whole requests. The lemmas show the life cycle of a row, the uniqueness of rows,
  that a batch is all or nothing, and that counters and list agree.
\<close>

section \<open>Creating\<close>

definition transitions :: "rem_status \<Rightarrow> rem_status list" where
  "transitions s =
     (case s of
        RemOpen \<Rightarrow> [RemInProgress, RemWontFix]
      | RemInProgress \<Rightarrow> [RemResolved, RemWontFix, RemOpen]
      | RemResolved \<Rightarrow> [RemInProgress]
      | RemVerified \<Rightarrow> [RemInProgress]
      | RemWontFix \<Rightarrow> [RemOpen])"

definition editable :: "rem_status \<Rightarrow> bool" where
  "editable s \<longleftrightarrow> s = RemOpen \<or> s = RemInProgress"

definition require_user :: "app_db \<Rightarrow> string \<Rightarrow> user result" where
  "require_user db uid =
     (case filter (\<lambda>u. user_id u = uid) (users db) of
        [] \<Rightarrow> Inl (ApiError 404 ''user_not_found'') | [u] \<Rightarrow> Inr u
      | _ \<Rightarrow> Inl (ServerError ''MultipleResultsFound''))"

definition rem_pair :: "remediation \<Rightarrow> pair" where
  "rem_pair r = (rem_namespace r, rem_cluster r)"

definition existing_pairs :: "app_db \<Rightarrow> string \<Rightarrow> pair list \<Rightarrow> pair list" where
  "existing_pairs db cve targets =
     map rem_pair (filter (\<lambda>r. rem_cve r = cve \<and> rem_pair r \<in> set targets) (rems db))"

record rem_create =
  rb_cve :: string
  rb_targets :: "pair list"
  rb_assigned_to :: "string option"
  rb_target_date :: "date option"
  rb_notes :: "string option"

definition new_remediation :: "current_user \<Rightarrow> rem_create \<Rightarrow> datetime \<Rightarrow> nat \<Rightarrow> pair \<Rightarrow> remediation" where
  "new_remediation u b now i p =
     \<lparr>rem_id = i, rem_cve = rb_cve b, rem_namespace = fst p, rem_cluster = snd p, rem_status = RemOpen,
      rem_assigned_to = or_none (rb_assigned_to b), rem_created_by = cu_id u, rem_resolved_by = None,
      rem_target_date = rb_target_date b, rem_notes = rb_notes b, rem_wont_fix_reason = None,
      rem_resolved_at = None, rem_verified_at = None, rem_created_at = now\<rparr>"

fun insert_remediations ::
    "current_user \<Rightarrow> rem_create \<Rightarrow> pair list \<Rightarrow> app_db \<Rightarrow> app_db \<times> remediation list" where
  "insert_remediations u b [] db = (db, [])"
| "insert_remediations u b (p # ps) db =
     (let (i, db1) = fresh_id db; r = new_remediation u b (db_now db) i p;
          (db2, rs) = insert_remediations u b ps (db1\<lparr>rems := rems db1 @ [r]\<rparr>)
      in (db2, r # rs))"

fun announce_created :: "current_user \<Rightarrow> remediation list \<Rightarrow> app_db \<Rightarrow> app_db result" where
  "announce_created u [] db = Inr db"
| "announce_created u (r # rs) db =
     rbind (notify_remediation_created r (cu_id u) (cu_display_name u)
         (log_action (cu_id u) ''remediation_created'' ''remediation'' (id_str (rem_id r))
           [(''cve_id'', Some (rem_cve r)), (''namespace'', Some (rem_namespace r)),
            (''cluster_name'', Some (rem_cluster r)), (''assigned_to_id'', rem_assigned_to r)] db))
       (announce_created u rs)"

definition create_remediations ::
    "stackrox \<Rightarrow> current_user \<Rightarrow> rem_create \<Rightarrow> app_db \<Rightarrow> (app_db \<times> remediation list) result" where
  "create_remediations sx u b db =
     (let pairs = dedupe (rb_targets b);
          affected = map (\<lambda>a. (af_namespace a, af_cluster a)) (get_affected_deployments sx (rb_cve b) pairs);
          assignee = or_none (rb_assigned_to b)
      in if \<not> can_see_all_namespaces u \<and> list_ex (\<lambda>p. p \<notin> set (cu_namespaces u)) pairs
         then Inl (ApiError 403 ''remediation_namespace_forbidden'')
      else if list_ex (\<lambda>p. p \<notin> set affected) pairs then Inl (ApiError 404 ''cve_not_in_namespace'')
      else if existing_pairs db (rb_cve b) pairs \<noteq> [] then Inl (ApiError 409 ''remediation_duplicate'')
      else rbind (case assignee of None \<Rightarrow> Inr () | Some a \<Rightarrow> rbind (require_user db a) (\<lambda>_. Inr ())) (\<lambda>_.
        let (db1, rs) = insert_remediations u b pairs db in
        rbind (announce_created u rs db1) (\<lambda>db2.
        rbind (broadcast_subscription_event (Some sx) (rb_cve b) ''remediation''
            [(''status'', rem_status_value RemOpen)] None (Some (cu_id u)) (opt_list assignee) (Some pairs) db2)
          (\<lambda>db3. Inr (db3, rs)))))"

section \<open>Updating\<close>

text \<open>The body of a PATCH: \<open>None\<close> is a field that was not sent, \<open>Some None\<close> an explicit null.\<close>

record rem_update =
  ru_status :: "rem_status option"
  ru_assigned_to :: "string option option"
  ru_target_date :: "date option option"
  ru_notes :: "string option option"
  ru_reason :: "string option"

type_synonym details = "(string \<times> string option) list"

definition require_editable :: "rem_status \<Rightarrow> rem_status option \<Rightarrow> unit result" where
  "require_editable cur new =
     (if editable cur \<or> (case new of None \<Rightarrow> False | Some n \<Rightarrow> editable n) then Inr ()
      else Inl (ApiError 400 ''remediation_not_editable''))"

definition apply_status ::
    "remediation \<Rightarrow> rem_status \<Rightarrow> string option \<Rightarrow> current_user \<Rightarrow> datetime \<Rightarrow>
     (remediation \<times> details) result" where
  "apply_status r new reason u now =
     (let old = rem_status r in
      if new \<notin> set (transitions old) then Inl (ApiError 400 ''invalid_status_transition'')
      else if new = RemWontFix \<and> \<not> truthy reason then Inl (ApiError 400 ''remediation_wontfix_requires_reason'')
      else
        let r1 = r\<lparr>rem_status := new\<rparr>;
            d1 = [(''old_status'', Some (rem_status_value old)), (''new_status'', Some (rem_status_value new))];
            r2 = (if new = RemResolved then r1\<lparr>rem_resolved_at := Some now, rem_resolved_by := Some (cu_id u)\<rparr>
                  else if editable new \<and> old \<in> {RemResolved, RemVerified, RemWontFix}
                  then r1\<lparr>rem_resolved_at := None, rem_resolved_by := None, rem_verified_at := None,
                    rem_wont_fix_reason := None\<rparr>
                  else r1)
        in if new = RemWontFix then Inr (r2\<lparr>rem_wont_fix_reason := reason\<rparr>, d1 @ [(''wont_fix_reason'', reason)])
           else Inr (r2, d1))"

text \<open>The step of the assignee: the row, the details and the newly assigned user.\<close>

definition apply_assignee ::
    "app_db \<Rightarrow> rem_update \<Rightarrow> remediation \<times> details \<Rightarrow> (remediation \<times> details \<times> string option) result" where
  "apply_assignee db b = (\<lambda>(r, d).
     case ru_assigned_to b of None \<Rightarrow> Inr (r, d, None)
     | Some v \<Rightarrow>
         let new = or_none v; d' = d @ [(''assigned_to_id'', new)] in
         if new = rem_assigned_to r then Inr (r, d, None)
         else case new of None \<Rightarrow> Inr (r\<lparr>rem_assigned_to := None\<rparr>, d', None)
           | Some a \<Rightarrow> rbind (require_user db a)
               (\<lambda>usr. Inr (r\<lparr>rem_assigned_to := Some a\<rparr>, d', Some (user_id usr))))"

definition target_date_changed :: "remediation \<Rightarrow> rem_update \<Rightarrow> bool" where
  "target_date_changed r b \<longleftrightarrow>
     (case ru_target_date b of None \<Rightarrow> False | Some v \<Rightarrow> v \<noteq> rem_target_date r)"

definition apply_target_date ::
    "(date \<Rightarrow> string) \<Rightarrow> date \<Rightarrow> rem_update \<Rightarrow> remediation \<Rightarrow> details \<Rightarrow> (remediation \<times> details) result" where
  "apply_target_date fmt today b r d =
     (if \<not> target_date_changed r b then Inr (r, d)
      else let new = the (ru_target_date b) in
        if (case new of None \<Rightarrow> False | Some t \<Rightarrow> t < today)
        then Inl (ApiError 400 ''remediation_target_date_past'')
        else Inr (r\<lparr>rem_target_date := new\<rparr>,
          d @ [(''old_target_date'', map_option fmt (rem_target_date r)), (''target_date'', map_option fmt new)]))"

definition clean_notes :: "string option \<Rightarrow> string option" where
  "clean_notes n = (case n of None \<Rightarrow> None | Some t \<Rightarrow> if t \<noteq> [] \<and> py_strip t \<noteq> [] then Some t else None)"

definition apply_notes :: "rem_update \<Rightarrow> remediation \<Rightarrow> details \<Rightarrow> remediation \<times> details" where
  "apply_notes b r d =
     (case ru_notes b of None \<Rightarrow> (r, d)
      | Some v \<Rightarrow> if clean_notes v \<noteq> rem_notes r
          then (r\<lparr>rem_notes := clean_notes v\<rparr>, d @ [(''notes_changed'', Some ''True'')]) else (r, d))"

text \<open>All changes of the row, before the notifications.\<close>

definition apply_update ::
    "(date \<Rightarrow> string) \<Rightarrow> current_user \<Rightarrow> rem_update \<Rightarrow> remediation \<Rightarrow> app_db \<Rightarrow>
     (remediation \<times> details \<times> string option) result" where
  "apply_update fmt u b r db =
     rbind (if ru_assigned_to b \<noteq> None \<or> ru_target_date b \<noteq> None \<or> ru_notes b \<noteq> None
            then require_editable (rem_status r) (ru_status b) else Inr ()) (\<lambda>_.
     rbind (case ru_status b of None \<Rightarrow> Inr (r, [])
            | Some new \<Rightarrow> apply_status r new (ru_reason b) u (db_now db)) (\<lambda>rd.
     rbind (apply_assignee db b rd) (\<lambda>(r1, d1, newly).
     rbind (apply_target_date fmt (date_of (db_now db)) b r1 d1) (\<lambda>(r2, d2).
     let (r3, d3) = apply_notes b r2 d2 in Inr (r3, d3, newly)))))"

definition put_rem :: "remediation \<Rightarrow> app_db \<Rightarrow> app_db" where
  "put_rem r db = db\<lparr>rems := map (\<lambda>x. if rem_id x = rem_id r then r else x) (rems db)\<rparr>"

definition announce_update ::
    "(date \<Rightarrow> string) \<Rightarrow> current_user \<Rightarrow> rem_update \<Rightarrow> remediation \<Rightarrow> remediation \<Rightarrow> string option \<Rightarrow>
     app_db \<Rightarrow> app_db result" where
  "announce_update fmt u b old r newly db =
     rbind (case newly of None \<Rightarrow> Inr db
            | Some a \<Rightarrow> notify_remediation_assigned r (cu_id u) (cu_display_name u) a db) (\<lambda>db1.
     rbind (if target_date_changed old b
            then notify_remediation_target_date_changed fmt r (cu_id u) (cu_display_name u)
                   (rem_target_date old) (the (ru_target_date b)) (opt_list newly) db1
            else Inr db1) (\<lambda>db2.
     case ru_status b of None \<Rightarrow> Inr db2
     | Some new \<Rightarrow>
         rbind (notify_remediation_status_change r (cu_id u) (cu_display_name u) new db2) (\<lambda>db3.
         broadcast_subscription_event None (rem_cve r) ''remediation'' [(''status'', rem_status_value new)]
           None (Some (cu_id u))
           (filter (\<lambda>x. x \<noteq> []) (rem_created_by r # opt_list (rem_assigned_to r)))
           (Some [rem_pair r]) db3)))"

definition update_remediation ::
    "(date \<Rightarrow> string) \<Rightarrow> current_user \<Rightarrow> rem_update \<Rightarrow> remediation \<Rightarrow> app_db \<Rightarrow> app_db result" where
  "update_remediation fmt u b r db =
     rbind (apply_update fmt u b r db) (\<lambda>(r', d, newly).
       if d = [] then Inr db
       else announce_update fmt u b r r' newly
         (log_action (cu_id u) ''remediation_updated'' ''remediation'' (id_str (rem_id r')) d (put_rem r' db)))"

section \<open>The handlers\<close>

definition rem_accessible :: "current_user \<Rightarrow> remediation \<Rightarrow> bool" where
  "rem_accessible u r \<longleftrightarrow> can_see_all_namespaces u \<or> rem_pair r \<in> set (cu_namespaces u)"

definition load_rem :: "nat \<Rightarrow> app_db \<Rightarrow> remediation result" where
  "load_rem i db =
     rbind (scalar_one_or_none (filter (\<lambda>r. rem_id r = i) (rems db))) (\<lambda>x.
       case x of None \<Rightarrow> Inl (ApiError 404 ''not_found'') | Some r \<Rightarrow> Inr r)"

definition get_remediation :: "current_user \<Rightarrow> nat \<Rightarrow> app_db \<Rightarrow> remediation result" where
  "get_remediation u i db =
     rbind (load_rem i db) (\<lambda>r. if rem_accessible u r then Inr r else Inl (ApiError 403 ''forbidden''))"

definition patch_remediation ::
    "(date \<Rightarrow> string) \<Rightarrow> current_user \<Rightarrow> nat \<Rightarrow> rem_update \<Rightarrow> app_db \<Rightarrow> app_db result" where
  "patch_remediation fmt u i b db =
     rbind (load_rem i db) (\<lambda>r. if rem_accessible u r then update_remediation fmt u b r db
       else Inl (ApiError 403 ''forbidden''))"

definition delete_remediation :: "current_user \<Rightarrow> nat \<Rightarrow> app_db \<Rightarrow> app_db result" where
  "delete_remediation u i db =
     rbind (load_rem i db) (\<lambda>r.
       if \<not> is_sec_team u \<and> rem_created_by r \<noteq> cu_id u
       then Inl (ApiError 403 ''remediation_only_creator_or_sec_delete'')
       else if rem_status r \<notin> {RemOpen, RemWontFix}
       then Inl (ApiError 400 ''remediation_only_open_rejected_deletable'')
       else let db1 = log_action (cu_id u) ''remediation_deleted'' ''remediation'' (id_str (rem_id r)) [] db
         in Inr (db1\<lparr>rems := filter (\<lambda>x. rem_id x \<noteq> rem_id r) (rems db1)\<rparr>))"

definition rem_overdue :: "date \<Rightarrow> remediation \<Rightarrow> bool" where
  "rem_overdue today r \<longleftrightarrow>
     (case rem_target_date r of None \<Rightarrow> False | Some d \<Rightarrow> d < today) \<and>
     (rem_status r = RemOpen \<or> rem_status r = RemInProgress)"

text \<open>The rows in scope of list and counters; \<open>None\<close> for a user without namespaces.\<close>

definition rem_scope :: "current_user \<Rightarrow> string option \<Rightarrow> string option \<Rightarrow> app_db \<Rightarrow> remediation list option" where
  "rem_scope u cluster namespace db =
     (if can_see_all_namespaces u then
        Some (filter (\<lambda>r. given_text cluster (\<lambda>c r. rem_cluster r = c) r \<and>
          given_text namespace (\<lambda>n r. rem_namespace r = n) r) (rems db))
      else if \<not> has_namespaces u then None
      else Some (filter (\<lambda>r. rem_pair r \<in> set (narrow_namespaces (cu_namespaces u) cluster namespace)) (rems db)))"

fun rem_status_of :: "string \<Rightarrow> rem_status option" where
  "rem_status_of s = map_of (map (\<lambda>x. (rem_status_value x, x))
     [RemOpen, RemInProgress, RemResolved, RemVerified, RemWontFix]) s"

record rem_query =
  rq_status :: "string option"
  rq_cve :: "string option"
  rq_cluster :: "string option"
  rq_namespace :: "string option"
  rq_assigned_to :: "string option"
  rq_overdue :: "bool option"

definition list_remediations :: "current_user \<Rightarrow> rem_query \<Rightarrow> app_db \<Rightarrow> remediation list result" where
  "list_remediations u q db =
     (case rem_scope u (rq_cluster q) (rq_namespace q) db of None \<Rightarrow> Inr []
      | Some rs \<Rightarrow>
          if truthy (rq_status q) \<and> rem_status_of (the (rq_status q)) = None
          then Inl (ApiError 400 ''invalid_status'')
          else Inr (sort_key_rev rem_created_at (filter (\<lambda>r.
            given_text (rq_status q) (\<lambda>s r. rem_status_of s = Some (rem_status r)) r \<and>
            given_text (rq_cve q) (\<lambda>c r. rem_cve r = c) r \<and>
            given_text (rq_assigned_to q) (\<lambda>a r. rem_assigned_to r = Some a) r \<and>
            (rq_overdue q = Some True \<longrightarrow> rem_overdue (date_of (db_now db)) r)) rs)))"

record rem_stats =
  rt_open :: nat
  rt_in_progress :: nat
  rt_resolved :: nat
  rt_verified :: nat
  rt_wont_fix :: nat
  rt_overdue :: nat

definition zero_stats :: rem_stats where
  "zero_stats = \<lparr>rt_open = 0, rt_in_progress = 0, rt_resolved = 0, rt_verified = 0, rt_wont_fix = 0, rt_overdue = 0\<rparr>"

definition count_rem :: "date \<Rightarrow> rem_stats \<Rightarrow> remediation \<Rightarrow> rem_stats" where
  "count_rem today st r =
     (let s1 = (case rem_status r of
          RemOpen \<Rightarrow> st\<lparr>rt_open := rt_open st + 1\<rparr>
        | RemInProgress \<Rightarrow> st\<lparr>rt_in_progress := rt_in_progress st + 1\<rparr>
        | RemResolved \<Rightarrow> st\<lparr>rt_resolved := rt_resolved st + 1\<rparr>
        | RemVerified \<Rightarrow> st\<lparr>rt_verified := rt_verified st + 1\<rparr>
        | RemWontFix \<Rightarrow> st\<lparr>rt_wont_fix := rt_wont_fix st + 1\<rparr>)
      in if rem_overdue today r then s1\<lparr>rt_overdue := rt_overdue s1 + 1\<rparr> else s1)"

definition remediation_stats :: "current_user \<Rightarrow> string option \<Rightarrow> string option \<Rightarrow> app_db \<Rightarrow> rem_stats" where
  "remediation_stats u cluster namespace db =
     (case rem_scope u cluster namespace db of None \<Rightarrow> zero_stats
      | Some rs \<Rightarrow> foldl (count_rem (date_of (db_now db))) zero_stats rs)"

section \<open>The jobs\<close>

text \<open>\<open>run_remediation_auto_resolve\<close> and \<open>run_remediation_overdue_check\<close> of \<open>app/tasks/scheduler.py\<close>.\<close>

definition auto_resolve_note :: string where
  "auto_resolve_note = CHR 0x0A # ''[Automatisch behoben: CVE nicht mehr in Deployments gefunden]''"

definition auto_resolved :: "datetime \<Rightarrow> remediation \<Rightarrow> remediation" where
  "auto_resolved now r =
     r\<lparr>rem_status := RemResolved, rem_resolved_at := Some now,
       rem_notes := Some ((case rem_notes r of None \<Rightarrow> [] | Some n \<Rightarrow> n) @ auto_resolve_note)\<rparr>"

definition auto_resolve_one :: "stackrox \<Rightarrow> remediation \<Rightarrow> app_db \<Rightarrow> app_db result" where
  "auto_resolve_one sx r db =
     (if get_affected_deployments sx (rem_cve r) [rem_pair r] = [] then
        broadcast_subscription_event None (rem_cve r) ''remediation'' [(''status'', rem_status_value RemResolved)]
          None None [] (Some [rem_pair r]) (put_rem (auto_resolved (db_now db) r) db)
      else Inr db)"

definition run_remediation_auto_resolve :: "stackrox \<Rightarrow> app_db \<Rightarrow> app_db result" where
  "run_remediation_auto_resolve sx db =
     notify_all (filter (\<lambda>r. editable (rem_status r)) (rems db)) (auto_resolve_one sx) db"

definition run_remediation_overdue_check :: "app_db \<Rightarrow> app_db result" where
  "run_remediation_overdue_check db =
     notify_all (filter (rem_overdue (date_of (db_now db))) (rems db)) notify_remediation_overdue db"

interpretation overdue_check: quiet run_remediation_overdue_check
  unfolding run_remediation_overdue_check_def
  by (rule quiet_dep [of "\<lambda>rs. notify_all rs notify_remediation_overdue"])
    (intro quiet_notify_all rem_overdue.quiet_axioms)

section \<open>Lemmas on creating\<close>

lemma rem_pair_new [simp]: "rem_pair (new_remediation u b now i p) = p"
  by (simp add: rem_pair_def new_remediation_def)

lemma insert_remediations_props:
  assumes "insert_remediations u b ps db = (db', rs)"
  shows "rems db' = rems db @ rs \<and> map rem_pair rs = ps \<and> map rem_id rs = [next_id db ..< next_id db + length ps] \<and>
    (\<forall>r \<in> set rs. r = new_remediation u b (db_now db) (rem_id r) (rem_pair r)) \<and>
    next_id db' = next_id db + length ps \<and> users db' = users db \<and> db_now db' = db_now db"
  using assms
proof (induction ps arbitrary: db rs)
  case Nil
  then show ?case by simp
next
  case (Cons p ps)
  let ?r = "new_remediation u b (db_now db) (next_id db) p"
  let ?db = "db\<lparr>next_id := Suc (next_id db), rems := rems db @ [?r]\<rparr>"
  obtain rs' where rs': "insert_remediations u b ps ?db = (db', rs')" "rs = ?r # rs'"
    using Cons.prems by (auto simp: fresh_id_def Let_def split: prod.splits)
  have r: "rem_id ?r = next_id db" "rem_pair ?r = p" by (simp_all add: new_remediation_def rem_pair_def)
  have "[next_id db ..< next_id db + length (p # ps)] = next_id db # [Suc (next_id db) ..< Suc (next_id db) + length ps]"
    by (subst upt_conv_Cons) simp_all
  with Cons.IH [OF rs'(1)] r show ?case unfolding rs'(2) by simp
qed

lemma announce_created_frame:
  "announce_created u rs db = Inr db' \<Longrightarrow>
   rems db' = rems db \<and> users db' = users db \<and> db_now db' = db_now db \<and> next_id db \<le> next_id db'"
proof (induction rs arbitrary: db)
  case Nil
  then show ?case by simp
next
  case (Cons r rs)
  then obtain m where m: "notify_remediation_created r (cu_id u) (cu_display_name u)
      (log_action (cu_id u) ''remediation_created'' ''remediation'' (id_str (rem_id r))
        [(''cve_id'', Some (rem_cve r)), (''namespace'', Some (rem_namespace r)),
         (''cluster_name'', Some (rem_cluster r)), (''assigned_to_id'', rem_assigned_to r)] db) = Inr m"
    and "announce_created u rs m = Inr db'" by (auto simp: rbind_Inr_iff)
  with Cons.IH [of m] rem_created.unchanged [OF m] rem_created.grows [OF m] show ?case by simp
qed

lemma announce_created_total: "\<exists>db'. announce_created u rs db = Inr db'"
proof (induction rs arbitrary: db)
  case Nil
  then show ?case by simp
next
  case (Cons r rs)
  let ?d = "log_action (cu_id u) ''remediation_created'' ''remediation'' (id_str (rem_id r))
      [(''cve_id'', Some (rem_cve r)), (''namespace'', Some (rem_namespace r)),
       (''cluster_name'', Some (rem_cluster r)), (''assigned_to_id'', rem_assigned_to r)] db"
  obtain m where "notify_remediation_created r (cu_id u) (cu_display_name u) ?d = Inr m"
    using notify_total(5) by blast
  with Cons [of m] show ?case by simp
qed

lemma require_user_iff:
  assumes "distinct (map user_id (users db))"
  shows "(\<exists>x. require_user db a = Inr x) \<longleftrightarrow> (\<exists>x \<in> set (users db). user_id x = a)"
proof -
  have "length (filter (\<lambda>x. user_id x = a) (users db)) \<le> 1" using assms by (rule filter_key_le_1)
  moreover have "filter (\<lambda>x. user_id x = a) (users db) \<noteq> [] \<longleftrightarrow> (\<exists>x \<in> set (users db). user_id x = a)"
    by (auto simp: filter_empty_conv)
  ultimately show ?thesis by (auto simp: require_user_def split: list.split)
qed

lemma require_user_id: "require_user db a = Inr x \<Longrightarrow> x \<in> set (users db) \<and> user_id x = a"
proof -
  assume "require_user db a = Inr x"
  then have "filter (\<lambda>u. user_id u = a) (users db) = [x]"
    by (auto simp: require_user_def split: list.splits)
  then have "x \<in> set (filter (\<lambda>u. user_id u = a) (users db))" by simp
  then show ?thesis by simp
qed

text \<open>What the checks of a creation ask of one target.\<close>

definition target_allowed :: "stackrox \<Rightarrow> current_user \<Rightarrow> string \<Rightarrow> app_db \<Rightarrow> pair \<Rightarrow> bool" where
  "target_allowed sx u cve db p \<longleftrightarrow>
     (can_see_all_namespaces u \<or> p \<in> set (cu_namespaces u)) \<and>
     (\<exists>v \<in> set (joined sx). vr_cve v = cve \<and> vr_pair v = p) \<and>
     (\<forall>r \<in> set (rems db). rem_cve r = cve \<longrightarrow> rem_pair r \<noteq> p)"

definition assignee_known :: "app_db \<Rightarrow> string option \<Rightarrow> bool" where
  "assignee_known db a \<longleftrightarrow> (case or_none a of None \<Rightarrow> True | Some i \<Rightarrow> \<exists>x. require_user db i = Inr x)"

lemma existing_pairs_empty:
  "existing_pairs db cve ps = [] \<longleftrightarrow> (\<forall>p \<in> set ps. \<forall>r \<in> set (rems db). rem_cve r = cve \<longrightarrow> rem_pair r \<noteq> p)"
  by (auto simp: existing_pairs_def filter_empty_conv)

lemma affected_pairs:
  "p \<in> set ps \<Longrightarrow> p \<in> set (map (\<lambda>a. (af_namespace a, af_cluster a)) (get_affected_deployments sx cve (dedupe ps))) \<longleftrightarrow>
     (\<exists>v \<in> set (joined sx). vr_cve v = cve \<and> vr_pair v = p)"
  using affected_iff [of sx cve "dedupe ps" p] by (auto simp: image_iff)

lemma create_Inr_iff:
  "create_remediations sx u b db = Inr (db', rs) \<longleftrightarrow>
     (\<forall>p \<in> set (rb_targets b). target_allowed sx u (rb_cve b) db p) \<and> assignee_known db (rb_assigned_to b) \<and>
     (\<exists>db1 db2. insert_remediations u b (dedupe (rb_targets b)) db = (db1, rs) \<and>
        announce_created u rs db1 = Inr db2 \<and>
        broadcast_subscription_event (Some sx) (rb_cve b) ''remediation''
            [(''status'', rem_status_value RemOpen)] None (Some (cu_id u)) (opt_list (or_none (rb_assigned_to b)))
            (Some (dedupe (rb_targets b))) db2 = Inr db')"
proof -
  let ?ps = "dedupe (rb_targets b)"
  have all: "(\<forall>p \<in> set (rb_targets b). target_allowed sx u (rb_cve b) db p) \<longleftrightarrow>
      \<not> (\<not> can_see_all_namespaces u \<and> list_ex (\<lambda>p. p \<notin> set (cu_namespaces u)) ?ps) \<and>
      \<not> list_ex (\<lambda>p. p \<notin> set (map (\<lambda>a. (af_namespace a, af_cluster a))
           (get_affected_deployments sx (rb_cve b) ?ps))) ?ps \<and> existing_pairs db (rb_cve b) ?ps = []"
    using affected_pairs [of _ "rb_targets b" sx "rb_cve b"]
    by (auto simp: target_allowed_def list_ex_iff existing_pairs_empty)
  have as: "(case or_none (rb_assigned_to b) of None \<Rightarrow> Inr () | Some a \<Rightarrow> rbind (require_user db a) (\<lambda>_. Inr ()))
      = Inr () \<longleftrightarrow> assignee_known db (rb_assigned_to b)"
    by (auto simp: assignee_known_def rbind_Inr_iff split: option.split)
  show ?thesis
  proof (cases "(\<forall>p \<in> set (rb_targets b). target_allowed sx u (rb_cve b) db p)")
    case True
    then show ?thesis unfolding create_remediations_def Let_def
      using as all by (auto simp: rbind_Inr_iff split: prod.splits)
  next
    case False
    with all show ?thesis unfolding create_remediations_def Let_def by auto
  qed
qed

section \<open>Properties\<close>

text \<open>A batch is all or nothing: it succeeds iff every target is visible to the user, really has the
  CVE and has no remediation yet, and the assignee, if any, exists. Then it appends exactly one open,
  unresolved row per distinct target, in the order of the request, with the values of the body.\<close>

theorem create_batch_all_or_nothing:
  "((\<exists>db' rs. create_remediations sx u b db = Inr (db', rs)) \<longleftrightarrow>
     (\<forall>p \<in> set (rb_targets b). target_allowed sx u (rb_cve b) db p) \<and> assignee_known db (rb_assigned_to b)) \<and>
   (\<forall>db' rs. create_remediations sx u b db = Inr (db', rs) \<longrightarrow>
     rems db' = rems db @ rs \<and> map rem_pair rs = dedupe (rb_targets b) \<and>
     (\<forall>r \<in> set rs. r = new_remediation u b (db_now db) (rem_id r) (rem_pair r)))"
proof (intro conjI allI impI)
  obtain db1 rs where i: "insert_remediations u b (dedupe (rb_targets b)) db = (db1, rs)" by fastforce
  obtain db2 where a: "announce_created u rs db1 = Inr db2" using announce_created_total by blast
  obtain db3 where "broadcast_subscription_event (Some sx) (rb_cve b) ''remediation''
      [(''status'', rem_status_value RemOpen)] None (Some (cu_id u)) (opt_list (or_none (rb_assigned_to b)))
      (Some (dedupe (rb_targets b))) db2 = Inr db3"
    using broadcast_total [of "''remediation''"] by (fastforce simp: message_keys_def)
  with i a show "(\<exists>db' rs. create_remediations sx u b db = Inr (db', rs)) \<longleftrightarrow>
     (\<forall>p \<in> set (rb_targets b). target_allowed sx u (rb_cve b) db p) \<and> assignee_known db (rb_assigned_to b)"
    unfolding create_Inr_iff by blast
next
  fix db' rs assume "create_remediations sx u b db = Inr (db', rs)"
  then obtain db1 db2 where i: "insert_remediations u b (dedupe (rb_targets b)) db = (db1, rs)"
    and a: "announce_created u rs db1 = Inr db2"
    and c: "broadcast_subscription_event (Some sx) (rb_cve b) ''remediation''
        [(''status'', rem_status_value RemOpen)] None (Some (cu_id u)) (opt_list (or_none (rb_assigned_to b)))
        (Some (dedupe (rb_targets b))) db2 = Inr db'"
    unfolding create_Inr_iff by blast
  have "rems db' = rems db1" using broadcast.unchanged2(4) [OF c] announce_created_frame [OF a] by simp
  with insert_remediations_props [OF i]
  show "rems db' = rems db @ rs" "map rem_pair rs = dedupe (rb_targets b)"
    "\<forall>r \<in> set rs. r = new_remediation u b (db_now db) (rem_id r) (rem_pair r)" by simp_all
qed

definition ex_create :: rem_create where
  "ex_create = \<lparr>rb_cve = ''CVE-2024-1'', rb_targets = [(''shop'', ''c1''), (''shop'', ''c1'')],
     rb_assigned_to = None, rb_target_date = None, rb_notes = None\<rparr>"

theorem create_batch_all_or_nothing_witness:
  "\<exists>db' r. create_remediations ex_sx ex_member ex_create ex_db = Inr (db', [r]) \<and> rems db' = [r]"
proof -
  have "target_allowed ex_sx ex_member ''CVE-2024-1'' ex_db (''shop'', ''c1'')"
    by (simp add: target_allowed_def joined_ex)
  then have "\<exists>db' rs. create_remediations ex_sx ex_member ex_create ex_db = Inr (db', rs)"
    using create_batch_all_or_nothing [of ex_sx ex_member ex_create ex_db]
    by (simp add: ex_create_def assignee_known_def)
  then obtain db' rs where c: "create_remediations ex_sx ex_member ex_create ex_db = Inr (db', rs)" by blast
  then have "rems db' = rs" "map rem_pair rs = [(''shop'', ''c1'')]"
    using create_batch_all_or_nothing [of ex_sx ex_member ex_create ex_db] by (auto simp: ex_create_def)
  then show ?thesis using c by (auto simp: map_eq_Cons_conv)
qed

section \<open>The life cycle of a row\<close>

text \<open>What the columns of a row say together. No row ever reaches the legacy status \<open>verified\<close>.\<close>

definition rem_ok :: "remediation \<Rightarrow> bool" where
  "rem_ok r \<longleftrightarrow> rem_status r \<noteq> RemVerified \<and> rem_verified_at r = None \<and>
     (rem_status r = RemResolved \<longleftrightarrow> rem_resolved_at r \<noteq> None) \<and>
     (rem_resolved_at r = None \<longrightarrow> rem_resolved_by r = None) \<and>
     (rem_status r = RemWontFix \<longleftrightarrow> rem_wont_fix_reason r \<noteq> None) \<and>
     (rem_wont_fix_reason r = None \<or> truthy (rem_wont_fix_reason r))"

text \<open>What an update never changes.\<close>

definition same_identity :: "remediation \<Rightarrow> remediation \<Rightarrow> bool" where
  "same_identity r r' \<longleftrightarrow> rem_id r' = rem_id r \<and> rem_cve r' = rem_cve r \<and> rem_pair r' = rem_pair r \<and>
     rem_created_by r' = rem_created_by r \<and> rem_created_at r' = rem_created_at r"

text \<open>The columns that only a change of status may write.\<close>

definition same_status :: "remediation \<Rightarrow> remediation \<Rightarrow> bool" where
  "same_status r r' \<longleftrightarrow> rem_status r' = rem_status r \<and> rem_resolved_at r' = rem_resolved_at r \<and>
     rem_resolved_by r' = rem_resolved_by r \<and> rem_verified_at r' = rem_verified_at r \<and>
     rem_wont_fix_reason r' = rem_wont_fix_reason r"

lemma same_identity_refl [simp]: "same_identity r r" and same_status_refl [simp]: "same_status r r"
  by (simp_all add: same_identity_def same_status_def)

lemma same_status_ok: "same_status r r' \<Longrightarrow> rem_ok r \<Longrightarrow> rem_ok r'"
  unfolding same_status_def rem_ok_def by metis

lemma apply_status_Inr:
  assumes "apply_status r new reason u now = Inr (r', d)"
  shows "same_identity r r' \<and> (rem_ok r \<longrightarrow> rem_ok r') \<and> rem_status r' = new \<and>
    new \<in> set (transitions (rem_status r)) \<and> d \<noteq> [] \<and>
    rem_assigned_to r' = rem_assigned_to r \<and> rem_target_date r' = rem_target_date r \<and> rem_notes r' = rem_notes r"
proof -
  have t: "new \<in> set (transitions (rem_status r))" and w: "new = RemWontFix \<longrightarrow> truthy reason"
    using assms by (auto simp: apply_status_def Let_def split: if_splits)
  define r2 where "r2 = (let r1 = r\<lparr>rem_status := new\<rparr> in
      if new = RemResolved then r1\<lparr>rem_resolved_at := Some now, rem_resolved_by := Some (cu_id u)\<rparr>
      else if editable new \<and> rem_status r \<in> {RemResolved, RemVerified, RemWontFix}
      then r1\<lparr>rem_resolved_at := None, rem_resolved_by := None, rem_verified_at := None, rem_wont_fix_reason := None\<rparr>
      else r1)"
  have r': "r' = (if new = RemWontFix then r2\<lparr>rem_wont_fix_reason := reason\<rparr> else r2)" and d: "d \<noteq> []"
    using assms t w by (auto simp: apply_status_def Let_def r2_def split: if_splits)
  have "rem_ok r \<Longrightarrow> rem_ok r'"
    using t w unfolding r' r2_def Let_def
    by (cases "rem_status r"; cases new; cases reason) (auto simp: transitions_def editable_def rem_ok_def)
  moreover have "same_identity r r'" "rem_status r' = new" "rem_assigned_to r' = rem_assigned_to r"
    "rem_target_date r' = rem_target_date r" "rem_notes r' = rem_notes r"
    by (simp_all add: r' r2_def Let_def same_identity_def rem_pair_def)
  ultimately show ?thesis using t d by blast
qed

lemma apply_assignee_Inr:
  "apply_assignee db b (r, d) = Inr (r', d', newly) \<Longrightarrow>
     same_identity r r' \<and> same_status r r' \<and> rem_target_date r' = rem_target_date r \<and>
     rem_notes r' = rem_notes r \<and> prefix d d' \<and>
     (ru_assigned_to b = None \<longrightarrow> r' = r \<and> d' = d \<and> newly = None) \<and> (d' = d \<longrightarrow> r' = r \<and> newly = None)"
  by (auto simp: apply_assignee_def Let_def same_identity_def same_status_def rem_pair_def rbind_Inr_iff
      split: option.splits if_splits)

lemma apply_target_date_Inr:
  "apply_target_date fmt today b r d = Inr (r', d') \<Longrightarrow>
     same_identity r r' \<and> same_status r r' \<and> rem_assigned_to r' = rem_assigned_to r \<and>
     rem_notes r' = rem_notes r \<and> prefix d d' \<and> (ru_target_date b = None \<longrightarrow> r' = r \<and> d' = d) \<and> (d' = d \<longrightarrow> r' = r)"
  by (auto simp: apply_target_date_def Let_def same_identity_def same_status_def rem_pair_def
      target_date_changed_def split: option.splits if_splits)

lemma apply_notes_props:
  "apply_notes b r d = (r', d') \<Longrightarrow>
     same_identity r r' \<and> same_status r r' \<and> rem_assigned_to r' = rem_assigned_to r \<and>
     rem_target_date r' = rem_target_date r \<and> prefix d d' \<and> (ru_notes b = None \<longrightarrow> r' = r \<and> d' = d) \<and>
     (d' = d \<longrightarrow> r' = r)"
  by (auto simp: apply_notes_def same_identity_def same_status_def rem_pair_def split: option.splits if_splits)

lemma same_identity_trans: "same_identity a b \<Longrightarrow> same_identity b c \<Longrightarrow> same_identity a c"
  and same_status_trans: "same_status a b \<Longrightarrow> same_status b c \<Longrightarrow> same_status a c"
  by (simp_all add: same_identity_def same_status_def)

lemma case_pair_Inr: "(case p of (a, c) \<Rightarrow> Inr (a, c, n)) = Inr (r, d, m) \<longleftrightarrow> p = (r, d) \<and> n = m"
  by (cases p) auto

lemma apply_update_Inr:
  assumes "apply_update fmt u b r db = Inr (r', d, newly)"
  shows "same_identity r r' \<and> (rem_ok r \<longrightarrow> rem_ok r') \<and>
    (case ru_status b of None \<Rightarrow> same_status r r'
     | Some new \<Rightarrow> rem_status r' = new \<and> new \<in> set (transitions (rem_status r))) \<and>
    (editable (rem_status r) \<or> editable (rem_status r') \<or>
       rem_assigned_to r' = rem_assigned_to r \<and> rem_target_date r' = rem_target_date r \<and> rem_notes r' = rem_notes r) \<and>
    (d = [] \<longrightarrow> r' = r)"
proof -
  from assms obtain r0 d0 r1 d1 r2 d2 where
    e: "(if ru_assigned_to b \<noteq> None \<or> ru_target_date b \<noteq> None \<or> ru_notes b \<noteq> None
         then require_editable (rem_status r) (ru_status b) else Inr ()) = Inr ()"
    and st: "(case ru_status b of None \<Rightarrow> Inr (r, [])
         | Some new \<Rightarrow> apply_status r new (ru_reason b) u (db_now db)) = Inr (r0, d0)"
    and as: "apply_assignee db b (r0, d0) = Inr (r1, d1, newly)"
    and td: "apply_target_date fmt (date_of (db_now db)) b r1 d1 = Inr (r2, d2)"
    and no: "apply_notes b r2 d2 = (r', d)"
    unfolding apply_update_def by (auto simp: rbind_Inr_iff Let_def case_pair_Inr)
  note a = apply_assignee_Inr [OF as] and t = apply_target_date_Inr [OF td] and n = apply_notes_props [OF no]
  have same: "same_identity r0 r'" "same_status r0 r'"
    using a t n same_identity_trans same_status_trans by blast+
  have s: "same_identity r r0 \<and> (rem_ok r \<longrightarrow> rem_ok r0) \<and>
      (case ru_status b of None \<Rightarrow> r0 = r
       | Some new \<Rightarrow> rem_status r0 = new \<and> new \<in> set (transitions (rem_status r)) \<and> d0 \<noteq> []) \<and>
      rem_assigned_to r0 = rem_assigned_to r \<and> rem_target_date r0 = rem_target_date r \<and> rem_notes r0 = rem_notes r"
    using st apply_status_Inr [of r _ "ru_reason b" u "db_now db" r0 d0] by (cases "ru_status b") simp_all
  have 1: "same_identity r r'" "rem_ok r \<longrightarrow> rem_ok r'" using s same same_identity_trans same_status_ok by blast+
  have 2: "case ru_status b of None \<Rightarrow> same_status r r'
     | Some new \<Rightarrow> rem_status r' = new \<and> new \<in> set (transitions (rem_status r))"
    using s same(2) by (cases "ru_status b") (auto simp: same_status_def)
  have 3: "editable (rem_status r) \<or> editable (rem_status r') \<or>
      rem_assigned_to r' = rem_assigned_to r \<and> rem_target_date r' = rem_target_date r \<and> rem_notes r' = rem_notes r"
  proof (cases "ru_assigned_to b \<noteq> None \<or> ru_target_date b \<noteq> None \<or> ru_notes b \<noteq> None")
    case True
    with e show ?thesis using 2 by (cases "ru_status b") (auto simp: require_editable_def split: if_splits)
  next
    case False
    with a t n s show ?thesis by simp
  qed
  have 4: "d = [] \<longrightarrow> r' = r"
  proof
    assume "d = []"
    then have "d2 = []" using n by (auto simp: prefix_def)
    then have "d1 = []" using t by (auto simp: prefix_def)
    then have "d0 = []" using a by (auto simp: prefix_def)
    then have "r0 = r" using s by (cases "ru_status b") auto
    with \<open>d = []\<close> \<open>d2 = []\<close> \<open>d1 = []\<close> \<open>d0 = []\<close> show "r' = r" using a t n by simp
  qed
  from 1 2 3 4 show ?thesis by blast
qed

interpretation announce_update: notifying "announce_update fmt u b old r newly" for fmt u b old r newly
proof -
  have 1: "notifying (\<lambda>db. case newly of None \<Rightarrow> Inr db
      | Some a \<Rightarrow> notify_remediation_assigned r (cu_id u) (cu_display_name u) a db)"
    using notifying_Inr rem_assigned.notifying_axioms by (cases newly) auto
  have 2: "notifying (\<lambda>db. if target_date_changed old b
      then notify_remediation_target_date_changed fmt r (cu_id u) (cu_display_name u)
             (rem_target_date old) (the (ru_target_date b)) (opt_list newly) db else Inr db)"
    using notifying_Inr rem_target.notifying_axioms by (cases "target_date_changed old b") auto
  have 3: "notifying (\<lambda>db. case ru_status b of None \<Rightarrow> Inr db
     | Some new \<Rightarrow>
         rbind (notify_remediation_status_change r (cu_id u) (cu_display_name u) new db) (\<lambda>db3.
         broadcast_subscription_event None (rem_cve r) ''remediation'' [(''status'', rem_status_value new)]
           None (Some (cu_id u)) (filter (\<lambda>x. x \<noteq> []) (rem_created_by r # opt_list (rem_assigned_to r)))
           (Some [rem_pair r]) db3))"
  proof (cases "ru_status b")
    case None
    then show ?thesis using notifying_Inr by simp
  next
    case (Some new)
    then show ?thesis
      using notifying_bind [OF rem_status.notifying_axioms, of "\<lambda>_. broadcast_subscription_event None (rem_cve r)
          ''remediation'' [(''status'', rem_status_value new)] None (Some (cu_id u))
          (filter (\<lambda>x. x \<noteq> []) (rem_created_by r # opt_list (rem_assigned_to r))) (Some [rem_pair r])"]
        broadcast.notifying_axioms by simp
  qed
  have "announce_update fmt u b old r newly = (\<lambda>db. rbind (case newly of None \<Rightarrow> Inr db
      | Some a \<Rightarrow> notify_remediation_assigned r (cu_id u) (cu_display_name u) a db) (\<lambda>db1.
     rbind (if target_date_changed old b
            then notify_remediation_target_date_changed fmt r (cu_id u) (cu_display_name u)
                   (rem_target_date old) (the (ru_target_date b)) (opt_list newly) db1
            else Inr db1) (\<lambda>db. case ru_status b of None \<Rightarrow> Inr db
     | Some new \<Rightarrow>
         rbind (notify_remediation_status_change r (cu_id u) (cu_display_name u) new db) (\<lambda>db3.
         broadcast_subscription_event None (rem_cve r) ''remediation'' [(''status'', rem_status_value new)]
           None (Some (cu_id u)) (filter (\<lambda>x. x \<noteq> []) (rem_created_by r # opt_list (rem_assigned_to r)))
           (Some [rem_pair r]) db3))))"
    by (simp add: fun_eq_iff announce_update_def)
  then show "notifying (announce_update fmt u b old r newly)"
    using notifying_bind [OF 1 notifying_bind [OF 2 3]] by simp
qed

section \<open>The table and its steps\<close>

definition rems_ok :: "app_db \<Rightarrow> bool" where
  "rems_ok db \<longleftrightarrow> distinct (map rem_id (rems db)) \<and> (\<forall>r \<in> set (rems db). rem_id r < next_id db \<and> rem_ok r) \<and>
     distinct (map (\<lambda>r. (rem_cve r, rem_pair r)) (rems db))"

lemma load_rem_Inr: "load_rem i db = Inr r \<Longrightarrow> r \<in> set (rems db) \<and> rem_id r = i"
proof -
  assume "load_rem i db = Inr r"
  then have "filter (\<lambda>r. rem_id r = i) (rems db) = [r]"
    by (auto simp: load_rem_def rbind_Inr_iff scalar_one_or_none_Some_iff split: option.splits)
  then have "r \<in> set (filter (\<lambda>r. rem_id r = i) (rems db))" by simp
  then show ?thesis by simp
qed

lemma put_rem_simps [simp]: "next_id (put_rem r db) = next_id db" "users (put_rem r db) = users db"
  by (simp_all add: put_rem_def)

lemma put_rem_self: "load_rem i db = Inr r \<Longrightarrow> rems (put_rem r db) = rems db"
proof -
  assume l: "load_rem i db = Inr r"
  then have f: "filter (\<lambda>r. rem_id r = i) (rems db) = [r]" and i: "rem_id r = i"
    using load_rem_Inr [OF l] by (auto simp: load_rem_def rbind_Inr_iff scalar_one_or_none_Some_iff split: option.splits)
  have "x = r" if "x \<in> set (rems db)" "rem_id x = rem_id r" for x
  proof -
    have "x \<in> set (filter (\<lambda>r. rem_id r = i) (rems db))" using that i by simp
    then show ?thesis unfolding f by simp
  qed
  then have "map (\<lambda>x. if rem_id x = rem_id r then r else x) (rems db) = rems db"
    by (intro map_idI) (simp, metis)
  then show ?thesis by (simp add: put_rem_def)
qed

lemma rems_ok_map:
  assumes "rems_ok db" and r: "rems db' = map f (rems db)" and "next_id db \<le> next_id db'"
    and f: "\<And>r. r \<in> set (rems db) \<Longrightarrow> same_identity r (f r) \<and> rem_ok (f r)"
  shows "rems_ok db'"
proof -
  have "map rem_id (rems db') = map rem_id (rems db)"
    "map (\<lambda>r. (rem_cve r, rem_pair r)) (rems db') = map (\<lambda>r. (rem_cve r, rem_pair r)) (rems db)"
    unfolding r using f by (simp_all add: same_identity_def)
  moreover have "\<forall>x \<in> set (rems db'). rem_id x < next_id db' \<and> rem_ok x"
    unfolding r using assms(1,3) f by (fastforce simp: rems_ok_def same_identity_def)
  ultimately show ?thesis using assms(1) by (simp add: rems_ok_def)
qed

lemma put_rem_ok:
  assumes "rems_ok db" and "r \<in> set (rems db)" and "same_identity r r'" and "rem_ok r'"
    and "rems db' = rems (put_rem r' db)" and "next_id db \<le> next_id db'"
  shows "rems_ok db'"
proof (rule rems_ok_map [OF assms(1) _ assms(6)])
  show "rems db' = map (\<lambda>x. if rem_id x = rem_id r' then r' else x) (rems db)"
    using assms(5) by (simp add: put_rem_def)
  fix x assume x: "x \<in> set (rems db)"
  have "x = r" if "rem_id x = rem_id r'"
    using assms x that by (auto simp: rems_ok_def distinct_map same_identity_def dest: inj_onD)
  with x assms show "same_identity x (if rem_id x = rem_id r' then r' else x) \<and>
      rem_ok (if rem_id x = rem_id r' then r' else x)" by (auto simp: rems_ok_def)
qed

lemma patch_Inr:
  assumes "patch_remediation fmt u i b db = Inr db'"
  shows "\<exists>r r'. r \<in> set (rems db) \<and> rem_id r = i \<and> rem_accessible u r \<and>
    rems db' = rems (put_rem r' db) \<and> users db' = users db \<and> next_id db \<le> next_id db' \<and>
    same_identity r r' \<and> (rem_ok r \<longrightarrow> rem_ok r') \<and>
    (case ru_status b of None \<Rightarrow> same_status r r'
     | Some new \<Rightarrow> rem_status r' = new \<and> new \<in> set (transitions (rem_status r))) \<and>
    (editable (rem_status r) \<or> editable (rem_status r') \<or>
       rem_assigned_to r' = rem_assigned_to r \<and> rem_target_date r' = rem_target_date r \<and> rem_notes r' = rem_notes r)"
proof -
  from assms obtain r where r: "load_rem i db = Inr r" "rem_accessible u r" "update_remediation fmt u b r db = Inr db'"
    by (auto simp: patch_remediation_def rbind_Inr_iff split: if_splits)
  then obtain r' d newly where a: "apply_update fmt u b r db = Inr (r', d, newly)"
    and d: "(if d = [] then Inr db else announce_update fmt u b r r' newly
        (log_action (cu_id u) ''remediation_updated'' ''remediation'' (id_str (rem_id r')) d (put_rem r' db))) = Inr db'"
    by (auto simp: update_remediation_def rbind_Inr_iff)
  note p = apply_update_Inr [OF a]
  have "rems db' = rems (put_rem r' db) \<and> users db' = users db \<and> next_id db \<le> next_id db'"
  proof (cases "d = []")
    case True
    then have "r' = r" "db' = db" using p d by auto
    moreover have "rems (put_rem r db) = rems db" by (rule put_rem_self [OF r(1)])
    ultimately show ?thesis by simp
  next
    case False
    with d have "announce_update fmt u b r r' newly
        (log_action (cu_id u) ''remediation_updated'' ''remediation'' (id_str (rem_id r')) d (put_rem r' db)) = Inr db'"
      by simp
    from announce_update.unchanged2 [OF this] announce_update.grows2 [OF this] show ?thesis by simp
  qed
  with p load_rem_Inr [OF r(1)] r(2) show ?thesis by blast
qed

lemma auto_resolve_one_frame:
  "auto_resolve_one sx r db = Inr db' \<Longrightarrow>
     rems db' = (if get_affected_deployments sx (rem_cve r) [rem_pair r] = []
       then rems (put_rem (auto_resolved (db_now db) r) db) else rems db) \<and>
     db_now db' = db_now db \<and> next_id db \<le> next_id db'"
  by (auto simp: auto_resolve_one_def put_rem_def dest: broadcast.unchanged2 broadcast.grows2 split: if_splits)

interpretation auto_resolve: row_loop rems rem_id
  "\<lambda>r. if get_affected_deployments sx (rem_cve r) [rem_pair r] = [] then auto_resolved now r else r"
  "auto_resolve_one sx" "\<lambda>db. db_now db = now" for sx now
proof
  fix db r db'
  assume "db_now db = now" and d: "distinct (map rem_id (rems db))" and r: "r \<in> set (rems db)"
    and "auto_resolve_one sx r db = Inr db'"
  note f = auto_resolve_one_frame [OF this(4)] \<open>db_now db = now\<close>
  have "rem_id x = rem_id r \<longleftrightarrow> x = r" if "x \<in> set (rems db)" for x
    using d r that by (auto simp: distinct_map dest: inj_onD)
  with f show "rems db' = map (\<lambda>x. if x = r then if get_affected_deployments sx (rem_cve r) [rem_pair r] = []
      then auto_resolved now r else r else x) (rems db) \<and> db_now db' = now \<and> next_id db \<le> next_id db'"
    by (auto simp: put_rem_def auto_resolved_def intro!: map_idI [symmetric])
qed (simp add: auto_resolved_def)

lemma auto_resolve_loop:
  assumes "notify_all rs (auto_resolve_one sx) db = Inr db'" and "distinct (map rem_id (rems db))"
    and "set rs \<subseteq> set (rems db)" and "distinct rs"
  shows "rems db' = map (\<lambda>r. if r \<in> set rs \<and> get_affected_deployments sx (rem_cve r) [rem_pair r] = []
       then auto_resolved (db_now db) r else r) (rems db) \<and> next_id db \<le> next_id db'"
  using auto_resolve.loop [OF assms(1) refl assms(2-4)] by (auto intro!: map_cong)

text \<open>One committed request or job on the table; no other component writes it.\<close>

inductive rem_step :: "app_db \<Rightarrow> app_db \<Rightarrow> bool" where
  create: "create_remediations sx u b db = Inr (db', rs) \<Longrightarrow> rem_step db db'"
| patch: "patch_remediation fmt u i upd db = Inr db' \<Longrightarrow> rem_step db db'"
| delete: "delete_remediation u i db = Inr db' \<Longrightarrow> rem_step db db'"
| auto: "run_remediation_auto_resolve sx db = Inr db' \<Longrightarrow> rem_step db db'"

inductive rem_reachable :: "app_db \<Rightarrow> bool" where
  start: "rems db = [] \<Longrightarrow> rem_reachable db"
| step: "rem_reachable db \<Longrightarrow> rem_step db db' \<Longrightarrow> rem_reachable db'"
| elsewhere: "rem_reachable db \<Longrightarrow> rems db' = rems db \<Longrightarrow> next_id db \<le> next_id db' \<Longrightarrow> rem_reachable db'"

lemma create_frame:
  assumes "create_remediations sx u b db = Inr (db', rs)"
  shows "rems db' = rems db @ rs \<and> map rem_pair rs = dedupe (rb_targets b) \<and>
    map rem_id rs = [next_id db ..< next_id db + length rs] \<and> next_id db + length rs \<le> next_id db' \<and>
    (\<forall>r \<in> set rs. r = new_remediation u b (db_now db) (rem_id r) (rem_pair r)) \<and>
    (\<forall>p \<in> set (rb_targets b). target_allowed sx u (rb_cve b) db p)"
proof -
  from assms obtain db1 db2 where i: "insert_remediations u b (dedupe (rb_targets b)) db = (db1, rs)"
    and a: "announce_created u rs db1 = Inr db2"
    and c: "broadcast_subscription_event (Some sx) (rb_cve b) ''remediation''
        [(''status'', rem_status_value RemOpen)] None (Some (cu_id u)) (opt_list (or_none (rb_assigned_to b)))
        (Some (dedupe (rb_targets b))) db2 = Inr db'"
    and t: "\<forall>p \<in> set (rb_targets b). target_allowed sx u (rb_cve b) db p"
    unfolding create_Inr_iff by blast
  note p = insert_remediations_props [OF i]
  then have "length rs = length (dedupe (rb_targets b))" by (metis length_map)
  with p t announce_created_frame [OF a] broadcast.unchanged2(4) [OF c] broadcast.grows2 [OF c] show ?thesis by simp
qed

lemma new_remediation_ok [simp]: "rem_ok (new_remediation u b now i p)"
  and rem_cve_new [simp]: "rem_cve (new_remediation u b now i p) = rb_cve b"
  by (simp_all add: rem_ok_def new_remediation_def)

lemma create_rems_ok:
  assumes "rems_ok db" and "create_remediations sx u b db = Inr (db', rs)"
  shows "rems_ok db'"
proof -
  note c = create_frame [OF assms(2)]
  have new: "rem_ok r \<and> rem_cve r = rb_cve b \<and> rem_pair r \<in> set (rb_targets b)" if "r \<in> set rs" for r
  proof -
    have "rem_pair r \<in> set (map rem_pair rs)" using that by simp
    then have "rem_pair r \<in> set (rb_targets b)" using c by (metis set_dedupe)
    moreover have "r = new_remediation u b (db_now db) (rem_id r) (rem_pair r)" using c that by blast
    ultimately show ?thesis by (metis new_remediation_ok rem_cve_new)
  qed
  have ids: "rem_id r \<in> {next_id db ..< next_id db + length rs}" if "r \<in> set rs" for r
    using c that by (metis imageI list.set_map set_upt)
  have "distinct (map rem_id rs)" "distinct (map rem_pair rs)" using c by simp_all
  then have "distinct (map rem_id (rems db @ rs))"
    using assms(1) ids by (fastforce simp: rems_ok_def)
  moreover have "distinct (map (\<lambda>r. (rem_cve r, rem_pair r)) rs)"
    using \<open>distinct (map rem_pair rs)\<close> by (auto simp: distinct_map inj_on_def)
  moreover have "(rem_cve x, rem_pair x) \<noteq> (rem_cve r, rem_pair r)" if "x \<in> set (rems db)" "r \<in> set rs" for x r
    using new [OF that(2)] c that(1) by (auto simp: target_allowed_def)
  ultimately have "distinct (map (\<lambda>r. (rem_cve r, rem_pair r)) (rems db @ rs))"
    using assms(1) unfolding map_append distinct_append rems_ok_def by fastforce
  moreover have "rem_id r < next_id db' \<and> rem_ok r" if "r \<in> set (rems db @ rs)" for r
    using that assms(1) new ids c by (fastforce simp: rems_ok_def)
  ultimately show ?thesis using \<open>distinct (map rem_id (rems db @ rs))\<close> c by (simp add: rems_ok_def)
qed

lemma delete_Inr:
  "delete_remediation u i db = Inr db' \<Longrightarrow>
     \<exists>r \<in> set (rems db). rem_id r = i \<and> (is_sec_team u \<or> rem_created_by r = cu_id u) \<and>
       rem_status r \<in> {RemOpen, RemWontFix} \<and> rems db' = filter (\<lambda>x. rem_id x \<noteq> i) (rems db) \<and>
       next_id db' = next_id db"
  by (auto simp: delete_remediation_def rbind_Inr_iff Let_def dest!: load_rem_Inr split: if_splits)

lemma rem_step_ok: "rem_step db db' \<Longrightarrow> rems_ok db \<Longrightarrow> rems_ok db'"
proof (induction rule: rem_step.induct)
  case (create sx u b db db' rs)
  then show ?case using create_rems_ok by blast
next
  case (patch fmt u i upd db db')
  from patch_Inr [OF patch(1)] obtain r r' where r: "r \<in> set (rems db)" "same_identity r r'"
    "rem_ok r \<longrightarrow> rem_ok r'" "rems db' = rems (put_rem r' db)" "next_id db \<le> next_id db'" by blast
  have "rem_ok r" using patch(2) r(1) by (simp add: rems_ok_def)
  with r(3) show ?case using put_rem_ok [OF patch(2) r(1,2) _ r(4,5)] by blast
next
  case (delete u i db db')
  from delete_Inr [OF delete(1)] obtain P where "rems db' = filter P (rems db)" "next_id db' = next_id db" by blast
  with delete(2) show ?case by (auto simp: rems_ok_def intro: distinct_map_filter)
next
  case (auto sx db db')
  let ?f = "\<lambda>r. if r \<in> set (filter (\<lambda>r. editable (rem_status r)) (rems db)) \<and>
      get_affected_deployments sx (rem_cve r) [rem_pair r] = [] then auto_resolved (db_now db) r else r"
  have d: "distinct (rems db)" "distinct (map rem_id (rems db))" using auto(2) by (auto simp: rems_ok_def distinct_map)
  have l: "rems db' = map ?f (rems db) \<and> next_id db \<le> next_id db'"
    using auto_resolve_loop [OF auto(1) [unfolded run_remediation_auto_resolve_def] d(2)] d(1) by auto
  have f: "same_identity r (?f r) \<and> rem_ok (?f r)" if "r \<in> set (rems db)" for r
    using auto(2) that
    by (auto simp: rems_ok_def rem_ok_def auto_resolved_def editable_def same_identity_def rem_pair_def)
  from rems_ok_map [OF auto(2) _ _ f] l show ?case by blast
qed

lemma reachable_rems_ok: "rem_reachable db \<Longrightarrow> rems_ok db"
proof (induction rule: rem_reachable.induct)
  case (elsewhere db db')
  then show ?case by (auto simp: rems_ok_def)
qed (simp_all add: rem_step_ok, simp add: rems_ok_def)

text \<open>C18: In every reachable database the remediations have distinct ids and there is at most one per CVE,
  namespace and cluster; and the columns of each row agree with its status: it is resolved iff it has a
  resolution time, only a resolved row has a resolver, it is \<open>wont_fix\<close> iff it has a non-empty reason, and the legacy status
  \<open>verified\<close> never occurs.\<close>

theorem remediation_invariant:
  assumes "rem_reachable db"
  shows "distinct (map rem_id (rems db)) \<and> distinct (map (\<lambda>r. (rem_cve r, rem_namespace r, rem_cluster r)) (rems db)) \<and>
    (\<forall>r \<in> set (rems db). rem_status r \<noteq> RemVerified \<and>
       (rem_status r = RemResolved \<longleftrightarrow> rem_resolved_at r \<noteq> None) \<and>
       (rem_resolved_by r \<noteq> None \<longrightarrow> rem_status r = RemResolved) \<and>
       (rem_status r = RemWontFix \<longleftrightarrow> truthy (rem_wont_fix_reason r)))"
proof -
  note ok = reachable_rems_ok [OF assms]
  have "distinct (map (\<lambda>r. (rem_cve r, rem_namespace r, rem_cluster r)) (rems db))"
    using ok by (auto simp: rems_ok_def rem_pair_def distinct_map inj_on_def)
  moreover have "rem_status r \<noteq> RemVerified \<and> (rem_status r = RemResolved \<longleftrightarrow> rem_resolved_at r \<noteq> None) \<and>
       (rem_resolved_by r \<noteq> None \<longrightarrow> rem_status r = RemResolved) \<and>
       (rem_status r = RemWontFix \<longleftrightarrow> truthy (rem_wont_fix_reason r))" if "r \<in> set (rems db)" for r
  proof -
    have "rem_ok r" using ok that by (simp add: rems_ok_def)
    then show ?thesis by (cases "rem_wont_fix_reason r") (auto simp: rem_ok_def)
  qed
  ultimately show ?thesis using ok unfolding rems_ok_def by blast
qed

theorem remediation_invariant_witness:
  "\<exists>db'. rem_reachable db' \<and> rems db' \<noteq> [] \<and> distinct (map rem_id (rems db'))"
proof -
  have "target_allowed ex_sx ex_member ''CVE-2024-1'' ex_db (''shop'', ''c1'')"
    by (simp add: target_allowed_def joined_ex)
  moreover obtain db1 rs where "insert_remediations ex_member ex_create (dedupe (rb_targets ex_create)) ex_db = (db1, rs)"
    by fastforce
  moreover obtain db2 where "announce_created ex_member rs db1 = Inr db2" using announce_created_total by blast
  moreover have "\<exists>db3. broadcast_subscription_event (Some ex_sx) (rb_cve ex_create) ''remediation''
      [(''status'', rem_status_value RemOpen)] None (Some (cu_id ex_member))
      (opt_list (or_none (rb_assigned_to ex_create))) (Some (dedupe (rb_targets ex_create))) db2 = Inr db3"
    by (rule broadcast_total) (simp add: message_keys_def)
  ultimately obtain db' where c: "create_remediations ex_sx ex_member ex_create ex_db = Inr (db', rs)"
    unfolding create_Inr_iff by (auto simp: ex_create_def assignee_known_def)
  have "rem_reachable db'" using c by (blast intro: rem_reachable.start rem_reachable.step rem_step.create ex_db_simps(3))
  moreover have "rems db' \<noteq> []"
    using create_frame [OF c] by (auto simp: ex_create_def)
  ultimately show ?thesis using remediation_invariant by blast
qed

text \<open>C30: A PATCH that succeeds is by a user who sees the namespace, touches exactly the row it names and
  keeps its identity; its status moves only along the transition table, or not at all when none is sent;
  and the assignee, the target date and the notes change only if the row is open or in progress before
  or after the request.\<close>

theorem patch_follows_transitions:
  assumes "patch_remediation fmt u i b db = Inr db'"
  shows "\<exists>r r'. r \<in> set (rems db) \<and> rem_id r = i \<and> rem_accessible u r \<and>
    rems db' = map (\<lambda>x. if rem_id x = i then r' else x) (rems db) \<and> same_identity r r' \<and>
    rem_status r' = (case ru_status b of None \<Rightarrow> rem_status r | Some new \<Rightarrow> new) \<and>
    (ru_status b \<noteq> None \<longrightarrow> rem_status r' \<in> set (transitions (rem_status r))) \<and>
    (rem_status r \<in> {RemOpen, RemInProgress} \<or> rem_status r' \<in> {RemOpen, RemInProgress} \<or>
       rem_assigned_to r' = rem_assigned_to r \<and> rem_target_date r' = rem_target_date r \<and> rem_notes r' = rem_notes r)"
proof -
  from patch_Inr [OF assms(1)] obtain r r' where r: "r \<in> set (rems db)" "rem_id r = i" "rem_accessible u r"
    "rems db' = rems (put_rem r' db)" "same_identity r r'"
    "case ru_status b of None \<Rightarrow> same_status r r'
     | Some new \<Rightarrow> rem_status r' = new \<and> new \<in> set (transitions (rem_status r))"
    "editable (rem_status r) \<or> editable (rem_status r') \<or>
       rem_assigned_to r' = rem_assigned_to r \<and> rem_target_date r' = rem_target_date r \<and> rem_notes r' = rem_notes r"
    by blast
  have "rems db' = map (\<lambda>x. if rem_id x = i then r' else x) (rems db)"
    using r(2,4,5) by (simp add: put_rem_def same_identity_def)
  moreover have "rem_status r' = (case ru_status b of None \<Rightarrow> rem_status r | Some new \<Rightarrow> new)"
    "ru_status b \<noteq> None \<longrightarrow> rem_status r' \<in> set (transitions (rem_status r))"
    using r(6) by (cases "ru_status b"; simp add: same_status_def)+
  moreover have "rem_status r \<in> {RemOpen, RemInProgress} \<or> rem_status r' \<in> {RemOpen, RemInProgress} \<or>
      rem_assigned_to r' = rem_assigned_to r \<and> rem_target_date r' = rem_target_date r \<and> rem_notes r' = rem_notes r"
    using r(7) by (simp add: editable_def)
  ultimately show ?thesis using r(1,2,3,5) by blast
qed

definition ex_patch :: rem_update where
  "ex_patch = \<lparr>ru_status = Some RemInProgress, ru_assigned_to = None, ru_target_date = None, ru_notes = None,
     ru_reason = None\<rparr>"

definition ex_open :: remediation where
  "ex_open = new_remediation ex_member ex_create 0 1 (''shop'', ''c1'')"

lemma ex_open_simps [simp]: "rem_id ex_open = 1" "rem_status ex_open = RemOpen" "rem_pair ex_open = (''shop'', ''c1'')"
  by (simp_all add: ex_open_def new_remediation_def rem_pair_def)

theorem patch_follows_transitions_witness:
  "\<exists>db' r'. patch_remediation (\<lambda>_. []) ex_member 1 ex_patch (ex_db\<lparr>rems := [ex_open]\<rparr>) = Inr db' \<and>
     rems db' = [r'] \<and> rem_status r' = RemInProgress"
proof -
  let ?db = "ex_db\<lparr>rems := [ex_open]\<rparr>"
  have "\<exists>db'. announce_update (\<lambda>_. []) ex_member ex_patch ex_open (ex_open\<lparr>rem_status := RemInProgress\<rparr>) None d
      = Inr db'" for d
  proof -
    obtain d1 where d1: "notify_remediation_status_change (ex_open\<lparr>rem_status := RemInProgress\<rparr>)
        (cu_id ex_member) (cu_display_name ex_member) RemInProgress d = Inr d1" using notify_total(7) by blast
    have "\<exists>db'. broadcast_subscription_event None cve ''remediation'' params link act ex sc d1 = Inr db'"
      for cve params link act ex sc by (rule broadcast_total) (simp add: message_keys_def)
    with d1 show ?thesis
      by (simp add: announce_update_def ex_patch_def target_date_changed_def)
  qed
  moreover have "\<exists>d. d \<noteq> [] \<and> apply_update (\<lambda>_. []) ex_member ex_patch ex_open ?db =
      Inr (ex_open\<lparr>rem_status := RemInProgress\<rparr>, d, None)"
    by (simp add: apply_update_def apply_status_def transitions_def Let_def apply_assignee_def editable_def
        apply_target_date_def apply_notes_def target_date_changed_def ex_patch_def)
  ultimately have "\<exists>db'. update_remediation (\<lambda>_. []) ex_member ex_patch ex_open ?db = Inr db'"
    by (auto simp: update_remediation_def)
  then have "\<exists>db'. patch_remediation (\<lambda>_. []) ex_member 1 ex_patch ?db = Inr db'"
    by (simp add: patch_remediation_def load_rem_def rem_accessible_def)
  then obtain db' where p: "patch_remediation (\<lambda>_. []) ex_member 1 ex_patch ?db = Inr db'" by blast
  then show ?thesis
    using p patch_follows_transitions [OF p] by (auto simp: ex_patch_def)
qed

section \<open>List and counters\<close>

lemma count_rem_fold:
  "foldl (count_rem today) st rs =
     \<lparr>rt_open = rt_open st + length (filter (\<lambda>r. rem_status r = RemOpen) rs),
      rt_in_progress = rt_in_progress st + length (filter (\<lambda>r. rem_status r = RemInProgress) rs),
      rt_resolved = rt_resolved st + length (filter (\<lambda>r. rem_status r = RemResolved) rs),
      rt_verified = rt_verified st + length (filter (\<lambda>r. rem_status r = RemVerified) rs),
      rt_wont_fix = rt_wont_fix st + length (filter (\<lambda>r. rem_status r = RemWontFix) rs),
      rt_overdue = rt_overdue st + length (filter (rem_overdue today) rs)\<rparr>"
proof (induction rs arbitrary: st)
  case Nil
  then show ?case by simp
next
  case (Cons r rs)
  show ?case unfolding foldl_Cons Cons.IH
    by (cases "rem_status r") (simp_all add: count_rem_def Let_def)
qed

lemma length_sort_filter [simp]: "length (sort_key_rev k (filter P xs)) = length (filter P xs)"
  by simp

definition status_query :: "string option \<Rightarrow> string option \<Rightarrow> string option \<Rightarrow> bool option \<Rightarrow> rem_query" where
  "status_query cluster namespace st ov =
     \<lparr>rq_status = st, rq_cve = None, rq_cluster = cluster, rq_namespace = namespace, rq_assigned_to = None,
      rq_overdue = ov\<rparr>"

text \<open>The counters agree with the list: each counter is the number of rows the list returns for the
  same user, cluster and namespace when it is filtered by that status, or by \<open>overdue\<close>.\<close>

theorem stats_count_list:
  "let st = remediation_stats u cluster namespace db;
       listed = (\<lambda>s ov. map_sum id length (list_remediations u (status_query cluster namespace s ov) db))
   in listed (Some ''open'') None = Inr (rt_open st) \<and> listed (Some ''in_progress'') None = Inr (rt_in_progress st) \<and>
      listed (Some ''resolved'') None = Inr (rt_resolved st) \<and> listed (Some ''verified'') None = Inr (rt_verified st) \<and>
      listed (Some ''wont_fix'') None = Inr (rt_wont_fix st) \<and> listed None (Some True) = Inr (rt_overdue st)"
proof (cases "rem_scope u cluster namespace db")
  case None
  then show ?thesis by (simp add: remediation_stats_def list_remediations_def status_query_def zero_stats_def)
next
  case (Some rs)
  have s: "remediation_stats u cluster namespace db = foldl (count_rem (date_of (db_now db))) zero_stats rs"
    using Some by (simp add: remediation_stats_def)
  have f: "filter (\<lambda>r. x = rem_status r) rs = filter (\<lambda>r. rem_status r = x) rs" for x
    by (rule filter_cong) auto
  show ?thesis
    unfolding Let_def s count_rem_fold
    by (simp add: list_remediations_def status_query_def Some zero_stats_def f)
qed

text \<open>The list shows no remediation outside the namespaces the user may see and the requested cluster and
  namespace, and \<open>get\<close> refuses every other.\<close>

theorem list_in_scope:
  assumes "list_remediations u q db = Inr rs" and "r \<in> set rs"
  shows "r \<in> set (rems db) \<and> get_remediation u (rem_id r) (db\<lparr>rems := [r]\<rparr>) = Inr r \<and>
    (truthy (rq_cluster q) \<longrightarrow> Some (rem_cluster r) = rq_cluster q) \<and>
    (truthy (rq_namespace q) \<longrightarrow> Some (rem_namespace r) = rq_namespace q)"
proof -
  from assms obtain sc where sc: "rem_scope u (rq_cluster q) (rq_namespace q) db = Some sc" "r \<in> set sc"
    by (auto simp: list_remediations_def split: option.splits if_splits)
  then have "r \<in> set (rems db)" "rem_accessible u r"
    "truthy (rq_cluster q) \<longrightarrow> Some (rem_cluster r) = rq_cluster q"
    "truthy (rq_namespace q) \<longrightarrow> Some (rem_namespace r) = rq_namespace q"
    by (cases "rq_cluster q"; cases "rq_namespace q";
        auto simp: rem_scope_def rem_accessible_def set_narrow_namespaces rem_pair_def split: if_splits)+
  then show ?thesis by (simp add: get_remediation_def load_rem_def)
qed

theorem list_in_scope_witness:
  "get_remediation ex_member 1 (ex_db\<lparr>rems := [ex_open]\<rparr>) = Inr ex_open"
proof -
  have l: "list_remediations ex_member (status_query None None None None) (ex_db\<lparr>rems := [ex_open]\<rparr>) = Inr [ex_open]"
    by (simp add: list_remediations_def status_query_def rem_scope_def ex_open_def sort_key_rev_def)
  with list_in_scope [OF l, of ex_open] show ?thesis by simp
qed

section \<open>Auto-resolving\<close>

lemma auto_resolve_one_total: "\<exists>db'. auto_resolve_one sx r db = Inr db'"
proof -
  have "\<exists>db'. broadcast_subscription_event None cve ''remediation'' p None None [] sc d = Inr db'" for cve p sc d
    by (rule broadcast_total) (simp add: message_keys_def)
  then show ?thesis by (simp add: auto_resolve_one_def)
qed

lemma no_deployment_iff:
  "get_affected_deployments sx cve [p] = [] \<longleftrightarrow> \<not> (\<exists>v \<in> set (joined sx). vr_cve v = cve \<and> vr_pair v = p)"
proof -
  have "(\<exists>a \<in> set (get_affected_deployments sx cve [p]). (af_namespace a, af_cluster a) = p) \<longleftrightarrow>
      get_affected_deployments sx cve [p] \<noteq> []"
    using affected_in_namespaces [of _ sx cve "[p]"]
    by (cases "get_affected_deployments sx cve [p]") auto
  with affected_iff [of sx cve "[p]" p] show ?thesis by auto
qed

text \<open>The auto-resolve job always succeeds and resolves exactly the open and in-progress remediations whose
  CVE is deployed nowhere in their namespace any more; it touches no other row, and running it again on
  the same StackRox data changes no row.\<close>

theorem auto_resolve_exact:
  assumes "distinct (map rem_id (rems db))"
  shows "\<exists>db'. run_remediation_auto_resolve sx db = Inr db' \<and>
    rems db' = map (\<lambda>r. if rem_status r \<in> {RemOpen, RemInProgress} \<and>
         \<not> (\<exists>v \<in> set (joined sx). vr_cve v = rem_cve r \<and> vr_pair v = rem_pair r)
       then auto_resolved (db_now db) r else r) (rems db) \<and>
    (\<forall>db''. run_remediation_auto_resolve sx db' = Inr db'' \<longrightarrow> rems db'' = rems db')"
proof -
  let ?gone = "\<lambda>r. editable (rem_status r) \<and> get_affected_deployments sx (rem_cve r) [rem_pair r] = []"
  have run: "rems e' = map (\<lambda>r. if ?gone r then auto_resolved (db_now e) r else r) (rems e)"
    if "run_remediation_auto_resolve sx e = Inr e'" "distinct (map rem_id (rems e))" for e e'
    using auto_resolve_loop [OF that(1) [unfolded run_remediation_auto_resolve_def] that(2)] that(2)
    by (auto simp: distinct_map)
  obtain db' where 1: "run_remediation_auto_resolve sx db = Inr db'"
    using notify_all_total [of _ "auto_resolve_one sx"] auto_resolve_one_total
    unfolding run_remediation_auto_resolve_def by blast
  note 2 = run [OF 1 assms]
  have "map rem_id (rems db') = map rem_id (rems db)" by (auto simp: 2 auto_resolved_def)
  then have "distinct (map rem_id (rems db'))" using assms by simp
  then have 3: "rems db'' = rems db'" if "run_remediation_auto_resolve sx db' = Inr db''" for db''
    using run [OF that] by (auto simp: 2 auto_resolved_def editable_def rem_pair_def)
  have "rems db' = map (\<lambda>r. if rem_status r \<in> {RemOpen, RemInProgress} \<and>
         \<not> (\<exists>v \<in> set (joined sx). vr_cve v = rem_cve r \<and> vr_pair v = rem_pair r)
       then auto_resolved (db_now db) r else r) (rems db)"
    unfolding 2 by (rule map_cong [OF refl]) (simp add: no_deployment_iff editable_def)
  with 1 3 show ?thesis by blast
qed

theorem auto_resolve_exact_witness:
  "\<exists>db'. run_remediation_auto_resolve (ex_sx\<lparr>sx_deployments := []\<rparr>) (ex_db\<lparr>rems := [ex_open]\<rparr>) = Inr db' \<and>
     rems db' = [auto_resolved 0 ex_open]"
proof -
  have "joined (ex_sx\<lparr>sx_deployments := []\<rparr>) = []" by (simp add: joined_def cve_rows_def cve_rows_raw_def with_scores_def)
  moreover have "db_now ex_db = 0" by (simp add: ex_db_def)
  ultimately show ?thesis
    using auto_resolve_exact [of "ex_db\<lparr>rems := [ex_open]\<rparr>" "ex_sx\<lparr>sx_deployments := []\<rparr>"] by auto
qed

end
