(* ===== verification/Comments.thy ===== *)
theory Comments
  imports Subscriptions Examples
begin

text \<open>
  Comments on CVEs and on risk acceptances: \<open>app/services/comment_service.py\<close> and the body of
  \<open>app/schemas/comment.py\<close>. A body gives either a legacy message or structured content; both become a
  stored message with segments. The response of a handler is the stored row; its enrichment is
  \<open>enrich_segments\<close> of CommentContent. The lemmas show that the two stored forms agree, that mentions name
  existing users, and that an edit tells only those who were not told before.
\<close>

section \<open>The body\<close>

datatype segment_in = InText string | InMention string    \<comment> \<open>the client's user name is not used\<close>

definition max_comment_len :: nat where "max_comment_len = 5000"

fun segment_in_ok :: "segment_in \<Rightarrow> bool" where
  "segment_in_ok (InText t) = (length t \<le> max_comment_len)"
| "segment_in_ok (InMention i) = (1 \<le> length i \<and> length i \<le> 255)"

fun in_text_length :: "segment_in \<Rightarrow> nat" where
  "in_text_length (InText t) = length t"
| "in_text_length (InMention i) = 0"

definition comment_input_ok :: "string option \<Rightarrow> segment_in list option \<Rightarrow> bool" where
  "comment_input_ok message content \<longleftrightarrow>
     (case message of None \<Rightarrow> True | Some m \<Rightarrow> 1 \<le> length m \<and> length m \<le> max_comment_len) \<and>
     (case content of None \<Rightarrow> True | Some c \<Rightarrow> list_all segment_in_ok c) \<and>
     (message = None) \<noteq> (content = None) \<and>
     (case content of None \<Rightarrow> True
      | Some c \<Rightarrow> c \<noteq> [] \<and> sum_list (map in_text_length c) \<le> max_comment_len)"

section \<open>Normalizing\<close>

record prepared_comment =
  pc_message :: string
  pc_segments :: "segment list"
  pc_recipients :: "user list"
  pc_display :: "string \<rightharpoonup> string"

fun in_mention_ids :: "segment_in \<Rightarrow> string list" where
  "in_mention_ids (InText t) = []"
| "in_mention_ids (InMention i) = [i]"

definition users_by_id :: "user list \<Rightarrow> string \<rightharpoonup> user" where
  "users_by_id us = dict_of user_id us"

fun stored_segment :: "(string \<rightharpoonup> user) \<Rightarrow> segment_in \<Rightarrow> segment result" where
  "stored_segment f (InText t) = Inr (SegText t)"
| "stored_segment f (InMention i) =
     (case f i of None \<Rightarrow> Inl (ServerError ''KeyError'') | Some u \<Rightarrow> Inr (SegMention (user_id u) (username u)))"

definition lookup_all :: "(string \<rightharpoonup> user) \<Rightarrow> string list \<Rightarrow> user list result" where
  "lookup_all f = traverse (\<lambda>i. case f i of None \<Rightarrow> Inl (ServerError ''KeyError'') | Some u \<Rightarrow> Inr u)"

definition display_map :: "user list \<Rightarrow> string \<rightharpoonup> string" where
  "display_map us = map_option user_display_name \<circ> users_by_id us"

definition resolve_content :: "app_db \<Rightarrow> segment_in list \<Rightarrow> prepared_comment result" where
  "resolve_content db content =
     (let ids = dedupe (concat (map in_mention_ids content));
          found = users_by_id (filter (\<lambda>u. user_id u \<in> set ids) (users db))
      in if list_ex (\<lambda>i. found i = None) ids then Inl (ApiError 400 ''unknown_mention_user'')
      else rbind (traverse (stored_segment found) content) (\<lambda>segs.
        rbind (lookup_all found ids) (\<lambda>recipients.
          let stored = segments_to_message segs in
          if max_comment_len < length stored \<or>
             max_comment_len < length (segments_to_display_text segs (display_map recipients))
          then Inl (ApiError 400 ''comment_too_long'')
          else Inr \<lparr>pc_message = stored, pc_segments = segs, pc_recipients = recipients,
                 pc_display = display_map recipients\<rparr>)))"

definition resolve_message :: "app_db \<Rightarrow> string \<Rightarrow> prepared_comment result" where
  "resolve_message db message =
     (let names = legacy_mention_names message;
          rows = (if names = [] then [] else filter (\<lambda>u. py_lower (username u) \<in> set names) (users db));
          by_name = map_option (\<lambda>u. (user_id u, username u)) \<circ> dict_of (\<lambda>u. py_lower (username u)) rows;
          segs = parse_message_to_segments message by_name
      in rbind (lookup_all (users_by_id rows) (mention_user_ids (Some segs))) (\<lambda>recipients.
           Inr \<lparr>pc_message = message, pc_segments = segs, pc_recipients = recipients,
             pc_display = display_map recipients\<rparr>))"

definition prepare_comment ::
    "app_db \<Rightarrow> string option \<Rightarrow> segment_in list option \<Rightarrow> prepared_comment result" where
  "prepare_comment db message content =
     (case content of Some c \<Rightarrow> resolve_content db c
      | None \<Rightarrow> (case message of None \<Rightarrow> Inl (ServerError ''AssertionError'') | Some m \<Rightarrow> resolve_message db m))"

text \<open>Whom the previous version of a comment mentioned.\<close>

definition previous_mention_ids :: "app_db \<Rightarrow> segment list option \<Rightarrow> string \<Rightarrow> string list" where
  "previous_mention_ids db segs message =
     (if segs \<noteq> None \<and> segs \<noteq> Some [] then mention_user_ids segs
      else let names = legacy_mention_names message in
        if names = [] then []
        else map user_id (filter (\<lambda>u. py_lower (username u) \<in> set names) (users db)))"

section \<open>Comments on a CVE\<close>

definition comment_link :: "string \<Rightarrow> nat \<Rightarrow> string" where
  "comment_link cve i = cve_link cve @ ''#comment-'' @ id_str i"

definition add_cve_comment ::
    "(string \<Rightarrow> string option) \<Rightarrow> stackrox option \<Rightarrow> current_user \<Rightarrow> string \<Rightarrow> string option \<Rightarrow>
     segment_in list option \<Rightarrow> app_db \<Rightarrow> (app_db \<times> cve_comment \<times> mention_email list) result" where
  "add_cve_comment valid_email sx u cve message content db =
     rbind (prepare_comment db message content) (\<lambda>p.
       let (i, db1) = fresh_id db;
           c = \<lparr>cc_id = i, cc_cve = cve, cc_user = cu_id u, cc_escalation = None, cc_message = pc_message p,
             cc_segments = Some (pc_segments p), cc_created = db_now db, cc_updated = None\<rparr>
       in rbind (notify_mention_users valid_email (pc_recipients p) (user_of u) (comment_link cve i)
              (''CVE '' @ cve) [] (db1\<lparr>cve_comments := cve_comments db1 @ [c]\<rparr>)) (\<lambda>(db2, ids, mails).
          rbind (broadcast_subscription_event sx cve ''comment'' [(''author'', cu_display_name u)]
              (Some (comment_link cve i)) (Some (cu_id u)) ids None db2) (\<lambda>db3.
            Inr (db3, c, mails))))"

definition load_cve_comment :: "string \<Rightarrow> nat \<Rightarrow> app_db \<Rightarrow> cve_comment result" where
  "load_cve_comment cve i db =
     rbind (scalar_one_or_none (filter (\<lambda>c. cc_id c = i \<and> cc_cve c = cve) (cve_comments db))) (\<lambda>x.
       case x of None \<Rightarrow> Inl (ApiError 404 ''comment_not_found'') | Some c \<Rightarrow> Inr c)"

definition update_cve_comment ::
    "(string \<Rightarrow> string option) \<Rightarrow> current_user \<Rightarrow> string \<Rightarrow> nat \<Rightarrow> string option \<Rightarrow>
     segment_in list option \<Rightarrow> app_db \<Rightarrow> (app_db \<times> cve_comment \<times> mention_email list) result" where
  "update_cve_comment valid_email u cve i message content db =
     rbind (load_cve_comment cve i db) (\<lambda>c.
       if cc_user c \<noteq> cu_id u then Inl (ApiError 403 ''comment_edit_forbidden'')
       else let previous = previous_mention_ids db (cc_segments c) (cc_message c) in
         rbind (prepare_comment db message content) (\<lambda>p.
           let c' = c\<lparr>cc_message := pc_message p, cc_segments := Some (pc_segments p),
                 cc_updated := Some (db_now db)\<rparr>;
               db1 = db\<lparr>cve_comments := map (\<lambda>x. if cc_id x = i then c' else x) (cve_comments db)\<rparr>
           in rbind (notify_mention_users valid_email (pc_recipients p) (user_of u) (comment_link cve i)
                  (''CVE '' @ cve) previous db1) (\<lambda>(db2, ids, mails). Inr (db2, c', mails))))"

section \<open>Comments on a risk acceptance\<close>

text \<open>The creator's mail, when the security team comments and the creator was not mentioned.\<close>

definition risk_comment_mail ::
    "(string \<Rightarrow> string option) \<Rightarrow> app_db \<Rightarrow> risk_acceptance \<Rightarrow> current_user \<Rightarrow> string list \<Rightarrow> string \<Rightarrow>
     mail list result" where
  "risk_comment_mail valid_email db ra u mentioned txt =
     (case users_by_id (users db) (ra_created_by ra) of None \<Rightarrow> Inr []
      | Some creator \<Rightarrow>
          if is_sec_team u \<and> user_id creator \<notin> set mentioned then
            rbind (wants db (user_id creator) ''risk_acceptance'' True) (\<lambda>w.
              if w then Inr (map (\<lambda>a. MailRiskComment a (ra_cve ra) (ra_id ra) (cu_display_name u) txt)
                (opt_list (valid_email (email creator)))) else Inr [])
          else Inr [])"

definition add_risk_acceptance_comment ::
    "(string \<Rightarrow> string option) \<Rightarrow> current_user \<Rightarrow> risk_acceptance \<Rightarrow> string option \<Rightarrow> segment_in list option \<Rightarrow>
     app_db \<Rightarrow> (app_db \<times> ra_comment \<times> mention_email list \<times> mail list) result" where
  "add_risk_acceptance_comment valid_email u ra message content db =
     rbind (prepare_comment db message content) (\<lambda>p.
       let (i, db1) = fresh_id db;
           c = \<lparr>rc_id = i, rc_ra = ra_id ra, rc_user = cu_id u, rc_message = pc_message p,
             rc_segments = Some (pc_segments p), rc_created = db_now db\<rparr>
       in rbind (notify_mention_users valid_email (pc_recipients p) (user_of u)
              (ra_link ra @ ''#comment-'' @ id_str i) (''Risikoakzeptanz '' @ ra_cve ra) []
              (db1\<lparr>ra_comments := ra_comments db1 @ [c]\<rparr>)) (\<lambda>(db2, ids, mails).
          rbind (notify_risk_comment ra (user_of u) ids db2) (\<lambda>db3.
          rbind (risk_comment_mail valid_email db3 ra u ids
                   (segments_to_display_text (pc_segments p) (pc_display p))) (\<lambda>ms.
            Inr (db3, c, mails, ms)))))"

section \<open>Lemmas\<close>

lemma users_by_id_SomeD: "users_by_id us i = Some u \<Longrightarrow> u \<in> set us \<and> user_id u = i"
  by (auto simp: users_by_id_def dest: dict_of_SomeD)

lemma lookup_all_Inr:
  "lookup_all f ids = Inr us \<Longrightarrow> (\<And>i u. f i = Some u \<Longrightarrow> user_id u = i) \<Longrightarrow>
     map user_id us = ids \<and> (\<forall>u \<in> set us. f (user_id u) = Some u)"
  unfolding lookup_all_def
  by (induction ids arbitrary: us) (auto simp: rbind_Inr_iff split: option.splits)

text \<open>A stored mention names an existing user with the user's name.\<close>

fun segment_known :: "app_db \<Rightarrow> segment \<Rightarrow> bool" where
  "segment_known db (SegText t) = True"
| "segment_known db (SegMention i n) = (\<exists>u \<in> set (users db). user_id u = i \<and> username u = n)"

lemma segments_known_append:
  "list_all (segment_known db) segs \<Longrightarrow> list_all (segment_known db) (append_text segs t)"
  by (cases segs rule: rev_cases) (auto simp: append_text.simps list_all_iff split: list.splits segment.splits)

lemma segments_known_parse:
  assumes "\<And>k i n. f k = Some (i, n) \<Longrightarrow> \<exists>u \<in> set (users db). user_id u = i \<and> username u = n"
  shows "list_all (segment_known db) (parse_message_to_segments s f)"
proof -
  have "list_all (segment_known db) (foldl (parse_step f) segs ms)" if "list_all (segment_known db) segs" for segs ms
    using that
  proof (induction ms arbitrary: segs)
    case (Cons m ms)
    have "list_all (segment_known db) (parse_step f segs m)"
      using Cons.prems assms by (auto simp: parse_step_def Let_def segments_known_append split: option.split)
    with Cons.IH show ?case by simp
  qed simp
  then show ?thesis by (auto simp: parse_message_to_segments_def segments_known_append split: prod.split)
qed

lemma mention_ids_stored:
  "traverse (stored_segment f) content = Inr segs \<Longrightarrow> (\<And>i u. f i = Some u \<Longrightarrow> user_id u = i) \<Longrightarrow>
     concat (map in_mention_ids content) = concat (map (\<lambda>s. case s of SegText t \<Rightarrow> [] | SegMention i n \<Rightarrow> [i]) segs)"
proof (induction content arbitrary: segs)
  case (Cons x content)
  then show ?case by (cases x) (auto simp: rbind_Inr_iff split: option.splits)
qed simp

lemma in_mention_ids_iff:
  "i \<noteq> [] \<Longrightarrow> i \<in> set (concat (map mention_id segs)) \<longleftrightarrow> (\<exists>n. SegMention i n \<in> set segs)"
proof (induction segs)
  case (Cons s segs)
  then show ?case by (cases s) auto
qed simp

text \<open>The two stored forms of a comment agree. Every mention names an existing user by id and current name;
  the recipients are exactly the mentioned users, each once; structured content is stored with the
  message that its segments render to, within the length limit; and a legacy message is stored verbatim
  with segments that render back to it up to the case of names.\<close>

theorem prepared_comment_consistent:
  assumes "prepare_comment db message content = Inr p"
  shows "list_all (segment_known db) (pc_segments p) \<and>
    set (pc_recipients p) \<subseteq> set (users db) \<and> distinct (map user_id (pc_recipients p)) \<and>
    (\<forall>i. i \<noteq> [] \<longrightarrow> i \<in> user_id ` set (pc_recipients p) \<longleftrightarrow> (\<exists>n. SegMention i n \<in> set (pc_segments p))) \<and>
    (if content \<noteq> None
     then pc_message p = segments_to_message (pc_segments p) \<and> length (pc_message p) \<le> max_comment_len
     else message = Some (pc_message p) \<and> py_lower (segments_to_message (pc_segments p)) = py_lower (pc_message p))"
proof (cases content)
  case (Some c)
  define ids where "ids = dedupe (concat (map in_mention_ids c))"
  define found where "found = users_by_id (filter (\<lambda>u. user_id u \<in> set ids) (users db))"
  have f: "found i = Some u \<Longrightarrow> u \<in> set (users db) \<and> user_id u = i" for i u
    unfolding found_def by (auto dest: users_by_id_SomeD)
  from assms Some have r: "resolve_content db c = Inr p" by (simp add: prepare_comment_def)
  obtain segs rs where t: "traverse (stored_segment found) c = Inr segs" and l: "lookup_all found ids = Inr rs"
    and p: "p = \<lparr>pc_message = segments_to_message segs, pc_segments = segs, pc_recipients = rs,
      pc_display = display_map rs\<rparr>" and len: "length (segments_to_message segs) \<le> max_comment_len"
    using r by (auto simp: resolve_content_def Let_def ids_def [symmetric] found_def [symmetric] rbind_Inr_iff
        split: if_splits)
  from lookup_all_Inr [OF l] f have rs: "map user_id rs = ids" "\<forall>u \<in> set rs. u \<in> set (users db)" by blast+
  have known: "segment_known db s" if "s \<in> set segs" for s
  proof -
    from traverse_set [OF t] that obtain x where "x \<in> set c" "stored_segment found x = Inr s" by blast
    with f show ?thesis by (cases x) (fastforce split: option.splits)+
  qed
  have "i \<in> user_id ` set rs \<longleftrightarrow> (\<exists>n. SegMention i n \<in> set segs)" for i
  proof -
    have "user_id ` set rs = set ids" using rs(1) by (metis list.set_map)
    also have "\<dots> = set (concat (map in_mention_ids c))" by (simp add: ids_def)
    also have "\<dots> = set (concat (map (\<lambda>s. case s of SegText t \<Rightarrow> [] | SegMention i n \<Rightarrow> [i]) segs))"
      using mention_ids_stored [OF t] f by metis
    finally show ?thesis by (force split: segment.splits)
  qed
  moreover have "distinct (map user_id rs)" unfolding rs(1) by (simp add: ids_def)
  ultimately show ?thesis using Some known rs(2) len by (auto simp: p list_all_iff)
next
  case None
  with assms obtain m where m: "message = Some m" "resolve_message db m = Inr p"
    by (auto simp: prepare_comment_def split: option.splits)
  define names where "names = legacy_mention_names m"
  define rows where "rows = (if names = [] then [] else filter (\<lambda>u. py_lower (username u) \<in> set names) (users db))"
  define by_name where "by_name = map_option (\<lambda>u. (user_id u, username u)) \<circ> dict_of (\<lambda>u. py_lower (username u)) rows"
  define segs where "segs = parse_message_to_segments m by_name"
  obtain rs where l: "lookup_all (users_by_id rows) (mention_user_ids (Some segs)) = Inr rs"
    and p: "p = \<lparr>pc_message = m, pc_segments = segs, pc_recipients = rs, pc_display = display_map rs\<rparr>"
    using m(2) by (auto simp: resolve_message_def Let_def names_def [symmetric] rows_def [symmetric]
        by_name_def [symmetric] segs_def [symmetric] rbind_Inr_iff)
  have sub: "set rows \<subseteq> set (users db)" by (auto simp: rows_def)
  have n: "by_name k = Some (i, n) \<Longrightarrow> py_lower n = k \<and> (\<exists>u \<in> set (users db). user_id u = i \<and> username u = n)" for k i n
    unfolding by_name_def using sub by (auto dest: dict_of_SomeD)
  have "name_ok by_name" unfolding name_ok_def using n by blast
  then have low: "py_lower (segments_to_message segs) = py_lower m"
    unfolding segs_def by (rule lower_parse_message)
  have known: "list_all (segment_known db) segs"
    unfolding segs_def using n by (intro segments_known_parse) blast
  have u: "users_by_id rows i = Some x \<Longrightarrow> x \<in> set rows \<and> user_id x = i" for i x
    by (rule users_by_id_SomeD)
  from lookup_all_Inr [OF l] u have rs: "map user_id rs = mention_user_ids (Some segs)"
    "\<forall>x \<in> set rs. x \<in> set (users db)" using sub by blast+
  have "i \<in> user_id ` set rs \<longleftrightarrow> (\<exists>n. SegMention i n \<in> set segs)" if "i \<noteq> []" for i
  proof -
    have "user_id ` set rs = set (concat (map mention_id segs))"
      using rs(1) by (metis list.set_map mention_user_ids_def option.simps(5) set_dedupe)
    then show ?thesis using in_mention_ids_iff [OF that] by simp
  qed
  moreover have "distinct (map user_id rs)" unfolding rs(1) by (simp add: mention_user_ids_def)
  ultimately show ?thesis using None m(1) known low rs(2) by (auto simp: p)
qed

lemma ex_prepare: "prepare_comment ex_db None (Some [InText ''hi'']) =
    Inr \<lparr>pc_message = ''hi'', pc_segments = [SegText ''hi''], pc_recipients = [], pc_display = display_map []\<rparr>"
  by (simp add: prepare_comment_def resolve_content_def lookup_all_def segments_to_message_def
      segments_to_display_text_def max_comment_len_def Let_def)

theorem prepared_comment_consistent_witness: "''hi'' = segments_to_message [SegText ''hi'']"
  using prepared_comment_consistent [OF ex_prepare] by simp

lemma load_cve_comment_Inr: "load_cve_comment cve i db = Inr c \<Longrightarrow> c \<in> set (cve_comments db) \<and> cc_id c = i \<and> cc_cve c = cve"
proof -
  assume "load_cve_comment cve i db = Inr c"
  then have "filter (\<lambda>c. cc_id c = i \<and> cc_cve c = cve) (cve_comments db) = [c]"
    by (auto simp: load_cve_comment_def rbind_Inr_iff scalar_one_or_none_Some_iff split: option.splits)
  then have "c \<in> set (filter (\<lambda>c. cc_id c = i \<and> cc_cve c = cve) (cve_comments db))" by simp
  then show ?thesis by simp
qed

text \<open>Only the author edits a comment, and an edit tells only people who are newly mentioned: every
  notification and every mention mail goes to a user whom the new text mentions, who is not the author
  and whom the previous text did not mention, and there are at most twenty of them. The edit replaces the
  text and the edit time of that comment and no other comment changes.\<close>

theorem edit_tells_only_new_mentions:
  assumes "update_cve_comment ve u cve i message content db = Inr (db', c', mails)"
  shows "\<exists>c p ids. c \<in> set (cve_comments db) \<and> cc_id c = i \<and> cc_user c = cu_id u \<and>
    prepare_comment db message content = Inr p \<and>
    c' = c\<lparr>cc_message := pc_message p, cc_segments := Some (pc_segments p), cc_updated := Some (db_now db)\<rparr> \<and>
    cve_comments db' = map (\<lambda>x. if cc_id x = i then c' else x) (cve_comments db) \<and>
    set ids = user_id ` set (pc_recipients p) - {cu_id u} - set (previous_mention_ids db (cc_segments c) (cc_message c)) \<and>
    length ids \<le> 20 \<and> me_recipient ` set mails \<subseteq> set ids \<and> adds_for (set ids) db db'"
proof -
  from assms obtain c p where c: "load_cve_comment cve i db = Inr c" "cc_user c = cu_id u"
    and p: "prepare_comment db message content = Inr p"
    by (auto simp: update_cve_comment_def rbind_Inr_iff Let_def split: if_splits)
  define prev where "prev = previous_mention_ids db (cc_segments c) (cc_message c)"
  define new where "new = c\<lparr>cc_message := pc_message p, cc_segments := Some (pc_segments p), cc_updated := Some (db_now db)\<rparr>"
  define db1 where "db1 = db\<lparr>cve_comments := map (\<lambda>x. if cc_id x = i then new else x) (cve_comments db)\<rparr>"
  have "update_cve_comment ve u cve i message content db = rbind (notify_mention_users ve (pc_recipients p) (user_of u)
      (comment_link cve i) (''CVE '' @ cve) prev db1) (\<lambda>(db2, ids, mails). Inr (db2, new, mails))"
    unfolding prev_def new_def db1_def using c p by (simp add: update_cve_comment_def Let_def)
  with assms obtain ids where n: "notify_mention_users ve (pc_recipients p) (user_of u) (comment_link cve i) (''CVE '' @ cve)
      prev db1 = Inr (db', ids, mails)" and c': "c' = new"
    by (auto simp: rbind_Inr_iff)
  note e = notify_mention_users_Inr [OF n]
  have "cve_comments db' = cve_comments db1" using e core_eqD(18) by blast
  then have 1: "cve_comments db' = map (\<lambda>x. if cc_id x = i then c' else x) (cve_comments db)"
    by (simp add: db1_def c')
  have "adds_for (set ids) db1 db'" using e by blast
  then have 2: "adds_for (set ids) db db'" by (simp add: adds_for_def db1_def)
  have 3: "set ids = user_id ` set (pc_recipients p) - {cu_id u} -
      set (previous_mention_ids db (cc_segments c) (cc_message c))" "length ids \<le> 20"
    "me_recipient ` set mails \<subseteq> set ids"
    using e unfolding prev_def max_mention_recipients_def user_of_simps by blast+
  show ?thesis using c p 1 2 3 c' load_cve_comment_Inr [OF c(1)] unfolding new_def by blast
qed

definition ex_comment :: cve_comment where
  "ex_comment = \<lparr>cc_id = 1, cc_cve = ''CVE-2024-1'', cc_user = ''u1'', cc_escalation = None,
     cc_message = ''hello'', cc_segments = Some [SegText ''hello''], cc_created = 0, cc_updated = None\<rparr>"

theorem edit_tells_only_new_mentions_witness:
  "\<exists>db' c'. update_cve_comment (\<lambda>_. None) ex_member ''CVE-2024-1'' 1 None (Some [InText ''hi''])
      (ex_db\<lparr>cve_comments := [ex_comment]\<rparr>) = Inr (db', c', []) \<and> cve_comments db' = [c']"
proof -
  let ?db = "ex_db\<lparr>cve_comments := [ex_comment]\<rparr>"
  have "prepare_comment ?db None (Some [InText ''hi'']) =
    Inr \<lparr>pc_message = ''hi'', pc_segments = [SegText ''hi''], pc_recipients = [], pc_display = display_map []\<rparr>"
    by (simp add: prepare_comment_def resolve_content_def lookup_all_def segments_to_message_def
      segments_to_display_text_def max_comment_len_def Let_def)
  then obtain db' c' where u: "update_cve_comment (\<lambda>_. None) ex_member ''CVE-2024-1'' 1 None (Some [InText ''hi'']) ?db
      = Inr (db', c', [])"
    by (simp add: update_cve_comment_def load_cve_comment_def ex_comment_def ex_member_def Let_def
        notify_mention_users_def max_mention_recipients_def)
  have "cc_id ex_comment = 1" by (simp add: ex_comment_def)
  with u edit_tells_only_new_mentions [OF u] show ?thesis by auto
qed

end
