(* ===== verification/Tables.thy ===== *)
theory Tables
  imports Prelude
begin

text \<open>
  Tables with a numeric primary key and a partial unique index: what the tables of risk acceptances and of
  suppression rules share. \<open>act\<close> says which rows the index covers, \<open>target\<close> is the indexed value, \<open>ok\<close> the
  invariant of a single row, and every key is below the next one the database hands out.
\<close>

definition table_ok ::
    "('r \<Rightarrow> nat) \<Rightarrow> ('r \<Rightarrow> bool) \<Rightarrow> ('r \<Rightarrow> 't) \<Rightarrow> ('r \<Rightarrow> bool) \<Rightarrow> nat \<Rightarrow> 'r list \<Rightarrow> bool" where
  "table_ok key act target ok n rows \<longleftrightarrow>
     distinct (map key rows) \<and> (\<forall>r \<in> set rows. key r < n \<and> ok r) \<and>
     (\<forall>x \<in> set rows. \<forall>y \<in> set rows. act x \<and> act y \<and> target x = target y \<longrightarrow> x = y)"

lemma table_ok_Nil [simp]: "table_ok key act target ok n []"
  by (simp add: table_ok_def)

lemma table_okD:
  assumes "table_ok key act target ok n rows"
  shows "distinct (map key rows)" and "r \<in> set rows \<Longrightarrow> ok r" and "r \<in> set rows \<Longrightarrow> key r < n"
    and "x \<in> set rows \<Longrightarrow> y \<in> set rows \<Longrightarrow> act x \<Longrightarrow> act y \<Longrightarrow> target x = target y \<Longrightarrow> x = y"
  using assms by (auto simp: table_ok_def)

lemma table_key_eq: "table_ok key act target ok n rows \<Longrightarrow> x \<in> set rows \<Longrightarrow> y \<in> set rows \<Longrightarrow> key x = key y \<Longrightarrow> x = y"
  by (auto simp: table_ok_def distinct_map dest: inj_onD)

lemma table_ok_mono: "table_ok key act target ok n rows \<Longrightarrow> n \<le> n' \<Longrightarrow> table_ok key act target ok n' rows"
  by (fastforce simp: table_ok_def)

lemma table_ok_filter: "table_ok key act target ok n rows \<Longrightarrow> table_ok key act target ok n (filter P rows)"
  by (auto simp: table_ok_def intro: distinct_map_filter)

lemma table_ok_insert:
  assumes "table_ok key act target ok n rows" and "n \<le> key r" and "key r < n'" and "ok r"
    and "\<And>x. x \<in> set rows \<Longrightarrow> act x \<Longrightarrow> act r \<Longrightarrow> target x \<noteq> target r"
  shows "table_ok key act target ok n' (rows @ [r])"
proof -
  have "key r \<notin> key ` set rows" using assms(1,2) by (fastforce simp: table_ok_def)
  moreover have "\<forall>x \<in> set (rows @ [r]). key x < n' \<and> ok x" using assms(1-4) by (fastforce simp: table_ok_def)
  moreover have "\<forall>x \<in> set (rows @ [r]). \<forall>y \<in> set (rows @ [r]). act x \<and> act y \<and> target x = target y \<longrightarrow> x = y"
  proof (intro ballI impI)
    fix x y assume "x \<in> set (rows @ [r])" "y \<in> set (rows @ [r])" "act x \<and> act y \<and> target x = target y"
    then show "x = y" using assms(5) [of x] assms(5) [of y] table_okD(4) [OF assms(1), of x y] by auto
  qed
  ultimately show ?thesis using assms(1) unfolding table_ok_def by simp
qed

text \<open>Rewriting rows keeps the invariant if no two rewritten rows that are active share a target.\<close>

lemma table_ok_map:
  assumes "table_ok key act target ok n rows" and "n \<le> n'"
    and f: "\<And>x. x \<in> set rows \<Longrightarrow> key (f x) = key x \<and> ok (f x)"
    and twin: "\<And>x y. x \<in> set rows \<Longrightarrow> y \<in> set rows \<Longrightarrow> act (f x) \<Longrightarrow> act (f y) \<Longrightarrow> target (f x) = target (f y) \<Longrightarrow> x = y"
  shows "table_ok key act target ok n' (map f rows)"
proof -
  have ids: "map key (map f rows) = map key rows" using f by simp
  have 1: "distinct (map key (map f rows))" unfolding ids by (rule table_okD(1) [OF assms(1)])
  have 2: "\<forall>x \<in> set (map f rows). key x < n' \<and> ok x" using assms(1,2) f by (fastforce simp: table_ok_def)
  have 3: "\<forall>x \<in> set (map f rows). \<forall>y \<in> set (map f rows). act x \<and> act y \<and> target x = target y \<longrightarrow> x = y"
    using twin by auto
  from 1 2 3 show ?thesis unfolding table_ok_def by blast
qed

lemma table_ok_replace:
  assumes ok: "table_ok key act target ok n rows" and "n \<le> n'" and r: "r \<in> set rows" and k: "key r' = key r" and "ok r'"
    and twin: "\<And>x. x \<in> set rows \<Longrightarrow> key x \<noteq> key r' \<Longrightarrow> act x \<Longrightarrow> act r' \<Longrightarrow> target x \<noteq> target r'"
  shows "table_ok key act target ok n' (map (\<lambda>x. if key x = key r' then r' else x) rows)"
proof (rule table_ok_map [OF ok \<open>n \<le> n'\<close>])
  fix x assume "x \<in> set rows"
  with assms show "key (if key x = key r' then r' else x) = key x \<and> ok (if key x = key r' then r' else x)"
    by (auto dest: table_okD(2))
next
  fix x y
  assume xy: "x \<in> set rows" "y \<in> set rows" "act (if key x = key r' then r' else x)" "act (if key y = key r' then r' else y)"
    "target (if key x = key r' then r' else x) = target (if key y = key r' then r' else y)"
  then show "x = y"
    using twin [of x] twin [of y] table_okD(4) [OF ok xy(1,2)] table_key_eq [OF ok xy(1,2)]
    by (cases "key x = key r'"; cases "key y = key r'") (auto split: if_splits)
qed

end
