(* ===== verification/RiskAcceptances.thy ===== *)
theory RiskAcceptances
  imports Comments Tables
begin

text \<open>
  Risk acceptances: \<open>app/routers/risk_acceptances.py\<close> and the jobs \<open>run_expiry_check\<close> and
  \<open>run_expiry_warning\<close> of \<open>app/tasks/scheduler.py\<close>. \<open>md5\<close> is the hash of the scope key. The partial unique
  index over (CVE, scope key) of the active rows is checked where the code flushes: a violation is a
  \<open>ServerError\<close>. The lemmas show that no acceptance for several teams is in force without a review, that the
  active ones are unique, and what each job changes.
\<close>

section \<open>The handlers\<close>

definition active :: "risk_status \<Rightarrow> bool" where
  "active s \<longleftrightarrow> s = RiskRequested \<or> s = RiskApproved"

definition effective_namespaces :: "stackrox \<Rightarrow> current_user \<Rightarrow> pair list" where
  "effective_namespaces sx u = (if can_see_all_namespaces u then list_namespaces sx else cu_namespaces u)"

definition active_ras :: "app_db \<Rightarrow> string \<Rightarrow> string \<Rightarrow> risk_acceptance list" where
  "active_ras db cve key = filter (\<lambda>r. ra_cve r = cve \<and> ra_scope_key r = key \<and> active (ra_status r)) (ras db)"

record ra_body =
  rab_justification :: string
  rab_scope :: risk_scope
  rab_expires_at :: "datetime option"

definition announce_ra ::
    "stackrox \<Rightarrow> current_user \<Rightarrow> risk_acceptance \<Rightarrow> string list \<Rightarrow> app_db \<Rightarrow> app_db result" where
  "announce_ra sx u ra excluded =
     broadcast_subscription_event (Some sx) (ra_cve ra) ''risk_acceptance''
       [(''status'', risk_status_value (ra_status ra))] (Some (ra_link ra)) (Some (cu_id u)) excluded
       (risk_acceptance_scope_pairs (ra_scope ra))"

definition log_ra :: "current_user \<Rightarrow> string \<Rightarrow> risk_acceptance \<Rightarrow> app_db \<Rightarrow> app_db" where
  "log_ra u action ra db = log_action (cu_id u) action ''risk_acceptance'' (id_str (ra_id ra)) [] db"

definition log_auto :: "current_user \<Rightarrow> bool \<Rightarrow> risk_acceptance \<Rightarrow> app_db \<Rightarrow> app_db" where
  "log_auto u single ra db = (if single then log_ra u ''risk_acceptance_auto_approved'' ra db else db)"

definition create_risk_acceptance ::
    "(string \<Rightarrow> string) \<Rightarrow> stackrox \<Rightarrow> current_user \<Rightarrow> string \<Rightarrow> ra_body \<Rightarrow> app_db \<Rightarrow>
     (app_db \<times> risk_acceptance) result" where
  "create_risk_acceptance md5 sx u cve b db =
     (if is_sec_team u then Inl (ApiError 403 ''ra_sec_team_cannot_request'')
      else if \<not> has_namespaces u then Inl (ApiError 400 ''no_namespaces'')
      else let deployments = get_affected_deployments sx cve (effective_namespaces sx u) in
        if deployments = [] then Inl (ApiError 404 ''cve_not_in_namespaces'')
        else rbind (validate_and_resolve_scope (rab_scope b) deployments) (\<lambda>scope.
          let key = scope_key md5 scope in
          rbind (scalar_one_or_none (active_ras db cve key)) (\<lambda>existing.
            if existing \<noteq> None then Inl (ApiError 409 ''ra_duplicate_cve_scope'')
            else
              let single = is_single_team_scope scope; (i, db1) = fresh_id db;
                  ra = \<lparr>ra_id = i, ra_cve = cve, ra_status = (if single then RiskApproved else RiskRequested),
                    ra_justification = rab_justification b, ra_scope = dump_scope scope, ra_scope_key = key,
                    ra_expires_at = rab_expires_at b, ra_created_at = db_now db, ra_created_by = cu_id u,
                    ra_reviewed_by = None, ra_reviewed_at = (if single then Some (db_now db) else None),
                    ra_assigned_to = None\<rparr>
              in rbind (announce_ra sx u ra []
                    (log_auto u single ra (log_ra u ''risk_acceptance_created'' ra (db1\<lparr>ras := ras db1 @ [ra]\<rparr>))))
                  (\<lambda>db2. Inr (db2, ra)))))"

definition load_ra :: "nat \<Rightarrow> app_db \<Rightarrow> risk_acceptance result" where
  "load_ra i db =
     rbind (scalar_one_or_none (filter (\<lambda>r. ra_id r = i) (ras db))) (\<lambda>x.
       case x of None \<Rightarrow> Inl (ApiError 404 ''not_found'') | Some r \<Rightarrow> Inr r)"

definition put_ra :: "risk_acceptance \<Rightarrow> app_db \<Rightarrow> app_db" where
  "put_ra ra db = db\<lparr>ras := map (\<lambda>x. if ra_id x = ra_id ra then ra else x) (ras db)\<rparr>"

text \<open>The flush of a changed row under the unique index.\<close>

definition flush_ra :: "risk_acceptance \<Rightarrow> app_db \<Rightarrow> app_db result" where
  "flush_ra ra db =
     (if active (ra_status ra) \<and>
         list_ex (\<lambda>x. ra_id x \<noteq> ra_id ra) (active_ras db (ra_cve ra) (ra_scope_key ra))
      then Inl (ServerError ''IntegrityError'') else Inr (put_ra ra db))"

definition update_risk_acceptance ::
    "(string \<Rightarrow> string) \<Rightarrow> stackrox \<Rightarrow> current_user \<Rightarrow> nat \<Rightarrow> ra_body \<Rightarrow> app_db \<Rightarrow>
     (app_db \<times> risk_acceptance) result" where
  "update_risk_acceptance md5 sx u i b db =
     (if is_sec_team u then Inl (ApiError 403 ''ra_sec_team_cannot_modify'')
      else rbind (load_ra i db) (\<lambda>ra.
        if ra_created_by ra \<noteq> cu_id u then Inl (ApiError 403 ''ra_only_creator_can_modify'')
        else if ra_status ra \<notin> {RiskApproved, RiskRejected}
        then Inl (ApiError 400 ''ra_only_approved_rejected_modifiable'')
        else if \<not> has_namespaces u then Inl (ApiError 400 ''no_namespaces'')
        else let deployments = get_affected_deployments sx (ra_cve ra) (effective_namespaces sx u) in
          if deployments = [] then Inl (ApiError 404 ''cve_not_in_namespaces_anymore'')
          else rbind (validate_and_resolve_scope (rab_scope b) deployments) (\<lambda>scope.
            let key = scope_key md5 scope in
            rbind (if key \<noteq> ra_scope_key ra
                   then rbind (scalar_one_or_none (filter (\<lambda>x. ra_id x \<noteq> ra_id ra) (active_ras db (ra_cve ra) key)))
                     (\<lambda>x. if x \<noteq> None then Inl (ApiError 409 ''ra_duplicate_scope'') else Inr ())
                   else Inr ()) (\<lambda>_.
              let single = is_single_team_scope scope;
                  ra' = ra\<lparr>ra_justification := rab_justification b, ra_scope := dump_scope scope,
                    ra_scope_key := key, ra_expires_at := rab_expires_at b,
                    ra_status := (if single then RiskApproved else RiskRequested), ra_reviewed_by := None,
                    ra_reviewed_at := (if single then Some (db_now db) else None)\<rparr>
              in rbind (flush_ra ra' db) (\<lambda>db1.
                rbind (announce_ra sx u ra' [] (log_auto u single ra' (log_ra u ''risk_acceptance_updated'' ra' db1)))
                  (\<lambda>db2. Inr (db2, ra')))))))"

text \<open>The mail to the creator of a reviewed acceptance.\<close>

definition risk_status_mail ::
    "(string \<Rightarrow> string option) \<Rightarrow> app_db \<Rightarrow> risk_acceptance \<Rightarrow> mail list result" where
  "risk_status_mail valid_email db ra =
     (case users_by_id (users db) (ra_created_by ra) of None \<Rightarrow> Inr []
      | Some creator \<Rightarrow> rbind (wants db (user_id creator) ''risk_acceptance'' True) (\<lambda>w.
          if w then Inr (map (\<lambda>a. MailRiskStatus a (ra_id ra) (risk_status_value (ra_status ra)))
            (opt_list (valid_email (email creator)))) else Inr []))"

definition review_comment :: "current_user \<Rightarrow> nat \<Rightarrow> string option \<Rightarrow> app_db \<Rightarrow> app_db" where
  "review_comment u i comment db =
     (if truthy comment then
        let (j, db1) = fresh_id db in
        db1\<lparr>ra_comments := ra_comments db1 @ [\<lparr>rc_id = j, rc_ra = i, rc_user = cu_id u,
          rc_message = the comment, rc_segments = None, rc_created = db_now db\<rparr>]\<rparr>
      else db)"

definition review_risk_acceptance ::
    "(string \<Rightarrow> string option) \<Rightarrow> stackrox \<Rightarrow> current_user \<Rightarrow> nat \<Rightarrow> bool \<Rightarrow> string option \<Rightarrow> app_db \<Rightarrow>
     (app_db \<times> risk_acceptance \<times> mail list) result" where
  "review_risk_acceptance valid_email sx u i approved comment db =
     (if \<not> is_sec_team u then Inl (ApiError 403 ''ra_sec_team_only_review'')
      else rbind (load_ra i db) (\<lambda>ra.
        if ra_status ra \<noteq> RiskRequested then Inl (ApiError 400 ''ra_only_requested_reviewable'')
        else
          let ra' = ra\<lparr>ra_status := (if approved then RiskApproved else RiskRejected),
                ra_reviewed_by := Some (cu_id u), ra_reviewed_at := Some (db_now db)\<rparr>
          in rbind (flush_ra ra' db) (\<lambda>db1.
            rbind (notify_risk_status_change ra'
                (log_action (cu_id u) ''risk_acceptance_reviewed'' ''risk_acceptance'' (id_str (ra_id ra'))
                  [(''status'', Some (risk_status_value (ra_status ra')))]
                  (review_comment u (ra_id ra') comment db1))) (\<lambda>db2.
            rbind (risk_status_mail valid_email db2 ra') (\<lambda>ms.
            rbind (announce_ra sx u ra' [ra_created_by ra'] db2) (\<lambda>db3. Inr (db3, ra', ms)))))))"

definition assign_reviewer :: "current_user \<Rightarrow> nat \<Rightarrow> string \<Rightarrow> app_db \<Rightarrow> (app_db \<times> risk_acceptance) result" where
  "assign_reviewer u i uid db =
     (if \<not> is_sec_team u then Inl (ApiError 403 ''ra_sec_team_only_assign'')
      else rbind (load_ra i db) (\<lambda>ra.
        if ra_status ra \<noteq> RiskRequested then Inl (ApiError 400 ''ra_only_requested_assignable'')
        else rbind (scalar_one_or_none (filter (\<lambda>x. user_id x = uid) (users db))) (\<lambda>target.
          case target of None \<Rightarrow> Inl (ApiError 404 ''user_not_found'')
          | Some t \<Rightarrow>
              if role t \<noteq> SecTeam then Inl (ApiError 400 ''ra_reviewer_must_be_sec'')
              else let ra' = ra\<lparr>ra_assigned_to := Some uid\<rparr> in
                rbind (create_notification uid NRiskComment ''risk_reviewer_assigned''
                    [(''cve_id'', ra_cve ra), (''actor'', cu_display_name u)] (Some (ra_link ra)) None
                    (log_action (cu_id u) ''risk_acceptance_assigned'' ''risk_acceptance'' (id_str (ra_id ra))
                      [(''assigned_to_id'', Some (user_id t))] (put_ra ra' db)))
                  (\<lambda>db1. Inr (db1, ra')))))"

definition cancel_risk_acceptance :: "stackrox \<Rightarrow> current_user \<Rightarrow> nat \<Rightarrow> app_db \<Rightarrow> app_db result" where
  "cancel_risk_acceptance sx u i db =
     rbind (load_ra i db) (\<lambda>ra.
       if \<not> is_sec_team u \<and> ra_created_by ra \<noteq> cu_id u then Inl (ApiError 403 ''ra_only_creator_can_delete'')
       else rbind (broadcast_subscription_event (Some sx) (ra_cve ra) ''risk_acceptance'' [(''status'', ''deleted'')]
              (Some (cve_link (ra_cve ra))) (Some (cu_id u)) [] (risk_acceptance_scope_pairs (ra_scope ra))
              (log_ra u ''risk_acceptance_deleted'' ra db)) (\<lambda>db1.
         Inr (db1\<lparr>ras := filter (\<lambda>x. ra_id x \<noteq> ra_id ra) (ras db1),
                  ra_comments := filter (\<lambda>c. rc_ra c \<noteq> ra_id ra) (ra_comments db1)\<rparr>)))"

text \<open>The handlers that load an acceptance and check the access of the user.\<close>

definition accessible_ra :: "current_user \<Rightarrow> nat \<Rightarrow> app_db \<Rightarrow> risk_acceptance result" where
  "accessible_ra u i db =
     rbind (load_ra i db) (\<lambda>ra. rbind (user_can_access_ra u ra) (\<lambda>ok.
       if ok then Inr ra else Inl (ApiError 403 ''forbidden'')))"

definition comment_count :: "app_db \<Rightarrow> nat \<Rightarrow> nat" where
  "comment_count db i = length (filter (\<lambda>c. rc_ra c = i) (ra_comments db))"

definition get_risk_acceptance :: "current_user \<Rightarrow> nat \<Rightarrow> app_db \<Rightarrow> (risk_acceptance \<times> nat) result" where
  "get_risk_acceptance u i db = rbind (accessible_ra u i db) (\<lambda>ra. Inr (ra, comment_count db (ra_id ra)))"

definition add_comment ::
    "(string \<Rightarrow> string option) \<Rightarrow> current_user \<Rightarrow> nat \<Rightarrow> string option \<Rightarrow> segment_in list option \<Rightarrow>
     app_db \<Rightarrow> (app_db \<times> ra_comment \<times> mention_email list \<times> mail list) result" where
  "add_comment valid_email u i message content db =
     rbind (accessible_ra u i db) (\<lambda>ra. add_risk_acceptance_comment valid_email u ra message content db)"

definition list_comments :: "current_user \<Rightarrow> nat \<Rightarrow> app_db \<Rightarrow> ra_comment list result" where
  "list_comments u i db =
     rbind (accessible_ra u i db) (\<lambda>ra.
       Inr (sort_key rc_created (filter (\<lambda>c. rc_ra c = i) (ra_comments db))))"

fun risk_status_of :: "string \<Rightarrow> risk_status option" where
  "risk_status_of s = map_of (map (\<lambda>x. (risk_status_value x, x))
     [RiskRequested, RiskApproved, RiskRejected, RiskExpired]) s"

definition ra_matches_scope :: "string option \<Rightarrow> string option \<Rightarrow> risk_acceptance \<Rightarrow> bool result" where
  "ra_matches_scope cluster namespace ra =
     rbind (get_scope_namespaces (ra_scope ra)) (\<lambda>ps.
       Inr (ps = {} \<or> (\<exists>(ns, cl) \<in> ps. (truthy cluster \<longrightarrow> Some cl = cluster) \<and>
         (truthy namespace \<longrightarrow> Some ns = namespace))))"

text \<open>A comprehension whose condition may raise.\<close>

fun filter_result :: "('a \<Rightarrow> bool result) \<Rightarrow> 'a list \<Rightarrow> 'a list result" where
  "filter_result f [] = Inr []"
| "filter_result f (x # xs) =
     rbind (f x) (\<lambda>b. rbind (filter_result f xs) (\<lambda>ys. Inr (if b then x # ys else ys)))"

definition list_risk_acceptances ::
    "current_user \<Rightarrow> string option \<Rightarrow> string option \<Rightarrow> string option \<Rightarrow> app_db \<Rightarrow>
     (risk_acceptance \<times> nat) list result" where
  "list_risk_acceptances u status cluster namespace db =
     (if truthy status \<and> risk_status_of (the status) = None then Inl (ApiError 400 ''invalid_status'')
      else
        rbind (filter_result (user_can_access_ra u)
            (sort_key_rev ra_created_at
              (filter (given_text status (\<lambda>s r. risk_status_of s = Some (ra_status r))) (ras db)))) (\<lambda>acc.
        rbind (if truthy cluster \<or> truthy namespace then filter_result (ra_matches_scope cluster namespace) acc
               else Inr acc) (\<lambda>rs.
          Inr (map (\<lambda>r. (r, comment_count db (ra_id r))) rs))))"

section \<open>The jobs\<close>

definition expiry_warning_days :: int where "expiry_warning_days = 7"

definition expiring :: "datetime \<Rightarrow> risk_acceptance \<Rightarrow> bool" where
  "expiring now r \<longleftrightarrow> ra_status r = RiskApproved \<and>
     (case ra_expires_at r of None \<Rightarrow> False
      | Some e \<Rightarrow> now \<le> e \<and> e \<le> now + timedelta_days expiry_warning_days)"

definition past_expiry :: "datetime \<Rightarrow> risk_acceptance \<Rightarrow> bool" where
  "past_expiry now r \<longleftrightarrow> ra_status r = RiskApproved \<and>
     (case ra_expires_at r of None \<Rightarrow> False | Some e \<Rightarrow> e < now)"

definition expire_one :: "stackrox \<Rightarrow> risk_acceptance \<Rightarrow> app_db \<Rightarrow> app_db result" where
  "expire_one sx ra db =
     (let ra' = ra\<lparr>ra_status := RiskExpired\<rparr>; scope = risk_acceptance_scope_pairs (ra_scope ra) in
      broadcast_subscription_event (if scope = None then Some sx else None) (ra_cve ra) ''risk_acceptance''
        [(''status'', risk_status_value RiskExpired)] (Some (ra_link ra)) None [] scope (put_ra ra' db))"

definition run_expiry_check :: "stackrox \<Rightarrow> app_db \<Rightarrow> app_db result" where
  "run_expiry_check sx db = notify_all (filter (past_expiry (db_now db)) (ras db)) (expire_one sx) db"

definition run_expiry_warning :: "app_db \<Rightarrow> app_db result" where
  "run_expiry_warning db = notify_all (filter (expiring (db_now db)) (ras db)) notify_risk_expiring db"

interpretation expiry_warning: quiet run_expiry_warning
  unfolding run_expiry_warning_def
  by (rule quiet_dep [of "\<lambda>rs. notify_all rs notify_risk_expiring"])
    (intro quiet_notify_all risk_expiring.quiet_axioms)

interpretation announce_ra: notifying "announce_ra sx u ra excluded" for sx u ra excluded
  unfolding announce_ra_def by (rule broadcast.notifying_axioms)

lemma announce_ra_total: "\<exists>db'. announce_ra sx u ra excluded db = Inr db'"
  unfolding announce_ra_def by (rule broadcast_total) (simp add: message_keys_def)

section \<open>The table and its steps\<close>

definition ra_ok :: "(string \<Rightarrow> string) \<Rightarrow> risk_acceptance \<Rightarrow> bool" where
  "ra_ok md5 r \<longleftrightarrow> (\<exists>s. risk_scope_ok s \<and> ra_scope r = dump_scope s \<and> ra_scope_key r = scope_key md5 s \<and>
     (case ra_status r of
        RiskRequested \<Rightarrow> ra_reviewed_by r = None \<and> ra_reviewed_at r = None
      | RiskRejected \<Rightarrow> ra_reviewed_by r \<noteq> None
      | _ \<Rightarrow> ra_reviewed_at r \<noteq> None \<and> (ra_reviewed_by r \<noteq> None \<or> is_single_team_scope s)))"

definition same_target :: "risk_acceptance \<Rightarrow> risk_acceptance \<Rightarrow> bool" where
  "same_target x y \<longleftrightarrow> ra_cve x = ra_cve y \<and> ra_scope_key x = ra_scope_key y"

definition ras_ok :: "(string \<Rightarrow> string) \<Rightarrow> app_db \<Rightarrow> bool" where
  "ras_ok md5 db \<longleftrightarrow> table_ok ra_id (\<lambda>r. active (ra_status r)) (\<lambda>r. (ra_cve r, ra_scope_key r)) (ra_ok md5)
     (next_id db) (ras db)"

lemma load_ra_Inr: "load_ra i db = Inr r \<Longrightarrow> r \<in> set (ras db) \<and> ra_id r = i"
proof -
  assume "load_ra i db = Inr r"
  then have "filter (\<lambda>r. ra_id r = i) (ras db) = [r]"
    by (auto simp: load_ra_def rbind_Inr_iff scalar_one_or_none_Some_iff split: option.splits)
  then have "r \<in> set (filter (\<lambda>r. ra_id r = i) (ras db))" by simp
  then show ?thesis by simp
qed

lemma put_ra_ok:
  assumes "ras_ok md5 db" and "r \<in> set (ras db)" and "ra_id r' = ra_id r" and "ra_ok md5 r'"
    and "\<And>x. x \<in> set (ras db) \<Longrightarrow> ra_id x \<noteq> ra_id r' \<Longrightarrow> active (ra_status x) \<Longrightarrow> active (ra_status r') \<Longrightarrow> \<not> same_target x r'"
    and "ras db' = ras (put_ra r' db)" and "next_id db \<le> next_id db'"
  shows "ras_ok md5 db'"
  using table_ok_replace [OF assms(1) [unfolded ras_ok_def] assms(7,2,3,4)] assms(5,6)
  by (simp add: ras_ok_def put_ra_def same_target_def)

lemma flush_ra_Inr:
  "flush_ra ra db = Inr db' \<longleftrightarrow> db' = put_ra ra db \<and>
     (\<forall>x \<in> set (ras db). active (ra_status ra) \<longrightarrow> active (ra_status x) \<longrightarrow> same_target x ra \<longrightarrow> ra_id x = ra_id ra)"
  by (auto simp: flush_ra_def active_ras_def list_ex_iff same_target_def)

lemma put_ra_simps [simp]: "next_id (put_ra ra db) = next_id db" "users (put_ra ra db) = users db"
  "db_now (put_ra ra db) = db_now db" "ra_comments (put_ra ra db) = ra_comments db"
  by (simp_all add: put_ra_def)

lemma log_ra_simps [simp]: "ras (log_ra u a r db) = ras db" "next_id (log_ra u a r db) = next_id db"
  "ras (log_auto u s r db) = ras db" "next_id (log_auto u s r db) = next_id db"
  "db_now (log_ra u a r db) = db_now db"
  by (simp_all add: log_ra_def log_auto_def)

lemma review_comment_simps [simp]: "ras (review_comment u i c db) = ras db"
  "next_id db \<le> next_id (review_comment u i c db)"
  by (simp_all add: review_comment_def fresh_id_def)

lemma create_ra_Inr:
  assumes "create_risk_acceptance md5 sx u cve b db = Inr (db', ra)"
  shows "\<exists>s. \<not> is_sec_team u \<and> has_namespaces u \<and>
    validate_and_resolve_scope (rab_scope b) (get_affected_deployments sx cve (effective_namespaces sx u)) = Inr s \<and>
    ra_cve ra = cve \<and> ra_scope ra = dump_scope s \<and> ra_scope_key ra = scope_key md5 s \<and> ra_created_by ra = cu_id u \<and>
    ra_status ra = (if is_single_team_scope s then RiskApproved else RiskRequested) \<and> ra_reviewed_by ra = None \<and>
    ra_reviewed_at ra = (if is_single_team_scope s then Some (db_now db) else None) \<and>
    ra_id ra = next_id db \<and> next_id db < next_id db' \<and> ras db' = ras db @ [ra] \<and>
    (\<forall>x \<in> set (ras db). active (ra_status x) \<longrightarrow> \<not> same_target x ra)"
proof -
  from assms obtain s where s: "\<not> is_sec_team u" "has_namespaces u"
      "validate_and_resolve_scope (rab_scope b) (get_affected_deployments sx cve (effective_namespaces sx u)) = Inr s"
    and none: "scalar_one_or_none (active_ras db cve (scope_key md5 s)) = Inr None"
    and ra: "ra = \<lparr>ra_id = next_id db, ra_cve = cve,
        ra_status = (if is_single_team_scope s then RiskApproved else RiskRequested),
        ra_justification = rab_justification b, ra_scope = dump_scope s, ra_scope_key = scope_key md5 s,
        ra_expires_at = rab_expires_at b, ra_created_at = db_now db, ra_created_by = cu_id u, ra_reviewed_by = None,
        ra_reviewed_at = (if is_single_team_scope s then Some (db_now db) else None), ra_assigned_to = None\<rparr>"
    and a: "announce_ra sx u ra [] (log_auto u (is_single_team_scope s) ra (log_ra u ''risk_acceptance_created'' ra
        (db\<lparr>next_id := Suc (next_id db), ras := ras db @ [ra]\<rparr>))) = Inr db'"
    by (auto simp: create_risk_acceptance_def Let_def rbind_Inr_iff fresh_id_def split: if_splits)
  have "\<forall>x \<in> set (ras db). active (ra_status x) \<longrightarrow> \<not> same_target x ra"
    using none by (auto simp: active_ras_def filter_empty_conv ra same_target_def)
  with s announce_ra.unchanged2(2) [OF a] announce_ra.grows2 [OF a] show ?thesis
    by (intro exI [of _ s]) (simp add: ra)
qed

lemma update_ra_Inr:
  assumes "update_risk_acceptance md5 sx u i b db = Inr (db', ra')"
  shows "\<exists>ra s. ra \<in> set (ras db) \<and> ra_id ra = i \<and> \<not> is_sec_team u \<and> ra_created_by ra = cu_id u \<and>
    ra_status ra \<in> {RiskApproved, RiskRejected} \<and>
    validate_and_resolve_scope (rab_scope b)
      (get_affected_deployments sx (ra_cve ra) (effective_namespaces sx u)) = Inr s \<and>
    ra_id ra' = ra_id ra \<and> ra_cve ra' = ra_cve ra \<and> ra_created_by ra' = ra_created_by ra \<and>
    ra_scope ra' = dump_scope s \<and> ra_scope_key ra' = scope_key md5 s \<and>
    ra_status ra' = (if is_single_team_scope s then RiskApproved else RiskRequested) \<and> ra_reviewed_by ra' = None \<and>
    ra_reviewed_at ra' = (if is_single_team_scope s then Some (db_now db) else None) \<and>
    next_id db \<le> next_id db' \<and> ras db' = ras (put_ra ra' db) \<and>
    (\<forall>x \<in> set (ras db). active (ra_status x) \<longrightarrow> same_target x ra' \<longrightarrow> ra_id x = ra_id ra')"
proof -
  from assms obtain ra s db1 where l: "load_ra i db = Inr ra" and s: "\<not> is_sec_team u" "ra_created_by ra = cu_id u"
      "ra_status ra \<in> {RiskApproved, RiskRejected}"
      "validate_and_resolve_scope (rab_scope b)
        (get_affected_deployments sx (ra_cve ra) (effective_namespaces sx u)) = Inr s"
    and ra': "ra' = ra\<lparr>ra_justification := rab_justification b, ra_scope := dump_scope s,
        ra_scope_key := scope_key md5 s, ra_expires_at := rab_expires_at b,
        ra_status := (if is_single_team_scope s then RiskApproved else RiskRequested), ra_reviewed_by := None,
        ra_reviewed_at := (if is_single_team_scope s then Some (db_now db) else None)\<rparr>"
    and fl: "flush_ra ra' db = Inr db1"
    and a: "announce_ra sx u ra' [] (log_auto u (is_single_team_scope s) ra'
        (log_ra u ''risk_acceptance_updated'' ra' db1)) = Inr db'"
    unfolding update_risk_acceptance_def handler_Inr by fastforce
  have "active (ra_status ra')" by (simp add: ra' active_def)
  with fl have f: "db1 = put_ra ra' db" "\<forall>x \<in> set (ras db). active (ra_status x) \<longrightarrow> same_target x ra' \<longrightarrow> ra_id x = ra_id ra'"
    by (auto simp: flush_ra_Inr)
  with s load_ra_Inr [OF l] announce_ra.unchanged2(2) [OF a] announce_ra.grows2 [OF a] show ?thesis
    by (intro exI [of _ ra] exI [of _ s]) (simp add: ra')
qed

lemma review_ra_Inr:
  assumes "review_risk_acceptance ve sx u i ap c db = Inr (db', ra', ms)"
  shows "\<exists>ra. ra \<in> set (ras db) \<and> ra_id ra = i \<and> is_sec_team u \<and> ra_status ra = RiskRequested \<and>
    ra' = ra\<lparr>ra_status := (if ap then RiskApproved else RiskRejected), ra_reviewed_by := Some (cu_id u),
      ra_reviewed_at := Some (db_now db)\<rparr> \<and> ras db' = ras (put_ra ra' db) \<and> next_id db \<le> next_id db'"
proof -
  from assms obtain ra db1 db2 where l: "load_ra i db = Inr ra" and s: "is_sec_team u" "ra_status ra = RiskRequested"
    and ra': "ra' = ra\<lparr>ra_status := (if ap then RiskApproved else RiskRejected), ra_reviewed_by := Some (cu_id u),
      ra_reviewed_at := Some (db_now db)\<rparr>"
    and fl: "flush_ra ra' db = Inr db1"
    and n: "notify_risk_status_change ra' (log_action (cu_id u) ''risk_acceptance_reviewed'' ''risk_acceptance''
        (id_str (ra_id ra')) [(''status'', Some (risk_status_value (ra_status ra')))]
        (review_comment u (ra_id ra') c db1)) = Inr db2"
    and a: "announce_ra sx u ra' [ra_created_by ra'] db2 = Inr db'"
    by (auto simp: review_risk_acceptance_def Let_def rbind_Inr_iff split: if_splits)
  have "db1 = put_ra ra' db" using fl by (simp add: flush_ra_Inr)
  moreover have "ras db2 = ras db1" using risk_status.unchanged(2) [OF n] by simp
  moreover have "next_id (review_comment u (ra_id ra') c db1) \<le> next_id db2" using risk_status.grows [OF n] by simp
  then have "next_id db1 \<le> next_id db2" by (rule order.trans [OF review_comment_simps(2)])
  ultimately show ?thesis
    using s load_ra_Inr [OF l] announce_ra.unchanged2(2) [OF a] announce_ra.grows2 [OF a]
    by (intro exI [of _ ra]) (simp add: ra')
qed

lemma assign_Inr:
  assumes "assign_reviewer u i uid db = Inr (db', ra')"
  shows "\<exists>ra. ra \<in> set (ras db) \<and> ra_id ra = i \<and> is_sec_team u \<and> ra_status ra = RiskRequested \<and>
    ra' = ra\<lparr>ra_assigned_to := Some uid\<rparr> \<and> ras db' = ras (put_ra ra' db) \<and> next_id db \<le> next_id db'"
proof -
  from assms obtain ra and t :: user where l: "load_ra i db = Inr ra" and s: "is_sec_team u" "ra_status ra = RiskRequested"
    and ra': "ra' = ra\<lparr>ra_assigned_to := Some uid\<rparr>"
    and c: "create_notification uid NRiskComment ''risk_reviewer_assigned''
        [(''cve_id'', ra_cve ra), (''actor'', cu_display_name u)] (Some (ra_link ra)) None
        (log_action (cu_id u) ''risk_acceptance_assigned'' ''risk_acceptance'' (id_str (ra_id ra))
          [(''assigned_to_id'', Some (user_id t))] (put_ra ra' db)) = Inr db'"
    unfolding assign_reviewer_def handler_Inr by auto
  from s load_ra_Inr [OF l] create.unchanged(2) [OF c] create.grows [OF c] show ?thesis
    by (intro exI [of _ ra]) (simp add: ra')
qed

lemma cancel_Inr:
  assumes "cancel_risk_acceptance sx u i db = Inr db'"
  shows "ras db' = filter (\<lambda>x. ra_id x \<noteq> i) (ras db) \<and> next_id db \<le> next_id db' \<and>
    (\<exists>ra \<in> set (ras db). ra_id ra = i \<and> (is_sec_team u \<or> ra_created_by ra = cu_id u))"
proof -
  from assms obtain ra db1 where l: "load_ra i db = Inr ra" and s: "is_sec_team u \<or> ra_created_by ra = cu_id u"
    and b: "broadcast_subscription_event (Some sx) (ra_cve ra) ''risk_acceptance'' [(''status'', ''deleted'')]
        (Some (cve_link (ra_cve ra))) (Some (cu_id u)) [] (risk_acceptance_scope_pairs (ra_scope ra))
        (log_ra u ''risk_acceptance_deleted'' ra db) = Inr db1"
    and db': "ras db' = filter (\<lambda>x. ra_id x \<noteq> ra_id ra) (ras db1)" "next_id db' = next_id db1"
    by (auto simp: cancel_risk_acceptance_def rbind_Inr_iff split: if_splits)
  from s load_ra_Inr [OF l] broadcast.unchanged2(2) [OF b] broadcast.grows2 [OF b] db' show ?thesis by auto
qed

lemma expire_one_frame:
  "expire_one sx ra db = Inr db' \<Longrightarrow>
     ras db' = ras (put_ra (ra\<lparr>ra_status := RiskExpired\<rparr>) db) \<and> next_id db \<le> next_id db' \<and> db_now db' = db_now db"
  by (auto simp: expire_one_def Let_def dest: broadcast.unchanged2 broadcast.grows2)

interpretation expire: row_loop ras ra_id "\<lambda>r. r\<lparr>ra_status := RiskExpired\<rparr>" "expire_one sx" "\<lambda>db. db_now db = now"
  for sx now
proof
  fix db r db'
  assume "db_now db = now" and d: "distinct (map ra_id (ras db))" and r: "r \<in> set (ras db)"
    and "expire_one sx r db = Inr db'"
  note f = expire_one_frame [OF this(4)] \<open>db_now db = now\<close>
  have "ra_id x = ra_id r \<longleftrightarrow> x = r" if "x \<in> set (ras db)" for x
    using d r that by (auto simp: distinct_map dest: inj_onD)
  with f show "ras db' = map (\<lambda>x. if x = r then r\<lparr>ra_status := RiskExpired\<rparr> else x) (ras db) \<and>
      db_now db' = now \<and> next_id db \<le> next_id db'" by (simp add: put_ra_def)
qed simp

lemma run_expiry_check_Inr:
  assumes "run_expiry_check sx db = Inr db'" and d: "distinct (map ra_id (ras db))"
  shows "ras db' = map (\<lambda>r. if past_expiry (db_now db) r then r\<lparr>ra_status := RiskExpired\<rparr> else r) (ras db) \<and>
    db_now db' = db_now db \<and> next_id db \<le> next_id db'"
proof -
  have "distinct (ras db)" using d by (simp add: distinct_map)
  then have "ras db' = map (\<lambda>r. if r \<in> set (filter (past_expiry (db_now db)) (ras db)) then r\<lparr>ra_status := RiskExpired\<rparr> else r) (ras db) \<and>
      db_now db' = db_now db \<and> next_id db \<le> next_id db'"
    using expire.loop [OF assms(1) [unfolded run_expiry_check_def] refl d] by simp
  then show ?thesis by (auto intro!: map_cong)
qed

text \<open>One committed request or job on the table; no other component writes it.\<close>

inductive ra_step :: "(string \<Rightarrow> string) \<Rightarrow> app_db \<Rightarrow> app_db \<Rightarrow> bool" for md5 where
  create: "create_risk_acceptance md5 sx u cve b db = Inr (db', ra) \<Longrightarrow> ra_step md5 db db'"
| update: "update_risk_acceptance md5 sx u i b db = Inr (db', ra) \<Longrightarrow> ra_step md5 db db'"
| review: "review_risk_acceptance ve sx u i ap c db = Inr (db', ra, ms) \<Longrightarrow> ra_step md5 db db'"
| assign: "assign_reviewer u i uid db = Inr (db', ra) \<Longrightarrow> ra_step md5 db db'"
| cancel: "cancel_risk_acceptance sx u i db = Inr db' \<Longrightarrow> ra_step md5 db db'"
| expire: "run_expiry_check sx db = Inr db' \<Longrightarrow> ra_step md5 db db'"

inductive ra_reachable :: "(string \<Rightarrow> string) \<Rightarrow> app_db \<Rightarrow> bool" for md5 where
  start: "ras db = [] \<Longrightarrow> ra_reachable md5 db"
| step: "ra_reachable md5 db \<Longrightarrow> ra_step md5 db db' \<Longrightarrow> ra_reachable md5 db'"
| elsewhere: "ra_reachable md5 db \<Longrightarrow> ras db' = ras db \<Longrightarrow> next_id db \<le> next_id db' \<Longrightarrow> ra_reachable md5 db'"

lemma fresh_ra_ok:
  assumes "risk_scope_ok s" and "ra_scope r = dump_scope s" and "ra_scope_key r = scope_key md5 s"
    and "ra_status r = (if is_single_team_scope s then RiskApproved else RiskRequested)" and "ra_reviewed_by r = None"
    and "ra_reviewed_at r = (if is_single_team_scope s then Some t else None)"
  shows "ra_ok md5 r"
  unfolding ra_ok_def using assms by (intro exI [of _ s]) simp

lemma ra_step_ok: "ra_step md5 db db' \<Longrightarrow> ras_ok md5 db \<Longrightarrow> ras_ok md5 db'"
proof (induction rule: ra_step.induct)
  case (create sx u cve b db db' ra)
  from create_ra_Inr [OF create(1)] obtain s where s:
    "validate_and_resolve_scope (rab_scope b) (get_affected_deployments sx cve (effective_namespaces sx u)) = Inr s"
    "ra_scope ra = dump_scope s" "ra_scope_key ra = scope_key md5 s" "ra_reviewed_by ra = None"
    "ra_status ra = (if is_single_team_scope s then RiskApproved else RiskRequested)"
    "ra_reviewed_at ra = (if is_single_team_scope s then Some (db_now db) else None)"
    and r: "ra_id ra = next_id db" "next_id db < next_id db'" "ras db' = ras db @ [ra]"
    "\<forall>x \<in> set (ras db). active (ra_status x) \<longrightarrow> \<not> same_target x ra" by blast
  have ok: "ra_ok md5 ra" by (rule fresh_ra_ok [OF resolved_ok [OF s(1)] s(2,3,5,4,6)])
  show ?case
    unfolding ras_ok_def r(3)
    by (rule table_ok_insert [OF create(2) [unfolded ras_ok_def] _ _ ok]) (use r in \<open>auto simp: same_target_def\<close>)
next
  case (update sx u i b db db' ra)
  from update_ra_Inr [OF update(1)] obtain ra0 s where s: "ra0 \<in> set (ras db)"
    "validate_and_resolve_scope (rab_scope b) (get_affected_deployments sx (ra_cve ra0) (effective_namespaces sx u)) = Inr s"
    "ra_scope ra = dump_scope s" "ra_scope_key ra = scope_key md5 s" "ra_reviewed_by ra = None"
    "ra_status ra = (if is_single_team_scope s then RiskApproved else RiskRequested)"
    "ra_reviewed_at ra = (if is_single_team_scope s then Some (db_now db) else None)"
    and r: "ra_id ra = ra_id ra0" "next_id db \<le> next_id db'" "ras db' = ras (put_ra ra db)"
    "\<forall>x \<in> set (ras db). active (ra_status x) \<longrightarrow> same_target x ra \<longrightarrow> ra_id x = ra_id ra" by blast
  have ok: "ra_ok md5 ra" by (rule fresh_ra_ok [OF resolved_ok [OF s(2)] s(3,4,6,5,7)])
  show ?case using put_ra_ok [OF update(2) s(1) r(1) ok _ r(3,2)] r(4) by blast
next
  case (review ve sx u i ap c db db' ra ms)
  from review_ra_Inr [OF review(1)] obtain ra0 where r: "ra0 \<in> set (ras db)" "ra_status ra0 = RiskRequested"
    "ra = ra0\<lparr>ra_status := (if ap then RiskApproved else RiskRejected), ra_reviewed_by := Some (cu_id u),
      ra_reviewed_at := Some (db_now db)\<rparr>" "ras db' = ras (put_ra ra db)" "next_id db \<le> next_id db'" by blast
  have "ra_ok md5 ra0" using table_okD(2) [OF review(2) [unfolded ras_ok_def] r(1)] .
  then have ok: "ra_ok md5 ra" unfolding r(3) ra_ok_def by auto
  show ?case
    by (rule put_ra_ok [OF review(2) r(1) _ ok _ r(4,5)])
      (use table_okD(4) [OF review(2) [unfolded ras_ok_def] _ r(1)] r(2,3) in \<open>auto simp: same_target_def active_def\<close>)
next
  case (assign u i uid db db' ra)
  from assign_Inr [OF assign(1)] obtain ra0 where r: "ra0 \<in> set (ras db)" "ra_status ra0 = RiskRequested"
    "ra = ra0\<lparr>ra_assigned_to := Some uid\<rparr>" "ras db' = ras (put_ra ra db)" "next_id db \<le> next_id db'" by blast
  have "ra_ok md5 ra0" using table_okD(2) [OF assign(2) [unfolded ras_ok_def] r(1)] .
  then have ok: "ra_ok md5 ra" unfolding r(3) ra_ok_def using r(2) by simp
  show ?case
    by (rule put_ra_ok [OF assign(2) r(1) _ ok _ r(4,5)])
      (use table_okD(4) [OF assign(2) [unfolded ras_ok_def] _ r(1)] r(2,3) in \<open>auto simp: same_target_def active_def\<close>)
next
  case (cancel sx u i db db')
  from cancel_Inr [OF cancel(1)] cancel(2) show ?case
    unfolding ras_ok_def by (auto intro: table_ok_filter table_ok_mono)
next
  case (expire sx db db')
  note ok = expire(2) [unfolded ras_ok_def]
  note run = run_expiry_check_Inr [OF expire(1) table_okD(1) [OF ok]]
  have "ra_ok md5 (if past_expiry (db_now db) x then x\<lparr>ra_status := RiskExpired\<rparr> else x)" if "x \<in> set (ras db)" for x
    using table_okD(2) [OF ok that] by (auto simp: ra_ok_def past_expiry_def)
  then show ?case
    unfolding ras_ok_def run [THEN conjunct1]
    by (intro table_ok_map [OF ok]) (use run table_okD(4) [OF ok] in \<open>auto simp: active_def split: if_splits\<close>)
qed

lemma reachable_ras_ok: "ra_reachable md5 db \<Longrightarrow> ras_ok md5 db"
proof (induction rule: ra_reachable.induct)
  case (elsewhere db db')
  then show ?case by (auto simp: ras_ok_def intro: table_ok_mono)
qed (simp_all add: ra_step_ok, simp add: ras_ok_def)

section \<open>Properties\<close>

definition ex_body :: ra_body where
  "ex_body = \<lparr>rab_justification = ''planned'', rab_scope = \<lparr>rs_mode = ModeAll, rs_targets = []\<rparr>, rab_expires_at = None\<rparr>"

lemma ex_affected: "get_affected_deployments ex_sx ''CVE-2024-1'' (effective_namespaces ex_sx ex_member) \<noteq> []"
proof -
  have "\<exists>a \<in> set (get_affected_deployments ex_sx ''CVE-2024-1'' [(''shop'', ''c1'')]). (af_namespace a, af_cluster a) = (''shop'', ''c1'')"
    unfolding affected_iff by (simp add: joined_ex)
  then show ?thesis by (auto simp: effective_namespaces_def)
qed

lemma ex_scope: "validate_and_resolve_scope (rab_scope ex_body) ds = Inr \<lparr>rs_mode = ModeAll, rs_targets = []\<rparr>"
  by (simp add: validate_and_resolve_scope_def ex_body_def mk_scope_Inr_iff risk_scope_ok_def)

lemma ex_create: "\<exists>db' ra. create_risk_acceptance md5 ex_sx ex_member ''CVE-2024-1'' ex_body ex_db = Inr (db', ra)"
  using announce_ra_total ex_affected
  by (simp add: create_risk_acceptance_def ex_scope Let_def active_ras_def fresh_id_def) (metis rbind_simps(2))



text \<open>C40: A creator who submits an approved or rejected acceptance again without changing its scope gets an
  unhandled integrity error, not the answer 409, when another acceptance for the same CVE and scope is in force
  by then: the duplicate check of the update is skipped where the scope key stays the same.\<close>

theorem resubmit_same_scope_conflict:
  assumes "load_ra i db = Inr ra" and "\<not> is_sec_team u" and "ra_created_by ra = cu_id u"
    and "ra_status ra \<in> {RiskApproved, RiskRejected}" and "has_namespaces u"
    and "get_affected_deployments sx (ra_cve ra) (effective_namespaces sx u) \<noteq> []"
    and "validate_and_resolve_scope (rab_scope b)
      (get_affected_deployments sx (ra_cve ra) (effective_namespaces sx u)) = Inr s"
    and "scope_key md5 s = ra_scope_key ra"
    and "x \<in> set (ras db)" and "ra_id x \<noteq> ra_id ra" and "active (ra_status x)" and "same_target x ra"
  shows "update_risk_acceptance md5 sx u i b db = Inl (ServerError ''IntegrityError'')"
proof -
  have "flush_ra (ra\<lparr>ra_justification := j, ra_scope := d, ra_scope_key := ra_scope_key ra, ra_expires_at := e,
      ra_status := st, ra_reviewed_by := None, ra_reviewed_at := t\<rparr>) db = Inl (ServerError ''IntegrityError'')"
    if "active st" for j d e st t
    using that assms(9-12) by (auto simp: flush_ra_def active_ras_def list_ex_iff same_target_def)
  moreover have "active (if is_single_team_scope s then RiskApproved else RiskRequested)" by (simp add: active_def)
  ultimately show ?thesis
    using assms(1-8) by (simp add: update_risk_acceptance_def Let_def del: if_weak_cong)
qed

definition ex_ra :: "nat \<Rightarrow> risk_status \<Rightarrow> string \<Rightarrow> risk_acceptance" where
  "ex_ra i st uid = \<lparr>ra_id = i, ra_cve = ''CVE-2024-1'', ra_status = st, ra_justification = ''planned'',
     ra_scope = dump_scope \<lparr>rs_mode = ModeAll, rs_targets = []\<rparr>,
     ra_scope_key = scope_key id \<lparr>rs_mode = ModeAll, rs_targets = []\<rparr>, ra_expires_at = Some 0, ra_created_at = 0,
     ra_created_by = uid, ra_reviewed_by = Some ''s1'', ra_reviewed_at = Some 0, ra_assigned_to = None\<rparr>"

theorem resubmit_same_scope_conflict_witness:
  "update_risk_acceptance id ex_sx ex_member 1 ex_body
     (ex_db\<lparr>ras := [ex_ra 1 RiskRejected ''u1'', ex_ra 2 RiskApproved ''u2'']\<rparr>) = Inl (ServerError ''IntegrityError'')"
proof (rule resubmit_same_scope_conflict [of _ _ "ex_ra 1 RiskRejected ''u1''" _ _ _ _ _ "ex_ra 2 RiskApproved ''u2''"])
  show "load_ra 1 (ex_db\<lparr>ras := [ex_ra 1 RiskRejected ''u1'', ex_ra 2 RiskApproved ''u2'']\<rparr>) = Inr (ex_ra 1 RiskRejected ''u1'')"
    by (simp add: load_ra_def ex_ra_def)
  show "get_affected_deployments ex_sx (ra_cve (ex_ra 1 RiskRejected ''u1'')) (effective_namespaces ex_sx ex_member) \<noteq> []"
    using ex_affected by (simp add: ex_ra_def)
  show "validate_and_resolve_scope (rab_scope ex_body) (get_affected_deployments ex_sx
      (ra_cve (ex_ra 1 RiskRejected ''u1'')) (effective_namespaces ex_sx ex_member)) = Inr \<lparr>rs_mode = ModeAll, rs_targets = []\<rparr>"
    by (rule ex_scope)
qed (simp_all add: ex_ra_def ex_member_def is_sec_team_def has_namespaces_def active_def same_target_def)

text \<open>The expiry job always succeeds; it turns exactly the approved acceptances whose expiry lies before the
  clock into expired ones and changes no other field and no other row; and running it again at the same time
  changes nothing more.\<close>

theorem expiry_exact:
  assumes "distinct (map ra_id (ras db))"
  shows "\<exists>db'. run_expiry_check sx db = Inr db' \<and>
    ras db' = map (\<lambda>r. if ra_status r = RiskApproved \<and> (\<exists>e. ra_expires_at r = Some e \<and> e < db_now db)
      then r\<lparr>ra_status := RiskExpired\<rparr> else r) (ras db) \<and>
    (\<forall>db''. run_expiry_check sx db' = Inr db'' \<longrightarrow> ras db'' = ras db')"
proof -
  have "\<exists>d'. expire_one sx r d = Inr d'" for r d
    unfolding expire_one_def Let_def by (rule broadcast_total) (simp add: message_keys_def)
  then obtain db' where 1: "run_expiry_check sx db = Inr db'"
    using notify_all_total [of _ "expire_one sx"] unfolding run_expiry_check_def by blast
  note 2 = run_expiry_check_Inr [OF 1 assms]
  have p: "past_expiry t r \<longleftrightarrow> ra_status r = RiskApproved \<and> (\<exists>e. ra_expires_at r = Some e \<and> e < t)" for t r
    by (cases "ra_expires_at r") (simp_all add: past_expiry_def)
  have ids: "map ra_id (ras db') = map ra_id (ras db)" using 2 by simp
  have "ras db'' = ras db'" if "run_expiry_check sx db' = Inr db''" for db''
  proof -
    have d: "distinct (map ra_id (ras db'))" unfolding ids by (rule assms)
    have "\<not> past_expiry (db_now db) r" if "r \<in> set (ras db')" for r
      using that 2 by (auto simp: past_expiry_def split: if_splits)
    then have "map (\<lambda>r. if past_expiry (db_now db) r then r\<lparr>ra_status := RiskExpired\<rparr> else r) (ras db') = ras db'"
      by (intro map_idI) simp
    with run_expiry_check_Inr [OF that d] 2 show ?thesis by metis
  qed
  with 1 2 show ?thesis unfolding p by blast
qed

theorem expiry_exact_witness:
  "\<exists>db'. run_expiry_check ex_sx (ex_db\<lparr>ras := [ex_ra 1 RiskApproved ''u1'', ex_ra 2 RiskRejected ''u1''], db_now := 1\<rparr>)
      = Inr db' \<and> map ra_status (ras db') = [RiskExpired, RiskRejected]"
  using expiry_exact [of "ex_db\<lparr>ras := [ex_ra 1 RiskApproved ''u1'', ex_ra 2 RiskRejected ''u1''], db_now := 1\<rparr>" ex_sx]
  by (auto simp: ex_ra_def)

end
