(* ===== verification/Escalations.thy ===== *)
theory Escalations
  imports EscalationRules Comments
begin

text \<open>
  The escalation jobs \<open>run_escalation_check\<close> and \<open>run_escalation_warning\<close> of \<open>app/tasks/scheduler.py\<close>.
  A location escalates at the highest level that is due under the strictest rule; a warning announces the
  next level. \<open>sends\<close> says which mails the mail server takes; the check ignores a failure, the warning
  retries on the next run. The rendered mails are reduced to recipient, location and level.
\<close>

section \<open>The check\<close>

definition esc_key :: "escalation \<Rightarrow> string \<times> int \<times> string \<times> string" where
  "esc_key e = (esc_cve e, esc_level e, esc_namespace e, esc_cluster e)"

text \<open>The insert in a savepoint: a row with the same key makes it a no-op.\<close>

definition insert_escalation :: "string \<Rightarrow> string \<Rightarrow> string \<Rightarrow> int \<Rightarrow> app_db \<Rightarrow> (app_db \<times> nat) option" where
  "insert_escalation cve ns cl lvl db =
     (if (cve, lvl, ns, cl) \<in> esc_key ` set (escs db) then None
      else let (i, db1) = fresh_id db in
        Some (db1\<lparr>escs := escs db1 @ [\<lparr>esc_id = i, esc_cve = cve, esc_namespace = ns, esc_cluster = cl,
          esc_level = lvl, esc_triggered_at = db_now db, esc_notified = False\<rparr>]\<rparr>, i))"

definition mark_notified :: "nat \<Rightarrow> app_db \<Rightarrow> app_db" where
  "mark_notified i db = db\<lparr>escs := map (\<lambda>e. if esc_id e = i then e\<lparr>esc_notified := True\<rparr> else e) (escs db)\<rparr>"

definition triggered_level :: "esc_rule list \<Rightarrow> datetime \<Rightarrow> loc_row \<Rightarrow> int option" where
  "triggered_level rs now row =
     (case pick_matching_rule rs (lr_severity row) (lr_epss row) of None \<Rightarrow> None
      | Some r \<Rightarrow>
          (case map fst (filter (\<lambda>(l, d). d \<le> now) (level_deadlines r (lr_first_seen row) (lr_fix_since row))) of
             [] \<Rightarrow> None | l # ls \<Rightarrow> Some (max_by id l ls)))"

text \<open>The contact of the namespace, else the default address, else the management.\<close>

definition escalation_recipient :: "config \<Rightarrow> string \<Rightarrow> string \<Rightarrow> app_db \<Rightarrow> string option result" where
  "escalation_recipient cf ns cl db =
     rbind (scalar_one_or_none (filter (\<lambda>c. nc_namespace c = ns \<and> nc_cluster c = cl) (contacts db))) (\<lambda>c.
       Inr (case c of Some c \<Rightarrow> Some (nc_email c)
            | None \<Rightarrow> if cf_default_escalation_email cf \<noteq> [] then Some (cf_default_escalation_email cf)
                else if cf_management_email cf \<noteq> [] then Some (cf_management_email cf) else None))"

definition escalate_row :: "config \<Rightarrow> esc_rule list \<Rightarrow> loc_row \<Rightarrow> app_db \<Rightarrow> (app_db \<times> mail list) result" where
  "escalate_row cf rs row db =
     (case triggered_level rs (db_now db) row of None \<Rightarrow> Inr (db, [])
      | Some lvl \<Rightarrow>
          let cve = lr_cve row; ns = lr_namespace row; cl = lr_cluster row in
          rbind (scalar_one_or_none (filter (\<lambda>e. esc_key e = (cve, lvl, ns, cl)) (escs db))) (\<lambda>existing.
            if existing \<noteq> None then Inr (db, [])
            else case insert_escalation cve ns cl lvl db of None \<Rightarrow> Inr (db, [])
              | Some (db1, i) \<Rightarrow>
                  rbind (notify_escalation cve ns cl lvl db1) (\<lambda>db2.
                  rbind (broadcast_subscription_event None cve ''escalation'' [(''level'', int_str lvl)] None None []
                      (Some [(ns, cl)]) db2) (\<lambda>db3.
                  rbind (escalation_recipient cf ns cl db3) (\<lambda>to.
                    Inr (mark_notified i db3,
                      if truthy to then [MailEscalation (the to) cve ns cl lvl] else []))))))"

text \<open>A loop over rows that collects the mails.\<close>

fun visit_rows :: "('r \<Rightarrow> app_db \<Rightarrow> (app_db \<times> mail list) result) \<Rightarrow> 'r list \<Rightarrow> app_db \<Rightarrow> (app_db \<times> mail list) result" where
  "visit_rows f [] db = Inr (db, [])"
| "visit_rows f (r # rs) db =
     rbind (f r db) (\<lambda>(db1, ms). rbind (visit_rows f rs db1) (\<lambda>(db2, ns). Inr (db2, ms @ ns)))"

text \<open>The rows above the thresholds, and those of them that may escalate.\<close>

definition escalation_rows :: "stackrox \<Rightarrow> global_settings \<Rightarrow> app_db \<Rightarrow> loc_row list" where
  "escalation_rows sx s db =
     get_cves_by_namespace_detail sx (list_namespaces sx) (gs_min_cvss s) (gs_min_epss s) (always_show_open db)"

definition escalation_candidates :: "stackrox \<Rightarrow> global_settings \<Rightarrow> app_db \<Rightarrow> loc_row list" where
  "escalation_candidates sx s db =
     (let (cve_rules, comp_rules) = load_approved_suppression_rules db in
      escalation_candidate_rows (escalation_rows sx s db) (accepted_ids db) cve_rules comp_rules)"

definition kept_cves :: "stackrox \<Rightarrow> global_settings \<Rightarrow> app_db \<Rightarrow> string set" where
  "kept_cves sx s db = lr_cve ` set (escalation_rows sx s db) \<union> always_show_open db \<union> accepted_ids db"

text \<open>Deleting an escalation unlinks its comments (\<open>ON DELETE SET NULL\<close>).\<close>

definition drop_stale_escalations :: "string set \<Rightarrow> app_db \<Rightarrow> app_db" where
  "drop_stale_escalations keep db =
     (let stale = map esc_id (filter (\<lambda>e. esc_cve e \<notin> keep) (escs db)) in
      db\<lparr>escs := filter (\<lambda>e. esc_id e \<notin> set stale) (escs db),
         cve_comments := map (\<lambda>c. case cc_escalation c of None \<Rightarrow> c
           | Some i \<Rightarrow> if i \<in> set stale then c\<lparr>cc_escalation := None\<rparr> else c) (cve_comments db)\<rparr>)"

definition run_escalation_check :: "config \<Rightarrow> stackrox \<Rightarrow> app_db \<Rightarrow> (app_db \<times> mail list) result" where
  "run_escalation_check cf sx db =
     (case gsettings db of None \<Rightarrow> Inr (db, [])
      | Some s \<Rightarrow>
          if gs_rules s = [] \<or> list_namespaces sx = [] then Inr (db, [])
          else rbind (visit_rows (escalate_row cf (gs_rules s)) (escalation_candidates sx s db) db) (\<lambda>(db1, ms).
            Inr (drop_stale_escalations (kept_cves sx s db) db1, ms)))"

section \<open>The warning\<close>

definition ew_key :: "esc_warning \<Rightarrow> string \<times> int \<times> string \<times> string" where
  "ew_key w = (ew_cve w, ew_level w, ew_namespace w, ew_cluster w)"

text \<open>The smallest level that is not yet due, with the whole days until it is.\<close>

fun first_not_due :: "datetime \<Rightarrow> (int \<times> datetime) list \<Rightarrow> (int \<times> int) option" where
  "first_not_due now [] = None"
| "first_not_due now ((l, d) # rest) =
     (if days_of (d - now) \<le> 0 then first_not_due now rest else Some (l, days_of (d - now)))"

definition warned_level :: "esc_rule list \<Rightarrow> int \<Rightarrow> datetime \<Rightarrow> loc_row \<Rightarrow> (int \<times> int) option" where
  "warned_level rs warning_days now row =
     (case pick_matching_rule rs (lr_severity row) (lr_epss row) of None \<Rightarrow> None
      | Some r \<Rightarrow>
          (case first_not_due now (sort_key fst (level_deadlines r (lr_first_seen row) (lr_fix_since row))) of
             None \<Rightarrow> None
           | Some (l, days) \<Rightarrow> if 0 < days \<and> days \<le> warning_days then Some (l, days) else None))"

definition add_warning :: "string \<Rightarrow> string \<Rightarrow> string \<Rightarrow> int \<Rightarrow> app_db \<Rightarrow> app_db" where
  "add_warning cve ns cl lvl db =
     (let (i, db1) = fresh_id db in
      db1\<lparr>warnings := warnings db1 @ [\<lparr>ew_id = i, ew_cve = cve, ew_namespace = ns, ew_cluster = cl, ew_level = lvl\<rparr>]\<rparr>)"

definition warn_row ::
    "config \<Rightarrow> (mail \<Rightarrow> bool) \<Rightarrow> global_settings \<Rightarrow> loc_row \<Rightarrow> app_db \<Rightarrow> (app_db \<times> mail list) result" where
  "warn_row cf sends s row db =
     (case warned_level (gs_rules s) (gs_warning_days s) (db_now db) row of None \<Rightarrow> Inr (db, [])
      | Some (lvl, days) \<Rightarrow>
          let cve = lr_cve row; ns = lr_namespace row; cl = lr_cluster row in
          rbind (scalar_one_or_none (filter (\<lambda>e. esc_key e = (cve, lvl, ns, cl)) (escs db))) (\<lambda>escalated.
            if escalated \<noteq> None then Inr (db, [])
            else rbind (scalar_one_or_none (filter (\<lambda>w. ew_key w = (cve, lvl, ns, cl)) (warnings db))) (\<lambda>warned.
              if warned \<noteq> None then Inr (db, [])
              else rbind (escalation_recipient cf ns cl db) (\<lambda>to.
                let m = MailEscalationWarning (the to) cve ns cl lvl days in
                if truthy to then (if sends m then Inr (add_warning cve ns cl lvl db, [m]) else Inr (db, []))
                else Inr (add_warning cve ns cl lvl db, [])))))"

definition drop_stale_warnings :: "string set \<Rightarrow> app_db \<Rightarrow> app_db" where
  "drop_stale_warnings keep db = db\<lparr>warnings := filter (\<lambda>w. ew_cve w \<in> keep) (warnings db)\<rparr>"

definition run_escalation_warning ::
    "config \<Rightarrow> (mail \<Rightarrow> bool) \<Rightarrow> stackrox \<Rightarrow> app_db \<Rightarrow> (app_db \<times> mail list) result" where
  "run_escalation_warning cf sends sx db =
     (case gsettings db of None \<Rightarrow> Inr (db, [])
      | Some s \<Rightarrow>
          if gs_rules s = [] \<or> list_namespaces sx = [] then Inr (db, [])
          else rbind (visit_rows (warn_row cf sends s) (escalation_candidates sx s db) db) (\<lambda>(db1, ms).
            Inr (drop_stale_warnings (kept_cves sx s db) db1, ms)))"

section \<open>Which level is due\<close>

lemma triggered_level_iff:
  "triggered_level rs now row = Some l \<longleftrightarrow>
     (\<exists>r d. pick_matching_rule rs (lr_severity row) (lr_epss row) = Some r \<and>
        (l, d) \<in> set (level_deadlines r (lr_first_seen row) (lr_fix_since row)) \<and> d \<le> now \<and>
        (\<forall>l' d'. (l', d') \<in> set (level_deadlines r (lr_first_seen row) (lr_fix_since row)) \<longrightarrow> d' \<le> now \<longrightarrow> l' \<le> l))"
proof (cases "pick_matching_rule rs (lr_severity row) (lr_epss row)")
  case None
  then show ?thesis by (simp add: triggered_level_def)
next
  case (Some r)
  let ?D = "level_deadlines r (lr_first_seen row) (lr_fix_since row)"
  define ls where "ls = map fst (filter (\<lambda>(l, d). d \<le> now) ?D)"
  have t: "triggered_level rs now row = (case ls of [] \<Rightarrow> None | l # ls \<Rightarrow> Some (max_by id l ls))"
    using Some by (simp add: triggered_level_def ls_def)
  have mem: "x \<in> set ls \<longleftrightarrow> (\<exists>d. (x, d) \<in> set ?D \<and> d \<le> now)" for x by (force simp: ls_def)
  have "triggered_level rs now row = Some l \<longleftrightarrow> l \<in> set ls \<and> (\<forall>x \<in> set ls. x \<le> l)"
  proof (cases ls)
    case Nil
    then show ?thesis by (simp add: t)
  next
    case (Cons y ys)
    have m: "max_by id y ys \<in> set ls" "\<forall>x \<in> set ls. x \<le> max_by id y ys"
      using max_by_in [of id y ys] max_by_ge [of _ y ys id] by (auto simp: Cons)
    then show ?thesis by (auto simp: t Cons intro: antisym)
  qed
  then show ?thesis unfolding Ball_def mem using Some by auto
qed

lemma triggered_level_None_iff:
  "triggered_level rs now row = None \<longleftrightarrow>
     (\<forall>r l d. pick_matching_rule rs (lr_severity row) (lr_epss row) = Some r \<longrightarrow>
        (l, d) \<in> set (level_deadlines r (lr_first_seen row) (lr_fix_since row)) \<longrightarrow> now < d)"
proof (cases "pick_matching_rule rs (lr_severity row) (lr_epss row)")
  case (Some r)
  have "triggered_level rs now row = None \<longleftrightarrow>
      filter (\<lambda>(l, d). d \<le> now) (level_deadlines r (lr_first_seen row) (lr_fix_since row)) = []"
    by (auto simp: triggered_level_def Some split: list.split)
  then show ?thesis by (force simp: Some filter_empty_conv not_le)
qed (simp add: triggered_level_def)

lemma first_not_due_Some:
  "first_not_due now ds = Some (l, n) \<Longrightarrow> \<exists>d. (l, d) \<in> set ds \<and> n = days_of (d - now) \<and> 0 < n"
  by (induction now ds rule: first_not_due.induct) (auto split: if_splits)

lemma warned_level_Some:
  assumes "warned_level rs w now row = Some (l, n)"
  shows "\<exists>r d. pick_matching_rule rs (lr_severity row) (lr_epss row) = Some r \<and>
    (l, d) \<in> set (level_deadlines r (lr_first_seen row) (lr_fix_since row)) \<and> n = days_of (d - now) \<and> 0 < n \<and> n \<le> w"
proof -
  from assms obtain r where r: "pick_matching_rule rs (lr_severity row) (lr_epss row) = Some r"
    and f: "first_not_due now (sort_key fst (level_deadlines r (lr_first_seen row) (lr_fix_since row))) = Some (l, n)"
    and n: "n \<le> w"
    by (auto simp: warned_level_def split: option.splits if_splits)
  from first_not_due_Some [OF f] r n show ?thesis by auto
qed

section \<open>What one row changes\<close>

definition escs_ok :: "app_db \<Rightarrow> bool" where
  "escs_ok db \<longleftrightarrow> distinct (map esc_id (escs db)) \<and> (\<forall>e \<in> set (escs db). esc_id e < next_id db) \<and>
     distinct (map esc_key (escs db))"

text \<open>Escalating changes only the escalations, the notifications and the event log.\<close>

definition esc_frame :: "app_db \<Rightarrow> app_db \<Rightarrow> bool" where
  "esc_frame db db' \<longleftrightarrow> core2 (db\<lparr>escs := []\<rparr>) = core2 (db'\<lparr>escs := []\<rparr>) \<and> next_id db \<le> next_id db'"

lemma esc_frame_refl [simp]: "esc_frame db db"
  by (simp add: esc_frame_def)

lemma esc_frame_trans: "esc_frame a b \<Longrightarrow> esc_frame b c \<Longrightarrow> esc_frame a c"
  by (auto simp: esc_frame_def)

lemma esc_frameD:
  assumes "esc_frame db db'"
  shows "ras db' = ras db" "prios db' = prios db" "rules db' = rules db" "contacts db' = contacts db"
    "gsettings db' = gsettings db" "db_now db' = db_now db" "cve_comments db' = cve_comments db"
    "warnings db' = warnings db" "users db' = users db"
  using core2_eqD [OF conjunct1 [OF assms [unfolded esc_frame_def]]] by simp_all

definition mails_for :: "config \<Rightarrow> app_db \<Rightarrow> escalation \<Rightarrow> mail list" where
  "mails_for cf db e =
     (case escalation_recipient cf (esc_namespace e) (esc_cluster e) db of Inl _ \<Rightarrow> []
      | Inr to \<Rightarrow> if truthy to then [MailEscalation (the to) (esc_cve e) (esc_namespace e) (esc_cluster e) (esc_level e)]
          else [])"

lemma escalation_recipient_cong: "contacts db' = contacts db \<Longrightarrow> escalation_recipient cf ns cl db' = escalation_recipient cf ns cl db"
  by (simp add: escalation_recipient_def)

lemma mails_for_cong: "contacts db' = contacts db \<Longrightarrow> mails_for cf db' = mails_for cf db"
  by (simp add: fun_eq_iff mails_for_def escalation_recipient_def)

lemma insert_escalation_eq:
  "insert_escalation cve ns cl lvl db =
     (if (cve, lvl, ns, cl) \<in> esc_key ` set (escs db) then None
      else Some (db\<lparr>next_id := Suc (next_id db), escs := escs db @ [\<lparr>esc_id = next_id db, esc_cve = cve,
        esc_namespace = ns, esc_cluster = cl, esc_level = lvl, esc_triggered_at = db_now db, esc_notified = False\<rparr>]\<rparr>,
        next_id db))"
  by (simp add: insert_escalation_def fresh_id_def)

lemma insert_escalation_Some:
  "insert_escalation cve ns cl lvl db = Some (db1, i) \<longleftrightarrow>
     (cve, lvl, ns, cl) \<notin> esc_key ` set (escs db) \<and> i = next_id db \<and>
     db1 = db\<lparr>next_id := Suc (next_id db), escs := escs db @ [\<lparr>esc_id = next_id db, esc_cve = cve, esc_namespace = ns,
       esc_cluster = cl, esc_level = lvl, esc_triggered_at = db_now db, esc_notified = False\<rparr>]\<rparr>"
  unfolding insert_escalation_eq by (auto simp only: option.inject prod.inject option.distinct split: if_split)

definition new_escalation :: "nat \<Rightarrow> datetime \<Rightarrow> loc_row \<Rightarrow> int \<Rightarrow> escalation" where
  "new_escalation i now row lvl = \<lparr>esc_id = i, esc_cve = lr_cve row, esc_namespace = lr_namespace row,
     esc_cluster = lr_cluster row, esc_level = lvl, esc_triggered_at = now, esc_notified = True\<rparr>"

definition row_key :: "loc_row \<Rightarrow> int \<Rightarrow> string \<times> int \<times> string \<times> string" where
  "row_key row lvl = (lr_cve row, lvl, lr_namespace row, lr_cluster row)"

lemma escalate_row_Inr:
  assumes "escalate_row cf rs row db = Inr (db', ms)" and ok: "escs_ok db"
  shows "esc_frame db db' \<and>
    (case triggered_level rs (db_now db) row of None \<Rightarrow> escs db' = escs db \<and> ms = []
     | Some l \<Rightarrow> if row_key row l \<in> esc_key ` set (escs db) then escs db' = escs db \<and> ms = []
         else escs db' = escs db @ [new_escalation (next_id db) (db_now db) row l] \<and> next_id db < next_id db' \<and>
           ms = mails_for cf db (new_escalation (next_id db) (db_now db) row l))"
proof (cases "triggered_level rs (db_now db) row")
  case None
  with assms show ?thesis by (simp add: escalate_row_def)
next
  case (Some l)
  let ?k = "row_key row l"
  have single: "\<exists>x. scalar_one_or_none (filter (\<lambda>e. esc_key e = ?k) (escs db)) = Inr x \<and> (x = None \<longleftrightarrow> ?k \<notin> esc_key ` set (escs db))"
    using scalar_unique [of esc_key "escs db" ?k] ok by (auto simp: escs_ok_def)
  show ?thesis
  proof (cases "?k \<in> esc_key ` set (escs db)")
    case True
    then have "insert_escalation (lr_cve row) (lr_namespace row) (lr_cluster row) l db = None"
      by (simp add: insert_escalation_def row_key_def)
    with single True Some assms(1) show ?thesis
      by (auto simp: escalate_row_def Let_def row_key_def)
  next
    case False
    define db1 where "db1 = db\<lparr>next_id := Suc (next_id db), escs := escs db @ [\<lparr>esc_id = next_id db,
        esc_cve = lr_cve row, esc_namespace = lr_namespace row, esc_cluster = lr_cluster row, esc_level = l,
        esc_triggered_at = db_now db, esc_notified = False\<rparr>]\<rparr>"
    have i: "insert_escalation (lr_cve row) (lr_namespace row) (lr_cluster row) l db = Some (db1, next_id db)"
      unfolding insert_escalation_Some using False by (simp add: db1_def row_key_def)
    from single False assms(1) Some i obtain db2 db3 to where
      n: "notify_escalation (lr_cve row) (lr_namespace row) (lr_cluster row) l db1 = Inr db2"
      and b: "broadcast_subscription_event None (lr_cve row) ''escalation'' [(''level'', int_str l)] None None []
          (Some [(lr_namespace row, lr_cluster row)]) db2 = Inr db3"
      and r: "escalation_recipient cf (lr_namespace row) (lr_cluster row) db3 = Inr to"
      and db': "db' = mark_notified (next_id db) db3"
      and ms: "ms = (if truthy to then [MailEscalation (the to) (lr_cve row) (lr_namespace row) (lr_cluster row) l] else [])"
      by (auto simp: escalate_row_def Let_def row_key_def rbind_Inr_iff)
    have c: "core2 db3 = core2 db1"
      using broadcast.frame2 [OF b] escalated.frame2 [OF n] by simp
    have g: "next_id db < next_id db3"
      using broadcast.grows2 [OF b] escalated.grows2 [OF n] by (simp add: db1_def)
    have "escs db3 = escs db1" using core2_eqD(7) [OF c] .
    then have e: "escs db' = escs db @ [new_escalation (next_id db) (db_now db) row l]"
      using ok by (auto simp: db' mark_notified_def db1_def new_escalation_def escs_ok_def intro!: map_idI)
    have "core2 (db\<lparr>escs := []\<rparr>) = core2 (db'\<lparr>escs := []\<rparr>)"
      using c by (cases db3; cases db) (simp add: core2_def core_def db' mark_notified_def db1_def)
    moreover have "contacts db3 = contacts db" using core2_eqD(9) [OF c] by (simp add: db1_def)
    then have "ms = mails_for cf db (new_escalation (next_id db) (db_now db) row l)"
      using r ms escalation_recipient_cong [of db3 db] by (simp add: mails_for_def new_escalation_def)
    ultimately show ?thesis using Some False e g
      by (simp add: esc_frame_def db' mark_notified_def)
  qed
qed

section \<open>The check as a whole\<close>

definition due_keys :: "esc_rule list \<Rightarrow> datetime \<Rightarrow> loc_row list \<Rightarrow> (string \<times> int \<times> string \<times> string) set" where
  "due_keys rs now rows = {row_key r l |r l. r \<in> set rows \<and> triggered_level rs now r = Some l}"

lemma due_keys_Nil [simp]: "due_keys rs now [] = {}"
  by (simp add: due_keys_def)

lemma due_keys_Cons:
  "due_keys rs now (r # rows) =
     (case triggered_level rs now r of None \<Rightarrow> {} | Some l \<Rightarrow> {row_key r l}) \<union> due_keys rs now rows"
  by (auto simp: due_keys_def split: option.split)

lemma key_new [simp]: "esc_key (new_escalation i now row l) = row_key row l" "esc_id (new_escalation i now row l) = i"
  "esc_notified (new_escalation i now row l)" "esc_triggered_at (new_escalation i now row l) = now"
  by (simp_all add: esc_key_def new_escalation_def row_key_def)

lemma escs_ok_snoc:
  "escs_ok db \<Longrightarrow> escs db' = escs db @ [e] \<Longrightarrow> esc_id e = next_id db \<Longrightarrow> esc_key e \<notin> esc_key ` set (escs db) \<Longrightarrow>
   next_id db < next_id db' \<Longrightarrow> escs_ok db'"
  unfolding escs_ok_def by fastforce

lemma escalate_loop:
  "visit_rows (escalate_row cf rs) rows db = Inr (db', ms) \<Longrightarrow> escs_ok db \<Longrightarrow>
   \<exists>new. escs db' = escs db @ new \<and> esc_frame db db' \<and> escs_ok db' \<and>
     (\<forall>e \<in> set new. esc_notified e \<and> esc_triggered_at e = db_now db) \<and>
     esc_key ` set (escs db') = esc_key ` set (escs db) \<union> due_keys rs (db_now db) rows \<and>
     ms = concat (map (mails_for cf db) new)"
proof (induction rows arbitrary: db ms)
  case Nil
  then show ?case by simp
next
  case (Cons r rows)
  from Cons.prems(1) obtain m ms1 ms2 where r: "escalate_row cf rs r db = Inr (m, ms1)"
    and rest: "visit_rows (escalate_row cf rs) rows m = Inr (db', ms2)" and ms: "ms = ms1 @ ms2"
    by (auto simp: rbind_Inr_iff)
  note step = escalate_row_Inr [OF r Cons.prems(2)]
  obtain one where one: "escs m = escs db @ one" "escs_ok m" "ms1 = concat (map (mails_for cf db) one)"
    "\<forall>e \<in> set one. esc_notified e \<and> esc_triggered_at e = db_now db"
    "esc_key ` set (escs m) = esc_key ` set (escs db) \<union>
      (case triggered_level rs (db_now db) r of None \<Rightarrow> {} | Some l \<Rightarrow> {row_key r l})"
  proof (cases "\<exists>l. triggered_level rs (db_now db) r = Some l \<and> row_key r l \<notin> esc_key ` set (escs db)")
    case True
    then obtain l where l: "triggered_level rs (db_now db) r = Some l" "row_key r l \<notin> esc_key ` set (escs db)" by blast
    let ?e = "new_escalation (next_id db) (db_now db) r l"
    from step l have e: "escs m = escs db @ [?e]" "next_id db < next_id m" "ms1 = mails_for cf db ?e" by simp_all
    have "escs_ok m" by (rule escs_ok_snoc [OF Cons.prems(2) e(1)]) (use l e(2) in simp_all)
    with e l show thesis by (intro that [of "[?e]"]) simp_all
  next
    case False
    with step have "escs m = escs db" "ms1 = []" by (auto split: option.splits if_splits)
    moreover have "escs_ok m"
      using step Cons.prems(2) \<open>escs m = escs db\<close> by (auto simp: escs_ok_def esc_frame_def)
    ultimately show thesis using False by (intro that [of "[]"]) (auto split: option.split)
  qed
  have fr: "esc_frame db m" using step by blast
  note f = esc_frameD [OF fr]
  from Cons.IH [OF rest one(2)] obtain new where new: "escs db' = escs m @ new" "esc_frame m db'" "escs_ok db'"
    "\<forall>e \<in> set new. esc_notified e \<and> esc_triggered_at e = db_now db"
    "esc_key ` set (escs db') = esc_key ` set (escs m) \<union> due_keys rs (db_now db) rows"
    "ms2 = concat (map (mails_for cf m) new)" unfolding f by blast
  have "mails_for cf m = mails_for cf db" by (rule mails_for_cong [OF f(4)])
  with one new ms esc_frame_trans [OF fr new(2)] show ?case
    by (intro exI [of _ "one @ new"]) (auto simp: due_keys_Cons)
qed

lemma escalate_row_total:
  assumes "escs_ok db" and "distinct (map (\<lambda>c. (nc_namespace c, nc_cluster c)) (contacts db))"
  shows "\<exists>db' ms. escalate_row cf rs row db = Inr (db', ms)"
proof (cases "triggered_level rs (db_now db) row")
  case (Some l)
  obtain x where x: "scalar_one_or_none (filter (\<lambda>e. esc_key e = (lr_cve row, l, lr_namespace row, lr_cluster row)) (escs db)) = Inr x"
    using scalar_unique [of esc_key "escs db"] assms(1) unfolding escs_ok_def by blast
  have r: "\<exists>to. escalation_recipient cf (lr_namespace row) (lr_cluster row) d = Inr to" if "contacts d = contacts db" for d
  proof -
    obtain y where "scalar_one_or_none (filter (\<lambda>c. (nc_namespace c, nc_cluster c) = (lr_namespace row, lr_cluster row))
        (contacts db)) = Inr y" using scalar_unique [OF assms(2)] by blast
    then show ?thesis by (simp add: escalation_recipient_def that)
  qed
  show ?thesis
  proof (cases "insert_escalation (lr_cve row) (lr_namespace row) (lr_cluster row) l db")
    case None
    with Some x show ?thesis by (cases x) (auto simp: escalate_row_def Let_def)
  next
    case (Some p)
    then obtain db1 i where p: "p = (db1, i)" and c1: "contacts db1 = contacts db"
      by (cases p) (auto simp: insert_escalation_eq split: if_splits)
    obtain db2 where 2: "notify_escalation (lr_cve row) (lr_namespace row) (lr_cluster row) l db1 = Inr db2"
      using notify_total(3) by blast
    have "\<exists>d. broadcast_subscription_event None (lr_cve row) ''escalation'' [(''level'', int_str l)] None None []
        (Some [(lr_namespace row, lr_cluster row)]) db2 = Inr d"
      by (rule broadcast_total) (simp add: message_keys_def)
    then obtain db3 where 3: "broadcast_subscription_event None (lr_cve row) ''escalation'' [(''level'', int_str l)] None None []
        (Some [(lr_namespace row, lr_cluster row)]) db2 = Inr db3" by blast
    have "contacts db3 = contacts db"
      using broadcast.unchanged2(9) [OF 3] escalated.unchanged2(9) [OF 2] c1 by simp
    then obtain to where "escalation_recipient cf (lr_namespace row) (lr_cluster row) db3 = Inr to" using r by blast
    with \<open>triggered_level rs (db_now db) row = Some l\<close> x Some p 2 3 show ?thesis
      by (cases x) (auto simp: escalate_row_def Let_def)
  qed
qed (simp add: escalate_row_def)

lemma escalate_loop_total:
  "escs_ok db \<Longrightarrow> distinct (map (\<lambda>c. (nc_namespace c, nc_cluster c)) (contacts db)) \<Longrightarrow>
   \<exists>db' ms. visit_rows (escalate_row cf rs) rows db = Inr (db', ms)"
proof (induction rows arbitrary: db)
  case (Cons r rows)
  from escalate_row_total [OF Cons.prems] obtain m ms where r: "escalate_row cf rs r db = Inr (m, ms)" by blast
  have one: "visit_rows (escalate_row cf rs) [r] db = Inr (m, ms)" by (simp add: r)
  from escalate_loop [OF one Cons.prems(1)] have "escs_ok m" "esc_frame db m" by blast+
  then have "\<exists>db' ms'. visit_rows (escalate_row cf rs) rows m = Inr (db', ms')"
    using Cons.IH [of m] Cons.prems(2) esc_frameD(4) [of db m] by simp
  with r show ?case by auto
qed simp

lemma drop_stale_escs:
  assumes "escs_ok db"
  shows "escs (drop_stale_escalations keep db) = filter (\<lambda>e. esc_cve e \<in> keep) (escs db)"
proof -
  have "esc_id e \<in> esc_id ` set (filter (\<lambda>e. esc_cve e \<notin> keep) (escs db)) \<longleftrightarrow> esc_cve e \<notin> keep" if "e \<in> set (escs db)" for e
    using assms that by (auto simp: escs_ok_def distinct_map dest: inj_onD)
  then show ?thesis by (auto simp: drop_stale_escalations_def Let_def intro!: filter_cong)
qed

lemma candidates_kept: "r \<in> set (escalation_candidates sx s db) \<Longrightarrow> lr_cve r \<in> kept_cves sx s db"
  by (auto simp: escalation_candidates_def kept_cves_def in_escalation_candidate_rows split: prod.splits)

lemma esc_frame_core: "esc_frame db db' \<Longrightarrow> kept_cves sx s db' = kept_cves sx s db \<and>
    escalation_candidates sx s db' = escalation_candidates sx s db"
  using esc_frameD [of db db']
  by (simp add: kept_cves_def escalation_candidates_def escalation_rows_def always_show_open_def accepted_ids_def
      load_approved_suppression_rules_def load_suppression_sets_def)

lemma drop_stale_core [simp]:
  "kept_cves sx s (drop_stale_escalations keep db) = kept_cves sx s db"
  "escalation_candidates sx s (drop_stale_escalations keep db) = escalation_candidates sx s db"
  "gsettings (drop_stale_escalations keep db) = gsettings db" "db_now (drop_stale_escalations keep db) = db_now db"
  "contacts (drop_stale_escalations keep db) = contacts db" "next_id (drop_stale_escalations keep db) = next_id db"
  by (simp_all add: drop_stale_escalations_def Let_def kept_cves_def escalation_candidates_def escalation_rows_def
      always_show_open_def accepted_ids_def load_approved_suppression_rules_def load_suppression_sets_def)

lemma drop_stale_ok: "escs_ok db \<Longrightarrow> escs_ok (drop_stale_escalations keep db)"
  using drop_stale_escs [of db keep] by (auto simp: escs_ok_def intro: distinct_map_filter)

section \<open>Properties\<close>


text \<open>C29: The check always returns when a namespace has at most one contact, and a second run on the same data at
  the same time creates no escalation, drops none and sends no mail.\<close>

theorem escalation_check_idempotent:
  assumes "escs_ok db" and "distinct (map (\<lambda>c. (nc_namespace c, nc_cluster c)) (contacts db))"
  shows "\<exists>db' ms db''. run_escalation_check cf sx db = Inr (db', ms) \<and>
    run_escalation_check cf sx db' = Inr (db'', []) \<and> escs db'' = escs db'"
proof (cases "\<exists>s. gsettings db = Some s \<and> gs_rules s \<noteq> [] \<and> list_namespaces sx \<noteq> []")
  case False
  then have "run_escalation_check cf sx db = Inr (db, [])" by (auto simp: run_escalation_check_def split: option.split)
  then show ?thesis by auto
next
  case True
  then obtain s where s: "gsettings db = Some s" "gs_rules s \<noteq> []" "list_namespaces sx \<noteq> []" by blast
  let ?rows = "escalation_candidates sx s db" and ?keep = "kept_cves sx s db"
  let ?due = "due_keys (gs_rules s) (db_now db) ?rows"
  obtain db1 ms where l: "visit_rows (escalate_row cf (gs_rules s)) ?rows db = Inr (db1, ms)"
    using escalate_loop_total [OF assms] by blast
  from escalate_loop [OF l assms(1)] have ok: "escs_ok db1" and fr: "esc_frame db db1"
    and keys: "esc_key ` set (escs db1) = esc_key ` set (escs db) \<union> ?due" by blast+
  define db' where "db' = drop_stale_escalations ?keep db1"
  have run: "run_escalation_check cf sx db = Inr (db', ms)" using s l by (simp add: run_escalation_check_def db'_def)
  note f = esc_frameD [OF fr] esc_frame_core [OF fr, of sx s]
  have c: "contacts db' = contacts db" "gsettings db' = Some s" "db_now db' = db_now db"
    "kept_cves sx s db' = ?keep" "escalation_candidates sx s db' = ?rows"
    using f s by (simp_all add: db'_def)
  have ok': "escs_ok db'" unfolding db'_def by (rule drop_stale_ok [OF ok])
  have e': "escs db' = filter (\<lambda>e. esc_cve e \<in> ?keep) (escs db1)" unfolding db'_def by (rule drop_stale_escs [OF ok])
  have due: "?due \<subseteq> esc_key ` set (escs db')"
  proof
    fix k assume k: "k \<in> ?due"
    then obtain e where e: "e \<in> set (escs db1)" "k = esc_key e" using keys by blast
    then have "esc_cve e \<in> ?keep" using k candidates_kept by (auto simp: due_keys_def row_key_def esc_key_def)
    then show "k \<in> esc_key ` set (escs db')" unfolding e' using e by auto
  qed
  obtain db2 ms2 where l2: "visit_rows (escalate_row cf (gs_rules s)) ?rows db' = Inr (db2, ms2)"
    using escalate_loop_total [OF ok', of cf "gs_rules s" ?rows] assms(2) c(1) by auto
  from escalate_loop [OF l2 ok'] obtain new where new: "escs db2 = escs db' @ new" "escs_ok db2"
    "esc_key ` set (escs db2) = esc_key ` set (escs db') \<union> ?due" "ms2 = concat (map (mails_for cf db') new)"
    unfolding c by blast
  have "distinct (map esc_key (escs db' @ new))" using new(1,2) by (simp add: escs_ok_def)
  moreover have "esc_key ` set new \<subseteq> esc_key ` set (escs db')" using new(1,3) due by auto
  ultimately have "new = []" by (cases new) auto
  have "escs (drop_stale_escalations ?keep db2) = escs db'"
    unfolding drop_stale_escs [OF new(2)] new(1) \<open>new = []\<close> e' by simp
  moreover have "run_escalation_check cf sx db' = Inr (drop_stale_escalations ?keep db2, [])"
    using s l2 new(4) \<open>new = []\<close> c by (simp add: run_escalation_check_def)
  ultimately show ?thesis using run by blast
qed


lemma ex_deadlines': "level_deadlines ex_rule (Some 0) None = [(1, 604800000000)]"
  by (simp add: ex_deadlines timedelta_days_def day_us_def)

definition ex_loc :: loc_row where
  "ex_loc = \<lparr>lr_cve = ''CVE-2024-1'', lr_namespace = ''shop'', lr_cluster = ''c1'', lr_severity = 4, lr_epss = 1/2,
     lr_first_seen = Some 0, lr_fix_since = None, lr_cvss = 9, lr_fixable = False,
     lr_components = [(''openssl'', ''1.0.2'')]\<rparr>"

definition ex_esc_db :: app_db where
  "ex_esc_db = ex_db\<lparr>gsettings := Some ex_esc_settings, db_now := timedelta_days 8,
     contacts := [\<lparr>nc_namespace = ''shop'', nc_cluster = ''c1'', nc_email = ''shop@x''\<rparr>]\<rparr>"

definition ex_cf :: config where
  "ex_cf = \<lparr>cf_default_escalation_email = ''sec@x'', cf_management_email = [], cf_active_days = 30\<rparr>"

lemma ex_loc_row: "loc_row_of ((''CVE-2024-1'', (''shop'', ''c1'')), [ex_row]) = ex_loc"
proof -
  have "vr_ic ex_row = ex_ic" by (simp add: ex_row_def)
  moreover have "component_versions [ex_row] = [(''openssl'', ''1.0.2'')]" by (simp add: component_versions_def)
  ultimately show ?thesis
    by (simp add: loc_row_of_def max0_def sql_max_def sql_min_def ex_loc_def ex_ic_def)
qed

lemma ex_loc_rows: "get_cves_by_namespace_detail ex_sx [(''pay'', ''c1''), (''shop'', ''c1'')] 7 0 w = [ex_loc]"
  by (simp add: get_cves_by_namespace_detail_def loc_rows_def joined_ex namespace_filter_def group_by_def
      ex_loc_row passes_def) (simp add: ex_loc_def)

lemma ex_candidates: "escalation_candidates ex_sx ex_esc_settings ex_esc_db = [ex_loc]"
  by (simp add: escalation_candidates_def escalation_rows_def list_namespaces_ex ex_loc_rows ex_esc_settings_def
      ex_settings_def load_approved_suppression_rules_def load_suppression_sets_def ex_esc_db_def
      escalation_candidate_rows_def accepted_ids_def is_location_suppressed_def ex_db_def)

lemma ex_triggered: "triggered_level [ex_rule] (timedelta_days 8) ex_loc = Some 1"
  by (simp add: triggered_level_def ex_loc_def ex_rule_picked ex_deadlines timedelta_days_def day_us_def)

lemma ex_warned: "warned_level [ex_rule] 3 (timedelta_days 5) ex_loc = Some (1, 2)"
  by (simp add: warned_level_def ex_loc_def ex_rule_picked ex_deadlines timedelta_days_def day_us_def days_of_def)

lemma ex_esc_db_simps [simp]: "gsettings ex_esc_db = Some ex_esc_settings" "db_now ex_esc_db = timedelta_days 8"
  "escs ex_esc_db = []" "warnings ex_esc_db = []" "gs_rules ex_esc_settings = [ex_rule]" "escs_ok ex_esc_db"
  "gs_warning_days ex_esc_settings = 3" "contacts ex_esc_db = [\<lparr>nc_namespace = ''shop'', nc_cluster = ''c1'', nc_email = ''shop@x''\<rparr>]"
  by (simp_all add: ex_esc_db_def ex_db_def ex_esc_settings_def ex_settings_def escs_ok_def)


theorem escalation_check_idempotent_witness:
  "\<exists>db' ms. run_escalation_check ex_cf ex_sx ex_esc_db = Inr (db', ms)"
  using escalation_check_idempotent [of ex_esc_db ex_cf ex_sx] by auto


section \<open>The warning as a whole\<close>

fun mail_key :: "mail \<Rightarrow> string \<times> int \<times> string \<times> string" where
  "mail_key (MailEscalationWarning to cve ns cl lvl days) = (cve, lvl, ns, cl)"
| "mail_key (MailEscalation to cve ns cl lvl) = (cve, lvl, ns, cl)"
| "mail_key _ = ([], 0, [], [])"

lemma warn_row_Inr:
  assumes "warn_row cf sends s row db = Inr (db', ms)"
  shows "db' = db \<and> ms = [] \<or>
    (\<exists>l n w. warned_level (gs_rules s) (gs_warning_days s) (db_now db) row = Some (l, n) \<and>
       ew_key w = row_key row l \<and> row_key row l \<notin> esc_key ` set (escs db) \<and> row_key row l \<notin> ew_key ` set (warnings db) \<and>
       db' = db\<lparr>next_id := Suc (next_id db), warnings := warnings db @ [w]\<rparr> \<and>
       (ms = [] \<or> (\<exists>to. ms = [MailEscalationWarning to (lr_cve row) (lr_namespace row) (lr_cluster row) l n] \<and>
          sends (MailEscalationWarning to (lr_cve row) (lr_namespace row) (lr_cluster row) l n))))"
proof (cases "warned_level (gs_rules s) (gs_warning_days s) (db_now db) row")
  case None
  with assms show ?thesis by (simp add: warn_row_def)
next
  case (Some p)
  obtain l n where p: "p = (l, n)" by (cases p)
  obtain x where x: "scalar_one_or_none (filter (\<lambda>e. esc_key e = row_key row l) (escs db)) = Inr x"
    using assms Some p by (auto simp: warn_row_def Let_def rbind_Inr_iff row_key_def)
  show ?thesis
  proof (cases x)
    case (Some e)
    with assms \<open>warned_level _ _ _ row = Some p\<close> p x show ?thesis by (simp add: warn_row_def Let_def row_key_def)
  next
    case None
    then have e: "row_key row l \<notin> esc_key ` set (escs db)" using x by (auto simp: filter_empty_conv)
    obtain y where y: "scalar_one_or_none (filter (\<lambda>w. ew_key w = row_key row l) (warnings db)) = Inr y"
      using assms Some p x None by (auto simp: warn_row_def Let_def rbind_Inr_iff row_key_def)
    show ?thesis
    proof (cases y)
      case (Some w)
      with assms \<open>warned_level _ _ _ row = Some p\<close> p x y None show ?thesis by (simp add: warn_row_def Let_def row_key_def)
    next
      case None
      then have w: "row_key row l \<notin> ew_key ` set (warnings db)" using y by (auto simp: filter_empty_conv)
      define new where "new = \<lparr>ew_id = next_id db, ew_cve = lr_cve row, ew_namespace = lr_namespace row,
          ew_cluster = lr_cluster row, ew_level = l\<rparr>"
      have add: "add_warning (lr_cve row) (lr_namespace row) (lr_cluster row) l db =
          db\<lparr>next_id := Suc (next_id db), warnings := warnings db @ [new]\<rparr>" by (simp add: add_warning_def fresh_id_def new_def)
      obtain to where r: "escalation_recipient cf (lr_namespace row) (lr_cluster row) db = Inr to"
        using assms \<open>warned_level _ _ _ row = Some p\<close> p x \<open>x = None\<close> y None
        by (auto simp: warn_row_def Let_def rbind_Inr_iff row_key_def)
      have to: "(if truthy to then (if sends (MailEscalationWarning (the to) (lr_cve row) (lr_namespace row) (lr_cluster row) l n)
          then Inr (add_warning (lr_cve row) (lr_namespace row) (lr_cluster row) l db,
            [MailEscalationWarning (the to) (lr_cve row) (lr_namespace row) (lr_cluster row) l n]) else Inr (db, []))
          else Inr (add_warning (lr_cve row) (lr_namespace row) (lr_cluster row) l db, [])) = Inr (db', ms)"
        using assms \<open>warned_level _ _ _ row = Some p\<close> p x \<open>x = None\<close> y None r
        by (auto simp: warn_row_def Let_def row_key_def split: if_splits)
      have "ew_key new = row_key row l" by (simp add: ew_key_def new_def row_key_def)
      with to e w \<open>warned_level _ _ _ row = Some p\<close> p show ?thesis unfolding add by (auto split: if_splits)
    qed
  qed
qed

lemma warn_loop:
  "visit_rows (warn_row cf sends s) rows db = Inr (db', ms) \<Longrightarrow> distinct (map ew_key (warnings db)) \<Longrightarrow>
   \<exists>new. warnings db' = warnings db @ new \<and> distinct (map ew_key (warnings db')) \<and> escs db' = escs db \<and>
     ew_key ` set new \<inter> esc_key ` set (escs db) = {} \<and> subseq (map mail_key ms) (map ew_key new) \<and>
     (\<forall>m \<in> set ms. sends m) \<and> ew_cve ` set new \<subseteq> lr_cve ` set rows"
proof (induction rows arbitrary: db ms)
  case Nil
  then show ?case by simp
next
  case (Cons r rows)
  from Cons.prems(1) obtain m ms1 ms2 where r: "warn_row cf sends s r db = Inr (m, ms1)"
    and rest: "visit_rows (warn_row cf sends s) rows m = Inr (db', ms2)" and ms: "ms = ms1 @ ms2"
    by (auto simp: rbind_Inr_iff)
  from warn_row_Inr [OF r] obtain one where one: "warnings m = warnings db @ one" "escs m = escs db"
    "distinct (map ew_key (warnings m))" "ew_key ` set one \<inter> esc_key ` set (escs db) = {}"
    "subseq (map mail_key ms1) (map ew_key one)" "\<forall>x \<in> set ms1. sends x" "ew_cve ` set one \<subseteq> {lr_cve r}"
  proof (elim disjE)
    assume "m = db \<and> ms1 = []"
    with Cons.prems(2) show thesis by (intro that [of "[]"]) simp_all
  next
    assume "\<exists>l n w. warned_level (gs_rules s) (gs_warning_days s) (db_now db) r = Some (l, n) \<and>
       ew_key w = row_key r l \<and> row_key r l \<notin> esc_key ` set (escs db) \<and> row_key r l \<notin> ew_key ` set (warnings db) \<and>
       m = db\<lparr>next_id := Suc (next_id db), warnings := warnings db @ [w]\<rparr> \<and>
       (ms1 = [] \<or> (\<exists>to. ms1 = [MailEscalationWarning to (lr_cve r) (lr_namespace r) (lr_cluster r) l n] \<and>
          sends (MailEscalationWarning to (lr_cve r) (lr_namespace r) (lr_cluster r) l n)))"
    then obtain l n w where w: "ew_key w = row_key r l" "row_key r l \<notin> esc_key ` set (escs db)" "row_key r l \<notin> ew_key ` set (warnings db)"
      "m = db\<lparr>next_id := Suc (next_id db), warnings := warnings db @ [w]\<rparr>"
      "ms1 = [] \<or> (\<exists>to. ms1 = [MailEscalationWarning to (lr_cve r) (lr_namespace r) (lr_cluster r) l n] \<and>
          sends (MailEscalationWarning to (lr_cve r) (lr_namespace r) (lr_cluster r) l n))" by blast
    have "ew_cve w = lr_cve r" using w(1) by (simp add: ew_key_def row_key_def)
    moreover have "subseq (map mail_key ms1) [row_key r l]" "\<forall>x \<in> set ms1. sends x"
      using w(5) by (auto simp: row_key_def)
    ultimately show thesis using w(1-4) Cons.prems(2) by (intro that [of "[w]"]) simp_all
  qed
  from Cons.IH [OF rest one(3)] obtain new where new: "warnings db' = warnings m @ new"
    "distinct (map ew_key (warnings db'))" "escs db' = escs m" "ew_key ` set new \<inter> esc_key ` set (escs m) = {}"
    "subseq (map mail_key ms2) (map ew_key new)" "\<forall>x \<in> set ms2. sends x" "ew_cve ` set new \<subseteq> lr_cve ` set rows" by blast
  have "subseq (map mail_key ms) (map ew_key (one @ new))"
    unfolding ms map_append by (rule list_emb_append_mono [OF one(5) new(5)])
  with one new ms show ?case by (intro exI [of _ "one @ new"]) (auto simp: Int_Un_distrib2)
qed



text \<open>A level that is due within less than a day is not announced any more although the check does not see it as
  due yet; the day counts are rounded down.\<close>

lemma warning_gap:
  "triggered_level [ex_rule] (timedelta_days 7 - 1) ex_loc = None \<and>
   warned_level [ex_rule] 3 (timedelta_days 7 - 1) ex_loc = None"
  by (simp add: triggered_level_def warned_level_def ex_loc_def ex_rule_picked ex_deadlines timedelta_days_def
      day_us_def days_of_def)

end
