(* ===== verification/EscalationWorkspace.thy ===== *)
theory EscalationWorkspace
  imports Escalations
begin

text \<open>
  The queue of active escalations: \<open>app/services/escalation_workspace.py\<close> and
  \<open>app/routers/escalations.py\<close>. The current escalation of a CVE at a location is the one of the highest
  level, then the newest, then the one with the greatest id; a row is contacted once a comment is linked to
  its current escalation. The ids are compared as the numbers that stand for them.
\<close>

section \<open>Current rows\<close>

record ws_row =
  ws_id :: nat
  ws_cve :: string
  ws_namespace :: string
  ws_cluster :: string
  ws_level :: int
  ws_triggered_at :: datetime
  ws_notified :: bool
  ws_contacted :: bool

definition esc_place :: "escalation \<Rightarrow> string \<times> string \<times> string" where
  "esc_place e = (esc_cve e, esc_cluster e, esc_namespace e)"

definition esc_rank :: "escalation \<Rightarrow> int \<times> datetime \<times> nat" where
  "esc_rank e = (esc_level e, esc_triggered_at e, esc_id e)"

text \<open>The row with \<open>row_number() = 1\<close> of a partition.\<close>

definition current_at :: "app_db \<Rightarrow> string \<times> string \<times> string \<Rightarrow> escalation option" where
  "current_at db p =
     (case filter (\<lambda>e. esc_place e = p) (escs db) of [] \<Rightarrow> None | e # es \<Rightarrow> Some (max_by esc_rank e es))"

definition esc_contacted :: "app_db \<Rightarrow> escalation \<Rightarrow> bool" where
  "esc_contacted db e = list_ex (\<lambda>c. cc_escalation c = Some (esc_id e)) (cve_comments db)"

definition ws_row_of :: "app_db \<Rightarrow> escalation \<Rightarrow> ws_row" where
  "ws_row_of db e = \<lparr>ws_id = esc_id e, ws_cve = esc_cve e, ws_namespace = esc_namespace e, ws_cluster = esc_cluster e,
     ws_level = esc_level e, ws_triggered_at = esc_triggered_at e, ws_notified = esc_notified e,
     ws_contacted = esc_contacted db e\<rparr>"

definition current_rows :: "app_db \<Rightarrow> ws_row list" where
  "current_rows db = map (ws_row_of db) (filter (\<lambda>e. current_at db (esc_place e) = Some e) (escs db))"

record ws_query =
  wq_see_all :: bool
  wq_namespaces :: "pair list"
  wq_cluster :: "string option"
  wq_namespace :: "string option"
  wq_search :: "string option"
  wq_level :: "int option"
  wq_email_status :: "string option"

definition filtered_current_rows :: "ws_query \<Rightarrow> app_db \<Rightarrow> ws_row list" where
  "filtered_current_rows q db =
     filter (\<lambda>r.
       (if \<not> wq_see_all q then (ws_namespace r, ws_cluster r) \<in> set (wq_namespaces q)
        else given_text (wq_cluster q) (\<lambda>c r. ws_cluster r = c) r \<and>
          given_text (wq_namespace q) (\<lambda>n r. ws_namespace r = n) r) \<and>
       given_text (wq_search q) (\<lambda>s r. ilike_contains s (ws_cve r)) r \<and>
       given (wq_level q) (\<lambda>l r. ws_level r = l) r \<and>
       (if wq_email_status q = Some ''notified'' then ws_notified r
        else if wq_email_status q = Some ''pending'' then \<not> ws_notified r else True))
     (current_rows db)"

text \<open>The page, the total, and the counts (needs action, contacted).\<close>

definition search_active_workspace ::
    "ws_query \<Rightarrow> string option \<Rightarrow> int \<Rightarrow> int \<Rightarrow> app_db \<Rightarrow> ws_row list \<times> nat \<times> nat \<times> nat" where
  "search_active_workspace q contact_status page sz db =
     (let rows = filtered_current_rows q db;
          counts = (length (filter (\<lambda>r. \<not> ws_contacted r) rows), length (filter ws_contacted rows));
          shown = (if contact_status = Some ''contacted'' then filter ws_contacted rows
            else if contact_status = Some ''needs_action'' then filter (\<lambda>r. \<not> ws_contacted r) rows else rows)
      in (page_slice (max 1 page) sz (sort_key_rev ws_triggered_at (sort_key ws_cve shown)), length shown, counts))"

definition count_active_workspace ::
    "bool \<Rightarrow> pair list \<Rightarrow> string option \<Rightarrow> string option \<Rightarrow> app_db \<Rightarrow> nat" where
  "count_active_workspace see_all nss cluster namespace db =
     length (filtered_current_rows \<lparr>wq_see_all = see_all, wq_namespaces = nss, wq_cluster = cluster,
       wq_namespace = namespace, wq_search = None, wq_level = None, wq_email_status = None\<rparr> db)"

section \<open>Contact comments\<close>

definition add_current_escalation_comment ::
    "(string \<Rightarrow> string option) \<Rightarrow> current_user \<Rightarrow> nat \<Rightarrow> string option \<Rightarrow> segment_in list option \<Rightarrow>
     app_db \<Rightarrow> (app_db \<times> cve_comment \<times> mention_email list) result" where
  "add_current_escalation_comment valid_email u i message content db =
     (if \<not> is_sec_team u then Inl (ApiError 403 ''escalation_comment_forbidden'')
      else rbind (scalar_one_or_none (filter (\<lambda>e. esc_id e = i) (escs db))) (\<lambda>x.
        case x of None \<Rightarrow> Inl (ApiError 404 ''escalation_not_found'')
        | Some e \<Rightarrow>
            if map_option esc_id (current_at db (esc_place e)) \<noteq> Some (esc_id e)
            then Inl (ApiError 409 ''escalation_not_active'')
            else rbind (prepare_comment db message content) (\<lambda>p.
              let (j, db1) = fresh_id db;
                  c = \<lparr>cc_id = j, cc_cve = esc_cve e, cc_user = cu_id u, cc_escalation = Some (esc_id e),
                    cc_message = pc_message p, cc_segments = Some (pc_segments p), cc_created = db_now db,
                    cc_updated = None\<rparr>
              in rbind (notify_mention_users valid_email (pc_recipients p) (user_of u) (comment_link (esc_cve e) j)
                    (''Eskalation '' @ esc_cve e) [] (db1\<lparr>cve_comments := cve_comments db1 @ [c]\<rparr>))
                  (\<lambda>(db2, ids, mails). Inr
                    (log_action (cu_id u) ''escalation_comment_created'' ''escalation'' (id_str (esc_id e))
                       [(''cve_id'', Some (esc_cve e)), (''comment_id'', Some (id_str j)),
                        (''cluster_name'', Some (esc_cluster e)), (''namespace'', Some (esc_namespace e)),
                        (''level'', Some (int_str (esc_level e)))] db2, c, mails)))))"

section \<open>The router\<close>

definition list_escalations :: "current_user \<Rightarrow> string option \<Rightarrow> string option \<Rightarrow> app_db \<Rightarrow> escalation list" where
  "list_escalations u cluster namespace db =
     (if \<not> can_see_all_namespaces u \<and> \<not> has_namespaces u then []
      else sort_key_rev esc_triggered_at (filter (\<lambda>e.
        if \<not> can_see_all_namespaces u
        then (esc_namespace e, esc_cluster e) \<in> set (narrow_namespaces (cu_namespaces u) cluster namespace)
        else given_text cluster (\<lambda>c e. esc_cluster e = c) e \<and> given_text namespace (\<lambda>n e. esc_namespace e = n) e)
        (escs db)))"

record active_search =
  as_items :: "(ws_row \<times> bool option) list"   \<comment> \<open>with the contact state that is shown\<close>
  as_total :: nat
  as_counts :: "(nat \<times> nat) option"

record active_params =
  ap_page :: int
  ap_page_size :: int
  ap_search :: "string option"
  ap_level :: "int option"
  ap_email_status :: "string option"
  ap_contact_status :: "string option"
  ap_cluster :: "string option"
  ap_namespace :: "string option"

definition search_active_escalations :: "current_user \<Rightarrow> active_params \<Rightarrow> app_db \<Rightarrow> active_search" where
  "search_active_escalations u p db =
     (let see_all = can_see_all_namespaces u in
      if \<not> see_all \<and> \<not> has_namespaces u then \<lparr>as_items = [], as_total = 0, as_counts = None\<rparr>
      else
        let nss = (if \<not> see_all then narrow_namespaces (cu_namespaces u) (ap_cluster p) (ap_namespace p) else []);
            (rows, total, counts) = search_active_workspace
              \<lparr>wq_see_all = see_all, wq_namespaces = nss, wq_cluster = ap_cluster p, wq_namespace = ap_namespace p,
               wq_search = ap_search p, wq_level = ap_level p, wq_email_status = ap_email_status p\<rparr>
              (if is_sec_team u then ap_contact_status p else None) (ap_page p) (ap_page_size p) db
        in \<lparr>as_items = map (\<lambda>r. (r, if is_sec_team u then Some (ws_contacted r) else None)) rows,
            as_total = total, as_counts = (if is_sec_team u then Some counts else None)\<rparr>)"

text \<open>The namespaces of the upcoming list: \<open>None\<close> is no access, the empty list is every namespace.\<close>

definition upcoming_namespaces ::
    "stackrox \<Rightarrow> current_user \<Rightarrow> string option \<Rightarrow> string option \<Rightarrow> pair list option" where
  "upcoming_namespaces sx u cluster namespace =
     (if can_see_all_namespaces u
      then (if truthy cluster \<or> truthy namespace
            then Some (narrow_namespaces (list_namespaces sx) cluster namespace) else Some [])
      else if \<not> has_namespaces u then None
      else Some (narrow_namespaces (cu_namespaces u) cluster namespace))"

definition list_upcoming_escalations ::
    "pep440 \<Rightarrow> stackrox \<Rightarrow> current_user \<Rightarrow> string option \<Rightarrow> string option \<Rightarrow> app_db \<Rightarrow> upcoming list" where
  "list_upcoming_escalations P sx u cluster namespace db =
     (case gsettings db of None \<Rightarrow> []
      | Some s \<Rightarrow> (case upcoming_namespaces sx u cluster namespace of None \<Rightarrow> []
          | Some nss \<Rightarrow> compute_upcoming_escalations P db sx nss s (db_now db)))"

record upcoming_params =
  upp_page :: int
  upp_page_size :: int
  upp_search :: "string option"
  upp_level :: "int option"
  upp_severity :: "int option"
  upp_days_max :: "int option"
  upp_cluster :: "string option"
  upp_namespace :: "string option"

definition search_upcoming_escalations ::
    "pep440 \<Rightarrow> stackrox \<Rightarrow> current_user \<Rightarrow> upcoming_params \<Rightarrow> app_db \<Rightarrow> upcoming list \<times> nat" where
  "search_upcoming_escalations P sx u p db =
     (case gsettings db of None \<Rightarrow> ([], 0)
      | Some s \<Rightarrow> (case upcoming_namespaces sx u (upp_cluster p) (upp_namespace p) of None \<Rightarrow> ([], 0)
          | Some nss \<Rightarrow> filter_upcoming_escalations (compute_upcoming_escalations P db sx nss s (db_now db))
              (upp_search p) (upp_level p) (upp_severity p) (upp_days_max p) (upp_page p) (upp_page_size p)))"

section \<open>Lemmas\<close>

lemma current_at_iff:
  assumes "distinct (map esc_id (escs db))"
  shows "current_at db p = Some e \<longleftrightarrow> e \<in> set (escs db) \<and> esc_place e = p \<and>
    (\<forall>f \<in> set (escs db). esc_place f = p \<longrightarrow> esc_rank f \<le> esc_rank e)"
proof (cases "filter (\<lambda>e. esc_place e = p) (escs db)")
  case Nil
  then show ?thesis by (auto simp: current_at_def filter_empty_conv)
next
  case (Cons x xs)
  define m where "m = max_by esc_rank x xs"
  have set: "set (x # xs) = {f \<in> set (escs db). esc_place f = p}" unfolding Cons [symmetric] by auto
  have m: "m \<in> {f \<in> set (escs db). esc_place f = p}" unfolding m_def set [symmetric] by (rule max_by_in)
  have top: "esc_rank f \<le> esc_rank m" if "f \<in> {f \<in> set (escs db). esc_place f = p}" for f
    unfolding m_def by (rule max_by_ge) (use that set in blast)
  have inj: "f = e" if "f \<in> set (escs db)" "e \<in> set (escs db)" "esc_rank f = esc_rank e" for f e
    using assms that by (auto simp: esc_rank_def distinct_map dest: inj_onD)
  have "current_at db p = Some m" by (simp add: current_at_def Cons m_def)
  then show ?thesis using m top inj [of m e] by (auto intro: antisym)
qed

lemma current_at_exists: "p \<in> esc_place ` set (escs db) \<Longrightarrow> current_at db p \<noteq> None"
  by (cases "filter (\<lambda>e. esc_place e = p) (escs db)") (auto simp: current_at_def filter_empty_conv)

definition ws_place :: "ws_row \<Rightarrow> string \<times> string \<times> string" where
  "ws_place r = (ws_cve r, ws_cluster r, ws_namespace r)"

definition ws_rank :: "ws_row \<Rightarrow> int \<times> datetime \<times> nat" where
  "ws_rank r = (ws_level r, ws_triggered_at r, ws_id r)"

lemma ws_row_of_simps [simp]: "ws_place (ws_row_of db e) = esc_place e" "ws_rank (ws_row_of db e) = esc_rank e"
  "ws_id (ws_row_of db e) = esc_id e" "ws_contacted (ws_row_of db e) = esc_contacted db e"
  by (simp_all add: ws_row_of_def ws_place_def ws_rank_def esc_place_def esc_rank_def)

lemma length_filter_split: "length (filter (\<lambda>x. \<not> P x) xs) + length (filter P xs) = length xs"
  by (induction xs) auto

section \<open>Properties\<close>

text \<open>The queue shows every place that has an escalation exactly once, with the escalation of the greatest
  level, trigger time and id there; and the counts that need action and that are contacted add up to the
  total of the search without a contact filter, which without other filters is the dashboard's count.\<close>

theorem workspace_current_rows:
  assumes "distinct (map esc_id (escs db))"
  shows "distinct (map ws_place (current_rows db)) \<and> ws_place ` set (current_rows db) = esc_place ` set (escs db) \<and>
    (\<forall>r \<in> set (current_rows db). \<forall>e \<in> set (escs db). esc_place e = ws_place r \<longrightarrow> esc_rank e \<le> ws_rank r) \<and>
    (case search_active_workspace q None page sz db of (rows, n, needs_action, contacted) \<Rightarrow>
       needs_action + contacted = n) \<and>
    (case search_active_workspace \<lparr>wq_see_all = all, wq_namespaces = nss, wq_cluster = cl, wq_namespace = ns,
         wq_search = None, wq_level = None, wq_email_status = None\<rparr> None page sz db of (rows, n, counts) \<Rightarrow>
       n = count_active_workspace all nss cl ns db)"
proof -
  have "distinct (map ws_place (current_rows db))"
  proof -
    let ?cur = "filter (\<lambda>e. current_at db (esc_place e) = Some e) (escs db)"
    have "inj_on esc_place (set ?cur)" 
    proof (rule inj_onI)
      fix x y assume "x \<in> set ?cur" "y \<in> set ?cur" "esc_place x = esc_place y"
      then have "Some x = Some y" by (metis (mono_tags, lifting) mem_Collect_eq set_filter)
      then show "x = y" by simp
    qed
    moreover have "distinct ?cur" using assms by (simp add: distinct_map)
    ultimately have "distinct (map esc_place ?cur)" by (simp add: distinct_map)
    then show ?thesis by (simp add: current_rows_def comp_def)
  qed
  moreover have "ws_place ` set (current_rows db) = esc_place ` set (escs db)"
  proof
    show "esc_place ` set (escs db) \<subseteq> ws_place ` set (current_rows db)"
    proof
      fix p assume "p \<in> esc_place ` set (escs db)"
      then obtain e where "current_at db p = Some e" using current_at_exists by blast
      then show "p \<in> ws_place ` set (current_rows db)"
        unfolding current_rows_def using current_at_iff [OF assms, of p e] by (force simp: image_iff)
    qed
  qed (auto simp: current_rows_def)
  moreover have "\<forall>r \<in> set (current_rows db). \<forall>e \<in> set (escs db). esc_place e = ws_place r \<longrightarrow> esc_rank e \<le> ws_rank r"
    unfolding current_rows_def using current_at_iff [OF assms] by auto
  ultimately show ?thesis
    by (simp add: search_active_workspace_def Let_def length_filter_split count_active_workspace_def)
qed

lemma add_comment_Inr:
  assumes "add_current_escalation_comment ve u i message content db = Inr (db', c, mails)"
  shows "\<exists>e. e \<in> set (escs db) \<and> esc_id e = i \<and> is_sec_team u \<and>
    map_option esc_id (current_at db (esc_place e)) = Some (esc_id e) \<and> cc_escalation c = Some i \<and>
    escs db' = escs db \<and> cve_comments db' = cve_comments db @ [c]"
proof -
  from assms obtain x p where u: "is_sec_team u"
    and x: "scalar_one_or_none (filter (\<lambda>e. esc_id e = i) (escs db)) = Inr (Some x)"
    and cur: "map_option esc_id (current_at db (esc_place x)) = Some (esc_id x)"
    and p: "prepare_comment db message content = Inr p"
    unfolding add_current_escalation_comment_def handler_Inr by auto
  from cur obtain m where m: "current_at db (esc_place x) = Some m" "esc_id m = esc_id x" by auto
  from x have "x \<in> set (filter (\<lambda>e. esc_id e = i) (escs db))" by (simp add: scalar_one_or_none_Some_iff)
  then have xi: "x \<in> set (escs db) \<and> esc_id x = i" by simp
  define new where "new = \<lparr>cc_id = next_id db, cc_cve = esc_cve x, cc_user = cu_id u, cc_escalation = Some (esc_id x),
      cc_message = pc_message p, cc_segments = Some (pc_segments p), cc_created = db_now db, cc_updated = None\<rparr>"
  from assms obtain db2 ids where
    n: "notify_mention_users ve (pc_recipients p) (user_of u) (comment_link (esc_cve x) (next_id db))
        (''Eskalation '' @ esc_cve x) [] (db\<lparr>next_id := Suc (next_id db), cve_comments := cve_comments db @ [new]\<rparr>)
        = Inr (db2, ids, mails)"
    and c: "c = new" and db': "escs db' = escs db2" "cve_comments db' = cve_comments db2"
    by (auto simp: add_current_escalation_comment_def u x m p fresh_id_def new_def rbind_Inr_iff Let_def)
  have "core db2 = core (db\<lparr>next_id := Suc (next_id db), cve_comments := cve_comments db @ [new]\<rparr>)"
    using notify_mention_users_Inr [OF n] by blast
  from core_eqD(7,18) [OF this] have "escs db2 = escs db" "cve_comments db2 = cve_comments db @ [new]" by simp_all
  with u xi cur c db' show ?thesis by (intro exI [of _ x]) (simp add: new_def)
qed

text \<open>C33: A contact comment is accepted only from the security team and only on the current escalation of its place;
  it is stored linked to that escalation, marks exactly that row of the queue as contacted, and changes no other
  row. On an escalation that a higher level has superseded it is refused with 409.\<close>

theorem contact_comment_marks_current:
  assumes "distinct (map esc_id (escs db))"
  shows "(add_current_escalation_comment ve u i message content db = Inr (db', c, mails) \<longrightarrow>
      is_sec_team u \<and> cc_escalation c = Some i \<and> cve_comments db' = cve_comments db @ [c] \<and>
      i \<in> ws_id ` set (current_rows db) \<and>
      current_rows db' = map (\<lambda>r. if ws_id r = i then r\<lparr>ws_contacted := True\<rparr> else r) (current_rows db)) \<and>
    (is_sec_team u \<and> e \<in> set (escs db) \<and> f \<in> set (escs db) \<and> esc_place f = esc_place e \<and> esc_level e < esc_level f \<longrightarrow>
      add_current_escalation_comment ve u (esc_id e) message content db = Inl (ApiError 409 ''escalation_not_active''))"
proof (rule conjI; rule impI)
  assume "add_current_escalation_comment ve u i message content db = Inr (db', c, mails)"
  from add_comment_Inr [OF this] obtain e where e: "e \<in> set (escs db)" "esc_id e = i" "is_sec_team u"
    "map_option esc_id (current_at db (esc_place e)) = Some (esc_id e)" "cc_escalation c = Some i"
    "escs db' = escs db" "cve_comments db' = cve_comments db @ [c]" by blast
  from e(4) obtain m where m: "current_at db (esc_place e) = Some m" "esc_id m = esc_id e" by auto
  then have "m \<in> set (escs db)" using current_at_iff [OF assms] by blast
  with m e(1) assms have "m = e" by (auto simp: distinct_map dest: inj_onD)
  with m e(1,2) have "i \<in> ws_id ` set (current_rows db)" by (force simp: current_rows_def)
  moreover have cur: "current_at db' p = current_at db p" for p by (simp add: current_at_def e(6))
  have "ws_row_of db' x = (if ws_id (ws_row_of db x) = i then (ws_row_of db x)\<lparr>ws_contacted := True\<rparr> else ws_row_of db x)" for x
    using e(5,7) by (auto simp: ws_row_of_def esc_contacted_def)
  then have "current_rows db' = map (\<lambda>r. if ws_id r = i then r\<lparr>ws_contacted := True\<rparr> else r) (current_rows db)"
    by (simp add: current_rows_def cur e(6))
  ultimately show "is_sec_team u \<and> cc_escalation c = Some i \<and> cve_comments db' = cve_comments db @ [c] \<and>
      i \<in> ws_id ` set (current_rows db) \<and>
      current_rows db' = map (\<lambda>r. if ws_id r = i then r\<lparr>ws_contacted := True\<rparr> else r) (current_rows db)"
    using e by blast
next
  assume h: "is_sec_team u \<and> e \<in> set (escs db) \<and> f \<in> set (escs db) \<and> esc_place f = esc_place e \<and> esc_level e < esc_level f"
  have "map_option esc_id (current_at db (esc_place e)) \<noteq> Some (esc_id e)"
  proof
    assume "map_option esc_id (current_at db (esc_place e)) = Some (esc_id e)"
    then obtain m where m: "current_at db (esc_place e) = Some m" "esc_id m = esc_id e" by auto
    then have m2: "m \<in> set (escs db)" "esc_rank f \<le> esc_rank m" using current_at_iff [OF assms] h by blast+
    with m h assms have "m = e" by (auto simp: distinct_map dest: inj_onD)
    with m2 h show False by (simp add: esc_rank_def less_eq_prod_def)
  qed
  moreover have "filter (\<lambda>x. esc_id x = esc_id e) (escs db) = [e]"
    by (rule filter_key_single [OF assms]) (use h in blast)
  ultimately show "add_current_escalation_comment ve u (esc_id e) message content db = Inl (ApiError 409 ''escalation_not_active'')"
    using h by (simp add: add_current_escalation_comment_def)
qed

text \<open>The upcoming list leaks. When the cluster or namespace a user asks for leaves none of the user's namespaces,
  the empty scope is taken for every namespace, and the user is shown the upcoming escalations of the whole
  installation, the list the security team sees.\<close>

theorem upcoming_scope_leak:
  assumes "\<not> can_see_all_namespaces u" and "has_namespaces u"
    and "narrow_namespaces (cu_namespaces u) cluster namespace = []" and "can_see_all_namespaces sec"
  shows "list_upcoming_escalations P sx u cluster namespace db = list_upcoming_escalations P sx sec None None db"
proof -
  have "upcoming_namespaces sx u cluster namespace = Some []" "upcoming_namespaces sx sec None None = Some []"
    using assms by (simp_all add: upcoming_namespaces_def)
  then show ?thesis by (cases "gsettings db") (simp_all add: list_upcoming_escalations_def)
qed

definition ex_esc :: "nat \<Rightarrow> int \<Rightarrow> escalation" where
  "ex_esc i l = \<lparr>esc_id = i, esc_cve = ''CVE-2024-1'', esc_namespace = ''shop'', esc_cluster = ''c1'', esc_level = l,
     esc_triggered_at = 0, esc_notified = True\<rparr>"

definition ex_queue_db :: app_db where
  "ex_queue_db = ex_db\<lparr>escs := [ex_esc 1 1, ex_esc 2 2]\<rparr>"

lemma ex_queue_simps [simp]: "escs ex_queue_db = [ex_esc 1 1, ex_esc 2 2]" "esc_id (ex_esc i l) = i"
  "esc_level (ex_esc i l) = l" "esc_place (ex_esc i l) = (''CVE-2024-1'', ''c1'', ''shop'')"
  by (simp_all add: ex_queue_db_def ex_esc_def esc_place_def)

theorem workspace_current_rows_witness:
  "distinct (map ws_place (current_rows ex_queue_db)) \<and>
   ws_place ` set (current_rows ex_queue_db) = {(''CVE-2024-1'', ''c1'', ''shop'')}"
  using workspace_current_rows [of ex_queue_db] by simp

theorem contact_comment_marks_current_witness:
  "add_current_escalation_comment (\<lambda>_. None) ex_sec 1 None (Some [InText ''hi'']) ex_queue_db =
     Inl (ApiError 409 ''escalation_not_active'')"
  using contact_comment_marks_current [of ex_queue_db "\<lambda>_. None" ex_sec 1 None "Some [InText ''hi'']" _ _ _
      "ex_esc 1 1" "ex_esc 2 2"] by simp

definition ex_payer :: current_user where
  "ex_payer = ex_member\<lparr>cu_namespaces := [(''pay'', ''c1'')]\<rparr>"

lemma ex_all_cves: "get_all_cves ex_P ex_sx 7 0 w = [ex_cve]"
  by (simp add: get_all_cves_def cves_of_def joined_ex group_by_def ex_cve_data passes_def) (simp add: ex_cve_def)

theorem upcoming_scope_leak_witness:
  "ex_upcoming \<in> set (list_upcoming_escalations ex_P ex_sx ex_payer (Some ''c9'') None
     (ex_esc_db\<lparr>db_now := timedelta_days 5\<rparr>)) \<and>
   get_cves_for_namespaces ex_P ex_sx (cu_namespaces ex_payer) 7 0 {} = []"
proof -
  let ?db = "ex_esc_db\<lparr>db_now := timedelta_days 5\<rparr>"
  have "\<not> can_see_all_namespaces ex_payer" "has_namespaces ex_payer"
    "narrow_namespaces (cu_namespaces ex_payer) (Some ''c9'') None = []"
    by (simp_all add: ex_payer_def ex_member_def can_see_all_namespaces_def is_sec_team_def has_namespaces_def
        narrow_namespaces_def)
  from upcoming_scope_leak [OF this, of ex_sec ex_P ex_sx ?db]
  have "list_upcoming_escalations ex_P ex_sx ex_payer (Some ''c9'') None ?db =
      compute_upcoming_escalations ex_P ?db ex_sx [] ex_esc_settings (timedelta_days 5)"
    by (simp add: list_upcoming_escalations_def upcoming_namespaces_def)
  moreover have "ex_upcoming \<in> set (compute_upcoming_escalations ex_P ?db ex_sx [] ex_esc_settings (timedelta_days 5))"
    by (simp add: compute_upcoming_escalations_def preview_cves_def load_approved_suppression_rules_def
        load_suppression_sets_def ex_esc_settings_def ex_settings_def Let_def ex_all_cves upcoming_of_def
        accepted_ids_def existing_levels_def ex_cve_def ex_rule_picked ex_deadlines ex_upcoming_def ex_esc_db_def
        timedelta_days_def days_of_def day_us_def)
  moreover have "get_cves_for_namespaces ex_P ex_sx (cu_namespaces ex_payer) 7 0 {} = []"
    by (simp add: get_cves_for_namespaces_def cves_of_def joined_ex group_by_def namespace_filter_def ex_payer_def)
  ultimately show ?thesis by simp
qed

end
