(* ===== verification/SuppressionRules.thy ===== *)
theory SuppressionRules
  imports Suppression Subscriptions Examples Tables
begin

text \<open>
  The handlers of suppression rules: \<open>app/routers/suppression_rules.py\<close> with the bodies of
  \<open>app/schemas/suppression_rule.py\<close>. A suppression scope is a \<open>risk_scope\<close> of mode \<open>all\<close> or \<open>namespace\<close>;
  \<open>md5\<close> is the hash of its key. The lemmas show that the active rules are unique per target, so that the
  two partial unique indexes never fire, and that only the security team changes what is suppressed.
\<close>

section \<open>Bodies\<close>

record rule_create =
  nr_type :: supp_type
  nr_component :: "string option"
  nr_version_pattern :: "string option"
  nr_cve :: "string option"
  nr_reason :: string
  nr_url :: "string option"
  nr_scope :: "risk_scope option"

record rule_update =
  ur_reason :: string
  ur_url :: "string option"
  ur_scope :: "risk_scope option"

definition supp_scope_ok :: "risk_scope \<Rightarrow> bool" where
  "supp_scope_ok s \<longleftrightarrow> rs_mode s \<in> {ModeAll, ModeNamespace} \<and> risk_scope_ok s"

text \<open>\<open>CVE-\<close>, four digits, \<open>-\<close>, digits.\<close>

definition cve_id_ok :: "string \<Rightarrow> bool" where
  "cve_id_ok c \<longleftrightarrow> take 4 c = ''CVE-'' \<and> length (take 4 (drop 4 c)) = 4 \<and> list_all is_digit (take 4 (drop 4 c)) \<and>
     take 1 (drop 8 c) = ''-'' \<and> drop 9 c \<noteq> [] \<and> list_all is_digit (drop 9 c)"

definition opt_len_ok :: "nat \<Rightarrow> nat \<Rightarrow> string option \<Rightarrow> bool" where
  "opt_len_ok lo hi x \<longleftrightarrow> (case x of None \<Rightarrow> True | Some v \<Rightarrow> lo \<le> length v \<and> length v \<le> hi)"

text \<open>Validation fills in the scope of a CVE rule.\<close>

definition validate_rule_create :: "rule_create \<Rightarrow> rule_create option" where
  "validate_rule_create b =
     (if \<not> opt_len_ok 1 512 (nr_component b) \<or> \<not> opt_len_ok 1 255 (nr_version_pattern b) \<or>
         \<not> (case nr_cve b of None \<Rightarrow> True | Some c \<Rightarrow> cve_id_ok c) \<or>
         \<not> (10 \<le> length (nr_reason b) \<and> length (nr_reason b) \<le> 5000) \<or> \<not> opt_len_ok 0 2048 (nr_url b) \<or>
         \<not> (case nr_scope b of None \<Rightarrow> True | Some s \<Rightarrow> supp_scope_ok s) then None
      else case nr_type b of
        SuppComponent \<Rightarrow> if \<not> truthy (nr_component b) \<or> nr_scope b \<noteq> None then None else Some b
      | SuppCve \<Rightarrow> if \<not> truthy (nr_cve b) \<or> truthy (nr_component b) \<or> truthy (nr_version_pattern b) then None
          else Some (if nr_scope b = None then b\<lparr>nr_scope := Some \<lparr>rs_mode = ModeAll, rs_targets = []\<rparr>\<rparr> else b))"

section \<open>Handlers\<close>

definition resolve_cve_scope ::
    "(string \<Rightarrow> string) \<Rightarrow> stackrox \<Rightarrow> current_user \<Rightarrow> risk_scope \<Rightarrow> string \<Rightarrow> (risk_scope \<times> string) result" where
  "resolve_cve_scope md5 sx u s cve =
     (let nss = (if can_see_all_namespaces u then list_namespaces sx else cu_namespaces u) in
      rbind (validate_and_resolve_scope s (get_affected_deployments sx cve nss)) (\<lambda>r. Inr (r, scope_key md5 r)))"

definition supp_active :: "supp_status \<Rightarrow> bool" where
  "supp_active s \<longleftrightarrow> s = SuppRequested \<or> s = SuppApproved"

definition active_component_rules :: "string option \<Rightarrow> string option \<Rightarrow> app_db \<Rightarrow> supp_rule list" where
  "active_component_rules c v db =
     filter (\<lambda>r. sr_type r = SuppComponent \<and> sr_component r = c \<and> sr_version_pattern r = v \<and> supp_active (sr_status r)) (rules db)"

definition active_cve_rules :: "string option \<Rightarrow> string \<Rightarrow> app_db \<Rightarrow> supp_rule list" where
  "active_cve_rules cve key db =
     filter (\<lambda>r. sr_type r = SuppCve \<and> sr_cve r = cve \<and> sr_scope_key r = key \<and> supp_active (sr_status r)) (rules db)"

definition load_user :: "app_db \<Rightarrow> string \<Rightarrow> user result" where
  "load_user db uid = scalar_one (filter (\<lambda>x. user_id x = uid) (users db))"

text \<open>The scope that is stored, its key, and the active rules with the same target.\<close>

definition rule_target_rows ::
    "(string \<Rightarrow> string) \<Rightarrow> stackrox \<Rightarrow> current_user \<Rightarrow> rule_create \<Rightarrow> app_db \<Rightarrow>
     (risk_scope \<times> string \<times> supp_rule list) result" where
  "rule_target_rows md5 sx u b db =
     (case nr_type b of
        SuppComponent \<Rightarrow>
          Inr (\<lparr>rs_mode = ModeAll, rs_targets = []\<rparr>, [], active_component_rules (nr_component b) (nr_version_pattern b) db)
      | SuppCve \<Rightarrow>
          (case (nr_cve b, nr_scope b) of
             (Some cve, Some s) \<Rightarrow>
               rbind (resolve_cve_scope md5 sx u s cve) (\<lambda>(r, key). Inr (r, key, active_cve_rules (Some cve) key db))
           | _ \<Rightarrow> Inl (ServerError ''AssertionError'')))"

definition create_suppression_rule ::
    "(string \<Rightarrow> string) \<Rightarrow> stackrox \<Rightarrow> current_user \<Rightarrow> rule_create \<Rightarrow> app_db \<Rightarrow> (app_db \<times> supp_rule) result" where
  "create_suppression_rule md5 sx u b db =
     (let sec = is_sec_team u in
      rbind (rule_target_rows md5 sx u b db) (\<lambda>(scope, key, rows).
      rbind (scalar_one_or_none rows) (\<lambda>existing.
        if existing \<noteq> None then Inl (ApiError 409 ''suppression_duplicate'')
        else
          let (i, db1) = fresh_id db;
              r = \<lparr>sr_id = i, sr_status = (if sec then SuppApproved else SuppRequested), sr_type = nr_type b,
                sr_component = nr_component b, sr_version_pattern = nr_version_pattern b, sr_cve = nr_cve b,
                sr_reason = nr_reason b, sr_url = nr_url b, sr_scope = dump_scope scope, sr_scope_key = key,
                sr_review_comment = None, sr_created_at = db_now db, sr_created_by = cu_id u,
                sr_reviewed_by = (if sec then Some (cu_id u) else None),
                sr_reviewed_at = (if sec then Some (db_now db) else None)\<rparr>;
              db2 = log_action (cu_id u) ''suppression_rule_created'' ''suppression_rule'' (id_str i) []
                (db1\<lparr>rules := rules db1 @ [r]\<rparr>)
          in if sec then Inr (db2, r)
             else rbind (load_user db2 (cu_id u)) (\<lambda>creator.
               rbind (notify_suppression_requested r (user_id creator) (user_display_name creator) db2)
                 (\<lambda>db3. Inr (db3, r))))))"

fun supp_status_of :: "string \<Rightarrow> supp_status option" where
  "supp_status_of s = map_of (map (\<lambda>x. (supp_status_value x, x)) [SuppRequested, SuppApproved, SuppRejected]) s"

definition supp_type_of :: "string \<Rightarrow> supp_type option" where
  "supp_type_of s = (if s = ''component'' then Some SuppComponent else if s = ''cve'' then Some SuppCve else None)"

text \<open>Each rule with the number of deployed CVEs it matches.\<close>

definition with_counts :: "stackrox \<Rightarrow> supp_rule list \<Rightarrow> (supp_rule \<times> nat) list" where
  "with_counts sx rs =
     (let comps = (if list_ex (\<lambda>r. sr_type r = SuppComponent) rs then get_global_component_version_map sx else (\<lambda>_. []));
          counts = compute_per_rule_matched_counts rs (get_all_deployed_cve_ids sx) comps
      in map (\<lambda>r. (r, case counts (sr_id r) of None \<Rightarrow> 0 | Some n \<Rightarrow> n)) rs)"

definition list_suppression_rules ::
    "stackrox \<Rightarrow> string option \<Rightarrow> string option \<Rightarrow> app_db \<Rightarrow> (supp_rule \<times> nat) list result" where
  "list_suppression_rules sx status type db =
     (if truthy status \<and> supp_status_of (the status) = None then Inl (ApiError 400 ''invalid_status'')
      else if truthy type \<and> supp_type_of (the type) = None then Inl (ApiError 400 ''invalid_type'')
      else Inr (with_counts sx (sort_key_rev sr_created_at (filter (\<lambda>r.
        given_text status (\<lambda>s r. supp_status_of s = Some (sr_status r)) r \<and>
        given_text type (\<lambda>t r. supp_type_of t = Some (sr_type r)) r) (rules db)))))"

definition load_rule :: "nat \<Rightarrow> app_db \<Rightarrow> supp_rule result" where
  "load_rule i db =
     rbind (scalar_one_or_none (filter (\<lambda>r. sr_id r = i) (rules db))) (\<lambda>x.
       case x of None \<Rightarrow> Inl (ApiError 404 ''not_found'') | Some r \<Rightarrow> Inr r)"

definition get_suppression_rule :: "stackrox \<Rightarrow> nat \<Rightarrow> app_db \<Rightarrow> (supp_rule \<times> nat) result" where
  "get_suppression_rule sx i db = rbind (load_rule i db) (\<lambda>r. Inr (hd (with_counts sx [r])))"

definition put_rule :: "supp_rule \<Rightarrow> app_db \<Rightarrow> app_db" where
  "put_rule r db = db\<lparr>rules := map (\<lambda>x. if sr_id x = sr_id r then r else x) (rules db)\<rparr>"

text \<open>The new scope and key of an update, if it gives a scope for a CVE rule.\<close>

definition update_scope ::
    "(string \<Rightarrow> string) \<Rightarrow> stackrox \<Rightarrow> current_user \<Rightarrow> rule_update \<Rightarrow> supp_rule \<Rightarrow> app_db \<Rightarrow> supp_rule result" where
  "update_scope md5 sx u b r db =
     (case (ur_scope b, sr_type r, sr_cve r) of
        (Some s, SuppCve, Some cve) \<Rightarrow>
          rbind (resolve_cve_scope md5 sx u s cve) (\<lambda>(sc, key).
            rbind (if key \<noteq> sr_scope_key r
                   then rbind (scalar_one_or_none (filter (\<lambda>x. sr_id x \<noteq> sr_id r) (active_cve_rules (Some cve) key db)))
                     (\<lambda>x. if x \<noteq> None then Inl (ApiError 409 ''suppression_duplicate'') else Inr ())
                   else Inr ())
              (\<lambda>_. Inr (r\<lparr>sr_scope := dump_scope sc, sr_scope_key := key\<rparr>)))
      | _ \<Rightarrow> Inr r)"

definition update_suppression_rule ::
    "(string \<Rightarrow> string) \<Rightarrow> stackrox \<Rightarrow> current_user \<Rightarrow> nat \<Rightarrow> rule_update \<Rightarrow> app_db \<Rightarrow> (app_db \<times> supp_rule) result" where
  "update_suppression_rule md5 sx u i b db =
     rbind (load_rule i db) (\<lambda>r.
       if \<not> is_sec_team u \<and> sr_created_by r \<noteq> cu_id u then Inl (ApiError 403 ''suppression_only_creator_modify'')
       else if \<not> is_sec_team u \<and> sr_status r \<noteq> SuppRequested then Inl (ApiError 400 ''suppression_only_requested_modifiable'')
       else rbind (update_scope md5 sx u b (r\<lparr>sr_reason := ur_reason b, sr_url := ur_url b\<rparr>) db) (\<lambda>r1.
         let reset = (\<not> is_sec_team u \<and> (sr_status r1 = SuppApproved \<or> sr_status r1 = SuppRejected));
             r2 = (if reset then r1\<lparr>sr_status := SuppRequested, sr_reviewed_by := None, sr_reviewed_at := None,
                     sr_review_comment := None\<rparr> else r1);
             db1 = log_action (cu_id u) ''suppression_rule_updated'' ''suppression_rule'' (id_str (sr_id r2)) [] (put_rule r2 db)
         in if reset then rbind (load_user db1 (cu_id u)) (\<lambda>creator.
              rbind (notify_suppression_requested r2 (user_id creator) (user_display_name creator) db1) (\<lambda>db2. Inr (db2, r2)))
            else Inr (db1, r2)))"

definition review_suppression_rule ::
    "current_user \<Rightarrow> nat \<Rightarrow> bool \<Rightarrow> string option \<Rightarrow> app_db \<Rightarrow> (app_db \<times> supp_rule) result" where
  "review_suppression_rule u i approved comment db =
     (if \<not> is_sec_team u then Inl (ApiError 403 ''suppression_sec_team_only_review'')
      else rbind (load_rule i db) (\<lambda>r.
        if sr_status r \<noteq> SuppRequested then Inl (ApiError 400 ''suppression_only_requested_reviewable'')
        else
          let r' = r\<lparr>sr_status := (if approved then SuppApproved else SuppRejected), sr_reviewed_by := Some (cu_id u),
                sr_reviewed_at := Some (db_now db), sr_review_comment := comment\<rparr>;
              db1 = log_action (cu_id u) ''suppression_rule_reviewed'' ''suppression_rule'' (id_str (sr_id r'))
                [(''status'', Some (supp_status_value (sr_status r')))] (put_rule r' db)
          in rbind (load_user db1 (cu_id u)) (\<lambda>reviewer.
            rbind (notify_suppression_status_change r' (user_id reviewer) db1) (\<lambda>db2. Inr (db2, r')))))"

definition delete_suppression_rule :: "current_user \<Rightarrow> nat \<Rightarrow> app_db \<Rightarrow> app_db result" where
  "delete_suppression_rule u i db =
     rbind (load_rule i db) (\<lambda>r.
       if \<not> is_sec_team u \<and> sr_created_by r \<noteq> cu_id u then Inl (ApiError 403 ''suppression_only_creator_withdraw'')
       else if \<not> is_sec_team u \<and> sr_status r \<noteq> SuppRequested then Inl (ApiError 400 ''suppression_only_requested_withdrawable'')
       else let db1 = log_action (cu_id u) ''suppression_rule_deleted'' ''suppression_rule'' (id_str (sr_id r)) [] db in
         Inr (db1\<lparr>rules := filter (\<lambda>x. sr_id x \<noteq> sr_id r) (rules db1)\<rparr>))"

section \<open>The table and its steps\<close>

definition rule_target :: "supp_rule \<Rightarrow> string option \<times> string option + string option \<times> string" where
  "rule_target r = (case sr_type r of SuppComponent \<Rightarrow> Inl (sr_component r, sr_version_pattern r)
     | SuppCve \<Rightarrow> Inr (sr_cve r, sr_scope_key r))"

text \<open>\<open>sec\<close> says which user ids belong to the security team.\<close>

definition rule_ok :: "(string \<Rightarrow> bool) \<Rightarrow> supp_rule \<Rightarrow> bool" where
  "rule_ok sec r \<longleftrightarrow> (case sr_status r of SuppRequested \<Rightarrow> sr_reviewed_by r = None
     | _ \<Rightarrow> \<exists>i. sr_reviewed_by r = Some i \<and> sec i)"

definition rules_ok :: "(string \<Rightarrow> bool) \<Rightarrow> app_db \<Rightarrow> bool" where
  "rules_ok sec db \<longleftrightarrow> table_ok sr_id (\<lambda>r. supp_active (sr_status r)) rule_target (rule_ok sec) (next_id db) (rules db)"

lemma load_rule_Inr: "load_rule i db = Inr r \<Longrightarrow> r \<in> set (rules db) \<and> sr_id r = i"
proof -
  assume "load_rule i db = Inr r"
  then have "filter (\<lambda>r. sr_id r = i) (rules db) = [r]"
    unfolding load_rule_def handler_Inr by (auto simp: scalar_one_or_none_Some_iff)
  then have "r \<in> set (filter (\<lambda>r. sr_id r = i) (rules db))" by simp
  then show ?thesis by simp
qed

lemma put_rule_simps [simp]: "next_id (put_rule r db) = next_id db"
  "rules (put_rule r db) = map (\<lambda>x. if sr_id x = sr_id r then r else x) (rules db)"
  by (simp_all add: put_rule_def)

text \<open>The rows with the target of a rule that is to be created.\<close>

lemma rule_target_eq_iff: "rule_target x = rule_target r \<longleftrightarrow> sr_type x = sr_type r \<and>
   (if sr_type r = SuppComponent then sr_component x = sr_component r \<and> sr_version_pattern x = sr_version_pattern r
    else sr_cve x = sr_cve r \<and> sr_scope_key x = sr_scope_key r)"
  by (cases "sr_type x"; cases "sr_type r") (auto simp: rule_target_def)

lemma rule_target_rows_Inr:
  assumes "rule_target_rows md5 sx u b db = Inr (sc, key, rows)"
    and "sr_type r = nr_type b" "sr_component r = nr_component b" "sr_version_pattern r = nr_version_pattern b"
    "sr_cve r = nr_cve b" "sr_scope_key r = key"
  shows "set rows = {x \<in> set (rules db). rule_target x = rule_target r \<and> supp_active (sr_status x)}"
proof (cases "nr_type b")
  case SuppComponent
  with assms have "rows = active_component_rules (nr_component b) (nr_version_pattern b) db" by (simp add: rule_target_rows_def)
  then show ?thesis
    using SuppComponent assms(2-) by (auto simp: active_component_rules_def rule_target_eq_iff)
next
  case SuppCve
  with assms obtain cve where "nr_cve b = Some cve" "rows = active_cve_rules (Some cve) key db"
    by (auto simp: rule_target_rows_def rbind_Inr_iff split: option.splits)
  then show ?thesis
    using SuppCve assms(2-) by (auto simp: active_cve_rules_def rule_target_eq_iff)
qed

lemma create_rule_Inr:
  assumes "create_suppression_rule md5 sx u b db = Inr (db', r)"
  shows "rules db' = rules db @ [r] \<and> sr_id r = next_id db \<and> next_id db < next_id db' \<and>
    sr_status r = (if is_sec_team u then SuppApproved else SuppRequested) \<and> sr_created_by r = cu_id u \<and>
    sr_reviewed_by r = (if is_sec_team u then Some (cu_id u) else None) \<and>
    (\<forall>x \<in> set (rules db). supp_active (sr_status x) \<longrightarrow> rule_target x \<noteq> rule_target r)"
proof -
  from assms obtain sc key rows where t: "rule_target_rows md5 sx u b db = Inr (sc, key, rows)"
    and none: "scalar_one_or_none rows = Inr None"
    unfolding create_suppression_rule_def rbind_Inr_iff Let_def by (auto simp: rbind_Inr_iff split: if_splits)
  define r0 where "r0 = \<lparr>sr_id = next_id db, sr_status = (if is_sec_team u then SuppApproved else SuppRequested),
      sr_type = nr_type b, sr_component = nr_component b, sr_version_pattern = nr_version_pattern b, sr_cve = nr_cve b,
      sr_reason = nr_reason b, sr_url = nr_url b, sr_scope = dump_scope sc, sr_scope_key = key,
      sr_review_comment = None, sr_created_at = db_now db, sr_created_by = cu_id u,
      sr_reviewed_by = (if is_sec_team u then Some (cu_id u) else None),
      sr_reviewed_at = (if is_sec_team u then Some (db_now db) else None)\<rparr>"
  define db2 where "db2 = log_action (cu_id u) ''suppression_rule_created'' ''suppression_rule'' (id_str (next_id db)) []
      (db\<lparr>next_id := Suc (next_id db), rules := rules db @ [r0]\<rparr>)"
  have c: "create_suppression_rule md5 sx u b db = (if is_sec_team u then Inr (db2, r0)
      else rbind (load_user db2 (cu_id u)) (\<lambda>creator.
        rbind (notify_suppression_requested r0 (user_id creator) (user_display_name creator) db2) (\<lambda>db3. Inr (db3, r0))))"
    using none unfolding create_suppression_rule_def Let_def t
    by (simp add: fresh_id_def db2_def r0_def cong: if_cong)
  have "r = r0 \<and> rules db' = rules db2 \<and> next_id db2 \<le> next_id db'"
    using assms unfolding c
    by (auto simp: rbind_Inr_iff dest: supp_requested.unchanged supp_requested.grows split: if_splits)
  moreover have "set rows = {x \<in> set (rules db). rule_target x = rule_target r0 \<and> supp_active (sr_status x)}"
    by (rule rule_target_rows_Inr [OF t]) (simp_all add: r0_def)
  ultimately show ?thesis using none by (auto simp: db2_def r0_def)
qed


text \<open>An update by a member leaves the status alone: it is requested, and the branch that resets it is never taken.\<close>

lemma update_scope_Inr:
  assumes "update_scope md5 sx u b r db = Inr r1"
  shows "sr_id r1 = sr_id r \<and> sr_status r1 = sr_status r \<and> sr_reviewed_by r1 = sr_reviewed_by r \<and>
    sr_type r1 = sr_type r \<and> sr_cve r1 = sr_cve r \<and> sr_component r1 = sr_component r \<and>
    sr_version_pattern r1 = sr_version_pattern r \<and>
    (rule_target r1 = rule_target r \<or>
     (\<forall>x \<in> set (rules db). sr_id x \<noteq> sr_id r \<and> supp_active (sr_status x) \<longrightarrow> rule_target x \<noteq> rule_target r1))"
proof (cases "(ur_scope b, sr_type r, sr_cve r)" rule: prod_cases3)
  case (fields a t c)
  show ?thesis
  proof (cases "\<exists>s cve. a = Some s \<and> t = SuppCve \<and> c = Some cve")
    case False
    with assms fields have "r1 = r" by (auto simp: update_scope_def split: option.splits supp_type.splits)
    then show ?thesis by simp
  next
    case True
    with fields obtain s cve where f: "ur_scope b = Some s" "sr_type r = SuppCve" "sr_cve r = Some cve" by auto
    with assms obtain sc key where res: "resolve_cve_scope md5 sx u s cve = Inr (sc, key)"
      by (auto simp: update_scope_def rbind_Inr_iff)
    have r1: "r1 = r\<lparr>sr_scope := dump_scope sc, sr_scope_key := key\<rparr>"
      using assms f res by (auto simp: update_scope_def rbind_Inr_iff split: if_splits)
    have "filter (\<lambda>x. sr_id x \<noteq> sr_id r) (active_cve_rules (Some cve) key db) = []" if "key \<noteq> sr_scope_key r"
      using assms f res that by (auto simp: update_scope_def rbind_Inr_iff split: if_splits)
    then show ?thesis
      using f r1 by (auto simp: rule_target_eq_iff active_cve_rules_def filter_empty_conv)
  qed
qed

lemma update_rule_Inr:
  assumes "update_suppression_rule md5 sx u i b db = Inr (db', r)"
  shows "\<exists>r0 \<in> set (rules db). sr_id r = sr_id r0 \<and> sr_status r = sr_status r0 \<and> sr_reviewed_by r = sr_reviewed_by r0 \<and>
    (\<not> is_sec_team u \<longrightarrow> sr_status r0 = SuppRequested \<and> sr_created_by r0 = cu_id u) \<and>
    (rule_target r = rule_target r0 \<or>
     (\<forall>x \<in> set (rules db). sr_id x \<noteq> sr_id r \<and> supp_active (sr_status x) \<longrightarrow> rule_target x \<noteq> rule_target r)) \<and>
    rules db' = rules (put_rule r db) \<and> next_id db' = next_id db"
proof -
  from assms obtain r0 where l: "load_rule i db = Inr r0" by (auto simp: update_suppression_rule_def rbind_Inr_iff)
  define ru where "ru = r0\<lparr>sr_reason := ur_reason b, sr_url := ur_url b\<rparr>"
  from assms l obtain r1 where g: "\<not> is_sec_team u \<longrightarrow> sr_created_by r0 = cu_id u \<and> sr_status r0 = SuppRequested"
    and s: "update_scope md5 sx u b ru db = Inr r1"
    by (auto simp: update_suppression_rule_def rbind_Inr_iff ru_def split: if_splits)
  note s1 = update_scope_Inr [OF s]
  have no: "(\<not> is_sec_team u \<and> (sr_status r1 = SuppApproved \<or> sr_status r1 = SuppRejected)) = False"
    using g s1 by (auto simp: ru_def)
  have "db' = log_action (cu_id u) ''suppression_rule_updated'' ''suppression_rule'' (id_str (sr_id r1)) [] (put_rule r1 db) \<and> r = r1"
    using assms g unfolding update_suppression_rule_def Let_def by (auto simp: l s [unfolded ru_def] no split: if_splits)
  moreover have "rule_target ru = rule_target r0" by (simp add: ru_def rule_target_eq_iff)
  ultimately show ?thesis
    using load_rule_Inr [OF l] g s1 by (intro bexI [of _ r0]) (auto simp: ru_def)
qed

lemma review_rule_Inr:
  assumes "review_suppression_rule u i ap c db = Inr (db', r)"
  shows "is_sec_team u \<and> (\<exists>r0 \<in> set (rules db). sr_id r = sr_id r0 \<and> sr_status r0 = SuppRequested \<and>
    rule_target r = rule_target r0 \<and> sr_status r = (if ap then SuppApproved else SuppRejected) \<and> sr_reviewed_by r = Some (cu_id u) \<and>
    rules db' = rules (put_rule r db) \<and> next_id db \<le> next_id db')"
proof -
  from assms obtain r0 where l: "load_rule i db = Inr r0" and g: "is_sec_team u" "sr_status r0 = SuppRequested"
    by (auto simp: review_suppression_rule_def rbind_Inr_iff split: if_splits)
  define r' where "r' = r0\<lparr>sr_status := (if ap then SuppApproved else SuppRejected), sr_reviewed_by := Some (cu_id u),
      sr_reviewed_at := Some (db_now db), sr_review_comment := c\<rparr>"
  define db1 where "db1 = log_action (cu_id u) ''suppression_rule_reviewed'' ''suppression_rule'' (id_str (sr_id r'))
      [(''status'', Some (supp_status_value (sr_status r')))] (put_rule r' db)"
  have "rbind (load_user db1 (cu_id u)) (\<lambda>reviewer.
      rbind (notify_suppression_status_change r' (user_id reviewer) db1) (\<lambda>db2. Inr (db2, r'))) = Inr (db', r)"
    using assms g unfolding review_suppression_rule_def Let_def l r'_def db1_def by simp
  then obtain reviewer :: user where n: "notify_suppression_status_change r (user_id reviewer) db1 = Inr db'" and r: "r = r'"
    by (auto simp: rbind_Inr_iff)
  have "rule_target r = rule_target r0" unfolding r r'_def by (simp add: rule_target_eq_iff)
  then show ?thesis
    using load_rule_Inr [OF l] g r r'_def db1_def supp_status.unchanged [OF n] supp_status.grows [OF n]
    by (intro conjI bexI [of _ r0]) auto
qed

lemma delete_rule_Inr:
  assumes "delete_suppression_rule u i db = Inr db'"
  shows "next_id db' = next_id db \<and> (\<exists>r0 \<in> set (rules db). rules db' = filter (\<lambda>x. sr_id x \<noteq> sr_id r0) (rules db) \<and>
    (\<not> is_sec_team u \<longrightarrow> sr_status r0 = SuppRequested \<and> sr_created_by r0 = cu_id u))"
  using assms unfolding delete_suppression_rule_def rbind_Inr_iff Let_def
  by (auto dest!: load_rule_Inr split: if_splits)


section \<open>Steps and reachable databases\<close>

text \<open>A request by a user, of whatever role.\<close>

inductive rule_step :: "(string \<Rightarrow> string) \<Rightarrow> current_user \<Rightarrow> app_db \<Rightarrow> app_db \<Rightarrow> bool" for md5 u where
  create: "create_suppression_rule md5 sx u b db = Inr (db', r) \<Longrightarrow> rule_step md5 u db db'"
| update: "update_suppression_rule md5 sx u i b db = Inr (db', r) \<Longrightarrow> rule_step md5 u db db'"
| review: "review_suppression_rule u i ap c db = Inr (db', r) \<Longrightarrow> rule_step md5 u db db'"
| delete: "delete_suppression_rule u i db = Inr db' \<Longrightarrow> rule_step md5 u db db'"

text \<open>\<open>sec\<close> holds the ids of the users who act as security team at some time; roles may change in between.\<close>

inductive rule_reachable :: "(string \<Rightarrow> string) \<Rightarrow> (string \<Rightarrow> bool) \<Rightarrow> app_db \<Rightarrow> bool" for md5 sec where
  start: "rules db = [] \<Longrightarrow> rule_reachable md5 sec db"
| step: "rule_reachable md5 sec db \<Longrightarrow> rule_step md5 u db db' \<Longrightarrow> (is_sec_team u \<longrightarrow> sec (cu_id u)) \<Longrightarrow> rule_reachable md5 sec db'"
| elsewhere: "rule_reachable md5 sec db \<Longrightarrow> rules db' = rules db \<Longrightarrow> next_id db \<le> next_id db' \<Longrightarrow> rule_reachable md5 sec db'"

lemma put_rule_ok:
  assumes ok: "rules_ok sec db" and r0: "r0 \<in> set (rules db)" and r: "sr_id r = sr_id r0" "rule_ok sec r"
    and same: "rule_target r = rule_target r0 \<and> (supp_active (sr_status r) \<longrightarrow> supp_active (sr_status r0)) \<or>
      (\<forall>x \<in> set (rules db). sr_id x \<noteq> sr_id r \<and> supp_active (sr_status x) \<longrightarrow> rule_target x \<noteq> rule_target r)"
    and db': "rules db' = rules (put_rule r db)" "next_id db \<le> next_id db'"
  shows "rules_ok sec db'"
  unfolding rules_ok_def db'(1) put_rule_simps
proof (rule table_ok_replace [OF ok [unfolded rules_ok_def] db'(2) r0 r])
  fix x assume x: "x \<in> set (rules db)" "sr_id x \<noteq> sr_id r" "supp_active (sr_status x)" "supp_active (sr_status r)"
  from same show "rule_target x \<noteq> rule_target r"
    using x r(1) table_okD(4) [OF ok [unfolded rules_ok_def] x(1) r0 x(3)] by auto
qed

lemma rule_step_ok:
  "rule_step md5 u db db' \<Longrightarrow> (is_sec_team u \<longrightarrow> sec (cu_id u)) \<Longrightarrow> rules_ok sec db \<Longrightarrow> rules_ok sec db'"
proof (induction rule: rule_step.induct)
  case (create sx b db db' r)
  note c = create_rule_Inr [OF create(1)]
  then have "rule_ok sec r" using create(2) by (auto simp: rule_ok_def)
  then show ?case
    unfolding rules_ok_def c [THEN conjunct1]
    by (intro table_ok_insert [OF create(3) [unfolded rules_ok_def]]) (use c in auto)
next
  case (update sx i b db db' r)
  from update_rule_Inr [OF update(1)] obtain r0 where r0: "r0 \<in> set (rules db)" "sr_id r = sr_id r0"
    "sr_status r = sr_status r0" "sr_reviewed_by r = sr_reviewed_by r0"
    "rule_target r = rule_target r0 \<or>
     (\<forall>x \<in> set (rules db). sr_id x \<noteq> sr_id r \<and> supp_active (sr_status x) \<longrightarrow> rule_target x \<noteq> rule_target r)"
    "rules db' = rules (put_rule r db)" "next_id db' = next_id db" by blast
  have "rule_ok sec r"
    using table_okD(2) [OF update(3) [unfolded rules_ok_def] r0(1)] r0(3,4)
    by (cases "sr_status r0") (simp_all add: rule_ok_def)
  then show ?case by (rule put_rule_ok [OF update(3) r0(1,2) _ _ r0(6)]) (use r0 in auto)
next
  case (review i ap c db db' r)
  from review_rule_Inr [OF review(1)] obtain r0 where r0: "is_sec_team u" "r0 \<in> set (rules db)" "sr_id r = sr_id r0"
    "sr_status r0 = SuppRequested" "rule_target r = rule_target r0" "sr_status r = (if ap then SuppApproved else SuppRejected)"
    "sr_reviewed_by r = Some (cu_id u)" "rules db' = rules (put_rule r db)" "next_id db \<le> next_id db'" by blast
  have "rule_ok sec r" using r0 review(2) by (auto simp: rule_ok_def)
  then show ?case by (rule put_rule_ok [OF review(3) r0(2,3) _ _ r0(8,9)]) (use r0 in \<open>auto simp: supp_active_def\<close>)
next
  case (delete i db db')
  from delete_rule_Inr [OF delete(1)] delete(3) show ?case
    by (auto simp: rules_ok_def intro: table_ok_filter)
qed

lemma reachable_rules_ok: "rule_reachable md5 sec db \<Longrightarrow> rules_ok sec db"
proof (induction rule: rule_reachable.induct)
  case (step db u db')
  then show ?case by (blast intro: rule_step_ok)
next
  case (elsewhere db db')
  then show ?case by (auto simp: rules_ok_def intro: table_ok_mono)
qed (simp add: rules_ok_def)


lemma approved_rules_cong:
  assumes "filter (\<lambda>r. sr_status r = SuppApproved) (rules db') = filter (\<lambda>r. sr_status r = SuppApproved) (rules db)"
  shows "load_approved_suppression_rules db' = load_approved_suppression_rules db"
proof -
  have "filter (\<lambda>r. sr_type r = t \<and> sr_status r = SuppApproved) (filter (\<lambda>r. sr_status r \<in> {SuppApproved, SuppRequested}) (rules d)) =
      filter (\<lambda>r. sr_type r = t) (filter (\<lambda>r. sr_status r = SuppApproved) (rules d))" for t d
    by (auto intro: filter_cong)
  note split = this
  have "load_approved_suppression_rules d =
      (filter (\<lambda>r. sr_type r = SuppCve) (filter (\<lambda>r. sr_status r = SuppApproved) (rules d)),
       filter (\<lambda>r. sr_type r = SuppComponent) (filter (\<lambda>r. sr_status r = SuppApproved) (rules d)))" for d
    unfolding split [symmetric] by (simp add: load_approved_suppression_rules_def load_suppression_sets_def Let_def)
  note e = this
  show ?thesis by (simp only: e assms)
qed

lemma filter_map_put:
  assumes "\<And>x. x \<in> set xs \<Longrightarrow> key x = k \<Longrightarrow> \<not> P x" and "\<not> P r"
  shows "filter P (map (\<lambda>x. if key x = k then r else x) xs) = filter P xs"
  using assms by (induction xs) auto

lemma filter_drop:
  assumes "\<And>x. x \<in> set xs \<Longrightarrow> key x = k \<Longrightarrow> \<not> P x"
  shows "filter P (filter (\<lambda>x. key x \<noteq> k) xs) = filter P xs"
  using assms by (induction xs) auto

section \<open>Properties\<close>

text \<open>C22: In every reachable database the rules have distinct ids, two rules that are requested or approved never
  have the same target (the component and version pattern, or the CVE and scope key), a requested rule has no
  reviewer, and every approved or rejected rule was decided by a member of the security team.\<close>

theorem suppression_rules_invariant:
  assumes "rule_reachable md5 sec db"
  shows "distinct (map sr_id (rules db)) \<and>
    (\<forall>x \<in> set (rules db). \<forall>y \<in> set (rules db). supp_active (sr_status x) \<and> supp_active (sr_status y) \<and>
       rule_target x = rule_target y \<longrightarrow> x = y) \<and>
    (\<forall>r \<in> set (rules db). if sr_status r = SuppRequested then sr_reviewed_by r = None
       else \<exists>i. sr_reviewed_by r = Some i \<and> sec i)"
proof -
  note ok = reachable_rules_ok [OF assms, unfolded rules_ok_def]
  have "if sr_status r = SuppRequested then sr_reviewed_by r = None else \<exists>i. sr_reviewed_by r = Some i \<and> sec i"
    if "r \<in> set (rules db)" for r
    using table_okD(2) [OF ok that] by (cases "sr_status r") (simp_all add: rule_ok_def)
  with table_okD(1,4) [OF ok] show ?thesis by blast
qed

definition ex_rule_body :: rule_create where
  "ex_rule_body = \<lparr>nr_type = SuppComponent, nr_component = Some ''openssl'', nr_version_pattern = Some ''1.*'',
     nr_cve = None, nr_reason = ''not reachable'', nr_url = None, nr_scope = None\<rparr>"

lemma ex_rule_create:
  "\<exists>db' r. create_suppression_rule md5 sx ex_sec ex_rule_body ex_db = Inr (db', r) \<and> sr_status r = SuppApproved"
  by (simp add: create_suppression_rule_def rule_target_rows_def ex_rule_body_def active_component_rules_def Let_def fresh_id_def)

theorem suppression_rules_invariant_witness:
  "\<exists>db'. rule_reachable id (\<lambda>i. i = ''s1'') db' \<and> rules db' \<noteq> [] \<and> distinct (map sr_id (rules db'))"
proof -
  obtain db' r where c: "create_suppression_rule id ex_sx ex_sec ex_rule_body ex_db = Inr (db', r)" using ex_rule_create by blast
  have "rule_reachable id (\<lambda>i. i = ''s1'') db'"
    by (rule rule_reachable.step [OF rule_reachable.start rule_step.create [OF c]]) (simp_all add: ex_sec_def)
  moreover have "rules db' \<noteq> []" using create_rule_Inr [OF c] by auto
  ultimately show ?thesis using suppression_rules_invariant by blast
qed

text \<open>C17: Nothing a user outside the security team does to the rules changes what is suppressed: in every reachable
  database a step of such a user leaves the approved rules of both kinds, which the CVE list, the escalations and
  the preview apply, exactly as they were.\<close>

theorem member_cannot_change_suppression:
  assumes "rule_reachable md5 sec db" and "rule_step md5 u db db'" and "\<not> is_sec_team u"
  shows "load_approved_suppression_rules db' = load_approved_suppression_rules db"
proof -
  note ok = reachable_rules_ok [OF assms(1), unfolded rules_ok_def]
  have "filter (\<lambda>r. sr_status r = SuppApproved) (rules db') = filter (\<lambda>r. sr_status r = SuppApproved) (rules db)"
    using assms(2)
  proof cases
    case (create sx b r)
    from create_rule_Inr [OF create] assms(3) show ?thesis by simp
  next
    case (update sx i b r)
    from update_rule_Inr [OF update] obtain r0 where r0: "r0 \<in> set (rules db)" "sr_id r = sr_id r0"
      "sr_status r = sr_status r0" "\<not> is_sec_team u \<longrightarrow> sr_status r0 = SuppRequested"
      "rules db' = rules (put_rule r db)" by blast
    have "x = r0" if "x \<in> set (rules db)" "sr_id x = sr_id r" for x
      using table_key_eq [OF ok that(1) r0(1)] that(2) r0(2) by simp
    then show ?thesis
      unfolding r0(5) put_rule_simps using r0(3,4) assms(3) by (intro filter_map_put) auto
  next
    case (review i ap c r)
    from review_rule_Inr [OF review] assms(3) show ?thesis by simp
  next
    case (delete i)
    from delete_rule_Inr [OF delete] obtain r0 where r0: "r0 \<in> set (rules db)"
      "\<not> is_sec_team u \<longrightarrow> sr_status r0 = SuppRequested" "rules db' = filter (\<lambda>x. sr_id x \<noteq> sr_id r0) (rules db)" by blast
    have "sr_status x \<noteq> SuppApproved" if "x \<in> set (rules db)" "sr_id x = sr_id r0" for x
      using table_key_eq [OF ok that(1) r0(1)] that(2) r0(2) assms(3) by simp
    then show ?thesis unfolding r0(3) by (intro filter_drop)
  qed
  then show ?thesis by (rule approved_rules_cong)
qed

definition ex_rule_db :: app_db where
  "ex_rule_db = ex_db\<lparr>users := [\<lparr>user_id = ''u1'', username = ''ann'', full_name = None, email = ''ann@x'', role = TeamMember\<rparr>]\<rparr>"

lemma ex_rule_request: "\<exists>db' r. create_suppression_rule md5 sx ex_member ex_rule_body ex_rule_db = Inr (db', r)"
  by (simp add: create_suppression_rule_def rule_target_rows_def ex_rule_body_def active_component_rules_def Let_def
      fresh_id_def load_user_def ex_rule_db_def ex_member_def is_sec_team_def scalar_one_def)
    (metis notify_total(9) rbind_simps(2))

theorem member_cannot_change_suppression_witness:
  "\<exists>db'. rule_step id ex_member ex_rule_db db' \<and> rules db' \<noteq> rules ex_rule_db \<and>
     load_approved_suppression_rules db' = load_approved_suppression_rules ex_rule_db"
proof -
  obtain db' r where c: "create_suppression_rule id ex_sx ex_member ex_rule_body ex_rule_db = Inr (db', r)"
    using ex_rule_request by blast
  have s: "rule_step id ex_member ex_rule_db db'" by (rule rule_step.create [OF c])
  have "rule_reachable id (\<lambda>_. False) ex_rule_db" by (rule rule_reachable.start) (simp add: ex_rule_db_def)
  from member_cannot_change_suppression [OF this s ex_user_simps(3)] s show ?thesis
    using create_rule_Inr [OF c] by auto
qed

end
