(* ===== verification/NamespaceAccess.thy ===== *)
theory NamespaceAccess
  imports Prelude
begin

text \<open>
  Cross-cluster namespace access: \<open>app/stackrox/namespace_access.py\<close> and its query in
  \<open>app/stackrox/queries/mappings.py\<close>. The snapshot of the annotations is process state; the outcome of the
  query on Central (\<open>None\<close> when it fails or times out) and the monotonic clock in seconds are arguments.
  The lock around a load is not modelled: a load is one step. A \<open>frozenset\<close> is the list of its elements.
\<close>

section \<open>Annotations\<close>

record ns_row =
  nsr_cluster :: string
  nsr_name :: string
  nsr_annotations :: "(string \<times> string) list"

record access_row =
  aw_cluster :: string
  aw_namespace :: string
  aw_users :: "string option"
  aw_groups :: "string option"

definition get_namespace_access_annotations ::
    "ns_row list \<Rightarrow> string list \<Rightarrow> string \<Rightarrow> string \<Rightarrow> access_row list" where
  "get_namespace_access_annotations tbl clusters user_key group_key =
     map (\<lambda>r. \<lparr>aw_cluster = nsr_cluster r, aw_namespace = nsr_name r, aw_users = map_of (nsr_annotations r) user_key,
         aw_groups = map_of (nsr_annotations r) group_key\<rparr>)
       (filter (\<lambda>r. nsr_cluster r \<in> set clusters \<and>
          (user_key \<in> fst ` set (nsr_annotations r) \<or> group_key \<in> fst ` set (nsr_annotations r))) tbl)"

section \<open>Clusters that trust each other\<close>

definition clean_names :: "string list \<Rightarrow> string list" where
  "clean_names names = filter (\<lambda>n. n \<noteq> []) (map py_strip names)"

definition configured_clusters :: "string list list \<Rightarrow> string list" where
  "configured_clusters sets = sorted_set (concat (map clean_names sets))"

definition peer_clusters :: "string \<Rightarrow> string list list \<Rightarrow> string list" where
  "peer_clusters origin sets =
     (let o' = py_strip origin in
      if o' = [] then []
      else filter (\<lambda>n. n \<noteq> o') (remdups (concat (filter (\<lambda>names. o' \<in> set names) (map clean_names sets)))))"

section \<open>The snapshot\<close>

definition split_names :: "string option \<Rightarrow> string list" where
  "split_names raw =
     (if \<not> truthy raw then [] else map py_lower (clean_names (py_split (CHR '','') (the raw))))"

record cluster_access =
  ca_users :: "string \<rightharpoonup> string list"
  ca_groups :: "string \<rightharpoonup> string list"

record access_index =
  ai_clusters :: "string \<rightharpoonup> cluster_access"
  ai_loaded_at :: num

text \<open>\<open>dict.get(key, frozenset())\<close>.\<close>

definition look :: "(string \<rightharpoonup> string list) \<Rightarrow> string \<Rightarrow> string list" where
  "look m k = (case m k of None \<Rightarrow> [] | Some ns \<Rightarrow> ns)"

fun annotate :: "string \<Rightarrow> string list \<Rightarrow> (string \<rightharpoonup> string list) \<Rightarrow> string \<rightharpoonup> string list" where
  "annotate ns [] m = m"
| "annotate ns (name # names) m = annotate ns names (m(name \<mapsto> List.insert ns (look m name)))"

definition add_names ::
    "string \<Rightarrow> string \<Rightarrow> string list \<Rightarrow> (string \<rightharpoonup> string \<rightharpoonup> string list) \<Rightarrow> string \<rightharpoonup> string \<rightharpoonup> string list" where
  "add_names cl ns names m =
     (if names = [] then m
      else m(cl \<mapsto> annotate ns names (case m cl of None \<Rightarrow> Map.empty | Some a \<Rightarrow> a)))"

definition index_row ::
    "access_row \<Rightarrow> (string \<rightharpoonup> string \<rightharpoonup> string list) \<times> (string \<rightharpoonup> string \<rightharpoonup> string list) \<Rightarrow>
     (string \<rightharpoonup> string \<rightharpoonup> string list) \<times> (string \<rightharpoonup> string \<rightharpoonup> string list)" where
  "index_row r = (\<lambda>(us, gs).
     if aw_cluster r = [] \<or> aw_namespace r = [] then (us, gs)
     else (add_names (aw_cluster r) (aw_namespace r) (split_names (aw_users r)) us,
           add_names (aw_cluster r) (aw_namespace r) (split_names (aw_groups r)) gs))"

definition build_access_index :: "access_row list \<Rightarrow> num \<Rightarrow> access_index" where
  "build_access_index rows loaded_at =
     (let (us, gs) = fold index_row rows (Map.empty, Map.empty);
          part = (\<lambda>m cl. case m cl of None \<Rightarrow> Map.empty | Some a \<Rightarrow> a)
      in \<lparr>ai_clusters = (\<lambda>cl. if us cl = None \<and> gs cl = None then None
            else Some \<lparr>ca_users = part us cl, ca_groups = part gs cl\<rparr>),
          ai_loaded_at = loaded_at\<rparr>)"

definition namespaces_for :: "access_index \<Rightarrow> string list \<Rightarrow> string \<Rightarrow> string list \<Rightarrow> pair list" where
  "namespaces_for idx peers user groups =
     (let user_key = py_lower (py_strip user);
          group_keys = map py_lower (clean_names groups);
          found = (\<lambda>cl. case ai_clusters idx cl of None \<Rightarrow> []
            | Some a \<Rightarrow> look (ca_users a) user_key @ concat (map (look (ca_groups a)) group_keys))
      in sort_key (\<lambda>(n, c). (c, n)) (remdups [(n, c). c \<leftarrow> peers, n \<leftarrow> found c]))"

section \<open>Process state\<close>

definition refresh_interval :: num where "refresh_interval = 300"
definition error_retry :: num where "error_retry = 30"
definition max_staleness :: num where "max_staleness = 3 * refresh_interval"
definition load_retry :: num where "load_retry = 30"
definition stale_warning_interval :: num where "stale_warning_interval = 60"

record access_state =
  as_index :: "access_index option"
  as_failed_at :: "num option"
  as_warned_at :: "num option"

record access_cfg =
  ac_sets :: "string list list"
  ac_user_key :: string
  ac_group_key :: string

definition reset_namespace_access :: access_state where
  "reset_namespace_access = \<lparr>as_index = None, as_failed_at = None, as_warned_at = None\<rparr>"

definition set_namespace_access :: "access_row list \<Rightarrow> num \<Rightarrow> access_state \<Rightarrow> access_state" where
  "set_namespace_access rows now st =
     st\<lparr>as_index := Some (build_access_index rows now), as_failed_at := None\<rparr>"

definition refresh_namespace_access :: "access_cfg \<Rightarrow> ns_row list \<Rightarrow> num \<Rightarrow> access_state \<Rightarrow> access_state" where
  "refresh_namespace_access cf tbl now st =
     set_namespace_access (get_namespace_access_annotations tbl (configured_clusters (ac_sets cf)) (ac_user_key cf)
       (ac_group_key cf)) now st"

text \<open>One round of the refresh loop: the new state and the delay before the next round.\<close>

definition refresh_round :: "access_cfg \<Rightarrow> ns_row list option \<Rightarrow> num \<Rightarrow> access_state \<Rightarrow> access_state \<times> num" where
  "refresh_round cf tbl now st =
     (case tbl of None \<Rightarrow> (st, error_retry) | Some t \<Rightarrow> (refresh_namespace_access cf t now st, refresh_interval))"

definition recent_failure :: "num \<Rightarrow> access_state \<Rightarrow> bool" where
  "recent_failure now st \<longleftrightarrow> (case as_failed_at st of None \<Rightarrow> False | Some t \<Rightarrow> now - t < load_retry)"

definition load_on_demand ::
    "access_cfg \<Rightarrow> ns_row list option \<Rightarrow> num \<Rightarrow> access_state \<Rightarrow> access_index option \<times> access_state" where
  "load_on_demand cf tbl now st =
     (if recent_failure now st then (None, st)
      else if as_index st \<noteq> None then (as_index st, st)
      else case tbl of None \<Rightarrow> (None, st\<lparr>as_failed_at := Some now\<rparr>)
        | Some t \<Rightarrow> let st' = refresh_namespace_access cf t now st in (as_index st', st'))"

definition is_stale :: "access_index \<Rightarrow> num \<Rightarrow> access_state \<Rightarrow> bool \<times> access_state" where
  "is_stale idx now st =
     (if now - ai_loaded_at idx \<le> max_staleness then (False, st)
      else (True, case as_warned_at st of
          None \<Rightarrow> st\<lparr>as_warned_at := Some now\<rparr>
        | Some t \<Rightarrow> if stale_warning_interval \<le> now - t then st\<lparr>as_warned_at := Some now\<rparr> else st))"

definition resolve_cross_cluster_namespaces ::
    "access_cfg \<Rightarrow> ns_row list option \<Rightarrow> num \<Rightarrow> string \<Rightarrow> string \<Rightarrow> string list \<Rightarrow> access_state \<Rightarrow>
     pair list \<times> access_state" where
  "resolve_cross_cluster_namespaces cf tbl now origin user groups st =
     (let peers = peer_clusters origin (ac_sets cf) in
      if peers = [] then ([], st)
      else let (snapshot, st1) = (if as_index st = None then load_on_demand cf tbl now st else (as_index st, st)) in
        case snapshot of None \<Rightarrow> ([], st1)
        | Some idx \<Rightarrow> let (stale, st2) = is_stale idx now st1 in
            if stale then ([], st2) else (namespaces_for idx peers user groups, st2))"

section \<open>What the index holds\<close>

definition look2 :: "(string \<rightharpoonup> string \<rightharpoonup> string list) \<Rightarrow> string \<Rightarrow> string \<Rightarrow> string list" where
  "look2 m cl = look (case m cl of None \<Rightarrow> Map.empty | Some a \<Rightarrow> a)"

lemma look_empty [simp]: "look Map.empty k = []" "look2 Map.empty cl k = []"
  by (simp_all add: look_def look2_def)

lemma look_upd [simp]: "look (m(a \<mapsto> xs)) k = (if k = a then xs else look m k)"
  by (simp add: look_def)

lemma set_look_annotate:
  "set (look (annotate ns names m) k) = set (look m k) \<union> (if k \<in> set names then {ns} else {})"
  by (induction names arbitrary: m) auto

lemma set_look2_add:
  "set (look2 (add_names c ns names m) cl k) =
   set (look2 m cl k) \<union> (if cl = c \<and> k \<in> set names then {ns} else {})"
  by (auto simp: add_names_def look2_def set_look_annotate)

lemma fold_index_row:
  assumes "fold index_row rows (us, gs) = (us', gs')"
  shows "set (look2 us' cl k) = set (look2 us cl k) \<union>
      {aw_namespace r |r. r \<in> set rows \<and> aw_cluster r = cl \<and> cl \<noteq> [] \<and> aw_namespace r \<noteq> [] \<and> k \<in> set (split_names (aw_users r))}"
    and "set (look2 gs' cl k) = set (look2 gs cl k) \<union>
      {aw_namespace r |r. r \<in> set rows \<and> aw_cluster r = cl \<and> cl \<noteq> [] \<and> aw_namespace r \<noteq> [] \<and> k \<in> set (split_names (aw_groups r))}"
  using assms
proof (induction rows arbitrary: us gs)
  case (Cons r rows)
  {
    case 1
    then show ?case using Cons.IH(1) [of "fst (index_row r (us, gs))" "snd (index_row r (us, gs))"]
      by (auto simp: index_row_def set_look2_add split: if_splits)
  next
    case 2
    then show ?case using Cons.IH(2) [of "fst (index_row r (us, gs))" "snd (index_row r (us, gs))"]
      by (auto simp: index_row_def set_look2_add split: if_splits)
  }
qed auto

lemma in_namespaces_for:
  "(n, c) \<in> set (namespaces_for (build_access_index rows t) peers user groups) \<longleftrightarrow>
   c \<in> set peers \<and> c \<noteq> [] \<and> n \<noteq> [] \<and>
   (\<exists>r \<in> set rows. aw_cluster r = c \<and> aw_namespace r = n \<and>
      (py_lower (py_strip user) \<in> set (split_names (aw_users r)) \<or>
       (\<exists>g \<in> set (clean_names groups). py_lower g \<in> set (split_names (aw_groups r)))))"
proof -
  obtain us gs where f: "fold index_row rows (Map.empty, Map.empty) = (us, gs)" by fastforce
  have found: "set (case ai_clusters (build_access_index rows t) cl of None \<Rightarrow> []
      | Some a \<Rightarrow> look (ca_users a) k @ concat (map (look (ca_groups a)) ks)) =
      set (look2 us cl k) \<union> (\<Union>g \<in> set ks. set (look2 gs cl g))" for cl k ks
    by (auto simp: build_access_index_def f look2_def split: option.split)
  let ?U = "py_lower (py_strip user)" and ?G = "map py_lower (clean_names groups)"
  have 1: "(n, c) \<in> set (namespaces_for (build_access_index rows t) peers user groups) \<longleftrightarrow>
      c \<in> set peers \<and> n \<in> set (look2 us c ?U) \<union> (\<Union>g \<in> set ?G. set (look2 gs c g))"
    unfolding found [where cl = c and k = ?U and ks = ?G, symmetric] namespaces_for_def Let_def by auto
  have u: "n \<in> set (look2 us c ?U) \<longleftrightarrow> (\<exists>r \<in> set rows. aw_cluster r = c \<and> c \<noteq> [] \<and> n \<noteq> [] \<and> aw_namespace r = n \<and>
      ?U \<in> set (split_names (aw_users r)))"
    using fold_index_row(1) [OF f, of c ?U] by auto
  have g: "n \<in> set (look2 gs c k) \<longleftrightarrow> (\<exists>r \<in> set rows. aw_cluster r = c \<and> c \<noteq> [] \<and> n \<noteq> [] \<and> aw_namespace r = n \<and>
      k \<in> set (split_names (aw_groups r)))" for k
    using fold_index_row(2) [OF f, of c k] by auto
  have "n \<in> (\<Union>g \<in> set ?G. set (look2 gs c g)) \<longleftrightarrow> (\<exists>r \<in> set rows. aw_cluster r = c \<and> c \<noteq> [] \<and> n \<noteq> [] \<and>
      aw_namespace r = n \<and> (\<exists>k \<in> set (clean_names groups). py_lower k \<in> set (split_names (aw_groups r))))"
    unfolding UN_iff set_map bex_simps g by blast
  then show ?thesis unfolding 1 Un_iff u by blast
qed

lemma in_peer_clusters:
  "c \<in> set (peer_clusters origin sets) \<longleftrightarrow> py_strip origin \<noteq> [] \<and> c \<noteq> py_strip origin \<and>
   (\<exists>S \<in> set sets. py_strip origin \<in> set (clean_names S) \<and> c \<in> set (clean_names S))"
  by (auto simp: peer_clusters_def Let_def)

lemma peers_configured: "set (peer_clusters origin sets) \<subseteq> set (configured_clusters sets)"
  by (auto simp: in_peer_clusters configured_clusters_def)

section \<open>The grant that the annotations make\<close>

text \<open>A namespace \<open>n\<close> of cluster \<open>c\<close> is granted to a user who signs in through \<open>origin\<close>: the two clusters share
  an access set, and the annotation names the user or one of their groups, whatever the case.\<close>

definition names_user :: "access_cfg \<Rightarrow> string \<Rightarrow> string list \<Rightarrow> (string \<times> string) list \<Rightarrow> bool" where
  "names_user cf user groups ann \<longleftrightarrow>
     py_lower (py_strip user) \<in> set (split_names (map_of ann (ac_user_key cf))) \<or>
     (\<exists>g \<in> set (clean_names groups). py_lower g \<in> set (split_names (map_of ann (ac_group_key cf))))"

definition granted :: "access_cfg \<Rightarrow> ns_row list \<Rightarrow> string \<Rightarrow> string \<Rightarrow> string list \<Rightarrow> pair \<Rightarrow> bool" where
  "granted cf tbl origin user groups = (\<lambda>(n, c). n \<noteq> [] \<and> c \<in> set (peer_clusters origin (ac_sets cf)) \<and>
     (\<exists>r \<in> set tbl. nsr_cluster r = c \<and> nsr_name r = n \<and> names_user cf user groups (nsr_annotations r)))"

lemma split_names_None [simp]: "split_names None = []"
  by (simp add: split_names_def)

lemma names_user_annotated:
  assumes "names_user cf user groups ann"
  shows "ac_user_key cf \<in> fst ` set ann \<or> ac_group_key cf \<in> fst ` set ann"
proof (rule ccontr)
  assume "\<not> ?thesis"
  then have "map_of ann (ac_user_key cf) = None" "map_of ann (ac_group_key cf) = None"
    by (simp_all add: map_of_eq_None_iff)
  with assms show False by (simp add: names_user_def)
qed

lemma peer_not_empty: "[] \<notin> set (peer_clusters origin sets)"
  by (auto simp: in_peer_clusters clean_names_def)

text \<open>The rows that a load brings.\<close>

definition loaded :: "access_cfg \<Rightarrow> ns_row list \<Rightarrow> access_row list" where
  "loaded cf tbl = get_namespace_access_annotations tbl (configured_clusters (ac_sets cf)) (ac_user_key cf) (ac_group_key cf)"

lemma ex_loaded:
  "(\<exists>r \<in> set (loaded cf tbl). aw_cluster r = c \<and> aw_namespace r = n \<and>
      (py_lower (py_strip user) \<in> set (split_names (aw_users r)) \<or>
       (\<exists>g \<in> set (clean_names groups). py_lower g \<in> set (split_names (aw_groups r))))) \<longleftrightarrow>
   c \<in> set (configured_clusters (ac_sets cf)) \<and>
   (\<exists>r \<in> set tbl. nsr_cluster r = c \<and> nsr_name r = n \<and> names_user cf user groups (nsr_annotations r))"
  (is "?L = ?R")
proof
  assume ?L
  then show ?R unfolding loaded_def get_namespace_access_annotations_def names_user_def by auto
next
  assume ?R
  then obtain r where r: "r \<in> set tbl" "nsr_cluster r = c" "nsr_name r = n" "c \<in> set (configured_clusters (ac_sets cf))"
    and u: "names_user cf user groups (nsr_annotations r)" by blast
  let ?a = "\<lparr>aw_cluster = nsr_cluster r, aw_namespace = nsr_name r,
    aw_users = map_of (nsr_annotations r) (ac_user_key cf), aw_groups = map_of (nsr_annotations r) (ac_group_key cf)\<rparr>"
  have "?a \<in> set (loaded cf tbl)"
    unfolding loaded_def get_namespace_access_annotations_def using r names_user_annotated [OF u] by auto
  with r u show ?L unfolding names_user_def by (intro bexI [of _ ?a]) simp_all
qed

lemma namespaces_for_granted:
  "set (namespaces_for (build_access_index (loaded cf tbl) t) (peer_clusters origin (ac_sets cf)) user groups) =
   {p. granted cf tbl origin user groups p}"
proof -
  have "(n, c) \<in> set (namespaces_for (build_access_index (loaded cf tbl) t) (peer_clusters origin (ac_sets cf)) user groups)
    \<longleftrightarrow> granted cf tbl origin user groups (n, c)" for n c
    unfolding in_namespaces_for ex_loaded granted_def
    using peers_configured [of origin "ac_sets cf"] peer_not_empty [of origin "ac_sets cf"] by auto
  then show ?thesis by auto
qed

section \<open>Reachable states\<close>

text \<open>The second argument is the last load that succeeded: when, and what the annotations said.\<close>

inductive access_reachable :: "access_cfg \<Rightarrow> access_state \<Rightarrow> (num \<times> ns_row list) option \<Rightarrow> bool" for cf where
  start: "access_reachable cf reset_namespace_access None"
| refreshed: "access_reachable cf st g \<Longrightarrow> refresh_round cf (Some tbl) now st = (st', d) \<Longrightarrow> access_reachable cf st' (Some (now, tbl))"
| failed: "access_reachable cf st g \<Longrightarrow> refresh_round cf None now st = (st', d) \<Longrightarrow> access_reachable cf st' g"
| request: "access_reachable cf st g \<Longrightarrow>
    resolve_cross_cluster_namespaces cf tbl now origin user groups st = (ps, st') \<Longrightarrow>
    access_reachable cf st' (if as_index st = None \<and> as_index st' \<noteq> None then Some (now, the tbl) else g)"

lemma is_stale_simps [simp]:
  "fst (is_stale idx now st) = (max_staleness < now - ai_loaded_at idx)" "as_index (snd (is_stale idx now st)) = as_index st"
  by (auto simp: is_stale_def split: option.split)

lemma resolve_index:
  assumes "resolve_cross_cluster_namespaces cf tbl now origin user groups st = (ps, st')"
  shows "as_index st' = as_index st \<or>
    as_index st = None \<and> (\<exists>t. tbl = Some t \<and> as_index st' = Some (build_access_index (loaded cf t) now))"
proof (cases "as_index st")
  case None
  with assms show ?thesis
    by (auto simp: resolve_cross_cluster_namespaces_def load_on_demand_def Let_def is_stale_simps split_beta
        refresh_namespace_access_def set_namespace_access_def loaded_def
        split: if_splits option.splits prod.splits)
next
  case (Some idx)
  with assms show ?thesis
    by (auto simp: resolve_cross_cluster_namespaces_def Let_def split_beta split: if_splits)
qed

lemma reachable_index:
  "access_reachable cf st g \<Longrightarrow> as_index st = map_option (\<lambda>(t, tbl). build_access_index (loaded cf tbl) t) g"
proof (induction rule: access_reachable.induct)
  case (request st g tbl now origin user groups ps st')
  from resolve_index [OF request(2)] request(3) show ?case by auto
qed (auto simp: reset_namespace_access_def refresh_round_def refresh_namespace_access_def set_namespace_access_def loaded_def)

lemma resolve_fresh:
  assumes "as_index st = Some (build_access_index (loaded cf tbl) t)"
    and "resolve_cross_cluster_namespaces cf q now origin user groups st = (ps, st')"
  shows "set ps = (if now - t \<le> max_staleness then {p. granted cf tbl origin user groups p} else {})"
proof (cases "peer_clusters origin (ac_sets cf) = []")
  case True
  with assms show ?thesis by (auto simp: resolve_cross_cluster_namespaces_def granted_def)
next
  case False
  have "ai_loaded_at (build_access_index rows t) = t" for rows
    by (simp add: build_access_index_def Let_def split_beta)
  with assms False show ?thesis
    by (auto simp: resolve_cross_cluster_namespaces_def Let_def split_beta namespaces_for_granted split: if_splits)
qed

lemma distinct_namespaces_for: "distinct (namespaces_for idx peers user groups)"
  by (simp add: namespaces_for_def Let_def)

lemma distinct_resolve: "resolve_cross_cluster_namespaces cf q now origin user groups st = (ps, st') \<Longrightarrow> distinct ps"
  by (auto simp: resolve_cross_cluster_namespaces_def Let_def split_beta distinct_namespaces_for
      split: if_splits option.splits)

section \<open>Properties\<close>

text \<open>C14: Namespaces on other clusters fail closed. Whatever requests and refreshes came before, a request that gets
  any is answered from the last load that succeeded, which is at most fifteen minutes old, and gets exactly the
  namespaces whose annotations then named the user or one of their groups on a cluster that shares an access
  set with the one the request came through, each once. With such a load at hand every granted namespace is in
  the answer; with an older one there is none.\<close>

theorem cross_cluster_access_fresh:
  assumes "access_reachable cf st g"
    and "resolve_cross_cluster_namespaces cf q now origin user groups st = (ps, st')"
  shows "distinct ps \<and>
    (ps \<noteq> [] \<longrightarrow> (\<exists>t tbl. access_reachable cf st' (Some (t, tbl)) \<and> now - t \<le> 900 \<and>
       set ps = {p. granted cf tbl origin user groups p})) \<and>
    (\<forall>t tbl. g = Some (t, tbl) \<longrightarrow>
       set ps = (if now - t \<le> 900 then {p. granted cf tbl origin user groups p} else {}))"
proof (intro conjI impI allI)
  note idx = reachable_index [OF assms(1)]
  have limit: "max_staleness = 900" by (simp add: max_staleness_def refresh_interval_def)
  show "distinct ps" by (rule distinct_resolve [OF assms(2)])
  show "set ps = (if now - t \<le> 900 then {p. granted cf tbl origin user groups p} else {})" if "g = Some (t, tbl)" for t tbl
    using resolve_fresh [OF _ assms(2), of tbl t] idx that limit by simp
  assume ne: "ps \<noteq> []"
  have r: "access_reachable cf st' (if as_index st = None \<and> as_index st' \<noteq> None then Some (now, the q) else g)"
    by (rule access_reachable.request [OF assms])
  show "\<exists>t tbl. access_reachable cf st' (Some (t, tbl)) \<and> now - t \<le> 900 \<and> set ps = {p. granted cf tbl origin user groups p}"
  proof (cases g)
    case None
    with idx have none: "as_index st = None" by simp
    from ne assms(2) none obtain tbl where q: "q = Some tbl" and i: "as_index st' = Some (build_access_index (loaded cf tbl) now)"
      using resolve_index [OF assms(2)]
      by (auto simp: resolve_cross_cluster_namespaces_def load_on_demand_def Let_def split_beta split: if_splits option.splits)
    have "set ps = {p. granted cf tbl origin user groups p}" using ne assms(2) none q
      by (auto simp: resolve_cross_cluster_namespaces_def load_on_demand_def Let_def split_beta loaded_def
          refresh_namespace_access_def set_namespace_access_def namespaces_for_granted [unfolded loaded_def]
          split: if_splits option.splits)
    then show ?thesis using r none i q by (intro exI [of _ now] exI [of _ tbl]) simp
  next
    case (Some p)
    obtain t tbl where p: "p = (t, tbl)" by fastforce
    with Some idx have i: "as_index st = Some (build_access_index (loaded cf tbl) t)" by simp
    from resolve_fresh [OF i assms(2)] ne limit have "now - t \<le> 900 \<and> set ps = {p. granted cf tbl origin user groups p}"
      by (auto split: if_splits)
    moreover have "access_reachable cf st' (Some (t, tbl))" using r i Some p by simp
    ultimately show ?thesis by blast
  qed
qed

definition ex_access_cfg :: access_cfg where
  "ex_access_cfg = \<lparr>ac_sets = [[''prod'', ''test'']], ac_user_key = ''users'', ac_group_key = ''groups''\<rparr>"

definition ex_ns_rows :: "ns_row list" where
  "ex_ns_rows = [\<lparr>nsr_cluster = ''test'', nsr_name = ''shop'', nsr_annotations = [(''users'', ''Ann, bob'')]\<rparr>]"

theorem cross_cluster_access_fresh_witness:
  "set (fst (resolve_cross_cluster_namespaces ex_access_cfg None 60 ''prod'' ''ann'' []
     (fst (refresh_round ex_access_cfg (Some ex_ns_rows) 0 reset_namespace_access)))) = {(''shop'', ''test'')}"
proof -
  let ?st = "fst (refresh_round ex_access_cfg (Some ex_ns_rows) 0 reset_namespace_access)"
  have r: "access_reachable ex_access_cfg ?st (Some (0, ex_ns_rows))"
    using access_reachable.refreshed [OF access_reachable.start] by (metis prod.collapse)
  have s: "split_names (Some ''Ann, bob'') = [''ann'', ''bob'']" "py_lower (py_strip ''ann'') = ''ann''"
    "peer_clusters ''prod'' [[''prod'', ''test'']] = [''test'']" by code_simp+
  have "{p. granted ex_access_cfg ex_ns_rows ''prod'' ''ann'' [] p} = {(''shop'', ''test'')}"
    by (auto simp: granted_def ex_access_cfg_def ex_ns_rows_def names_user_def s clean_names_def)
  with cross_cluster_access_fresh [OF r prod.collapse [symmetric], of None 60 "''prod''" "''ann''" "[]"]
  show ?thesis by simp
qed

end
