(* ===== verification/Auth.thy ===== *)
theory Auth
  imports NamespaceAccess Snapshots
begin

text \<open>
  Authentication: \<open>app/auth/middleware.py\<close> with \<open>app/auth/group_mapping.py\<close>. A request is its headers. The
  functions commit on the way, so each returns the database also when it answers with an error. Parameters:
  the JWT library (\<open>au_kid\<close> reads the key id of a token, \<open>au_decode\<close> verifies the token with a key), the HTTP
  fetch of the key set, the outcome of the query on Central, and \<open>sha256\<close>. A claim is absent or has the type
  that the code expects. Requests are modelled one after the other, so the commit that loses a race for a user
  name is not modelled; the flag of the onboarding tour is left out.
\<close>

section \<open>Headers\<close>

type_synonym triple = "string \<times> string \<times> string"

record auth_cfg =
  at_dev_mode :: bool
  at_dev_id :: string
  at_dev_name :: string
  at_dev_full_name :: string
  at_dev_email :: string
  at_dev_role :: string
  at_dev_namespaces :: string
  at_dev_emails :: string
  at_issuer :: string
  at_client_id :: string
  at_api_keys :: "string list"
  at_sec_group :: string
  at_access :: access_cfg
  at_max_namespaces :: nat

definition comma_parts :: "string \<Rightarrow> string list" where
  "comma_parts s = py_split (CHR '','') s"

definition parse_entry :: "string \<Rightarrow> pair option" where
  "parse_entry entry =
     (case split_once (CHR '':'') (py_strip entry) of None \<Rightarrow> None
      | Some (ns, cl) \<Rightarrow>
          if py_strip ns \<noteq> [] \<and> py_strip cl \<noteq> [] then Some (py_strip ns, py_strip cl) else None)"

definition check_namespace_count :: "auth_cfg \<Rightarrow> pair list \<Rightarrow> unit result" where
  "check_namespace_count cf pairs =
     (if at_max_namespaces cf < length pairs then Inl (ApiError 400 ''too_many_namespaces'') else Inr ())"

definition parse_namespaces_header :: "auth_cfg \<Rightarrow> string \<Rightarrow> pair list result" where
  "parse_namespaces_header cf raw =
     (if py_strip raw = [] then Inr []
      else let pairs = List.map_filter parse_entry (comma_parts raw) in
        rbind (check_namespace_count cf pairs) (\<lambda>_. Inr pairs))"

definition merge_namespaces :: "pair list \<Rightarrow> pair list \<Rightarrow> pair list" where
  "merge_namespaces primary extra = primary @ filter (\<lambda>p. p \<notin> set primary) (dedupe extra)"

definition parse_email_entry :: "string \<Rightarrow> triple option" where
  "parse_email_entry entry =
     (case rsplit_once (CHR ''='') (py_strip entry) of None \<Rightarrow> None
      | Some (nc, mail) \<Rightarrow>
          (case split_once (CHR '':'') nc of None \<Rightarrow> None
           | Some (ns, cl) \<Rightarrow>
               if py_strip mail \<noteq> [] \<and> py_strip ns \<noteq> [] \<and> py_strip cl \<noteq> []
               then Some (py_strip ns, py_strip cl, py_strip mail) else None))"

definition parse_namespace_emails_header :: "string \<Rightarrow> triple list" where
  "parse_namespace_emails_header raw =
     (if py_strip raw = [] then [] else List.map_filter parse_email_entry (comma_parts raw))"

section \<open>Contacts\<close>

definition upsert_contact :: "triple \<Rightarrow> namespace_contact list \<Rightarrow> namespace_contact list result" where
  "upsert_contact = (\<lambda>(ns, cl, mail) rows.
     rbind (scalar_one_or_none (filter (\<lambda>r. (nc_namespace r, nc_cluster r) = (ns, cl)) rows)) (\<lambda>existing.
       case existing of
         None \<Rightarrow> Inr (rows @ [\<lparr>nc_namespace = ns, nc_cluster = cl, nc_email = mail\<rparr>])
       | Some _ \<Rightarrow> Inr (map (\<lambda>r. if (nc_namespace r, nc_cluster r) = (ns, cl) then r\<lparr>nc_email := mail\<rparr> else r) rows)))"

fun upsert_contacts :: "triple list \<Rightarrow> namespace_contact list \<Rightarrow> namespace_contact list result" where
  "upsert_contacts [] rows = Inr rows"
| "upsert_contacts (c # cs) rows = rbind (upsert_contact c rows) (upsert_contacts cs)"

definition upsert_namespace_contacts :: "triple list \<Rightarrow> app_db \<Rightarrow> app_db result" where
  "upsert_namespace_contacts cs db = rbind (upsert_contacts cs (contacts db)) (\<lambda>rows. Inr (db\<lparr>contacts := rows\<rparr>))"

section \<open>Users\<close>

record user_data =
  ud_id :: string
  ud_username :: string
  ud_full_name :: "string option"
  ud_email :: "string option"
  ud_role :: string

definition role_of :: "string \<Rightarrow> user_role result" where
  "role_of s =
     (if s = ''team_member'' then Inr TeamMember else if s = ''sec_team'' then Inr SecTeam
      else Inl (ServerError ''ValueError''))"

fun role_value :: "user_role \<Rightarrow> string" where
  "role_value TeamMember = ''team_member''"
| "role_value SecTeam = ''sec_team''"

definition resolve_role_from_groups :: "string list \<Rightarrow> auth_cfg \<Rightarrow> user_role" where
  "resolve_role_from_groups groups cf = (if at_sec_group cf \<in> set groups then SecTeam else TeamMember)"

definition assert_username_available :: "app_db \<Rightarrow> string \<Rightarrow> string \<Rightarrow> unit result" where
  "assert_username_available db uname exclude_id =
     (if list_ex (\<lambda>u. py_lower (username u) = py_lower uname \<and> user_id u \<noteq> exclude_id) (users db)
      then Inl (ApiError 409 ''username_conflict'') else Inr ())"

definition get_or_create_user :: "user_data \<Rightarrow> string \<Rightarrow> app_db \<Rightarrow> (app_db \<times> user) result" where
  "get_or_create_user d placeholder db =
     rbind (scalar_one_or_none (filter (\<lambda>u. user_id u = ud_id d) (users db))) (\<lambda>existing.
       case existing of Some u \<Rightarrow> Inr (db, u)
       | None \<Rightarrow>
           rbind (assert_username_available db (ud_username d) (ud_id d)) (\<lambda>_.
           rbind (role_of (ud_role d)) (\<lambda>r.
             let u = \<lparr>user_id = ud_id d, username = ud_username d, full_name = ud_full_name d,
               email = (if truthy (ud_email d) then the (ud_email d) else placeholder), role = r\<rparr>
             in Inr (db\<lparr>users := users db @ [u]\<rparr>, u))))"

definition put_user :: "user \<Rightarrow> app_db \<Rightarrow> app_db" where
  "put_user u db = db\<lparr>users := map (\<lambda>x. if user_id x = user_id u then u else x) (users db)\<rparr>"

definition sync_user_fields :: "user \<Rightarrow> user_data \<Rightarrow> app_db \<Rightarrow> (app_db \<times> user) result" where
  "sync_user_fields u d db =
     rbind (if username u \<noteq> ud_username d then assert_username_available db (ud_username d) (user_id u) else Inr ()) (\<lambda>_.
     rbind (role_of (ud_role d)) (\<lambda>r.
       let mail = py_strip (case ud_email d of None \<Rightarrow> [] | Some e \<Rightarrow> e);
           u' = u\<lparr>username := ud_username d,
             full_name := (if truthy (ud_full_name d) then ud_full_name d else full_name u),
             email := (if mail \<noteq> [] then mail else email u), role := r\<rparr>
       in Inr (put_user u' db, u')))"

definition to_current_user :: "user \<Rightarrow> pair list \<Rightarrow> bool \<Rightarrow> current_user" where
  "to_current_user u nss has_all =
     \<lparr>cu_id = user_id u, cu_username = username u, cu_full_name = full_name u, cu_email = email u,
      cu_role = role u, cu_namespaces = nss, cu_has_all = has_all\<rparr>"

text \<open>The user is loaded or created, which commits, and then brought up to date.\<close>

definition sign_in :: "user_data \<Rightarrow> string \<Rightarrow> app_db \<Rightarrow> app_db \<times> user result" where
  "sign_in d placeholder db =
     (case get_or_create_user d placeholder db of Inl e \<Rightarrow> (db, Inl e)
      | Inr (db1, u) \<Rightarrow> (case sync_user_fields u d db1 of Inl e \<Rightarrow> (db1, Inl e) | Inr (db2, u') \<Rightarrow> (db2, Inr u')))"

section \<open>The three ways to authenticate\<close>

type_synonym headers = "string \<Rightarrow> string option"

definition hdr :: "headers \<Rightarrow> string \<Rightarrow> string" where
  "hdr h name = (case h name of None \<Rightarrow> [] | Some v \<Rightarrow> v)"

record jwk =
  jk_kid :: "string option"
  jk_key :: string

datatype claim_list = ClaimText string | ClaimList "string list"

record claims =
  cl_sub :: "string option"
  cl_iss :: "string option"
  cl_username :: "string option"
  cl_email :: "string option"
  cl_groups :: "claim_list option"
  cl_namespaces :: "claim_list option"
  cl_name :: "string option"
  cl_given :: "string option"
  cl_family :: "string option"

record jwks_cache =
  jc_keys :: "jwk list"
  jc_at :: num

record auth_state =
  au_access :: access_state
  au_cache :: jwks_cache

text \<open>What lies outside the program: libraries, other services, the monotonic clock in seconds.\<close>

record auth_env =
  ae_kid :: "string \<Rightarrow> string option option"                              \<comment> \<open>\<open>None\<close> for a malformed token\<close>
  ae_jwks :: "string \<Rightarrow> jwk list option"                                     \<comment> \<open>by discovery address\<close>
  ae_decode :: "jwk \<Rightarrow> string \<Rightarrow> string \<Rightarrow> string \<Rightarrow> claims option"           \<comment> \<open>key, token, audience, issuer\<close>
  ae_annotations :: "ns_row list option"
  ae_mono :: num

definition handle_dev_mode :: "auth_cfg \<Rightarrow> app_db \<Rightarrow> app_db \<times> current_user result" where
  "handle_dev_mode cf db =
     (let has_all = (py_strip (at_dev_namespaces cf) = ''*'') in
      case (if has_all then Inr [] else parse_namespaces_header cf (at_dev_namespaces cf)) of Inl e \<Rightarrow> (db, Inl e)
      | Inr nss \<Rightarrow>
          (case upsert_namespace_contacts (parse_namespace_emails_header (at_dev_emails cf)) db of Inl e \<Rightarrow> (db, Inl e)
           | Inr db1 \<Rightarrow>
               let d = \<lparr>ud_id = at_dev_id cf, ud_username = at_dev_name cf,
                     ud_full_name = or_none (Some (py_strip (at_dev_full_name cf))),
                     ud_email = Some (at_dev_email cf), ud_role = at_dev_role cf\<rparr>;
                   (db2, r) = sign_in d [] db1
               in (db2, rbind r (\<lambda>u. Inr (to_current_user u nss has_all)))))"

definition header_groups :: "string \<Rightarrow> string list" where
  "header_groups raw = clean_names (comma_parts raw)"

text \<open>The pairs of the header, and those on the peers of the cluster that the request came through.\<close>

definition spoke_namespaces ::
    "auth_cfg \<Rightarrow> auth_env \<Rightarrow> headers \<Rightarrow> access_state \<Rightarrow> pair list result \<times> access_state" where
  "spoke_namespaces cf env h st =
     (let raw = hdr h ''X-Forwarded-Namespaces'' in
      if py_strip raw = ''*'' then (Inr [], st)
      else case parse_namespaces_header cf raw of Inl e \<Rightarrow> (Inl e, st)
        | Inr nss \<Rightarrow>
            let (extra, st1) = resolve_cross_cluster_namespaces (at_access cf) (ae_annotations env) (ae_mono env)
                  (py_strip (hdr h ''X-Forwarded-Cluster'')) (hdr h ''X-Forwarded-User'')
                  (header_groups (hdr h ''X-Forwarded-Groups'')) st
            in if extra = [] then (Inr nss, st1)
               else let merged = merge_namespaces nss extra in
                 (rbind (check_namespace_count cf merged) (\<lambda>_. Inr merged), st1))"

definition spoke_user_data :: "auth_cfg \<Rightarrow> headers \<Rightarrow> user_data" where
  "spoke_user_data cf h =
     \<lparr>ud_id = ''spoke:'' @ hdr h ''X-Forwarded-User'', ud_username = hdr h ''X-Forwarded-User'',
      ud_full_name = or_none (Some (py_strip (hdr h ''X-Forwarded-Full-Name''))),
      ud_email = or_none (Some (py_strip (hdr h ''X-Forwarded-Email''))),
      ud_role = role_value (resolve_role_from_groups (header_groups (hdr h ''X-Forwarded-Groups'')) cf)\<rparr>"

definition handle_spoke_proxy ::
    "auth_cfg \<Rightarrow> auth_env \<Rightarrow> headers \<Rightarrow> access_state \<Rightarrow> app_db \<Rightarrow> (app_db \<times> access_state) \<times> current_user result" where
  "handle_spoke_proxy cf env h st db =
     (if hdr h ''X-Forwarded-User'' = [] then ((db, st), Inl (ApiError 401 ''forwarded_user_missing''))
      else let has_all = (py_strip (hdr h ''X-Forwarded-Namespaces'') = ''*'');
               (nss, st1) = spoke_namespaces cf env h st
           in case nss of Inl e \<Rightarrow> ((db, st1), Inl e)
             | Inr pairs \<Rightarrow>
                 (case sign_in (spoke_user_data cf h) (hdr h ''X-Forwarded-User'' @ ''@spoke.local'') db of
                    (db1, Inl e) \<Rightarrow> ((db1, st1), Inl e)
                  | (db1, Inr u) \<Rightarrow>
                      (case upsert_namespace_contacts
                          (parse_namespace_emails_header (hdr h ''X-Forwarded-Namespace-Emails'')) db1 of
                         Inl e \<Rightarrow> ((db1, st1), Inl e)
                       | Inr db2 \<Rightarrow> ((db2, st1), Inr (to_current_user u pairs has_all)))))"

definition jwks_cache_ttl :: num where "jwks_cache_ttl = 3600"

definition find_key :: "string \<Rightarrow> jwk list \<Rightarrow> jwk option" where
  "find_key kid = find (\<lambda>k. jk_kid k = Some kid)"

definition discovery_url :: "auth_cfg \<Rightarrow> string" where
  "discovery_url cf = rev (dropWhile (\<lambda>c. c = CHR ''/'') (rev (at_issuer cf))) @ ''/.well-known/openid-configuration''"

definition get_oidc_signing_key ::
    "auth_cfg \<Rightarrow> auth_env \<Rightarrow> string \<Rightarrow> jwks_cache \<Rightarrow> jwk result \<times> jwks_cache" where
  "get_oidc_signing_key cf env token c =
     (case ae_kid env token of None \<Rightarrow> (Inl (ServerError ''DecodeError''), c)
      | Some kid \<Rightarrow>
          if \<not> truthy kid then (Inl (ApiError 401 ''token_no_kid''), c)
          else let cached = (if jc_keys c \<noteq> [] \<and> ae_mono env - jc_at c < jwks_cache_ttl
                             then find_key (the kid) (jc_keys c) else None)
            in case cached of Some k \<Rightarrow> (Inr k, c)
              | None \<Rightarrow> (case ae_jwks env (discovery_url cf) of None \<Rightarrow> (Inl (ServerError ''HTTPError''), c)
                  | Some keys \<Rightarrow>
                      (case find_key (the kid) keys of None \<Rightarrow> Inl (ApiError 401 ''oidc_key_not_found'') | Some k \<Rightarrow> Inr k,
                       \<lparr>jc_keys = keys, jc_at = ae_mono env\<rparr>)))"

definition resolve_oidc_full_name :: "claims \<Rightarrow> string option" where
  "resolve_oidc_full_name p =
     (let txt = (\<lambda>x. case x of None \<Rightarrow> [] | Some v \<Rightarrow> v) in
      if py_strip (txt (cl_name p)) \<noteq> [] then Some (py_strip (txt (cl_name p)))
      else or_none (Some (py_strip (txt (cl_given p) @ '' '' @ txt (cl_family p)))))"

definition claim_groups :: "claims \<Rightarrow> string list" where
  "claim_groups p = (case cl_groups p of None \<Rightarrow> [] | Some (ClaimList gs) \<Rightarrow> gs | Some (ClaimText t) \<Rightarrow> header_groups t)"

definition claim_namespaces :: "claims \<Rightarrow> string" where
  "claim_namespaces p =
     (case cl_namespaces p of None \<Rightarrow> [] | Some (ClaimText t) \<Rightarrow> t | Some (ClaimList ns) \<Rightarrow> sep_by '','' ns)"

definition oidc_user_data :: "auth_cfg \<Rightarrow> claims \<Rightarrow> user_data" where
  "oidc_user_data cf p =
     \<lparr>ud_id = the (cl_sub p),
      ud_username = (case cl_username p of Some n \<Rightarrow> n | None \<Rightarrow> the (cl_sub p)),
      ud_full_name = resolve_oidc_full_name p,
      ud_email = Some (case cl_email p of None \<Rightarrow> [] | Some e \<Rightarrow> e),
      ud_role = role_value (resolve_role_from_groups (claim_groups p) cf)\<rparr>"

definition oidc_payload :: "auth_cfg \<Rightarrow> claims \<Rightarrow> app_db \<Rightarrow> app_db \<times> current_user result" where
  "oidc_payload cf p db =
     (if \<not> truthy (cl_sub p) then (db, Inl (ApiError 401 ''invalid_token''))
      else if cl_iss p \<noteq> Some (at_issuer cf) then (db, Inl (ApiError 401 ''token_issuer_mismatch''))
      else let claim = claim_namespaces p; has_all = (claim \<noteq> [] \<and> py_strip claim = ''*'') in
        case (if has_all \<or> claim = [] then Inr [] else parse_namespaces_header cf claim) of Inl e \<Rightarrow> (db, Inl e)
        | Inr nss \<Rightarrow> let (db1, r) = sign_in (oidc_user_data cf p) [] db in
            (db1, rbind r (\<lambda>u. Inr (to_current_user u nss has_all))))"

text \<open>The handler answers any exception that is not an HTTP error with 401.\<close>

definition hide_failure :: "'a result \<Rightarrow> 'a result" where
  "hide_failure r = (case r of Inl (ServerError _) \<Rightarrow> Inl (ApiError 401 ''auth_failed'') | _ \<Rightarrow> r)"

definition handle_oidc_jwt ::
    "auth_cfg \<Rightarrow> auth_env \<Rightarrow> headers \<Rightarrow> jwks_cache \<Rightarrow> app_db \<Rightarrow> (app_db \<times> jwks_cache) \<times> current_user result" where
  "handle_oidc_jwt cf env h c db =
     (let auth = hdr h ''Authorization'' in
      if \<not> prefix ''Bearer '' auth then ((db, c), Inl (ApiError 401 ''not_authenticated''))
      else let token = drop 7 auth; (key, c1) = get_oidc_signing_key cf env token c in
        case key of Inl e \<Rightarrow> ((db, c1), hide_failure (Inl e))
        | Inr k \<Rightarrow>
            (case ae_decode env k token (at_client_id cf) (at_issuer cf) of
               None \<Rightarrow> ((db, c1), Inl (ApiError 401 ''auth_failed''))
             | Some p \<Rightarrow> let (db1, r) = oidc_payload cf p db in ((db1, c1), hide_failure r)))"

definition validate_api_key :: "auth_cfg \<Rightarrow> headers \<Rightarrow> bool" where
  "validate_api_key cf h \<longleftrightarrow>
     truthy (h ''X-Api-Key'') \<and> at_api_keys cf \<noteq> [] \<and> list_ex (\<lambda>k. h ''X-Api-Key'' = Some k) (at_api_keys cf)"

definition authenticate ::
    "auth_cfg \<Rightarrow> auth_env \<Rightarrow> headers \<Rightarrow> auth_state \<Rightarrow> app_db \<Rightarrow> (app_db \<times> auth_state) \<times> current_user result" where
  "authenticate cf env h st db =
     (if at_dev_mode cf then let (db1, r) = handle_dev_mode cf db in ((db1, st), r)
      else if validate_api_key cf h
      then let ((db1, a), r) = handle_spoke_proxy cf env h (au_access st) db in ((db1, st\<lparr>au_access := a\<rparr>), r)
      else let ((db1, c), r) = handle_oidc_jwt cf env h (au_cache st) db in ((db1, st\<lparr>au_cache := c\<rparr>), r))"

definition get_current_user ::
    "(string \<Rightarrow> string) \<Rightarrow> auth_cfg \<Rightarrow> auth_env \<Rightarrow> headers \<Rightarrow> auth_state \<Rightarrow> app_db \<Rightarrow>
     (app_db \<times> auth_state) \<times> current_user result" where
  "get_current_user sha256 cf env h st db =
     (let ((db1, st1), r) = authenticate cf env h st db in
      case r of Inl e \<Rightarrow> ((db1, st1), Inl e)
      | Inr u \<Rightarrow> ((record_namespace_snapshot sha256 u (db_now db1) db1, st1), Inr u))"

definition require_sec_team :: "current_user \<Rightarrow> current_user result" where
  "require_sec_team u = (if \<not> is_sec_team u then Inl (ApiError 403 ''sec_team_only'') else Inr u)"

section \<open>Headers\<close>

lemma length_map_filter_le: "length (List.map_filter f xs) \<le> length xs"
  by (induction xs) (auto simp: List.map_filter_simps split: option.split)

lemma parse_namespaces_header_Inr:
  assumes "parse_namespaces_header cf raw = Inr nss"
  shows "length nss \<le> at_max_namespaces cf"
  using assms by (auto simp: parse_namespaces_header_def check_namespace_count_def handler_Inr split: if_splits)

lemma spoke_namespaces_Inr:
  assumes "spoke_namespaces cf env h st = (Inr nss, st')"
  shows "length nss \<le> at_max_namespaces cf"
  using assms parse_namespaces_header_Inr
  by (auto simp: spoke_namespaces_def check_namespace_count_def Let_def handler_Inr split_beta
      split: if_splits sum.splits)

section \<open>The users table\<close>

text \<open>Ids are unique, and so are user names whatever their case.\<close>

definition users_ok :: "user list \<Rightarrow> bool" where
  "users_ok us \<longleftrightarrow> distinct (map user_id us) \<and> distinct (map (\<lambda>u. py_lower (username u)) us)"

lemma users_ok_insert:
  assumes "users_ok (users db)" and "get_or_create_user d ph db = Inr (db1, u)"
  shows "users_ok (users db1) \<and> u \<in> set (users db1) \<and> user_id u = ud_id d \<and>
    (db1 = db \<or> ud_id d \<notin> user_id ` set (users db) \<and> users db1 = users db @ [u] \<and> username u = ud_username d)"
proof -
  have "distinct (map user_id (users db))" using assms(1) by (simp add: users_ok_def)
  from scalar_unique [OF this, of "ud_id d"] obtain x where
    x: "scalar_one_or_none (filter (\<lambda>y. user_id y = ud_id d) (users db)) = Inr x"
    "x = None \<longleftrightarrow> ud_id d \<notin> user_id ` set (users db)" "\<And>y. x = Some y \<Longrightarrow> y \<in> set (users db) \<and> user_id y = ud_id d" by blast
  show ?thesis
  proof (cases x)
    case (Some y)
    with x assms show ?thesis by (auto simp: get_or_create_user_def)
  next
    case None
    with x have new: "ud_id d \<notin> user_id ` set (users db)" by simp
    from assms(2) None x(1) have u: "user_id u = ud_id d" "username u = ud_username d" "users db1 = users db @ [u]"
      and free: "assert_username_available db (ud_username d) (ud_id d) = Inr ()"
      by (auto simp: get_or_create_user_def handler_Inr)
    have "py_lower (username y) \<noteq> py_lower (ud_username d)" if "y \<in> set (users db)" for y
      using free new that by (force simp: assert_username_available_def list_ex_iff split: if_splits)
    then have "py_lower (ud_username d) \<notin> (\<lambda>y. py_lower (username y)) ` set (users db)" by (metis (no_types, lifting) imageE)
    then show ?thesis using assms(1) u new by (simp add: users_ok_def)
  qed
qed

lemma put_user_simps [simp]:
  "users (put_user u db) = map (\<lambda>x. if user_id x = user_id u then u else x) (users db)"
  "contacts (put_user u db) = contacts db"
  by (simp_all add: put_user_def)

lemma distinct_map_put:
  assumes "distinct (map f xs)" and "distinct (map g xs)" and "x \<in> set xs" and "f x = k"
    and "\<And>y. y \<in> set xs \<Longrightarrow> f y \<noteq> k \<Longrightarrow> g y \<noteq> g z"
  shows "distinct (map g (map (\<lambda>y. if f y = k then z else y) xs))"
proof -
  have inj: "inj_on f (set xs)" "inj_on g (set xs)" using assms(1,2) by (auto simp: distinct_map)
  have "inj_on (\<lambda>y. g (if f y = k then z else y)) (set xs)"
  proof (rule inj_onI)
    fix a b assume ab: "a \<in> set xs" "b \<in> set xs" "g (if f a = k then z else a) = g (if f b = k then z else b)"
    then show "a = b"
      using assms(5) [of a] assms(5) [of b] inj_onD [OF inj(1), of a b] inj_onD [OF inj(2), of a b]
      by (auto split: if_splits)
  qed
  moreover have "distinct xs" using assms(1) by (simp add: distinct_map)
  ultimately show ?thesis by (simp add: distinct_map comp_def)
qed

lemma users_ok_sync:
  assumes "users_ok (users db)" and "u \<in> set (users db)" and "sync_user_fields u d db = Inr (db1, u')"
  shows "users_ok (users db1) \<and> u' \<in> set (users db1) \<and> user_id u' = user_id u \<and> role_of (ud_role d) = Inr (role u') \<and>
    username u' = ud_username d \<and> (email u \<noteq> [] \<longrightarrow> email u' \<noteq> []) \<and> (full_name u \<noteq> None \<longrightarrow> full_name u' \<noteq> None) \<and>
    users db1 = map (\<lambda>x. if user_id x = user_id u then u' else x) (users db) \<and> contacts db1 = contacts db"
proof -
  let ?mail = "py_strip (case ud_email d of None \<Rightarrow> [] | Some e \<Rightarrow> e)"
  from assms(3) have r: "role_of (ud_role d) = Inr (role u')" "user_id u' = user_id u" "username u' = ud_username d"
      "db1 = put_user u' db" and mail: "email u' = (if ?mail \<noteq> [] then ?mail else email u)"
    and fname: "full_name u' = (if truthy (ud_full_name d) then ud_full_name d else full_name u)"
    and free: "username u \<noteq> ud_username d \<longrightarrow> assert_username_available db (ud_username d) (user_id u) = Inr ()"
    by (auto simp: sync_user_fields_def handler_Inr)
  have keep: "email u \<noteq> [] \<longrightarrow> email u' \<noteq> []" "full_name u \<noteq> None \<longrightarrow> full_name u' \<noteq> None"
    using mail fname by (cases "ud_full_name d"; simp)+
  have d: "distinct (map user_id (users db))" "distinct (map (\<lambda>u. py_lower (username u)) (users db))"
    using assms(1) by (simp_all add: users_ok_def)
  have other: "py_lower (username y) \<noteq> py_lower (username u')" if "y \<in> set (users db)" "user_id y \<noteq> user_id u" for y
  proof (cases "username u = ud_username d")
    case True
    have "y \<noteq> u" using that(2) by auto
    moreover have "inj_on (\<lambda>u. py_lower (username u)) (set (users db))" using d(2) by (simp add: distinct_map)
    ultimately show ?thesis using True r(3) inj_onD [OF _ _ that(1) assms(2)] by fastforce
  next
    case False
    with free that r(3) show ?thesis by (auto simp: assert_username_available_def list_ex_iff split: if_splits)
  qed
  have "map user_id (map (\<lambda>x. if user_id x = user_id u then u' else x) (users db)) = map user_id (users db)"
    using r(2) by (auto simp: comp_def)
  then have "distinct (map user_id (users db1))" using d(1) r(2,4) by (simp del: map_map)
  moreover have "distinct (map (\<lambda>u. py_lower (username u)) (users db1))"
    using distinct_map_put [OF d assms(2), of "user_id u" u'] other r(2,4) by simp
  ultimately show ?thesis using r keep assms(2) by (auto simp: users_ok_def)
qed

lemma sign_in_ok:
  assumes "users_ok (users db)" and "sign_in d ph db = (db', r)"
  shows "users_ok (users db') \<and> contacts db' = contacts db \<and> db_now db' = db_now db \<and> snapshots db' = snapshots db \<and>
    (\<forall>x \<in> set (users db). \<exists>y \<in> set (users db'). user_id y = user_id x \<and> (email x \<noteq> [] \<longrightarrow> email y \<noteq> []) \<and>
       (user_id x \<noteq> ud_id d \<longrightarrow> y = x)) \<and>
    (\<forall>u. r = Inr u \<longrightarrow> u \<in> set (users db') \<and> user_id u = ud_id d \<and> username u = ud_username d \<and>
       role_of (ud_role d) = Inr (role u))"
proof (cases "get_or_create_user d ph db")
  case (Inl e)
  with assms show ?thesis by (auto simp: sign_in_def)
next
  case (Inr p)
  obtain db1 and u0 :: user where p: "p = (db1, u0)" by (cases p)
  note g = users_ok_insert [OF assms(1) Inr [unfolded p]]
  have c: "contacts db1 = contacts db \<and> db_now db1 = db_now db \<and> snapshots db1 = snapshots db" using Inr p by (auto simp: get_or_create_user_def handler_Inr split: option.splits)
  show ?thesis
  proof (cases "sync_user_fields u0 d db1")
    case (Inl e)
    with assms(2) Inr p have "db' = db1" "\<not> (\<exists>u. r = Inr u)" by (auto simp: sign_in_def)
    with g c show ?thesis by auto
  next
    case (Inr q)
    obtain db2 and u1 :: user where q: "q = (db2, u1)" by (cases q)
    note s = users_ok_sync [OF _ _ Inr [unfolded q], OF g [THEN conjunct1] g [THEN conjunct2, THEN conjunct1]]
    have "db_now db2 = db_now db1 \<and> snapshots db2 = snapshots db1" using Inr q by (auto simp: sync_user_fields_def handler_Inr put_user_def)
    moreover have e: "db' = db2" "r = Inr u1" using assms(2) Inr q p \<open>get_or_create_user d ph db = Inr p\<close> by (auto simp: sign_in_def)
    moreover have "\<exists>y \<in> set (users db2). user_id y = user_id x \<and> (email x \<noteq> [] \<longrightarrow> email y \<noteq> []) \<and> (user_id x \<noteq> ud_id d \<longrightarrow> y = x)"
      if "x \<in> set (users db)" for x
    proof (cases "user_id x = ud_id d")
      case True
      then have "ud_id d \<in> user_id ` set (users db)" using that by (metis imageI)
      with g have "db1 = db" by blast
      with g have "u0 \<in> set (users db)" "user_id u0 = user_id x" using True by simp_all
      moreover have "inj_on user_id (set (users db))" using assms(1) by (simp add: users_ok_def distinct_map)
      ultimately have "u0 = x" using that by (auto dest: inj_onD)
      with s True g show ?thesis by auto
    next
      case False
      then have "x \<in> set (users db2)" using s g that by force
      with False show ?thesis by blast
    qed
    moreover have "users_ok (users db2)" "u1 \<in> set (users db2)" "user_id u1 = ud_id d" "role_of (ud_role d) = Inr (role u1)"
      "username u1 = ud_username d" "contacts db2 = contacts db"
      using s g c by (blast, blast, simp, blast, blast, simp)
    ultimately show ?thesis using c by auto
  qed
qed

section \<open>The contacts table\<close>

definition contacts_ok :: "namespace_contact list \<Rightarrow> bool" where
  "contacts_ok rows \<longleftrightarrow> distinct (map (\<lambda>r. (nc_namespace r, nc_cluster r)) rows)"

lemma upsert_contact_ok:
  assumes "contacts_ok rows"
  shows "\<exists>rows'. upsert_contact c rows = Inr rows' \<and> contacts_ok rows'"
proof -
  obtain ns cl mail where c: "c = (ns, cl, mail)" by (cases c)
  from scalar_unique [OF assms [unfolded contacts_ok_def], of "(ns, cl)"] obtain x where
    x: "scalar_one_or_none (filter (\<lambda>r. (nc_namespace r, nc_cluster r) = (ns, cl)) rows) = Inr x"
    "x = None \<longleftrightarrow> (ns, cl) \<notin> (\<lambda>r. (nc_namespace r, nc_cluster r)) ` set rows" by blast
  have same: "map (\<lambda>r. (nc_namespace r, nc_cluster r))
      (map (\<lambda>r. if (nc_namespace r, nc_cluster r) = (ns, cl) then r\<lparr>nc_email := mail\<rparr> else r) rows) =
      map (\<lambda>r. (nc_namespace r, nc_cluster r)) rows"
    by (auto simp: comp_def)
  show ?thesis
    using assms x same by (cases x) (auto simp: upsert_contact_def c contacts_ok_def simp del: map_map)
qed

lemma upsert_contacts_ok: "contacts_ok rows \<Longrightarrow> \<exists>rows'. upsert_contacts cs rows = Inr rows' \<and> contacts_ok rows'"
proof (induction cs arbitrary: rows)
  case (Cons c cs)
  then show ?case using upsert_contact_ok [OF Cons.prems, of c] by (auto simp: rbind_def)
qed simp

lemma upsert_namespace_contacts_ok:
  assumes "contacts_ok (contacts db)"
  shows "\<exists>rows. upsert_namespace_contacts cs db = Inr (db\<lparr>contacts := rows\<rparr>) \<and> contacts_ok rows"
  using upsert_contacts_ok [OF assms, of cs] by (auto simp: upsert_namespace_contacts_def)

section \<open>One request\<close>

text \<open>What a request keeps: the unique keys, the other accounts, and an email once there is one; and what it knows
  about the user it lets in.\<close>

definition keeps_users :: "app_db \<Rightarrow> app_db \<Rightarrow> bool" where
  "keeps_users db db' \<longleftrightarrow> users_ok (users db') \<and> contacts_ok (contacts db') \<and> db_now db' = db_now db \<and> snapshots db' = snapshots db \<and>
     (\<forall>x \<in> set (users db). \<exists>y \<in> set (users db'). user_id y = user_id x \<and> (email x \<noteq> [] \<longrightarrow> email y \<noteq> []))"

definition lets_in :: "auth_cfg \<Rightarrow> app_db \<Rightarrow> current_user result \<Rightarrow> bool" where
  "lets_in cf db r \<longleftrightarrow> (\<forall>u. r = Inr u \<longrightarrow> length (cu_namespaces u) \<le> at_max_namespaces cf \<and>
     (cu_has_all u \<longrightarrow> cu_namespaces u = []) \<and>
     (\<exists>x \<in> set (users db). user_id x = cu_id u \<and> username x = cu_username u \<and> email x = cu_email u \<and> role x = cu_role u))"

lemma lets_in_error [simp]: "lets_in cf db (Inl e)"
  by (simp add: lets_in_def)

lemma keeps_users_refl: "users_ok (users db) \<Longrightarrow> contacts_ok (contacts db) \<Longrightarrow> keeps_users db db"
  by (auto simp: keeps_users_def)

lemma keeps_users_contacts:
  "keeps_users db db' \<Longrightarrow> contacts_ok rows \<Longrightarrow> keeps_users db (db'\<lparr>contacts := rows\<rparr>)"
  "contacts_ok (contacts db) \<Longrightarrow> keeps_users (db\<lparr>contacts := rows\<rparr>) db' \<Longrightarrow> keeps_users db db'"
  by (auto simp: keeps_users_def)

lemma lets_in_contacts [simp]: "lets_in cf (db\<lparr>contacts := rows\<rparr>) r = lets_in cf db r"
  by (simp add: lets_in_def)

lemma sign_in_keeps:
  assumes "users_ok (users db)" and "contacts_ok (contacts db)" and "sign_in d ph db = (db', q)"
  shows "keeps_users db db'"
  using sign_in_ok [OF assms(1,3)] assms(2) by (fastforce simp: keeps_users_def)

lemma sign_in_lets_in:
  assumes "users_ok (users db)" and "sign_in d ph db = (db', q)"
    and "length nss \<le> at_max_namespaces cf" and "has_all \<longrightarrow> nss = []"
  shows "lets_in cf db' (rbind q (\<lambda>u. Inr (to_current_user u nss has_all)))"
  using sign_in_ok [OF assms(1,2)] assms(3,4) by (auto simp: lets_in_def to_current_user_def rbind_Inr_iff)

lemma dev_ok:
  assumes ok: "users_ok (users db)" "contacts_ok (contacts db)" and h: "handle_dev_mode cf db = (db', r)"
  shows "keeps_users db db' \<and> lets_in cf db' r"
proof (cases "if py_strip (at_dev_namespaces cf) = ''*'' then Inr [] else parse_namespaces_header cf (at_dev_namespaces cf)")
  case (Inl e)
  with h have "db' = db" "r = Inl e" by (simp_all add: handle_dev_mode_def Let_def)
  with ok show ?thesis by (simp add: keeps_users_refl)
next
  case (Inr nss)
  obtain rows where u: "upsert_namespace_contacts (parse_namespace_emails_header (at_dev_emails cf)) db = Inr (db\<lparr>contacts := rows\<rparr>)"
    "contacts_ok rows" using upsert_namespace_contacts_ok [OF ok(2)] by blast
  have len: "length nss \<le> at_max_namespaces cf" "py_strip (at_dev_namespaces cf) = ''*'' \<longrightarrow> nss = []"
    using Inr parse_namespaces_header_Inr by (auto split: if_splits)
  from h obtain d q where s: "sign_in d [] (db\<lparr>contacts := rows\<rparr>) = (db', q)"
    "r = rbind q (\<lambda>u. Inr (to_current_user u nss (py_strip (at_dev_namespaces cf) = ''*'')))"
    unfolding handle_dev_mode_def Let_def Inr u(1) by (auto split: prod.splits)
  have o: "users_ok (users (db\<lparr>contacts := rows\<rparr>))" "contacts_ok (contacts (db\<lparr>contacts := rows\<rparr>))" using ok(1) u(2) by simp_all
  show ?thesis
    using sign_in_keeps [OF o s(1)] sign_in_lets_in [OF o(1) s(1) len] ok(2) s(2) by (auto intro: keeps_users_contacts(2))
qed

lemma spoke_ok:
  assumes ok: "users_ok (users db)" "contacts_ok (contacts db)" and h: "handle_spoke_proxy cf env h st db = ((db', st'), r)"
  shows "keeps_users db db' \<and> lets_in cf db' r"
proof (cases "hdr h ''X-Forwarded-User'' = []")
  case True
  with h ok show ?thesis by (auto simp: handle_spoke_proxy_def keeps_users_refl)
next
  case user: False
  obtain n st1 where n: "spoke_namespaces cf env h st = (n, st1)" by fastforce
  show ?thesis
  proof (cases n)
    case (Inl e)
    with h ok n user show ?thesis by (auto simp: handle_spoke_proxy_def keeps_users_refl)
  next
    case (Inr nss)
    obtain db1 q where s: "sign_in (spoke_user_data cf h) (hdr h ''X-Forwarded-User'' @ ''@spoke.local'') db = (db1, q)" by fastforce
    note k = sign_in_keeps [OF ok s]
    obtain rows where u: "upsert_namespace_contacts (parse_namespace_emails_header (hdr h ''X-Forwarded-Namespace-Emails'')) db1 =
      Inr (db1\<lparr>contacts := rows\<rparr>)" "contacts_ok rows"
      using upsert_namespace_contacts_ok [of db1] k by (auto simp: keeps_users_def)
    have len: "length nss \<le> at_max_namespaces cf" "py_strip (hdr h ''X-Forwarded-Namespaces'') = ''*'' \<longrightarrow> nss = []"
      using spoke_namespaces_Inr n Inr by (auto simp: spoke_namespaces_def Let_def)
    note l = sign_in_lets_in [OF ok(1) s len]
    show ?thesis
    proof (cases q)
      case (Inl e)
      with h n user Inr s k show ?thesis by (auto simp: handle_spoke_proxy_def)
    next
      case (Inr v)
      with h n user \<open>n = Inr nss\<close> s u k l show ?thesis by (auto simp: handle_spoke_proxy_def intro: keeps_users_contacts(1))
    qed
  qed
qed

lemma hide_failure_Inl: "\<exists>e'. hide_failure (Inl e) = Inl e'"
  by (cases e) (simp_all add: hide_failure_def)

lemma lets_in_hidden: "lets_in cf db r \<Longrightarrow> lets_in cf db (hide_failure r)"
  by (auto simp: lets_in_def hide_failure_def split: sum.splits error.splits)

lemma payload_ok:
  assumes ok: "users_ok (users db)" "contacts_ok (contacts db)" and h: "oidc_payload cf p db = (db', r)"
  shows "keeps_users db db' \<and> lets_in cf db' r"
proof -
  let ?c = "claim_namespaces p" and ?all = "claim_namespaces p \<noteq> [] \<and> py_strip (claim_namespaces p) = ''*''"
  show ?thesis
  proof (cases "truthy (cl_sub p) \<and> cl_iss p = Some (at_issuer cf)")
    case False
    with h ok show ?thesis by (auto simp: oidc_payload_def keeps_users_refl split: if_splits)
  next
    case t: True
    show ?thesis
    proof (cases "if ?all \<or> ?c = [] then Inr [] else parse_namespaces_header cf ?c")
      case (Inl e)
      with h ok t show ?thesis by (auto simp: oidc_payload_def Let_def keeps_users_refl split: if_splits sum.splits)
    next
      case (Inr nss)
      have len: "length nss \<le> at_max_namespaces cf" "?all \<longrightarrow> nss = []"
        using Inr parse_namespaces_header_Inr by (auto split: if_splits)
      from h t obtain q where s: "sign_in (oidc_user_data cf p) [] db = (db', q)" "r = rbind q (\<lambda>u. Inr (to_current_user u nss ?all))"
        unfolding oidc_payload_def Let_def Inr by (auto split: prod.splits)
      show ?thesis using sign_in_keeps [OF ok s(1)] sign_in_lets_in [OF ok(1) s(1) len] s(2) by simp
    qed
  qed
qed

lemma oidc_ok:
  assumes ok: "users_ok (users db)" "contacts_ok (contacts db)" and h: "handle_oidc_jwt cf env h c db = ((db', c'), r)"
  shows "keeps_users db db' \<and> lets_in cf db' r"
proof -
  have "db' = db \<and> (\<exists>e. r = Inl e) \<or> (\<exists>p q. oidc_payload cf p db = (db', q) \<and> r = hide_failure q)"
    using h hide_failure_Inl by (fastforce simp: handle_oidc_jwt_def Let_def split: if_splits prod.splits sum.splits option.splits)
  then show ?thesis
    using payload_ok [OF ok] keeps_users_refl [OF ok] lets_in_hidden by auto
qed

lemma authenticate_ok:
  assumes ok: "users_ok (users db)" "contacts_ok (contacts db)" and h: "authenticate cf env h st db = ((db', st'), r)"
  shows "keeps_users db db' \<and> lets_in cf db' r"
  using h dev_ok [OF ok] spoke_ok [OF ok] oidc_ok [OF ok]
  by (auto simp: authenticate_def Let_def split: if_splits prod.splits)

section \<open>Writing the namespaces header\<close>

lemma py_strip_fixed: "s \<noteq> [] \<Longrightarrow> py_strip s = s \<longleftrightarrow> \<not> is_space (hd s) \<and> \<not> is_space (last s)"
proof -
  assume ne: "s \<noteq> []"
  have "\<not> is_space (hd s) \<and> \<not> is_space (last s)" if "py_strip s = s"
  proof -
    have "rev s = dropWhile is_space (rev (dropWhile is_space s))" using that by (metis py_strip_def rev_rev_ident)
    with ne have "\<not> is_space (hd (rev s))" by (metis Nil_is_rev_conv hd_dropWhile)
    then have l: "\<not> is_space (last s)" using ne by (simp add: hd_rev)
    have "length (dropWhile is_space s) \<ge> length s"
      using \<open>rev s = _\<close> by (metis length_dropWhile_le length_rev)
    moreover obtain z where "s = z @ dropWhile is_space s" by (metis takeWhile_dropWhile_id)
    ultimately have "dropWhile is_space s = s" by (metis append_Nil append_eq_append_conv le_antisym length_dropWhile_le)
    with ne l show ?thesis by (metis hd_dropWhile)
  qed
  moreover have "py_strip s = s" if "\<not> is_space (hd s) \<and> \<not> is_space (last s)"
    using that ne by (simp add: py_strip_def dropWhile_stripped hd_rev)
  ultimately show ?thesis by blast
qed

definition pair_text :: "pair \<Rightarrow> string" where
  "pair_text = (\<lambda>(n, c). n @ '':'' @ c)"

definition namespaces_header :: "pair list \<Rightarrow> string" where
  "namespaces_header ps = sep_by '','' (map pair_text ps)"

text \<open>Names that can be written into the header: not empty, without outer spaces and commas, the namespace
  without a colon.\<close>

definition header_pair_ok :: "pair \<Rightarrow> bool" where
  "header_pair_ok = (\<lambda>(n, c). n \<noteq> [] \<and> c \<noteq> [] \<and> py_strip n = n \<and> py_strip c = c \<and>
     CHR '','' \<notin> set n \<and> CHR '','' \<notin> set c \<and> CHR '':'' \<notin> set n)"

lemma split_once_first: "x \<notin> set a \<Longrightarrow> split_once x (a @ x # b) = Some (a, b)"
  by (induction a) (auto simp: split_once_def)

lemma parse_entry_text: "header_pair_ok p \<Longrightarrow> parse_entry (pair_text p) = Some p"
proof -
  assume ok: "header_pair_ok p"
  obtain n c where p: "p = (n, c)" by fastforce
  have "py_strip (n @ '':'' @ c) = n @ '':'' @ c"
    using ok by (subst py_strip_fixed) (auto simp: p header_pair_ok_def py_strip_fixed)
  moreover have "split_once (CHR '':'') (n @ '':'' @ c) = Some (n, c)"
    using ok split_once_first [of "CHR '':''" n c] by (simp add: p header_pair_ok_def)
  ultimately show ?thesis using ok by (simp add: parse_entry_def p pair_text_def header_pair_ok_def)
qed

lemma py_split_none: "x \<notin> set a \<Longrightarrow> py_split x a = [a]"
  by (induction a) auto

lemma py_split_first: "x \<notin> set a \<Longrightarrow> py_split x (a @ x # b) = a # py_split x b"
  by (induction a) auto

lemma py_split_sep_by: "xs \<noteq> [] \<Longrightarrow> \<forall>a \<in> set xs. x \<notin> set a \<Longrightarrow> py_split x (sep_by [x] xs) = xs"
  by (induction "[x]" xs rule: sep_by.induct) (simp_all add: py_split_none py_split_first)

lemma map_filter_all: "(\<And>x. x \<in> set xs \<Longrightarrow> f (g x) = Some x) \<Longrightarrow> List.map_filter f (map g xs) = xs"
  by (induction xs) (auto simp: List.map_filter_simps)

lemma header_not_blank: "header_pair_ok p \<Longrightarrow> py_strip (namespaces_header (p # ps)) \<noteq> []"
proof -
  assume ok: "header_pair_ok p"
  obtain n c where p: "p = (n, c)" by fastforce
  with ok have "n \<noteq> []" "\<not> is_space (hd n)" using py_strip_fixed [of n] by (auto simp: header_pair_ok_def)
  then have "\<exists>x t. namespaces_header (p # ps) = x # t \<and> \<not> is_space x"
    by (cases n; cases ps) (auto simp: namespaces_header_def p pair_text_def)
  then obtain x t where x: "namespaces_header (p # ps) = x # t" "\<not> is_space x" by blast
  then show ?thesis by (auto simp: py_strip_def dropWhile_append dropWhile_eq_Nil_conv)
qed

section \<open>Properties\<close>

text \<open>The namespaces header that the injector writes is read back: for pairs whose names can be written into it,
  within the limit, parsing gives the same pairs in the same order.\<close>

theorem namespaces_header_roundtrip:
  assumes "\<forall>p \<in> set ps. header_pair_ok p" and "length ps \<le> at_max_namespaces cf"
  shows "parse_namespaces_header cf (namespaces_header ps) = Inr ps"
proof (cases ps)
  case Nil
  then show ?thesis by (simp add: parse_namespaces_header_def namespaces_header_def py_strip_def)
next
  case (Cons p qs)
  have "\<forall>a \<in> set (map pair_text ps). CHR '','' \<notin> set a" using assms(1) by (auto simp: header_pair_ok_def pair_text_def)
  then have "comma_parts (namespaces_header ps) = map pair_text ps"
    unfolding comma_parts_def namespaces_header_def using Cons by (intro py_split_sep_by) simp_all
  moreover have "List.map_filter parse_entry (map pair_text ps) = ps"
    using assms(1) by (intro map_filter_all parse_entry_text) blast
  ultimately show ?thesis
    using header_not_blank [of p qs] assms Cons by (simp add: parse_namespaces_header_def check_namespace_count_def)
qed

definition ex_auth :: auth_cfg where
  "ex_auth = \<lparr>at_dev_mode = False, at_dev_id = [], at_dev_name = [], at_dev_full_name = [], at_dev_email = [],
     at_dev_role = ''sec_team'', at_dev_namespaces = [], at_dev_emails = [], at_issuer = ''https://idp'',
     at_client_id = ''app'', at_api_keys = [''k''], at_sec_group = ''sec'', at_access = ex_access_cfg, at_max_namespaces = 2\<rparr>"

theorem namespaces_header_roundtrip_witness:
  "parse_namespaces_header ex_auth (namespaces_header [(''shop'', ''c1''), (''pay'', ''c:2'')]) = Inr [(''shop'', ''c1''), (''pay'', ''c:2'')]"
proof -
  have "py_strip ''shop'' = ''shop''" "py_strip ''pay'' = ''pay''" "py_strip ''c1'' = ''c1''" "py_strip ''c:2'' = ''c:2''"
    by code_simp+
  then show ?thesis
    by (intro namespaces_header_roundtrip) (simp_all add: header_pair_ok_def ex_auth_def)
qed

text \<open>C11: No request breaks the accounts, whether it is let in or turned away: ids and, whatever the case, user names stay
  unique, so does the contact of a namespace, no account disappears, and an account that has an email address
  keeps one.\<close>

theorem accounts_invariant:
  assumes "users_ok (users db)" and "contacts_ok (contacts db)"
    and "get_current_user sha256 cf env h st db = ((db', st'), r)"
  shows "users_ok (users db') \<and> contacts_ok (contacts db') \<and>
    (\<forall>x \<in> set (users db). \<exists>y \<in> set (users db'). user_id y = user_id x \<and> (email x \<noteq> [] \<longrightarrow> email y \<noteq> []))"
proof -
  obtain db1 st1 r1 where a: "authenticate cf env h st db = ((db1, st1), r1)" by (metis prod.exhaust)
  have "users db' = users db1 \<and> contacts db' = contacts db1"
    using assms(3) a by (auto simp: get_current_user_def Let_def record_namespace_snapshot_def split: sum.splits option.splits if_splits)
  with authenticate_ok [OF assms(1,2) a] show ?thesis by (auto simp: keeps_users_def)
qed

text \<open>Whoever is let in has at most as many namespaces as the limit allows, none listed when all are visible, and is
  an account of the users table with the same id, name, email and role; the snapshot of the namespaces is
  of this request or less than an hour old.\<close>

theorem signed_in_bounded:
  assumes "users_ok (users db)" and "contacts_ok (contacts db)" and "snapshots_ok db"
    and "get_current_user sha256 cf env h st db = ((db', st'), Inr u)"
  shows "length (cu_namespaces u) \<le> at_max_namespaces cf \<and> (cu_has_all u \<longrightarrow> cu_namespaces u = []) \<and>
    (\<exists>x \<in> set (users db'). user_id x = cu_id u \<and> username x = cu_username u \<and> email x = cu_email u \<and> role x = cu_role u) \<and>
    (\<exists>s. snapshot_of db' (cu_id u) = Some s \<and> sn_hash s = namespaces_hash sha256 (cu_namespaces u) (cu_has_all u) \<and>
       db_now db - sn_last_seen s < touch_interval)"
proof -
  obtain db1 st1 r1 where a: "authenticate cf env h st db = ((db1, st1), r1)" by (metis prod.exhaust)
  have r: "r1 = Inr u" "db' = record_namespace_snapshot sha256 u (db_now db1) db1"
    using assms(4) a by (auto simp: get_current_user_def Let_def split: sum.splits)
  have "users db' = users db1"
    unfolding r(2) by (auto simp: record_namespace_snapshot_def Let_def split: option.splits)
  moreover note ok = authenticate_ok [OF assms(1,2) a]
  then have "db_now db1 = db_now db" "snapshots_ok db1" using assms(3) by (auto simp: keeps_users_def snapshots_ok_def)
  note snap = record_snapshot_fresh [OF this(2), of sha256 u "db_now db"] this(1)
  ultimately show ?thesis using ok r by (auto simp: lets_in_def)
qed

text \<open>C15: The identity headers count only with an API key: outside the development mode, two requests without a valid key
  and with the same bearer token are treated alike, whatever else they claim.\<close>

theorem forwarded_headers_need_key:
  assumes "\<not> at_dev_mode cf" and "\<not> validate_api_key cf h" and "\<not> validate_api_key cf h'"
    and "h ''Authorization'' = h' ''Authorization''"
  shows "get_current_user sha256 cf env h st db = get_current_user sha256 cf env h' st db"
proof -
  have "handle_oidc_jwt cf env h = handle_oidc_jwt cf env h'"
    using assms(4) by (intro ext) (simp add: handle_oidc_jwt_def hdr_def)
  then show ?thesis using assms(1-3) by (simp add: get_current_user_def authenticate_def)
qed

definition ex_headers :: headers where
  "ex_headers = [''X-Api-Key'' \<mapsto> ''k'', ''X-Forwarded-User'' \<mapsto> ''ann'', ''X-Forwarded-Groups'' \<mapsto> ''dev,sec'',
     ''X-Forwarded-Namespaces'' \<mapsto> ''pay:prod'', ''X-Forwarded-Cluster'' \<mapsto> ''prod'']"

definition ex_env :: auth_env where
  "ex_env = \<lparr>ae_kid = (\<lambda>_. None), ae_jwks = (\<lambda>_. None), ae_decode = (\<lambda>_ _ _ _. None), ae_annotations = None, ae_mono = 60\<rparr>"

definition ex_auth_state :: auth_state where
  "ex_auth_state = \<lparr>au_access = fst (refresh_round ex_access_cfg (Some ex_ns_rows) 0 reset_namespace_access),
     au_cache = \<lparr>jc_keys = [], jc_at = 0\<rparr>\<rparr>"

theorem forwarded_headers_need_key_witness:
  "get_current_user id ex_auth ex_env (ex_headers(''X-Api-Key'' \<mapsto> ''guess'')) ex_auth_state empty_db =
   get_current_user id ex_auth ex_env Map.empty ex_auth_state empty_db"
  by (rule forwarded_headers_need_key) (simp_all add: ex_auth_def validate_api_key_def ex_headers_def)

text \<open>C10: A request through a spoke proxy gets what its headers and the annotations say: the id of the forwarded user, the
  role of the security team iff its group is among the forwarded groups, all namespaces iff the header is a star,
  and otherwise the namespaces of the header with those granted on the peer clusters by the last load, when
  that is at most fifteen minutes old.\<close>

theorem spoke_user_exact:
  assumes "\<not> at_dev_mode cf" and "validate_api_key cf h"
    and "users_ok (users db)" and "contacts_ok (contacts db)"
    and "access_reachable (at_access cf) (au_access st) (Some (t, tbl))"
    and "get_current_user sha256 cf env h st db = ((db', st'), Inr u)"
  shows "cu_id u = ''spoke:'' @ hdr h ''X-Forwarded-User'' \<and>
    (is_sec_team u \<longleftrightarrow> at_sec_group cf \<in> set (header_groups (hdr h ''X-Forwarded-Groups''))) \<and>
    (cu_has_all u \<longleftrightarrow> py_strip (hdr h ''X-Forwarded-Namespaces'') = ''*'') \<and>
    (\<not> cu_has_all u \<longrightarrow> (\<exists>nss. parse_namespaces_header cf (hdr h ''X-Forwarded-Namespaces'') = Inr nss \<and>
       set (cu_namespaces u) = set nss \<union> (if ae_mono env - t \<le> 900
         then {p. granted (at_access cf) tbl (py_strip (hdr h ''X-Forwarded-Cluster'')) (hdr h ''X-Forwarded-User'')
                    (header_groups (hdr h ''X-Forwarded-Groups'')) p} else {})))"
proof -
  let ?star = "py_strip (hdr h ''X-Forwarded-Namespaces'') = ''*''"
  obtain db1 a where s: "handle_spoke_proxy cf env h (au_access st) db = ((db1, a), Inr u)"
    using assms(1,2,6) by (auto simp: get_current_user_def authenticate_def Let_def split: prod.splits sum.splits)
  then obtain nss a' q where n: "spoke_namespaces cf env h (au_access st) = (Inr nss, a')"
    and i: "sign_in (spoke_user_data cf h) (hdr h ''X-Forwarded-User'' @ ''@spoke.local'') db = (q)"
    by (auto simp: handle_spoke_proxy_def Let_def split: if_splits prod.splits sum.splits)
  then obtain db2 v where v: "sign_in (spoke_user_data cf h) (hdr h ''X-Forwarded-User'' @ ''@spoke.local'') db = (db2, Inr v)"
    "u = to_current_user v nss ?star"
    using s by (auto simp: handle_spoke_proxy_def Let_def split: if_splits prod.splits sum.splits)
  have id: "user_id v = ''spoke:'' @ hdr h ''X-Forwarded-User''"
    "role_of (ud_role (spoke_user_data cf h)) = Inr (role v)"
    using sign_in_ok [OF assms(3) v(1)] by (auto simp: spoke_user_data_def)
  have "role v = resolve_role_from_groups (header_groups (hdr h ''X-Forwarded-Groups'')) cf"
    using id(2) by (auto simp: spoke_user_data_def role_of_def resolve_role_from_groups_def split: if_splits)
  then have sec: "is_sec_team u \<longleftrightarrow> at_sec_group cf \<in> set (header_groups (hdr h ''X-Forwarded-Groups''))"
    by (auto simp: v(2) is_sec_team_def to_current_user_def resolve_role_from_groups_def)
  have "\<exists>ns0. parse_namespaces_header cf (hdr h ''X-Forwarded-Namespaces'') = Inr ns0 \<and>
       set nss = set ns0 \<union> (if ae_mono env - t \<le> 900
         then {p. granted (at_access cf) tbl (py_strip (hdr h ''X-Forwarded-Cluster'')) (hdr h ''X-Forwarded-User'')
                    (header_groups (hdr h ''X-Forwarded-Groups'')) p} else {})" if "\<not> ?star"
  proof -
    obtain extra a'' where e: "resolve_cross_cluster_namespaces (at_access cf) (ae_annotations env) (ae_mono env)
        (py_strip (hdr h ''X-Forwarded-Cluster'')) (hdr h ''X-Forwarded-User'')
        (header_groups (hdr h ''X-Forwarded-Groups'')) (au_access st) = (extra, a'')" by fastforce
    have idx: "as_index (au_access st) = Some (build_access_index (loaded (at_access cf) tbl) t)"
      using reachable_index [OF assms(5)] by simp
    have "set (merge_namespaces ns0 extra) = set ns0 \<union> set extra" for ns0 by (auto simp: merge_namespaces_def)
    with n that e show ?thesis
      unfolding resolve_fresh [OF idx e, unfolded max_staleness_def refresh_interval_def, simplified, symmetric]
      by (auto simp: spoke_namespaces_def Let_def handler_Inr split: sum.splits if_splits)
  qed
  then show ?thesis using id(1) sec by (auto simp: v(2) to_current_user_def)
qed

lemma ex_signed_in: "isl (snd (authenticate ex_auth ex_env ex_headers ex_auth_state empty_db)) = False"
  by code_simp

lemma ex_get_current_user:
  obtains db' st' u where "get_current_user id ex_auth ex_env ex_headers ex_auth_state empty_db = ((db', st'), Inr u)"
proof -
  obtain db1 st1 r where a: "authenticate ex_auth ex_env ex_headers ex_auth_state empty_db = ((db1, st1), r)" by (metis prod.exhaust)
  with ex_signed_in obtain u where "r = Inr u" by (cases r) auto
  with a that show thesis by (simp add: get_current_user_def)
qed

lemma ex_tables_ok: "users_ok (users empty_db)" "contacts_ok (contacts empty_db)" "snapshots_ok empty_db"
  by (simp_all add: users_ok_def contacts_ok_def snapshots_ok_def)

lemma ex_access_reachable: "access_reachable (at_access ex_auth) (au_access ex_auth_state) (Some (0, ex_ns_rows))"
  using access_reachable.refreshed [OF access_reachable.start, of ex_access_cfg ex_ns_rows 0]
  by (simp add: ex_auth_def ex_auth_state_def) (metis prod.collapse)

theorem accounts_invariant_witness:
  "users_ok (users (fst (fst (get_current_user id ex_auth ex_env ex_headers ex_auth_state empty_db))))"
proof -
  obtain db' st' u where g: "get_current_user id ex_auth ex_env ex_headers ex_auth_state empty_db = ((db', st'), Inr u)"
    by (rule ex_get_current_user)
  show ?thesis using accounts_invariant [OF ex_tables_ok(1,2) g] by (simp add: g)
qed

theorem signed_in_bounded_witness:
  "\<exists>u. snd (get_current_user id ex_auth ex_env ex_headers ex_auth_state empty_db) = Inr u \<and> length (cu_namespaces u) \<le> 2"
proof -
  obtain db' st' u where g: "get_current_user id ex_auth ex_env ex_headers ex_auth_state empty_db = ((db', st'), Inr u)"
    by (rule ex_get_current_user)
  have "at_max_namespaces ex_auth = 2" by (simp add: ex_auth_def)
  then show ?thesis using signed_in_bounded [OF ex_tables_ok g] by (simp add: g)
qed

theorem spoke_user_exact_witness:
  "\<exists>u. snd (get_current_user id ex_auth ex_env ex_headers ex_auth_state empty_db) = Inr u \<and> cu_id u = ''spoke:ann'' \<and> is_sec_team u"
proof -
  obtain db' st' u where g: "get_current_user id ex_auth ex_env ex_headers ex_auth_state empty_db = ((db', st'), Inr u)"
    by (rule ex_get_current_user)
  have h: "\<not> at_dev_mode ex_auth" "validate_api_key ex_auth ex_headers" "hdr ex_headers ''X-Forwarded-User'' = ''ann''"
    "at_sec_group ex_auth \<in> set (header_groups (hdr ex_headers ''X-Forwarded-Groups''))" by code_simp+
  show ?thesis
    using spoke_user_exact [OF h(1,2) ex_tables_ok(1,2) ex_access_reachable g] h(3,4) by (simp add: g)
qed

end
