(* ===== verification/TeamAlerts.thy ===== *)
theory TeamAlerts
  imports CveView Notifications Snapshots Examples
begin

text \<open>
  Team alerts: the first half of \<open>app/services/team_notifications.py\<close>. A set of alert keys is a list without
  order. The address check of the mail service is a parameter; which mails the server accepts is one too. The
  counters that are only logged are left out.
\<close>

section \<open>Alert keys\<close>

definition max_alerts_per_user :: nat where "max_alerts_per_user = 10"
definition reason_visible :: string where "reason_visible = ''visible''"
definition reason_prioritized :: string where "reason_prioritized = ''prioritized''"
definition reason_email_critical :: string where "reason_email_critical = ''email_critical''"
definition reason_email_critical_fixable :: string where "reason_email_critical_fixable = ''email_critical_fixable''"
definition email_reasons :: "string list" where "email_reasons = [reason_email_critical, reason_email_critical_fixable]"
definition alert_email_delivery_retention_days :: int where "alert_email_delivery_retention_days = 30"

text \<open>Per reason: notification type, preference category, key of a single and of a summary message.\<close>

definition reason_config :: "(string \<times> notif_type \<times> string \<times> string \<times> string) list" where
  "reason_config =
     [(reason_visible, NNewCriticalCve, ''new_critical_cve'', ''new_relevant_cve'', ''team_cve_alert_summary''),
      (reason_prioritized, NNewPriority, ''priority'', ''cve_prioritized_team'', ''team_priority_alert_summary'')]"

definition baseline_mark :: alert_key where "baseline_mark = (''__baseline__'', [], [], ''baseline:v2'')"
definition baseline_mark_email :: alert_key where "baseline_mark_email = (''__baseline__'', [], [], ''baseline:email:v1'')"
definition baseline_marks :: "alert_key list" where "baseline_marks = [baseline_mark, baseline_mark_email]"

definition baseline_for :: "string \<Rightarrow> alert_key" where
  "baseline_for reason = (if reason \<in> set email_reasons then baseline_mark_email else baseline_mark)"

definition classify_row :: "string set \<Rightarrow> supp_rule list \<Rightarrow> supp_rule list \<Rightarrow> loc_row \<Rightarrow> alert_key list" where
  "classify_row prioritized cve_rules comp_rules r =
     (if is_location_suppressed (lr_cve r) (lr_namespace r) (lr_cluster r) (lr_components r) cve_rules comp_rules then []
      else let key = (\<lambda>reason. (lr_cve r, lr_namespace r, lr_cluster r, reason)) in
        key (if lr_cve r \<in> prioritized then reason_prioritized else reason_visible) #
        (if lr_severity r = 4
         then key reason_email_critical # (if lr_fixable r then [key reason_email_critical_fixable] else [])
         else []))"

definition classify_candidates ::
    "loc_row list \<Rightarrow> string set \<Rightarrow> supp_rule list \<Rightarrow> supp_rule list \<Rightarrow> alert_key list" where
  "classify_candidates rows prioritized cve_rules comp_rules =
     remdups (concat (map (classify_row prioritized cve_rules comp_rules) rows))"

section \<open>Alerts in the app\<close>

record user_alert =
  ua_cve :: string
  ua_reason :: string
  ua_namespaces :: "pair list"

text \<open>The new keys in the namespaces of a recipient, and one alert per CVE and reason for them.\<close>

definition recipient_hits :: "active_recipient \<Rightarrow> alert_key list \<Rightarrow> ((string \<times> string) \<times> pair) list" where
  "recipient_hits r keys =
     concat (map (\<lambda>ns. map (\<lambda>(c, n, cl, reason). ((c, reason), (n, cl))) (filter (\<lambda>(c, n, cl, reason). (n, cl) = ns) keys))
       (ar_namespaces r))"

definition recipient_alerts :: "active_recipient \<Rightarrow> alert_key list \<Rightarrow> user_alert list" where
  "recipient_alerts r keys =
     (let hits = recipient_hits r keys in
      sort_key (\<lambda>a. (ua_reason a \<noteq> reason_prioritized, ua_cve a))
        (map (\<lambda>(c, reason). \<lparr>ua_cve = c, ua_reason = reason,
            ua_namespaces = map snd (filter (\<lambda>h. fst h = (c, reason)) hits)\<rparr>) (dedupe (map fst hits))))"

definition plan_user_alerts :: "active_recipient list \<Rightarrow> alert_key list \<Rightarrow> (string \<times> user_alert list) list" where
  "plan_user_alerts rs keys =
     map (\<lambda>r. (user_id (ar_user r), recipient_alerts r keys))
       (filter (\<lambda>r. \<not> can_see_all_namespaces (as_current_user r) \<and> recipient_alerts r keys \<noteq> []) rs)"

text \<open>A loop that counts what it sends.\<close>

fun count_all :: "('a \<Rightarrow> app_db \<Rightarrow> (app_db \<times> nat) result) \<Rightarrow> 'a list \<Rightarrow> app_db \<Rightarrow> (app_db \<times> nat) result" where
  "count_all f [] db = Inr (db, 0)"
| "count_all f (x # xs) db =
     rbind (f x db) (\<lambda>(db1, n). rbind (count_all f xs db1) (\<lambda>(db2, m). Inr (db2, n + m)))"

definition send_reason ::
    "string \<Rightarrow> user_alert list \<Rightarrow> string \<times> notif_type \<times> string \<times> string \<times> string \<Rightarrow> app_db \<Rightarrow> (app_db \<times> nat) result" where
  "send_reason uid alerts = (\<lambda>(reason, ty, cat, single, summary) db.
     let grp = filter (\<lambda>a. ua_reason a = reason) alerts in
     if grp = [] then Inr (db, 0)
     else rbind (wants db uid cat False) (\<lambda>w.
       if \<not> w then Inr (db, 0)
       else if max_alerts_per_user < length grp
       then rbind (create_notification uid ty summary [(''count'', digits_of (length grp))] (Some ''/vulnerabilities'')
           (Some (sorted_set (concat (map ua_namespaces grp)))) db) (\<lambda>db1. Inr (db1, 1))
       else rbind (notify_all grp (\<lambda>a. create_notification uid ty single [(''cve_id'', ua_cve a)]
           (Some (''/vulnerabilities/'' @ ua_cve a)) (Some (ua_namespaces a))) db) (\<lambda>db1. Inr (db1, length grp))))"

definition send_user_alerts :: "string \<Rightarrow> user_alert list \<Rightarrow> app_db \<Rightarrow> (app_db \<times> nat) result" where
  "send_user_alerts uid alerts = count_all (send_reason uid alerts) reason_config"

section \<open>The summary email\<close>

text \<open>Count field, reason, preference category; counts are given by field.\<close>

definition email_conditions :: "(string \<times> string \<times> string) list" where
  "email_conditions =
     [(''new_critical'', reason_email_critical, ''alert_email_critical''),
      (''critical_fixable'', reason_email_critical_fixable, ''alert_email_critical''),
      (''prioritized'', reason_prioritized, ''priority''), (''new_relevant'', reason_visible, ''new_critical_cve'')]"

type_synonym alert_counts = "(string \<times> nat) list"

definition has_news :: "alert_counts \<Rightarrow> bool" where
  "has_news c \<longleftrightarrow> list_ex (\<lambda>(_, n). n \<noteq> 0) c"

record alert_email_job =
  aj_user :: string
  aj_to :: string
  aj_name :: string
  aj_counts :: alert_counts
  aj_org_wide :: bool

definition recipient_counts :: "active_recipient \<Rightarrow> alert_key list \<Rightarrow> alert_counts" where
  "recipient_counts r keys =
     (let mine = (if can_see_all_namespaces (as_current_user r) then keys
                  else filter (\<lambda>(c, n, cl, reason). (n, cl) \<in> set (ar_namespaces r)) keys)
      in map (\<lambda>(name, reason, _). (name, card (fst ` set (filter (\<lambda>k. snd (snd (snd k)) = reason) mine)))) email_conditions)"

definition plan_alert_emails :: "active_recipient list \<Rightarrow> alert_key list \<Rightarrow> (string \<times> alert_counts) list" where
  "plan_alert_emails rs keys =
     map (\<lambda>r. (user_id (ar_user r), recipient_counts r keys)) (filter (\<lambda>r. has_news (recipient_counts r keys)) rs)"

text \<open>The counts that the user wants by email.\<close>

definition wanted_counts :: "app_db \<Rightarrow> string \<Rightarrow> alert_counts \<Rightarrow> alert_counts result" where
  "wanted_counts db uid counts =
     traverse (\<lambda>(name, _, cat). let v = (case map_of counts name of None \<Rightarrow> 0 | Some n \<Rightarrow> n) in
       if v = 0 then Inr (name, 0) else rbind (wants db uid cat True) (\<lambda>w. Inr (name, if w then v else 0)))
       email_conditions"

definition claim_one ::
    "(string \<Rightarrow> string option) \<Rightarrow> active_recipient list \<Rightarrow> datetime \<Rightarrow> string \<times> alert_counts \<Rightarrow> app_db \<Rightarrow>
     (app_db \<times> alert_email_job list) result" where
  "claim_one valid_email rs now = (\<lambda>(uid, counts) db.
     case dict_of (\<lambda>r. user_id (ar_user r)) rs uid of None \<Rightarrow> Inl (ServerError ''KeyError'')
     | Some r \<Rightarrow>
         rbind (wanted_counts db uid counts) (\<lambda>wanted.
           if \<not> has_news wanted then Inr (db, [])
           else case valid_email (email (ar_user r)) of None \<Rightarrow> Inr (db, [])
             | Some to \<Rightarrow>
                 if list_ex (\<lambda>d. fst d = uid \<and> fst (snd d) = date_of now) (alert_deliveries db) then Inr (db, [])
                 else Inr (db\<lparr>alert_deliveries := alert_deliveries db @ [(uid, date_of now, now)]\<rparr>,
                   [\<lparr>aj_user = uid, aj_to = to, aj_name = user_display_name (ar_user r), aj_counts = wanted,
                     aj_org_wide = can_see_all_namespaces (as_current_user r)\<rparr>])))"

fun claim_alert_emails ::
    "(string \<Rightarrow> string option) \<Rightarrow> active_recipient list \<Rightarrow> datetime \<Rightarrow> (string \<times> alert_counts) list \<Rightarrow> app_db \<Rightarrow>
     (app_db \<times> alert_email_job list) result" where
  "claim_alert_emails ve rs now [] db = Inr (db, [])"
| "claim_alert_emails ve rs now (p # ps) db =
     rbind (claim_one ve rs now p db) (\<lambda>(db1, js). rbind (claim_alert_emails ve rs now ps db1) (\<lambda>(db2, ks). Inr (db2, js @ ks)))"

definition send_alert_emails :: "(alert_email_job \<Rightarrow> bool) \<Rightarrow> alert_email_job list \<Rightarrow> nat" where
  "send_alert_emails sends jobs = length (filter sends jobs)"

section \<open>The job\<close>

definition mark_keys :: "app_db \<Rightarrow> alert_key list" where
  "mark_keys db = map fst (alert_marks db)"

text \<open>The marks after the run, and the keys to notify about.\<close>

definition update_marks :: "alert_key list \<Rightarrow> datetime \<Rightarrow> app_db \<Rightarrow> app_db" where
  "update_marks current now db =
     (let all_marks = mark_keys db;
          missing = filter (\<lambda>b. b \<notin> set all_marks) baseline_marks;
          existing = filter (\<lambda>k. k \<notin> set baseline_marks) all_marks;
          fresh = filter (\<lambda>k. k \<notin> set existing) current;
          stale = filter (\<lambda>k. k \<notin> set current) existing
      in db\<lparr>alert_marks := filter (\<lambda>m. fst m \<notin> set stale) (alert_marks db) @ map (\<lambda>k. (k, now)) (sorted_set missing @ sorted_set fresh),
            alert_deliveries := filter (\<lambda>d. date_of now - alert_email_delivery_retention_days \<le> fst (snd d)) (alert_deliveries db)\<rparr>)"

definition notify_keys :: "alert_key list \<Rightarrow> app_db \<Rightarrow> alert_key list" where
  "notify_keys current db =
     (let all_marks = mark_keys db in
      filter (\<lambda>k. baseline_for (snd (snd (snd k))) \<in> set all_marks \<and> (k \<in> set baseline_marks \<or> k \<notin> set all_marks)) (remdups current))"

definition apply_alert_diff ::
    "(string \<Rightarrow> string option) \<Rightarrow> config \<Rightarrow> alert_key list \<Rightarrow> datetime \<Rightarrow> app_db \<Rightarrow>
     (app_db \<times> nat \<times> alert_email_job list) result" where
  "apply_alert_diff ve cf current now db =
     (let keys = notify_keys current db; db1 = update_marks current now db in
      if keys = [] then Inr (db1, 0, [])
      else let rs = load_active_recipients db1 (cf_active_days cf) now;
               in_app = filter (\<lambda>k. snd (snd (snd k)) \<in> fst ` set reason_config) keys
        in rbind (count_all (\<lambda>(uid, alerts). send_user_alerts uid alerts) (plan_user_alerts rs in_app) db1) (\<lambda>(db2, sent).
           rbind (claim_alert_emails ve rs now (plan_alert_emails rs keys) db2) (\<lambda>(db3, jobs). Inr (db3, sent, jobs))))"

definition run_team_cve_alerts ::
    "(string \<Rightarrow> string option) \<Rightarrow> config \<Rightarrow> stackrox \<Rightarrow> datetime \<Rightarrow> app_db \<Rightarrow>
     (app_db \<times> nat \<times> alert_email_job list) result" where
  "run_team_cve_alerts ve cf sx now db =
     (let (mc, me) = (case gsettings db of None \<Rightarrow> (0, 0) | Some s \<Rightarrow> (gs_min_cvss s, gs_min_epss s));
          (cr, kr) = load_approved_suppression_rules db;
          rows = get_team_alert_candidates sx mc me (always_show db)
      in apply_alert_diff ve cf (classify_candidates rows (pr_cve ` set (prios db)) cr kr) now db)"

section \<open>What a run adds\<close>

definition adds :: "(notification \<Rightarrow> bool) \<Rightarrow> app_db \<Rightarrow> app_db \<Rightarrow> bool" where
  "adds P db db' \<longleftrightarrow> core db' = core db \<and> (\<exists>ns. notifs db' = notifs db @ ns \<and> (\<forall>x \<in> set ns. P x))"

lemma adds_refl [simp]: "adds P db db"
  by (simp add: adds_def)

lemma adds_trans: "adds P a b \<Longrightarrow> adds P b c \<Longrightarrow> adds P a c"
  by (fastforce simp: adds_def)

lemma adds_create:
  assumes "create_notification u t k ps l sc db = Inr db'" and "\<And>x. nt_user x = u \<Longrightarrow> nt_scope x = sc \<Longrightarrow> P x"
  shows "adds P db db'"
  using create.frame [OF assms(1)] assms
  by (auto simp: adds_def create_notification_def rbind_Inr_iff Let_def fresh_id_def split: if_splits)

lemma adds_notify_all:
  assumes "notify_all us f db = Inr db'" and "\<And>u db db'. u \<in> set us \<Longrightarrow> f u db = Inr db' \<Longrightarrow> adds P db db'"
  shows "adds P db db'"
  using assms
proof (induction us arbitrary: db)
  case (Cons u us)
  then obtain m where m: "f u db = Inr m" "notify_all us f m = Inr db'" by (auto simp: rbind_Inr_iff)
  have "adds P m db'" by (rule Cons.IH [OF m(2) Cons.prems(2)]) auto
  with Cons.prems(2) [OF _ m(1)] show ?case by (auto intro: adds_trans)
qed simp

lemma adds_count_all:
  assumes "count_all f xs db = Inr (db', n)" and "\<And>x db db' n. x \<in> set xs \<Longrightarrow> f x db = Inr (db', n) \<Longrightarrow> adds P db db'"
  shows "adds P db db'"
  using assms
proof (induction xs arbitrary: db n)
  case (Cons x xs)
  then obtain m k j where m: "f x db = Inr (m, k)" "count_all f xs m = Inr (db', j)" by (auto simp: rbind_Inr_iff)
  have "adds P m db'" by (rule Cons.IH [OF m(2) Cons.prems(2)]) auto
  with Cons.prems(2) [OF _ m(1)] show ?case by (auto intro: adds_trans)
qed simp

text \<open>A notification that is as it should be for a recipient and the new keys.\<close>

definition in_scope :: "active_recipient \<Rightarrow> alert_key list \<Rightarrow> notification \<Rightarrow> bool" where
  "in_scope r keys x \<longleftrightarrow> nt_user x = user_id (ar_user r) \<and> \<not> can_see_all_namespaces (as_current_user r) \<and>
     (\<exists>sc. nt_scope x = Some sc \<and> sc \<noteq> [] \<and> (\<forall>p \<in> set sc. p \<in> set (ar_namespaces r) \<and>
        (\<exists>cve reason. (cve, fst p, snd p, reason) \<in> set keys)))"

lemma in_recipient_alerts:
  assumes "a \<in> set (recipient_alerts r keys)"
  shows "ua_namespaces a \<noteq> [] \<and> (\<forall>p \<in> set (ua_namespaces a). p \<in> set (ar_namespaces r) \<and>
    (ua_cve a, fst p, snd p, ua_reason a) \<in> set keys)"
  using assms by (auto simp: recipient_alerts_def recipient_hits_def Let_def filter_empty_conv) blast

lemma adds_send_reason:
  assumes "send_reason (user_id (ar_user r)) (recipient_alerts r keys) c db = Inr (db', n)"
    and "\<not> can_see_all_namespaces (as_current_user r)"
  shows "adds (in_scope r keys) db db'"
proof -
  obtain reason ty cat single summary where c: "c = (reason, ty, cat, single, summary)" by (cases c)
  define g where "g = filter (\<lambda>a. ua_reason a = reason) (recipient_alerts r keys)"
  have g: "ua_namespaces a \<noteq> [] \<and> (\<forall>p \<in> set (ua_namespaces a). p \<in> set (ar_namespaces r) \<and>
      (ua_cve a, fst p, snd p, ua_reason a) \<in> set keys)" if "a \<in> set g" for a
    using in_recipient_alerts [of a r keys] that by (simp add: g_def)
  from assms(1) consider "db' = db"
    | "create_notification (user_id (ar_user r)) ty summary [(''count'', digits_of (length g))] (Some ''/vulnerabilities'')
         (Some (sorted_set (concat (map ua_namespaces g)))) db = Inr db'" "g \<noteq> []"
    | "notify_all g (\<lambda>a. create_notification (user_id (ar_user r)) ty single [(''cve_id'', ua_cve a)]
         (Some (''/vulnerabilities/'' @ ua_cve a)) (Some (ua_namespaces a))) db = Inr db'"
    unfolding send_reason_def c g_def Let_def prod.case by (auto simp: rbind_Inr_iff split: if_splits)
  then show ?thesis
  proof cases
    case 2
    then obtain a where "a \<in> set g" by (cases g) auto
    with g have "concat (map ua_namespaces g) \<noteq> []" by auto
    moreover have "\<exists>cve reason. (cve, fst p, snd p, reason) \<in> set keys \<and> p \<in> set (ar_namespaces r)"
      if "p \<in> set (concat (map ua_namespaces g))" for p using g that by fastforce
    ultimately show ?thesis using assms(2) by (intro adds_create [OF 2(1)]) (auto simp: in_scope_def)
  next
    case 3
    show ?thesis
    proof (rule adds_notify_all [OF 3])
      fix a d d' assume a: "a \<in> set g" and "create_notification (user_id (ar_user r)) ty single [(''cve_id'', ua_cve a)]
         (Some (''/vulnerabilities/'' @ ua_cve a)) (Some (ua_namespaces a)) d = Inr d'"
      then show "adds (in_scope r keys) d d'" using g [OF a] assms(2) by (intro adds_create) (auto simp: in_scope_def)
    qed
  qed simp
qed

lemma adds_user_alerts:
  assumes "count_all (\<lambda>(uid, alerts). send_user_alerts uid alerts) (plan_user_alerts rs keys) db = Inr (db', n)"
  shows "adds (\<lambda>x. \<exists>r \<in> set rs. in_scope r keys x) db db'"
proof (rule adds_count_all [OF assms])
  fix p a b k assume "p \<in> set (plan_user_alerts rs keys)" and f: "(case p of (uid, alerts) \<Rightarrow> send_user_alerts uid alerts) a = Inr (b, k)"
  then obtain r where r: "r \<in> set rs" "p = (user_id (ar_user r), recipient_alerts r keys)"
    "\<not> can_see_all_namespaces (as_current_user r)" by (auto simp: plan_user_alerts_def)
  have f': "count_all (send_reason (user_id (ar_user r)) (recipient_alerts r keys)) reason_config a = Inr (b, k)"
    using f r(2) by (simp add: send_user_alerts_def)
  have "adds (in_scope r keys) a b" by (rule adds_count_all [OF f']) (rule adds_send_reason [OF _ r(3)])
  with r(1) show "adds (\<lambda>x. \<exists>r \<in> set rs. in_scope r keys x) a b" by (auto simp: adds_def)
qed

section \<open>Claims\<close>

lemma claim_one_Inr:
  assumes "claim_one ve rs now p db = Inr (db', js)"
  shows "js = [] \<and> db' = db \<or> (\<exists>j. js = [j] \<and> db' = db\<lparr>alert_deliveries := alert_deliveries db @ [(aj_user j, date_of now, now)]\<rparr> \<and>
    (\<forall>d \<in> set (alert_deliveries db). \<not> (fst d = aj_user j \<and> fst (snd d) = date_of now)))"
proof -
  obtain uid counts where p: "p = (uid, counts)" by fastforce
  with assms show ?thesis
    unfolding claim_one_def handler_Inr by (auto simp: rbind_Inr_iff list_ex_iff split: if_splits option.splits)
qed

lemma claim_all_Inr:
  assumes "claim_alert_emails ve rs now ps db = Inr (db', js)"
  shows "db' = db\<lparr>alert_deliveries := alert_deliveries db @ map (\<lambda>j. (aj_user j, date_of now, now)) js\<rparr> \<and> distinct (map aj_user js) \<and>
    (\<forall>j \<in> set js. \<forall>d \<in> set (alert_deliveries db). \<not> (fst d = aj_user j \<and> fst (snd d) = date_of now))"
  using assms
proof (induction ps arbitrary: db js)
  case (Cons p ps)
  then obtain m js1 js2 where m: "claim_one ve rs now p db = Inr (m, js1)" "claim_alert_emails ve rs now ps m = Inr (db', js2)"
    "js = js1 @ js2" by (auto simp: rbind_Inr_iff)
  from claim_one_Inr [OF m(1)] Cons.IH [OF m(2)] show ?case by (fastforce simp: m(3))
qed simp

section \<open>Every run succeeds\<close>

lemma count_all_total: "(\<And>x db. x \<in> set xs \<Longrightarrow> \<exists>r. f x db = Inr r) \<Longrightarrow> \<exists>db' n. count_all f xs db = Inr (db', n)"
proof (induction xs arbitrary: db)
  case (Cons x xs)
  from Cons.prems [of x db] obtain m k where "f x db = Inr (m, k)" by auto
  moreover from Cons.IH [of m] Cons.prems obtain db' j where "count_all f xs m = Inr (db', j)" by auto
  ultimately show ?case by simp
qed simp

lemma send_reason_total: "c \<in> set reason_config \<Longrightarrow> \<exists>r. send_reason uid alerts c db = Inr r"
proof -
  assume c: "c \<in> set reason_config"
  obtain reason ty cat single summary where e: "c = (reason, ty, cat, single, summary)" by (cases c)
  with c have k: "single \<in> set message_keys" "summary \<in> set message_keys" "map_of categories cat \<noteq> None"
    by (auto simp: reason_config_def message_keys_def categories_def)
  obtain w where w: "wants db uid cat False = Inr w" using wants_total [OF k(3)] by blast
  let ?g = "filter (\<lambda>a. ua_reason a = reason) alerts"
  obtain d1 where d1: "create_notification uid ty summary [(''count'', digits_of (length ?g))] (Some ''/vulnerabilities'')
           (Some (sorted_set (concat (map ua_namespaces ?g)))) db = Inr d1" using create_total [OF k(2)] by blast
  have "\<exists>d2. notify_all ?g (\<lambda>a. create_notification uid ty single [(''cve_id'', ua_cve a)]
           (Some (''/vulnerabilities/'' @ ua_cve a)) (Some (ua_namespaces a))) db = Inr d2"
    by (rule notify_all_total) (rule create_total [OF k(1)])
  then obtain d2 where d2: "notify_all ?g (\<lambda>a. create_notification uid ty single [(''cve_id'', ua_cve a)]
           (Some (''/vulnerabilities/'' @ ua_cve a)) (Some (ua_namespaces a))) db = Inr d2" by blast
  show ?thesis unfolding send_reason_def e Let_def prod.case using w d1 d2 by simp
qed

lemma wanted_counts_total: "\<exists>w. wanted_counts db uid counts = Inr w"
proof -
  have "\<exists>w. wants db uid cat True = Inr w" if "cat \<in> set (map (snd \<circ> snd) email_conditions)" for cat
    using that wants_total [of cat] by (auto simp: email_conditions_def categories_def)
  then have "\<exists>y. (case c of (name, _, cat) \<Rightarrow> let v = (case map_of counts name of None \<Rightarrow> 0 | Some n \<Rightarrow> n) in
       if v = 0 then Inr (name, 0) else rbind (wants db uid cat True) (\<lambda>w. Inr (name, if w then v else 0))) = Inr y"
    if "c \<in> set email_conditions" for c
    using that by (cases c) (force simp: Let_def)
  then show ?thesis unfolding wanted_counts_def traverse_defined by blast
qed

lemma claim_all_total:
  "fst ` set ps \<subseteq> user_id ` ar_user ` set rs \<Longrightarrow> \<exists>db' js. claim_alert_emails ve rs now ps db = Inr (db', js)"
proof (induction ps arbitrary: db)
  case (Cons p ps)
  obtain uid counts where p: "p = (uid, counts)" by fastforce
  with Cons.prems have "dict_of (\<lambda>r. user_id (ar_user r)) rs uid \<noteq> None" by (auto simp: dict_of_None_iff)
  moreover obtain w where "wanted_counts db uid counts = Inr w" using wanted_counts_total by blast
  ultimately obtain m js where "claim_one ve rs now p db = Inr (m, js)"
    by (fastforce simp: claim_one_def p split: option.splits)
  moreover from Cons obtain db' ks where "claim_alert_emails ve rs now ps m = Inr (db', ks)" by fastforce
  ultimately show ?case by simp
qed simp

section \<open>The marks\<close>

lemma update_marks_core:
  "users (update_marks current now db) = users db" "snapshots (update_marks current now db) = snapshots db"
  "notifs (update_marks current now db) = notifs db"
  "alert_deliveries (update_marks current now db) =
     filter (\<lambda>d. date_of now - alert_email_delivery_retention_days \<le> fst (snd d)) (alert_deliveries db)"
  "prios (update_marks current now db) = prios db" "ras (update_marks current now db) = ras db"
  "rules (update_marks current now db) = rules db" "gsettings (update_marks current now db) = gsettings db"
  by (simp_all add: update_marks_def Let_def)

lemma update_marks_keys:
  assumes "set current \<inter> set baseline_marks = {}"
  shows "set (mark_keys (update_marks current now db)) = set baseline_marks \<union> set current"
proof -
  have "mark_keys (update_marks current now db) =
      filter (\<lambda>k. k \<notin> set (filter (\<lambda>k. k \<notin> set current) (filter (\<lambda>k. k \<notin> set baseline_marks) (mark_keys db)))) (mark_keys db) @
      sorted_set (filter (\<lambda>b. b \<notin> set (mark_keys db)) baseline_marks) @
      sorted_set (filter (\<lambda>k. k \<notin> set (filter (\<lambda>k. k \<notin> set baseline_marks) (mark_keys db))) current)"
    unfolding update_marks_def Let_def mark_keys_def by (simp add: filter_map comp_def)
  then show ?thesis using assms by (simp only: set_append set_filter set_sorted_set) blast
qed

lemma active_recipients_cong:
  "users db' = users db \<Longrightarrow> snapshots db' = snapshots db \<Longrightarrow>
   load_active_recipients db' days now = load_active_recipients db days now"
  by (simp add: load_active_recipients_def)

lemma apply_alert_diff_Inr:
  assumes "apply_alert_diff ve cf current now db = Inr (db', sent, jobs)"
  shows "\<exists>db2. adds (\<lambda>x. \<exists>r \<in> set (load_active_recipients db (cf_active_days cf) now). in_scope r (notify_keys current db) x)
      (update_marks current now db) db2 \<and>
    db' = db2\<lparr>alert_deliveries := alert_deliveries db2 @ map (\<lambda>j. (aj_user j, date_of now, now)) jobs\<rparr> \<and> distinct (map aj_user jobs) \<and>
    (\<forall>j \<in> set jobs. \<forall>d \<in> set (alert_deliveries db2). \<not> (fst d = aj_user j \<and> fst (snd d) = date_of now)) \<and>
    (notify_keys current db = [] \<longrightarrow> db2 = update_marks current now db \<and> sent = 0 \<and> jobs = [])"
proof (cases "notify_keys current db = []")
  case True
  with assms show ?thesis by (auto simp: apply_alert_diff_def Let_def)
next
  case False
  let ?rs = "load_active_recipients (update_marks current now db) (cf_active_days cf) now"
  let ?in_app = "filter (\<lambda>k. snd (snd (snd k)) \<in> fst ` set reason_config) (notify_keys current db)"
  from assms False obtain db2 where
    a: "count_all (\<lambda>(uid, alerts). send_user_alerts uid alerts) (plan_user_alerts ?rs ?in_app) (update_marks current now db) = Inr (db2, sent)"
    and c: "claim_alert_emails ve ?rs now (plan_alert_emails ?rs (notify_keys current db)) db2 = Inr (db', jobs)"
    by (auto simp: apply_alert_diff_def Let_def rbind_Inr_iff)
  have rs: "?rs = load_active_recipients db (cf_active_days cf) now"
    by (rule active_recipients_cong) (simp_all add: update_marks_core)
  have "in_scope r (notify_keys current db) x" if "in_scope r ?in_app x" for r x
    using that by (fastforce simp: in_scope_def)
  then have "adds (\<lambda>x. \<exists>r \<in> set ?rs. in_scope r (notify_keys current db) x) (update_marks current now db) db2"
    using adds_user_alerts [OF a] by (fastforce simp: adds_def)
  with claim_all_Inr [OF c] rs False show ?thesis by auto
qed

lemma apply_alert_diff_total: "\<exists>db' sent jobs. apply_alert_diff ve cf current now db = Inr (db', sent, jobs)"
proof (cases "notify_keys current db = []")
  case True
  then show ?thesis by (simp add: apply_alert_diff_def Let_def)
next
  case False
  let ?db = "update_marks current now db"
  let ?rs = "load_active_recipients ?db (cf_active_days cf) now"
  let ?in_app = "filter (\<lambda>k. snd (snd (snd k)) \<in> fst ` set reason_config) (notify_keys current db)"
  have "\<exists>d n. count_all (\<lambda>(uid, alerts). send_user_alerts uid alerts) (plan_user_alerts ?rs ?in_app) ?db = Inr (d, n)"
    by (rule count_all_total) (auto simp: send_user_alerts_def split: prod.split intro!: count_all_total send_reason_total)
  then obtain d n where a: "count_all (\<lambda>(uid, alerts). send_user_alerts uid alerts) (plan_user_alerts ?rs ?in_app) ?db = Inr (d, n)"
    by blast
  have "fst ` set (plan_alert_emails ?rs (notify_keys current db)) \<subseteq> user_id ` ar_user ` set ?rs"
    by (auto simp: plan_alert_emails_def)
  from claim_all_total [OF this, of ve now d] obtain e js where
    "claim_alert_emails ve ?rs now (plan_alert_emails ?rs (notify_keys current db)) d = Inr (e, js)" by blast
  with a False show ?thesis by (simp add: apply_alert_diff_def Let_def)
qed

lemma in_classify:
  assumes "(c, n, cl, reason) \<in> set (classify_candidates rows pr cr kr)"
  shows "(\<exists>row \<in> set rows. lr_cve row = c \<and> lr_namespace row = n \<and> lr_cluster row = cl \<and>
      \<not> is_location_suppressed c n cl (lr_components row) cr kr) \<and>
    reason \<in> {reason_visible, reason_prioritized, reason_email_critical, reason_email_critical_fixable}"
  using assms by (auto simp: classify_candidates_def classify_row_def Let_def split: if_splits)

lemma classify_no_baseline: "set (classify_candidates rows pr cr kr) \<inter> set baseline_marks = {}"
proof -
  have "b \<notin> set (classify_candidates rows pr cr kr)" if b: "b \<in> set baseline_marks" for b
  proof
    assume in_c: "b \<in> set (classify_candidates rows pr cr kr)"
    obtain c n cl reason where e: "b = (c, n, cl, reason)" by (cases b)
    with b have "reason \<in> {''baseline:v2'', ''baseline:email:v1''}"
      by (auto simp: baseline_marks_def baseline_mark_def baseline_mark_email_def)
    with in_classify [OF in_c [unfolded e]] show False
      by (auto simp: reason_visible_def reason_prioritized_def reason_email_critical_def reason_email_critical_fixable_def)
  qed
  then show ?thesis by blast
qed

text \<open>What the run classifies.\<close>

definition alert_keys :: "stackrox \<Rightarrow> app_db \<Rightarrow> alert_key list" where
  "alert_keys sx db =
     (let (mc, me) = (case gsettings db of None \<Rightarrow> (0, 0) | Some s \<Rightarrow> (gs_min_cvss s, gs_min_epss s)) in
      classify_candidates (get_team_alert_candidates sx mc me (always_show db)) (pr_cve ` set (prios db))
        (fst (load_approved_suppression_rules db)) (snd (load_approved_suppression_rules db)))"

lemma run_alerts: "run_team_cve_alerts ve cf sx now db = apply_alert_diff ve cf (alert_keys sx db) now db"
  by (simp add: run_team_cve_alerts_def alert_keys_def split_beta Let_def)

lemma alert_keys_cong:
  "prios db' = prios db \<Longrightarrow> ras db' = ras db \<Longrightarrow> rules db' = rules db \<Longrightarrow> gsettings db' = gsettings db \<Longrightarrow>
   alert_keys sx db' = alert_keys sx db"
  by (simp add: alert_keys_def always_show_def load_approved_suppression_rules_def load_suppression_sets_def)

lemma alert_keys_no_baseline: "set (alert_keys sx db) \<inter> set baseline_marks = {}"
  by (simp add: alert_keys_def classify_no_baseline split_beta Let_def)

lemma adds_tables:
  assumes "adds P db db'"
  shows "prios db' = prios db" "ras db' = ras db" "rules db' = rules db" "gsettings db' = gsettings db"
    "mark_keys db' = mark_keys db" "alert_deliveries db' = alert_deliveries db" "users db' = users db" "snapshots db' = snapshots db"
  using assms core_eqD [of db' db] by (auto simp: adds_def mark_keys_def)

text \<open>The floor of scores below which a CVE is not alerted about.\<close>

definition alert_thresholds :: "app_db \<Rightarrow> num \<times> num" where
  "alert_thresholds db = (case gsettings db of None \<Rightarrow> (0, 0) | Some s \<Rightarrow> (gs_min_cvss s, gs_min_epss s))"

section \<open>Properties\<close>


text \<open>C25: Running the alert job again when nothing else has changed is silent: the marks are then exactly the current alert
  keys and the two baselines, no notification is created and no email is claimed.\<close>

theorem alert_rerun_silent:
  assumes "run_team_cve_alerts ve cf sx now db = Inr (db1, sent, jobs)"
  shows "set (mark_keys db1) = set (alert_keys sx db) \<union> set baseline_marks \<and>
    (\<exists>db2. run_team_cve_alerts ve cf sx now' db1 = Inr (db2, 0, []) \<and> notifs db2 = notifs db1 \<and>
       set (mark_keys db2) = set (mark_keys db1))"
proof -
  note r = assms [unfolded run_alerts]
  from apply_alert_diff_Inr [OF r] obtain db0 where a: "adds (\<lambda>x. \<exists>r \<in> set (load_active_recipients db (cf_active_days cf) now).
      in_scope r (notify_keys (alert_keys sx db) db) x) (update_marks (alert_keys sx db) now db) db0"
    and d: "db1 = db0\<lparr>alert_deliveries := alert_deliveries db0 @ map (\<lambda>j. (aj_user j, date_of now, now)) jobs\<rparr>" by auto
  have m: "mark_keys db1 = mark_keys (update_marks (alert_keys sx db) now db)"
    using adds_tables(5) [OF a] by (simp add: d mark_keys_def)
  have k: "alert_keys sx db1 = alert_keys sx db"
    using adds_tables(1-4) [OF a] by (intro alert_keys_cong) (simp_all add: d update_marks_core)
  have e: "set (mark_keys db1) = set baseline_marks \<union> set (alert_keys sx db)"
    unfolding m by (rule update_marks_keys [OF alert_keys_no_baseline])
  have quiet: "notify_keys (alert_keys sx db1) db1 = []"
    using e alert_keys_no_baseline [of sx db] by (fastforce simp: notify_keys_def Let_def k filter_empty_conv)
  obtain db2 s2 j2 where r2: "apply_alert_diff ve cf (alert_keys sx db1) now' db1 = Inr (db2, s2, j2)"
    using apply_alert_diff_total by blast
  have "db2 = update_marks (alert_keys sx db1) now' db1 \<and> s2 = 0 \<and> j2 = []"
    using apply_alert_diff_Inr [OF r2] quiet by auto
  then show ?thesis
    using e r2 update_marks_keys [OF alert_keys_no_baseline, of sx db1 now' db1] by (auto simp: run_alerts k update_marks_core)
qed

text \<open>No user gets two alert emails on one day, however often the job runs: whoever an email is claimed for had no
  delivery on that day before, is claimed for once, and has the delivery afterwards.\<close>

theorem alert_email_once_a_day:
  assumes "run_team_cve_alerts ve cf sx now db = Inr (db', sent, jobs)"
  shows "distinct (map aj_user jobs) \<and>
    (\<forall>j \<in> set jobs. (aj_user j, date_of now, now) \<in> set (alert_deliveries db') \<and>
       (\<forall>d \<in> set (alert_deliveries db). \<not> (fst d = aj_user j \<and> fst (snd d) = date_of now)))"
proof -
  note r = assms [unfolded run_alerts]
  from apply_alert_diff_Inr [OF r] obtain db0 where a: "adds (\<lambda>x. \<exists>r \<in> set (load_active_recipients db (cf_active_days cf) now).
      in_scope r (notify_keys (alert_keys sx db) db) x) (update_marks (alert_keys sx db) now db) db0"
    and d: "db' = db0\<lparr>alert_deliveries := alert_deliveries db0 @ map (\<lambda>j. (aj_user j, date_of now, now)) jobs\<rparr>" "distinct (map aj_user jobs)"
    "\<forall>j \<in> set jobs. \<forall>d \<in> set (alert_deliveries db0). \<not> (fst d = aj_user j \<and> fst (snd d) = date_of now)" by blast
  have del: "alert_deliveries db0 = filter (\<lambda>d. date_of now - 30 \<le> fst (snd d)) (alert_deliveries db)"
    using adds_tables(6) [OF a] by (simp add: update_marks_core alert_email_delivery_retention_days_def)
  show ?thesis
  proof (intro conjI ballI)
    show "distinct (map aj_user jobs)" by (rule d(2))
    fix j assume j: "j \<in> set jobs"
    then show "(aj_user j, date_of now, now) \<in> set (alert_deliveries db')" by (simp add: d(1))
    fix e assume e: "e \<in> set (alert_deliveries db)"
    show "\<not> (fst e = aj_user j \<and> fst (snd e) = date_of now)"
    proof
      assume h: "fst e = aj_user j \<and> fst (snd e) = date_of now"
      with e have "e \<in> set (alert_deliveries db0)" by (simp add: del)
      with d(3) j h show False by blast
    qed
  qed
qed

theorem alert_rerun_silent_witness:
  "\<exists>db1 s1 j1 db2. run_team_cve_alerts Some \<lparr>cf_default_escalation_email = [], cf_management_email = [], cf_active_days = 30\<rparr> ex_sx 0 ex_db =
       Inr (db1, s1, j1) \<and>
     run_team_cve_alerts Some \<lparr>cf_default_escalation_email = [], cf_management_email = [], cf_active_days = 30\<rparr> ex_sx 1 db1 = Inr (db2, 0, [])"
  using alert_rerun_silent [of Some _ ex_sx 0 ex_db _ _ _ 1] apply_alert_diff_total unfolding run_alerts by meson

theorem alert_email_once_a_day_witness:
  "\<exists>db1 s1 j1. run_team_cve_alerts Some \<lparr>cf_default_escalation_email = [], cf_management_email = [], cf_active_days = 30\<rparr> ex_sx 0 ex_db =
       Inr (db1, s1, j1) \<and> distinct (map aj_user j1)"
  using alert_email_once_a_day [of Some _ ex_sx 0 ex_db] apply_alert_diff_total unfolding run_alerts by meson

text \<open>A database in which the job has something to say: the baselines are recorded and a member of the team of \<open>shop\<close>
  signed in.\<close>

definition ex_alert_db :: app_db where
  "ex_alert_db = ex_db\<lparr>users := [user_of ex_member],
     snapshots := [\<lparr>sn_user = ''u1'', sn_namespaces = [(''shop'', ''c1'')], sn_has_all = False, sn_hash = [], sn_last_seen = 0\<rparr>],
     alert_marks := [(baseline_mark, 0), (baseline_mark_email, 0)]\<rparr>"

definition ex_alert_cfg :: config where
  "ex_alert_cfg = \<lparr>cf_default_escalation_email = [], cf_management_email = [], cf_active_days = 30\<rparr>"

lemma ex_alert_recipient:
  "load_active_recipients ex_alert_db (cf_active_days ex_alert_cfg) 0 =
     [\<lparr>ar_user = user_of ex_member, ar_namespaces = [(''shop'', ''c1'')], ar_has_all = False\<rparr>]"
  by (simp add: load_active_recipients_def ex_alert_db_def ex_alert_cfg_def ex_member_def timedelta_days_def day_us_def)

lemma ex_alert_keys: "alert_keys ex_sx ex_alert_db =
    map (\<lambda>reason. (''CVE-2024-1'', ''shop'', ''c1'', reason)) [reason_visible, reason_email_critical]"
proof -
  have ic: "ic_fixable (vr_ic ex_row) = Some False" "ic_severity (vr_ic ex_row) = 4" "max0 [ic_cvss (vr_ic ex_row)] = 9"
    "max0 [ic_epss (vr_ic ex_row)] = 1/2"
    by (simp_all add: ex_row_def ex_ic_def max0_def sql_max_def)
  show ?thesis
    by (simp add: alert_keys_def ex_alert_db_def always_show_def load_approved_suppression_rules_def load_suppression_sets_def
        get_team_alert_candidates_def loc_rows_def joined_ex group_by_def Let_def ex_settings_def loc_row_of_def passes_def
        classify_candidates_def classify_row_def is_location_suppressed_def ic sql_max_def reason_visible_def reason_email_critical_def)
qed

lemma ex_alert_notify: "notify_keys (alert_keys ex_sx ex_alert_db) ex_alert_db = alert_keys ex_sx ex_alert_db"
  unfolding ex_alert_keys
  by (simp add: notify_keys_def mark_keys_def ex_alert_db_def baseline_for_def baseline_marks_def baseline_mark_def baseline_mark_email_def
      email_reasons_def reason_visible_def reason_email_critical_def reason_email_critical_fixable_def Let_def)

lemma ex_alert_plan: "recipient_alerts \<lparr>ar_user = user_of ex_member, ar_namespaces = [(''shop'', ''c1'')], ar_has_all = False\<rparr>
    [(''CVE-2024-1'', ''shop'', ''c1'', reason_visible)] =
    [\<lparr>ua_cve = ''CVE-2024-1'', ua_reason = reason_visible, ua_namespaces = [(''shop'', ''c1'')]\<rparr>]"
  by (simp add: recipient_alerts_def recipient_hits_def Let_def)

lemma ex_alert_send:
  assumes "notif_prefs db = []"
  shows "\<exists>db'. send_user_alerts ''u1'' [\<lparr>ua_cve = ''CVE-2024-1'', ua_reason = reason_visible, ua_namespaces = [(''shop'', ''c1'')]\<rparr>] db =
    Inr (db', 1) \<and> length (notifs db') = Suc (length (notifs db))"
proof -
  have w: "wants d ''u1'' cat False = Inr True" if "notif_prefs d = []" "cat = ''new_critical_cve''" for d cat
    using that by (simp add: wants_def stored_preference_def effective_def categories_def)
  have c: "\<exists>d'. create_notification ''u1'' NNewCriticalCve ''new_relevant_cve'' params link sc db = Inr d' \<and>
      length (notifs d') = Suc (length (notifs db))" for params link sc
    using assms w by (simp add: create_notification_def wants_email_def email_summary_keys_def wants_in_app_def category_for_type_def
        categories_def fresh_id_def message_keys_def Let_def)
  then obtain d' where d: "create_notification ''u1'' NNewCriticalCve ''new_relevant_cve'' [(''cve_id'', ''CVE-2024-1'')]
      (Some (''/vulnerabilities/'' @ ''CVE-2024-1'')) (Some [(''shop'', ''c1'')]) db = Inr d'" "length (notifs d') = Suc (length (notifs db))"
    by blast
  show ?thesis
    using w [OF assms refl] d
    by (simp add: send_user_alerts_def reason_config_def send_reason_def Let_def max_alerts_per_user_def
        reason_visible_def reason_prioritized_def)
qed

lemma ex_alert_run:
  "\<exists>db' jobs. run_team_cve_alerts Some ex_alert_cfg ex_sx 0 ex_alert_db = Inr (db', 1, jobs) \<and> length (notifs db') = 1"
proof -
  let ?db1 = "update_marks (alert_keys ex_sx ex_alert_db) 0 ex_alert_db"
  let ?r = "\<lparr>ar_user = user_of ex_member, ar_namespaces = [(''shop'', ''c1'')], ar_has_all = False\<rparr>"
  have rs: "load_active_recipients ?db1 (cf_active_days ex_alert_cfg) 0 = [?r]"
    using ex_alert_recipient by (simp add: load_active_recipients_def update_marks_def Let_def)
  have tabs: "notif_prefs ?db1 = []" "notifs ?db1 = []" by (simp_all add: update_marks_def Let_def ex_alert_db_def ex_db_def)
  have see: "\<not> can_see_all_namespaces (as_current_user ?r)" "user_id (ar_user ?r) = ''u1''"
    by (simp_all add: as_current_user_def can_see_all_namespaces_def is_sec_team_def ex_member_def)
  have keys: "alert_keys ex_sx ex_alert_db \<noteq> []" "filter (\<lambda>k. snd (snd (snd k)) \<in> fst ` set reason_config) (alert_keys ex_sx ex_alert_db) =
      [(''CVE-2024-1'', ''shop'', ''c1'', reason_visible)]"
    by (simp_all add: ex_alert_keys reason_config_def reason_visible_def reason_prioritized_def reason_email_critical_def)
  obtain d2 where d2: "send_user_alerts ''u1'' [\<lparr>ua_cve = ''CVE-2024-1'', ua_reason = reason_visible, ua_namespaces = [(''shop'', ''c1'')]\<rparr>] ?db1 =
      Inr (d2, 1)" "length (notifs d2) = 1"
    using ex_alert_send [OF tabs(1)] tabs(2) by auto
  obtain db' sent jobs where r: "apply_alert_diff Some ex_alert_cfg (alert_keys ex_sx ex_alert_db) 0 ex_alert_db = Inr (db', sent, jobs)"
    using apply_alert_diff_total by blast
  have plan: "plan_user_alerts [?r] [(''CVE-2024-1'', ''shop'', ''c1'', reason_visible)] =
      [(''u1'', [\<lparr>ua_cve = ''CVE-2024-1'', ua_reason = reason_visible, ua_namespaces = [(''shop'', ''c1'')]\<rparr>])]"
    using see by (simp add: plan_user_alerts_def ex_alert_plan)
  have "\<exists>d3. claim_alert_emails Some [?r] 0 (plan_alert_emails [?r] (alert_keys ex_sx ex_alert_db)) d2 = Inr (d3, jobs) \<and> db' = d3 \<and> sent = 1"
    using r keys(1) by (simp add: apply_alert_diff_def ex_alert_notify Let_def rs keys(2) plan d2(1) rbind_Inr_iff)
  then show ?thesis using r d2(2) claim_all_Inr unfolding run_alerts by fastforce
qed


end
