(* ===== verification/FixRollup.thy ===== *)
theory FixRollup
  imports CveView
begin

text \<open>
  The component fix roll-up: \<open>app/services/fix_rollup_service.py\<close> and \<open>app/stackrox/queries/fix_rollup.py\<close>. A
  Python dict is an association list in insertion order (\<open>AList.update\<close> overwrites in place), the sets of an
  accumulator are lists read as sets. The lemmas show which rows reach which item; the log line is left out.
\<close>

section \<open>The queries\<close>

record comp_row =
  fr_name :: string
  fr_version :: string
  fr_os :: string
  fr_cve :: string
  fr_fixable :: bool
  fr_fixed_by :: "string list"
  fr_images :: "(string \<times> string) list"
  fr_deployments :: "string list"
  fr_namespaces :: "string list"

definition vr_os :: "vrow \<Rightarrow> string option" where
  "vr_os v = Option.bind (vr_comp v) cp_os"

text \<open>The \<open>GROUP BY\<close> key has the nullable columns, the result has them with NULL as the empty text.\<close>

definition comp_group :: "vrow \<Rightarrow> string option \<times> string option \<times> string option \<times> string" where
  "comp_group v = (vr_comp_name v, Option.bind (vr_comp v) cp_version, vr_os v, vr_cve v)"

definition place_text :: "vrow \<Rightarrow> string" where
  "place_text v = dp_cluster (vr_dep v) @ ''/'' @ dp_namespace (vr_dep v)"

definition comp_row_of :: "(string option \<times> string option \<times> string option \<times> string) \<times> vrow list \<Rightarrow> comp_row" where
  "comp_row_of = (\<lambda>((n, ver, os, cve), vs).
     \<lparr>fr_name = coalesce [] n, fr_version = coalesce [] ver, fr_os = coalesce [] os, fr_cve = cve,
      fr_fixable = list_ex (\<lambda>v. coalesce False (ic_fixable (vr_ic v))) vs,
      fr_fixed_by = sorted_set (filter (\<lambda>s. s \<noteq> []) (somes (map (ic_fixedby \<circ> vr_ic) vs))),
      fr_images = sorted_set (map (\<lambda>v. (ct_image_id (vr_ct v), coalesce [] (ct_image_name (vr_ct v)))) vs),
      fr_deployments = sorted_set (map (dp_id \<circ> vr_dep) vs),
      fr_namespaces = sorted_set (map place_text vs)\<rparr>)"

text \<open>The \<open>WHERE\<close> clause; the join drops the rows without a component.\<close>

definition comp_where ::
    "string list \<Rightarrow> pair list option \<Rightarrow> string option \<Rightarrow> string option \<Rightarrow> string option \<Rightarrow> vrow \<Rightarrow> bool" where
  "comp_where cves nss img dname did v \<longleftrightarrow>
     vr_cve v \<in> set cves \<and> vr_comp_name v \<noteq> None \<and> (case nss of None \<Rightarrow> True | Some ps \<Rightarrow> vr_pair v \<in> set ps) \<and>
     (truthy img \<longrightarrow> Some (ct_image_id (vr_ct v)) = img) \<and> (truthy dname \<longrightarrow> Some (dp_name (vr_dep v)) = dname) \<and>
     (truthy did \<longrightarrow> Some (dp_id (vr_dep v)) = did)"

definition get_component_cve_rows ::
    "stackrox \<Rightarrow> string list \<Rightarrow> pair list option \<Rightarrow> string option \<Rightarrow> string option \<Rightarrow> string option \<Rightarrow> comp_row list" where
  "get_component_cve_rows sx cves nss img dname did =
     (if cves = [] \<or> nss = Some [] then []
      else sort_key (\<lambda>r. (fr_name r, fr_version r, fr_os r, fr_cve r))
        (map comp_row_of (group_by comp_group (filter (comp_where cves nss img dname did) (joined sx)))))"

definition get_image_namespaces :: "stackrox \<Rightarrow> string \<Rightarrow> pair list" where
  "get_image_namespaces sx img =
     dedupe [(dp_namespace d, dp_cluster d). d \<leftarrow> sx_deployments sx, c \<leftarrow> sx_containers sx,
       ct_deployment c = dp_id d \<and> ct_image_id c = img]"

definition get_deployment_namespaces :: "stackrox \<Rightarrow> string \<Rightarrow> pair list" where
  "get_deployment_namespaces sx did =
     map (\<lambda>d. (dp_namespace d, dp_cluster d)) (filter (\<lambda>d. dp_id d = did) (sx_deployments sx))"

text \<open>\<open>None\<close> is the whole organisation without a filter.\<close>

definition resolve_scope_namespaces ::
    "current_user \<Rightarrow> stackrox \<Rightarrow> string option \<Rightarrow> string option \<Rightarrow> pair list option" where
  "resolve_scope_namespaces u sx cluster namespace =
     (if can_see_all_namespaces u then
        if cluster = None \<and> namespace = None then None
        else Some (narrow_namespaces (list_namespaces sx) cluster namespace)
      else Some (narrow_namespaces (cu_namespaces u) cluster namespace))"

section \<open>Items\<close>

record rollup_cve =
  rc_cve :: string
  rc_severity :: int
  rc_cvss :: num
  rc_epss :: num
  rc_fixable :: bool
  rc_fixed_by :: "string option"
  rc_candidates :: "string list"
  rc_priority :: bool

record comp_acc =
  ca_cves :: "(string \<times> rollup_cve) list"
  ca_images :: "(string \<times> string) list"
  ca_deployments :: "string list"
  ca_namespaces :: "string list"

type_synonym comp_key = "string \<times> string \<times> string"

record rollup_item =
  ri_key :: comp_key                  \<comment> \<open>component name, version, operating system\<close>
  ri_target :: "string option"
  ri_fix_versions :: "string list"
  ri_uncertain :: bool
  ri_total :: nat
  ri_fixable :: nat
  ri_prioritized :: nat
  ri_critical :: nat
  ri_max_severity :: int
  ri_max_cvss :: num
  ri_max_epss :: num
  ri_affected_images :: nat
  ri_affected_deployments :: nat
  ri_namespaces :: "string list"
  ri_images :: "(string \<times> string) list"
  ri_cves :: "rollup_cve list"

definition comp_row_key :: "comp_row \<Rightarrow> comp_key" where
  "comp_row_key r = (fr_name r, fr_version r, fr_os r)"

definition rollup_cve_of :: "pep440 \<Rightarrow> cve_item \<Rightarrow> comp_row \<Rightarrow> rollup_cve" where
  "rollup_cve_of P i r =
     (let (best, cands, _) = rank_versions P (map Some (fr_fixed_by r)) in
      \<lparr>rc_cve = ci_cve i, rc_severity = ci_severity i, rc_cvss = ci_cvss i, rc_epss = ci_epss i,
       rc_fixable = fr_fixable r, rc_fixed_by = best, rc_candidates = cands, rc_priority = (ci_priority i \<noteq> None)\<rparr>)"

text \<open>\<open>setdefault\<close>.\<close>

definition set_default :: "'k \<Rightarrow> 'v \<Rightarrow> ('k \<times> 'v) list \<Rightarrow> ('k \<times> 'v) list" where
  "set_default k v al = (case map_of al k of None \<Rightarrow> al @ [(k, v)] | Some _ \<Rightarrow> al)"

fun add_images :: "(string \<times> string) list \<Rightarrow> (string \<times> string) list \<Rightarrow> (string \<times> string) list" where
  "add_images [] al = al"
| "add_images ((i, n) # ps) al = add_images ps (if i \<noteq> [] then set_default i (if n \<noteq> [] then n else i) al else al)"

definition empty_acc :: comp_acc where
  "empty_acc = \<lparr>ca_cves = [], ca_images = [], ca_deployments = [], ca_namespaces = []\<rparr>"

definition add_row :: "pep440 \<Rightarrow> cve_item \<Rightarrow> comp_row \<Rightarrow> comp_acc \<Rightarrow> comp_acc" where
  "add_row P i r a =
     \<lparr>ca_cves = AList.update (ci_cve i) (rollup_cve_of P i r) (ca_cves a),
      ca_images = add_images (fr_images r) (ca_images a),
      ca_deployments = List.union (filter (\<lambda>d. d \<noteq> []) (fr_deployments r)) (ca_deployments a),
      ca_namespaces = List.union (filter (\<lambda>n. n \<noteq> []) (fr_namespaces r)) (ca_namespaces a)\<rparr>"

fun collect_rows ::
    "pep440 \<Rightarrow> (string \<rightharpoonup> cve_item) \<Rightarrow> comp_row list \<Rightarrow> (comp_key \<times> comp_acc) list \<Rightarrow> (comp_key \<times> comp_acc) list" where
  "collect_rows P visible [] accs = accs"
| "collect_rows P visible (r # rs) accs =
     collect_rows P visible rs
       (case visible (fr_cve r) of None \<Rightarrow> accs
        | Some i \<Rightarrow> AList.update (comp_row_key r)
            (add_row P i r (case map_of accs (comp_row_key r) of None \<Rightarrow> empty_acc | Some a \<Rightarrow> a)) accs)"

text \<open>An accumulator holds at least one CVE, so the maxima are those of non-empty lists.\<close>

definition to_item :: "pep440 \<Rightarrow> comp_key \<times> comp_acc \<Rightarrow> rollup_item" where
  "to_item P = (\<lambda>(key, a).
     let cves = sort_key (\<lambda>c. (\<not> rc_priority c, - rc_severity c, - rc_epss c)) (map snd (ca_cves a));
         fixable = filter rc_fixable cves;
         (target, versions, uncertain) = rank_versions P (map Some (concat (map rc_candidates fixable)))
     in \<lparr>ri_key = key, ri_target = target, ri_fix_versions = versions, ri_uncertain = uncertain,
         ri_total = length cves, ri_fixable = length fixable, ri_prioritized = length (filter rc_priority cves),
         ri_critical = length (filter (\<lambda>c. rc_severity c = 4) cves),
         ri_max_severity = Max (set (map rc_severity cves)), ri_max_cvss = Max (set (map rc_cvss cves)),
         ri_max_epss = Max (set (map rc_epss cves)), ri_affected_images = length (ca_images a),
         ri_affected_deployments = length (ca_deployments a), ri_namespaces = sort (ca_namespaces a),
         ri_images = sort_key snd (ca_images a), ri_cves = cves\<rparr>)"

definition aggregate_component_rows :: "pep440 \<Rightarrow> comp_row list \<Rightarrow> (string \<rightharpoonup> cve_item) \<Rightarrow> rollup_item list" where
  "aggregate_component_rows P rows visible = map (to_item P) (collect_rows P visible rows [])"

section \<open>The page\<close>

definition sort_keys :: "string list" where
  "sort_keys = [''fixable_cves'', ''total_cves'', ''max_epss'', ''max_cvss'', ''affected_images'', ''affected_deployments'',
     ''component_name'']"

definition rollup_value :: "string \<Rightarrow> rollup_item \<Rightarrow> num" where
  "rollup_value by i =
     (if by = ''total_cves'' then of_nat (ri_total i) else if by = ''max_epss'' then ri_max_epss i
      else if by = ''max_cvss'' then ri_max_cvss i else if by = ''affected_images'' then of_nat (ri_affected_images i)
      else if by = ''affected_deployments'' then of_nat (ri_affected_deployments i) else of_nat (ri_fixable i))"

definition sorted_dir :: "bool \<Rightarrow> ('a \<Rightarrow> 'k::linorder) \<Rightarrow> 'a list \<Rightarrow> 'a list" where
  "sorted_dir desc k xs = (if desc then sort_key_rev k xs else sort_key k xs)"

definition sort_rollup_items :: "rollup_item list \<Rightarrow> string \<Rightarrow> bool \<Rightarrow> rollup_item list" where
  "sort_rollup_items items sort_by desc =
     (let by = (if sort_by \<in> set sort_keys then sort_by else ''fixable_cves'');
          i1 = sort_key (\<lambda>i. (fst (ri_key i), fst (snd (ri_key i)))) items;
          i2 = sort_key_rev ri_max_epss i1;
          i3 = (if by = ''component_name'' then sorted_dir desc (\<lambda>i. fst (ri_key i)) i2 else sorted_dir desc (rollup_value by) i2)
      in sort_key (\<lambda>i. ri_prioritized i = 0) i3)"

record rollup_page =
  rp_items :: "rollup_item list"
  rp_total :: nat
  rp_visible :: nat
  rp_unmapped :: nat

definition rollup_restrict :: "stackrox \<Rightarrow> string option \<Rightarrow> string option \<Rightarrow> pair list option" where
  "rollup_restrict sx img did =
     (if truthy img then Some (get_image_namespaces sx (the img))
      else if truthy did then Some (get_deployment_namespaces sx (the did)) else None)"

definition rollup_visible ::
    "pep440 \<Rightarrow> current_user \<Rightarrow> app_db \<Rightarrow> stackrox \<Rightarrow> datetime \<Rightarrow> string option \<Rightarrow> cve_query \<Rightarrow> cve_item list" where
  "rollup_visible P u db sx now img q =
     (let restrict = rollup_restrict sx img (cq_deployment_id q) in
      if restrict = Some [] then [] else fetch_filtered_cves P u db sx now (q\<lparr>cq_restrict := restrict\<rparr>))"

definition rollup_rows :: "current_user \<Rightarrow> stackrox \<Rightarrow> string option \<Rightarrow> cve_query \<Rightarrow> string list \<Rightarrow> comp_row list" where
  "rollup_rows u sx img q ids =
     get_component_cve_rows sx ids (resolve_scope_namespaces u sx (cq_cluster q) (cq_namespace q)) img
       (cq_deployment q) (cq_deployment_id q)"

definition build_fix_rollup ::
    "pep440 \<Rightarrow> current_user \<Rightarrow> app_db \<Rightarrow> stackrox \<Rightarrow> datetime \<Rightarrow> int \<Rightarrow> int \<Rightarrow> string \<Rightarrow> bool \<Rightarrow> string option \<Rightarrow> bool \<Rightarrow>
     cve_query \<Rightarrow> rollup_page" where
  "build_fix_rollup P u db sx now page page_size sort_by sort_desc img fixable_only q =
     (let visible = rollup_visible P u db sx now img q;
          ids = dedupe (map ci_cve visible);
          rows = rollup_rows u sx img q ids;
          items = aggregate_component_rows P rows (dict_of ci_cve visible);
          kept = sort_rollup_items (if fixable_only then filter (\<lambda>i. 0 < ri_fixable i) items else items) sort_by sort_desc
      in \<lparr>rp_items = page_slice page page_size kept, rp_total = length kept, rp_visible = length ids,
          rp_unmapped = (if truthy img then 0 else length (filter (\<lambda>c. c \<notin> fr_cve ` set rows) ids))\<rparr>)"

section \<open>What an accumulator holds\<close>

text \<open>The rows of one component, folded into one accumulator.\<close>

definition rows_of :: "(string \<rightharpoonup> cve_item) \<Rightarrow> comp_row list \<Rightarrow> comp_key \<Rightarrow> comp_row list" where
  "rows_of visible rows k = filter (\<lambda>r. comp_row_key r = k \<and> visible (fr_cve r) \<noteq> None) rows"

definition fold_rows :: "pep440 \<Rightarrow> (string \<rightharpoonup> cve_item) \<Rightarrow> comp_row list \<Rightarrow> comp_acc \<Rightarrow> comp_acc" where
  "fold_rows P visible rs a = fold (\<lambda>r. add_row P (the (visible (fr_cve r))) r) rs a"

lemma fold_rows_simps [simp]:
  "fold_rows P visible [] a = a"
  "fold_rows P visible (r # rs) a = fold_rows P visible rs (add_row P (the (visible (fr_cve r))) r a)"
  by (simp_all add: fold_rows_def)

lemma distinct_collect_rows: "distinct (map fst accs) \<Longrightarrow> distinct (map fst (collect_rows P visible rows accs))"
  by (induction P visible rows accs rule: collect_rows.induct) (simp_all add: AList.distinct_update split: option.splits)

lemma map_of_collect_rows:
  "map_of (collect_rows P visible rows accs) k =
     (if rows_of visible rows k = [] then map_of accs k
      else Some (fold_rows P visible (rows_of visible rows k) (coalesce empty_acc (map_of accs k))))"
proof (induction P visible rows accs rule: collect_rows.induct)
  case (1 P visible accs)
  then show ?case by (simp add: rows_of_def)
next
  case (2 P visible r rs accs)
  then show ?case
    by (cases "visible (fr_cve r)") (auto simp: rows_of_def AList.update_conv' coalesce_def split: option.splits)
qed

lemma in_collect_rows:
  "(k, a) \<in> set (collect_rows P visible rows []) \<longleftrightarrow>
     rows_of visible rows k \<noteq> [] \<and> a = fold_rows P visible (rows_of visible rows k) empty_acc"
proof -
  have "distinct (map fst (collect_rows P visible rows []))" by (rule distinct_collect_rows) simp
  then have "(k, a) \<in> set (collect_rows P visible rows []) \<longleftrightarrow> map_of (collect_rows P visible rows []) k = Some a"
    by (simp add: map_of_eq_Some_iff)
  also have "\<dots> \<longleftrightarrow> rows_of visible rows k \<noteq> [] \<and> a = fold_rows P visible (rows_of visible rows k) empty_acc"
    by (auto simp: map_of_collect_rows)
  finally show ?thesis .
qed

lemma fold_rows_sets:
  "set (ca_deployments (fold_rows P visible rs a)) =
     set (ca_deployments a) \<union> (\<Union>r \<in> set rs. {d \<in> set (fr_deployments r). d \<noteq> []})"
  "set (ca_namespaces (fold_rows P visible rs a)) =
     set (ca_namespaces a) \<union> (\<Union>r \<in> set rs. {n \<in> set (fr_namespaces r). n \<noteq> []})"
  by (induction rs arbitrary: a) (auto simp: add_row_def)

lemma fold_rows_distinct:
  assumes "distinct (map fst (ca_cves a))" "distinct (ca_deployments a)" "distinct (ca_namespaces a)"
  shows "distinct (map fst (ca_cves (fold_rows P visible rs a)))" "distinct (ca_deployments (fold_rows P visible rs a))"
    "distinct (ca_namespaces (fold_rows P visible rs a))"
  using assms by (induction rs arbitrary: a) (auto simp: add_row_def AList.distinct_update distinct_union)

text \<open>Every CVE of the accumulator comes from a row of the component, under its own key.\<close>

definition acc_cve_ok :: "pep440 \<Rightarrow> (string \<rightharpoonup> cve_item) \<Rightarrow> comp_row list \<Rightarrow> string \<times> rollup_cve \<Rightarrow> bool" where
  "acc_cve_ok P visible rs e \<longleftrightarrow>
     (\<exists>r \<in> set rs. \<exists>i. visible (fr_cve r) = Some i \<and> fst e = ci_cve i \<and> snd e = rollup_cve_of P i r)"

lemma fold_rows_cves:
  assumes "\<forall>r \<in> set rs. visible (fr_cve r) \<noteq> None"
    and "e \<in> set (ca_cves (fold_rows P visible rs a))"
  shows "e \<in> set (ca_cves a) \<or> acc_cve_ok P visible rs e"
  using assms
proof (induction rs arbitrary: a)
  case (Cons r rs)
  then have "e \<in> set (ca_cves (add_row P (the (visible (fr_cve r))) r a)) \<or> acc_cve_ok P visible rs e" by simp
  then show ?case
  proof
    assume "e \<in> set (ca_cves (add_row P (the (visible (fr_cve r))) r a))"
    then have "e \<in> set (ca_cves a) \<or> e = (ci_cve (the (visible (fr_cve r))), rollup_cve_of P (the (visible (fr_cve r))) r)"
      by (auto simp: add_row_def dest: in_update)
    with Cons.prems(1) show ?thesis by (auto simp: acc_cve_ok_def)
  qed (auto simp: acc_cve_ok_def)
qed simp

lemma fold_rows_keys:
  "fst ` set (ca_cves (fold_rows P visible rs a)) = fst ` set (ca_cves a) \<union> (\<lambda>r. ci_cve (the (visible (fr_cve r)))) ` set rs"
  by (induction rs arbitrary: a) (auto simp: add_row_def AList.dom_update)

section \<open>What an item shows\<close>

lemma sets_to_item:
  "set (ri_cves (to_item P (k, a))) = snd ` set (ca_cves a)" "set (ri_namespaces (to_item P (k, a))) = set (ca_namespaces a)"
  "ri_key (to_item P (k, a)) = k" "ri_affected_deployments (to_item P (k, a)) = length (ca_deployments a)"
  "ri_total (to_item P (k, a)) = length (ca_cves a)"
  by (simp_all add: to_item_def Let_def split_beta)

lemma in_aggregate:
  "it \<in> set (aggregate_component_rows P rows visible) \<longleftrightarrow>
     (\<exists>k. rows_of visible rows k \<noteq> [] \<and> it = to_item P (k, fold_rows P visible (rows_of visible rows k) empty_acc))"
  unfolding aggregate_component_rows_def set_map image_iff Bex_def split_paired_Ex in_collect_rows by blast

lemma keys_aggregate:
  "distinct (map ri_key (aggregate_component_rows P rows visible))"
proof -
  have "map ri_key (aggregate_component_rows P rows visible) = map fst (collect_rows P visible rows [])"
    by (simp add: aggregate_component_rows_def comp_def to_item_def Let_def split_beta)
  then show ?thesis by (simp add: distinct_collect_rows)
qed

text \<open>The rows of the query, by the joined rows they summarise.\<close>

definition comp_key_of :: "vrow \<Rightarrow> comp_key" where
  "comp_key_of v = (coalesce [] (vr_comp_name v), coalesce [] (Option.bind (vr_comp v) cp_version), coalesce [] (vr_os v))"

lemma comp_row_of_group:
  assumes "(g, vs) \<in> set (group_by comp_group xs)" and "v \<in> set vs"
  shows "comp_row_key (comp_row_of (g, vs)) = comp_key_of v \<and> fr_cve (comp_row_of (g, vs)) = vr_cve v"
proof -
  have "comp_group v = g" using assms by (auto simp: in_group_by)
  then show ?thesis by (cases g) (auto simp: comp_group_def comp_row_of_def comp_row_key_def comp_key_of_def)
qed

lemma sets_comp_row:
  "set (fr_namespaces (comp_row_of (g, vs))) = place_text ` set vs"
  "set (fr_deployments (comp_row_of (g, vs))) = (\<lambda>v. dp_id (vr_dep v)) ` set vs"
  by (cases g; simp add: comp_row_of_def)+

lemma rows_to_joined:
  assumes "r \<in> set (get_component_cve_rows sx cves nss img dn did)"
  obtains g vs where "r = comp_row_of (g, vs)" "vs \<noteq> []"
    "set vs \<subseteq> {v \<in> set (joined sx). comp_where cves nss img dn did v \<and> comp_key_of v = comp_row_key r \<and> vr_cve v = fr_cve r}"
proof -
  let ?xs = "filter (comp_where cves nss img dn did) (joined sx)"
  from assms obtain g vs where g: "(g, vs) \<in> set (group_by comp_group ?xs)" "r = comp_row_of (g, vs)"
    by (auto simp: get_component_cve_rows_def split: if_splits)
  have "vs \<noteq> []" and s: "set vs \<subseteq> set ?xs" using g(1) by (auto simp: in_group_by filter_empty_conv)
  moreover have "set vs \<subseteq> {v \<in> set (joined sx). comp_where cves nss img dn did v \<and> comp_key_of v = comp_row_key r \<and> vr_cve v = fr_cve r}"
    using s comp_row_of_group [OF g(1)] by (auto simp: g(2))
  ultimately show ?thesis using that [OF g(2)] by blast
qed

lemma joined_to_rows:
  assumes "v \<in> set (joined sx)" "comp_where cves nss img dn did v"
  shows "\<exists>r \<in> set (get_component_cve_rows sx cves nss img dn did).
    comp_row_key r = comp_key_of v \<and> fr_cve r = vr_cve v \<and> place_text v \<in> set (fr_namespaces r) \<and>
    dp_id (vr_dep v) \<in> set (fr_deployments r)"
proof -
  let ?xs = "filter (comp_where cves nss img dn did) (joined sx)"
  let ?vs = "filter (\<lambda>x. comp_group x = comp_group v) ?xs"
  have v: "v \<in> set ?vs" using assms by simp
  have g: "(comp_group v, ?vs) \<in> set (group_by comp_group ?xs)" using assms by (auto simp: in_group_by)
  have ne: "cves \<noteq> []" "nss \<noteq> Some []" using assms(2) by (auto simp: comp_where_def)
  have "comp_row_of (comp_group v, ?vs) \<in> set (get_component_cve_rows sx cves nss img dn did)"
    using g ne by (simp add: get_component_cve_rows_def del: filter_filter)
  moreover note comp_row_of_group [OF g v]
  moreover have "place_text v \<in> set (fr_namespaces (comp_row_of (comp_group v, ?vs)))"
    "dp_id (vr_dep v) \<in> set (fr_deployments (comp_row_of (comp_group v, ?vs)))"
    unfolding sets_comp_row using v by blast+
  ultimately show ?thesis by blast
qed

text \<open>The joined rows behind the item of one component.\<close>

definition behind ::
    "stackrox \<Rightarrow> string list \<Rightarrow> pair list option \<Rightarrow> string option \<Rightarrow> string option \<Rightarrow> string option \<Rightarrow> comp_key \<Rightarrow> vrow set" where
  "behind sx cves nss img dn did k = {v \<in> set (joined sx). comp_where cves nss img dn did v \<and> comp_key_of v = k}"

lemma rows_of_behind:
  assumes "rs = rows_of visible (get_component_cve_rows sx cves nss img dn did) k"
    and "\<And>c. c \<in> set cves \<Longrightarrow> visible c \<noteq> None"
  shows "fr_cve ` set rs = vr_cve ` behind sx cves nss img dn did k"
    "(\<Union>r \<in> set rs. set (fr_namespaces r)) = place_text ` behind sx cves nss img dn did k"
    "(\<Union>r \<in> set rs. set (fr_deployments r)) = (\<lambda>v. dp_id (vr_dep v)) ` behind sx cves nss img dn did k"
proof -
  let ?B = "behind sx cves nss img dn did k"
  have to: "\<exists>v \<in> ?B. vr_cve v = fr_cve r" and sub: "set (fr_namespaces r) \<subseteq> place_text ` ?B"
    "set (fr_deployments r) \<subseteq> (\<lambda>v. dp_id (vr_dep v)) ` ?B" if r: "r \<in> set rs" for r
  proof -
    have r': "r \<in> set (get_component_cve_rows sx cves nss img dn did)" "comp_row_key r = k"
      using r by (auto simp: assms(1) rows_of_def)
    from rows_to_joined [OF r'(1)] obtain g vs where g: "r = comp_row_of (g, vs)" "vs \<noteq> []"
      "set vs \<subseteq> {v \<in> set (joined sx). comp_where cves nss img dn did v \<and> comp_key_of v = comp_row_key r \<and> vr_cve v = fr_cve r}" .
    then have b: "set vs \<subseteq> ?B" "\<forall>v \<in> set vs. vr_cve v = fr_cve r" using r'(2) by (auto simp: behind_def)
    with g(2) show "\<exists>v \<in> ?B. vr_cve v = fr_cve r" by (cases vs) auto
    show "set (fr_namespaces r) \<subseteq> place_text ` ?B" "set (fr_deployments r) \<subseteq> (\<lambda>v. dp_id (vr_dep v)) ` ?B"
      using b(1) unfolding g(1) sets_comp_row by blast+
  qed
  have frm: "\<exists>r \<in> set rs. fr_cve r = vr_cve v \<and> place_text v \<in> set (fr_namespaces r) \<and> dp_id (vr_dep v) \<in> set (fr_deployments r)"
    if "v \<in> ?B" for v
  proof -
    from that have v: "v \<in> set (joined sx)" "comp_where cves nss img dn did v" "comp_key_of v = k" by (auto simp: behind_def)
    then have "vr_cve v \<in> set cves" by (simp add: comp_where_def)
    with joined_to_rows [OF v(1,2)] v(3) assms(2) show ?thesis by (fastforce simp: assms(1) rows_of_def)
  qed
  show "fr_cve ` set rs = vr_cve ` ?B" unfolding set_eq_iff image_iff using to frm by metis
  show "(\<Union>r \<in> set rs. set (fr_namespaces r)) = place_text ` ?B" using sub(1) frm by blast
  show "(\<Union>r \<in> set rs. set (fr_deployments r)) = (\<lambda>v. dp_id (vr_dep v)) ` ?B" using sub(2) frm by blast
qed

section \<open>Properties\<close>

text \<open>The items for the CVEs of a list, before sorting and paging.\<close>

definition component_items ::
    "pep440 \<Rightarrow> stackrox \<Rightarrow> cve_item list \<Rightarrow> pair list option \<Rightarrow> string option \<Rightarrow> string option \<Rightarrow> string option \<Rightarrow> rollup_item list" where
  "component_items P sx items nss img dn did =
     aggregate_component_rows P (get_component_cve_rows sx (map ci_cve items) nss img dn did) (dict_of ci_cve items)"

lemma component_item:
  assumes "it \<in> set (component_items P sx items nss img dn did)"
  shows "rc_cve ` set (ri_cves it) = vr_cve ` behind sx (map ci_cve items) nss img dn did (ri_key it) \<and>
    ri_total it = card (vr_cve ` behind sx (map ci_cve items) nss img dn did (ri_key it)) \<and>
    set (ri_namespaces it) = place_text ` behind sx (map ci_cve items) nss img dn did (ri_key it) \<and>
    ri_affected_deployments it = card ((\<lambda>v. dp_id (vr_dep v)) ` behind sx (map ci_cve items) nss img dn did (ri_key it) - {[]}) \<and>
    (\<forall>c \<in> set (ri_cves it). \<exists>i \<in> set items. ci_cve i = rc_cve c \<and> ci_severity i = rc_severity c \<and>
       ci_cvss i = rc_cvss c \<and> ci_epss i = rc_epss c \<and> (ci_priority i \<noteq> None) = rc_priority c)"
proof -
  obtain k where k: "ri_key it = k" by blast
  let ?vis = "dict_of ci_cve items" and ?B = "behind sx (map ci_cve items) nss img dn did k"
  define rs where "rs = rows_of ?vis (get_component_cve_rows sx (map ci_cve items) nss img dn did) k"
  define a where "a = fold_rows P ?vis rs empty_acc"
  from assms have it: "it = to_item P (k, a)"
    unfolding component_items_def in_aggregate a_def rs_def k [symmetric] by (auto simp: sets_to_item)
  have vis: "c \<in> set (map ci_cve items) \<Longrightarrow> ?vis c \<noteq> None" for c by (auto simp: dict_of_None_iff)
  have B: "fr_cve ` set rs = vr_cve ` ?B" "(\<Union>r \<in> set rs. set (fr_namespaces r)) = place_text ` ?B"
    "(\<Union>r \<in> set rs. set (fr_deployments r)) = (\<lambda>v. dp_id (vr_dep v)) ` ?B"
    by (rule rows_of_behind [OF rs_def vis]; assumption)+
  have dom: "\<forall>r \<in> set rs. ?vis (fr_cve r) \<noteq> None" by (simp add: rs_def rows_of_def)
  have id: "ci_cve (the (?vis (fr_cve r))) = fr_cve r" if "r \<in> set rs" for r
    using dom that dict_of_SomeD by fastforce
  have ok: "acc_cve_ok P ?vis rs e" if "e \<in> set (ca_cves a)" for e
    using fold_rows_cves [OF dom, of e P empty_acc] that by (auto simp: a_def empty_acc_def)
  have keys: "fst ` set (ca_cves a) = vr_cve ` ?B"
    using B(1) id by (simp add: a_def fold_rows_keys empty_acc_def cong: image_cong)
  have same: "rc_cve (snd e) = fst e" if "e \<in> set (ca_cves a)" for e
    using ok [OF that] by (auto simp: acc_cve_ok_def rollup_cve_of_def split_beta)
  have dist: "distinct (map fst (ca_cves a))" "distinct (ca_deployments a)"
    using fold_rows_distinct [of empty_acc P ?vis rs] by (simp_all add: a_def empty_acc_def)
  have cves: "rc_cve ` set (ri_cves it) = vr_cve ` ?B"
    unfolding it sets_to_item image_image keys [symmetric] using same by (intro image_cong) auto
  have tot: "ri_total it = card (vr_cve ` ?B)"
    unfolding keys [symmetric] using dist(1) by (subst it) (metis sets_to_item(5) distinct_card length_map set_map)
  have nss: "set (ri_namespaces it) = place_text ` ?B"
    using B(2) by (subst it) (auto simp: sets_to_item a_def fold_rows_sets empty_acc_def place_text_def)
  have "set (ca_deployments a) = (\<Union>r \<in> set rs. set (fr_deployments r)) - {[]}"
    by (auto simp: a_def fold_rows_sets empty_acc_def)
  then have "set (ca_deployments a) = (\<lambda>v. dp_id (vr_dep v)) ` ?B - {[]}" by (simp only: B(3))
  then have dep: "ri_affected_deployments it = card ((\<lambda>v. dp_id (vr_dep v)) ` ?B - {[]})"
    using dist(2) by (subst it) (metis sets_to_item(4) distinct_card)
  have scores: "\<exists>i \<in> set items. ci_cve i = rc_cve c \<and> ci_severity i = rc_severity c \<and> ci_cvss i = rc_cvss c \<and>
      ci_epss i = rc_epss c \<and> (ci_priority i \<noteq> None) = rc_priority c" if "c \<in> set (ri_cves it)" for c
  proof -
    from that obtain e where e: "e \<in> set (ca_cves a)" "c = snd e" by (subst (asm) it) (auto simp: sets_to_item)
    from ok [OF e(1)] obtain r i where i: "?vis (fr_cve r) = Some i" "c = rollup_cve_of P i r" by (auto simp: acc_cve_ok_def e(2))
    show ?thesis using dict_of_SomeD [OF i(1)] by (intro bexI [of _ i]) (auto simp: i(2) rollup_cve_of_def split_beta)
  qed
  show ?thesis unfolding k using cves tot nss dep scores by blast
qed

text \<open>C5: The roll-up has exactly one item for every installed component version (name, version, operating system) that
  carries a CVE of the list in the deployments asked for, and this item shows exactly these CVEs with the scores of
  the list, exactly their namespaces, and counts exactly their CVEs and deployments.\<close>

theorem rollup_exact:
  "distinct (map ri_key (component_items P sx items nss img dn did)) \<and>
   ri_key ` set (component_items P sx items nss img dn did) = {k. behind sx (map ci_cve items) nss img dn did k \<noteq> {}} \<and>
   (\<forall>it \<in> set (component_items P sx items nss img dn did).
      rc_cve ` set (ri_cves it) = vr_cve ` behind sx (map ci_cve items) nss img dn did (ri_key it) \<and>
      ri_total it = card (vr_cve ` behind sx (map ci_cve items) nss img dn did (ri_key it)) \<and>
      set (ri_namespaces it) = place_text ` behind sx (map ci_cve items) nss img dn did (ri_key it) \<and>
      ri_affected_deployments it = card ((\<lambda>v. dp_id (vr_dep v)) ` behind sx (map ci_cve items) nss img dn did (ri_key it) - {[]}) \<and>
      (\<forall>c \<in> set (ri_cves it). \<exists>i \<in> set items. ci_cve i = rc_cve c \<and> ci_severity i = rc_severity c \<and>
         ci_cvss i = rc_cvss c \<and> ci_epss i = rc_epss c \<and> (ci_priority i \<noteq> None) = rc_priority c))"
proof -
  have "ri_key ` set (component_items P sx items nss img dn did) = {k. behind sx (map ci_cve items) nss img dn did k \<noteq> {}}"
  proof (intro set_eqI)
    fix k
    let ?rs = "rows_of (dict_of ci_cve items) (get_component_cve_rows sx (map ci_cve items) nss img dn did) k"
    have "k \<in> ri_key ` set (component_items P sx items nss img dn did) \<longleftrightarrow> ?rs \<noteq> []"
      unfolding component_items_def image_iff Bex_def in_aggregate by (metis sets_to_item(3))
    also have "\<dots> \<longleftrightarrow> fr_cve ` set ?rs \<noteq> {}" by simp
    also have "fr_cve ` set ?rs = vr_cve ` behind sx (map ci_cve items) nss img dn did k"
      by (rule rows_of_behind(1) [OF refl]) (auto simp: dict_of_None_iff)
    finally show "k \<in> ri_key ` set (component_items P sx items nss img dn did) \<longleftrightarrow>
        k \<in> {k. behind sx (map ci_cve items) nss img dn did k \<noteq> {}}" by simp
  qed
  then show ?thesis using component_item keys_aggregate by (simp add: component_items_def)
qed

lemma set_sort_rollup [simp]: "set (sort_rollup_items items by desc) = set items"
  by (simp add: sort_rollup_items_def Let_def sorted_dir_def)

lemma prioritized_first:
  "sorted_wrt (\<lambda>a b. ri_prioritized a = 0 \<longrightarrow> ri_prioritized b = 0) (sort_rollup_items items by desc)"
  unfolding sort_rollup_items_def Let_def
  by (rule sorted_wrt_mono_rel [OF _ sorted_wrt_sort_key]) simp

text \<open>C26: A page of the roll-up shows only CVEs of the CVE list that the user would see for the same filters, only in
  namespaces the user may see within the requested cluster and namespace, and lists the components with a
  prioritized CVE first.\<close>

theorem rollup_in_scope:
  assumes "it \<in> set (rp_items (build_fix_rollup P u db sx now page sz by desc img fx q))"
  shows "(\<forall>c \<in> set (ri_cves it). \<exists>i \<in> set (rollup_visible P u db sx now img q). ci_cve i = rc_cve c) \<and>
    (\<forall>t \<in> set (ri_namespaces it). \<exists>v \<in> set (joined sx). t = place_text v \<and>
       vr_pair v \<in> set (narrow_namespaces (visible_pairs (list_namespaces sx) u) (cq_cluster q) (cq_namespace q))) \<and>
    sorted_wrt (\<lambda>a b. ri_prioritized a = 0 \<longrightarrow> ri_prioritized b = 0)
      (rp_items (build_fix_rollup P u db sx now page sz by desc img fx q))"
proof -
  let ?vis = "rollup_visible P u db sx now img q" and ?nss = "resolve_scope_namespaces u sx (cq_cluster q) (cq_namespace q)"
  let ?items = "aggregate_component_rows P (rollup_rows u sx img q (dedupe (map ci_cve ?vis))) (dict_of ci_cve ?vis)"
  let ?kept = "if fx then filter (\<lambda>i. 0 < ri_fixable i) ?items else ?items"
  have page: "rp_items (build_fix_rollup P u db sx now page sz by desc img fx q) = page_slice page sz (sort_rollup_items ?kept by desc)"
    by (simp add: build_fix_rollup_def Let_def)
  have "it \<in> set (sort_rollup_items ?kept by desc)"
    using assms unfolding page by (rule subsetD [OF set_page_slice])
  then have it: "it \<in> set ?items" by (simp split: if_splits)
  have rows: "rollup_rows u sx img q (dedupe (map ci_cve ?vis)) =
      get_component_cve_rows sx (map ci_cve ?vis) ?nss img (cq_deployment q) (cq_deployment_id q)"
    by (simp add: rollup_rows_def get_component_cve_rows_def comp_where_def cong: filter_cong)
  have item: "it \<in> set (component_items P sx ?vis ?nss img (cq_deployment q) (cq_deployment_id q))"
    using it unfolding component_items_def rows .
  have scope: "vr_pair v \<in> set (narrow_namespaces (visible_pairs (list_namespaces sx) u) (cq_cluster q) (cq_namespace q))"
    if "v \<in> set (joined sx)" "case ?nss of None \<Rightarrow> True | Some ps \<Rightarrow> vr_pair v \<in> set ps" for v
    using that joined_pair_known [OF that(1)]
    by (auto simp: resolve_scope_namespaces_def visible_pairs_def split: if_splits)
  note c = component_item [OF item]
  show ?thesis
  proof (intro conjI)
    show "\<forall>c \<in> set (ri_cves it). \<exists>i \<in> set ?vis. ci_cve i = rc_cve c" using c by blast
    show "\<forall>t \<in> set (ri_namespaces it). \<exists>v \<in> set (joined sx). t = place_text v \<and>
        vr_pair v \<in> set (narrow_namespaces (visible_pairs (list_namespaces sx) u) (cq_cluster q) (cq_namespace q))"
      using c scope by (auto simp: behind_def comp_where_def)
    show "sorted_wrt (\<lambda>a b. ri_prioritized a = 0 \<longrightarrow> ri_prioritized b = 0)
        (rp_items (build_fix_rollup P u db sx now page sz by desc img fx q))"
      unfolding page page_slice_def by (intro sorted_wrt_take sorted_wrt_drop prioritized_first)
  qed
qed

section \<open>Witness\<close>

definition ex_all :: cve_query where "ex_all = ex_query\<lparr>cq_deployment_id := None\<rparr>"

lemma ex_all_simps [simp]:
  "cq_cluster ex_all = cq_cluster ex_query" "cq_namespace ex_all = cq_namespace ex_query" "cq_restrict ex_all = cq_restrict ex_query"
  "cq_ignore_thresholds ex_all = cq_ignore_thresholds ex_query" "cq_deployment ex_all = None" "cq_deployment_id ex_all = None"
  by (simp_all add: ex_all_def ex_query_def)

lemma ex_all_view: "view_cves P u db sx ex_all = view_cves P u db sx ex_query"
  by (simp only: view_cves_def ex_all_simps)

lemma ex_all_stages:
  "listed_items u db ex_all = listed_items u db ex_query"
  "remediation_stage db sx ex_all = remediation_stage db sx ex_query"
  "item_filters ex_all = item_filters ex_query" "deployment_filter u sx ex_all items = items"
  by (simp_all add: ex_all_def listed_items_def fun_eq_iff remediation_stage_def item_filters_def)
    (simp_all add: deployment_filter_def ex_query_def)

lemma ex_visible: "rollup_visible ex_P ex_member ex_db ex_sx (timedelta_days 2) None ex_all = [ex_item]"
proof -
  have r: "rollup_restrict ex_sx None (cq_deployment_id ex_all) = None" "ex_all\<lparr>cq_restrict := None\<rparr> = ex_all"
    by (simp_all add: rollup_restrict_def ex_all_def ex_query_def)
  have v: "view_cves ex_P ex_member ex_db ex_sx ex_all = Some ([(''shop'', ''c1'')], [ex_cve])"
    by (simp add: ex_all_view ex_view)
  have "cd_cve ex_cve = ''CVE-2024-1''" "\<not> cq_fix_overdue ex_all" "cq_age_min ex_all = Some 1" "cq_age_max ex_all = None"
    by (simp_all add: ex_cve_def ex_query_def ex_all_def)
  then show ?thesis
    unfolding rollup_visible_def r Let_def fetch_unfold [OF v] list.map ex_suppression ex_base ex_all_stages ex_listed ex_remediated
    by (simp add: ex_filters ex_age sort_items_def sort_key_rev_def)
qed

lemma ex_item_cve: "ci_cve ex_item = ''CVE-2024-1''"
  by (simp add: ex_item_def ex_cve_def)

lemma ex_rows: "\<exists>r. rollup_rows ex_member ex_sx None ex_all [''CVE-2024-1''] = [r] \<and> fr_cve r = ''CVE-2024-1''"
  by (simp add: rollup_rows_def get_component_cve_rows_def resolve_scope_namespaces_def narrow_namespaces_def Let_def
      ex_query_def ex_all_def joined_ex comp_where_def group_by_def comp_group_def comp_row_of_def)

lemma ex_page: "\<exists>it. rp_items (build_fix_rollup ex_P ex_member ex_db ex_sx (timedelta_days 2) 1 20 ''max_epss'' True None False ex_all) = [it]"
proof -
  obtain r where r: "rollup_rows ex_member ex_sx None ex_all [''CVE-2024-1''] = [r]" "fr_cve r = ''CVE-2024-1''"
    using ex_rows by blast
  show ?thesis
    by (simp add: build_fix_rollup_def Let_def ex_visible ex_item_cve r dict_of_def aggregate_component_rows_def
        sort_rollup_items_def sorted_dir_def sort_key_rev_def sort_keys_def page_slice_def)
qed

theorem rollup_in_scope_witness:
  "\<exists>it. it \<in> set (rp_items (build_fix_rollup ex_P ex_member ex_db ex_sx (timedelta_days 2) 1 20 ''max_epss'' True None False ex_all)) \<and>
     (\<forall>c \<in> set (ri_cves it). rc_cve c = ''CVE-2024-1'') \<and>
     (\<forall>t \<in> set (ri_namespaces it). \<exists>v \<in> set (joined ex_sx). t = place_text v \<and> vr_pair v = (''shop'', ''c1''))"
proof -
  obtain it where it: "it \<in> set (rp_items (build_fix_rollup ex_P ex_member ex_db ex_sx (timedelta_days 2) 1 20 ''max_epss'' True None False ex_all))"
    using ex_page by (metis list.set_intros(1))
  have q: "cq_cluster ex_query = Some ''c1''" "cq_namespace ex_query = None" by (simp_all add: ex_query_def)
  from rollup_in_scope [OF it] show ?thesis
    by (intro exI [of _ it]) (simp add: it ex_visible ex_item_cve visible_pairs_def narrow_namespaces_def q Let_def)
qed

lemma ex_behind: "behind ex_sx [''CVE-2024-1''] None None None None (''openssl'', ''1.0.2'', []) = {ex_row}"
proof -
  have "comp_key_of ex_row = (''openssl'', ''1.0.2'', [])"
    by (simp add: comp_key_of_def vr_os_def vr_comp_name_def ex_row_def ex_comp_def)
  then show ?thesis by (auto simp: behind_def joined_ex comp_where_def)
qed

theorem rollup_exact_witness:
  "\<exists>it \<in> set (component_items ex_P ex_sx [ex_item] None None None None).
     ri_key it = (''openssl'', ''1.0.2'', []) \<and> rc_cve ` set (ri_cves it) = {''CVE-2024-1''} \<and> ri_affected_deployments it = 1"
proof -
  note r = rollup_exact [of ex_P ex_sx "[ex_item]" None None None None, unfolded list.map ex_item_cve]
  have "(''openssl'', ''1.0.2'', []) \<in> ri_key ` set (component_items ex_P ex_sx [ex_item] None None None None)"
    unfolding conjunct1 [OF conjunct2 [OF r]] by (simp add: ex_behind)
  then obtain it where it: "it \<in> set (component_items ex_P ex_sx [ex_item] None None None None)" "ri_key it = (''openssl'', ''1.0.2'', [])"
    unfolding image_iff by metis
  note q = bspec [OF conjunct2 [OF conjunct2 [OF r]] it(1), unfolded it(2) ex_behind]
  have "rc_cve ` set (ri_cves it) = vr_cve ` {ex_row}" by (rule conjunct1 [OF q])
  moreover have "ri_affected_deployments it = card ((\<lambda>v. dp_id (vr_dep v)) ` {ex_row} - {[]})" using q by blast
  ultimately show ?thesis using it by auto
qed

end
