(* ===== verification/TeamDigest.thy ===== *)
theory TeamDigest
  imports FixRollup Notifications Snapshots
begin

text \<open>
  The weekly team digest: the second half of \<open>app/services/team_notifications.py\<close>. The address check of the mail
  service and which mails the server accepts are parameters. The cache that shares the CVE work between recipients
  is modelled as the code has it, and shown to change nothing.
\<close>

section \<open>Digest numbers\<close>

record cve_numbers =
  cn_visible :: nat
  cn_new_fixable :: nat
  cn_critical_fixable :: nat
  cn_prioritized :: nat
  cn_upgrades :: nat

record digest_stats =
  ds_cves :: cve_numbers
  ds_overdue :: nat
  ds_due_soon :: nat
  ds_assigned :: nat
  ds_expiring :: nat

definition digest_has_news :: "digest_stats \<Rightarrow> bool" where
  "digest_has_news s \<longleftrightarrow>
     cn_new_fixable (ds_cves s) \<noteq> 0 \<or> cn_critical_fixable (ds_cves s) \<noteq> 0 \<or> cn_upgrades (ds_cves s) \<noteq> 0 \<or>
     cn_prioritized (ds_cves s) \<noteq> 0 \<or> ds_overdue s \<noteq> 0 \<or> ds_due_soon s \<noteq> 0 \<or> ds_assigned s \<noteq> 0 \<or> ds_expiring s \<noteq> 0"

definition within_days :: "datetime option \<Rightarrow> datetime \<Rightarrow> bool" where
  "within_days ts since = (case ts of None \<Rightarrow> False | Some t \<Rightarrow> since \<le> t)"

definition cve_counts :: "cve_item list \<Rightarrow> datetime \<Rightarrow> nat \<times> nat \<times> nat \<times> nat" where
  "cve_counts items now =
     (let since = now - timedelta_days 7; fixable = filter ci_fixable items in
      (length items,
       length (filter (\<lambda>i. within_days (ci_first_seen i) since \<or> within_days (ci_fix_since i) since) fixable),
       length (filter (\<lambda>i. ci_severity i = 4) fixable),
       length (filter (\<lambda>i. ci_priority i \<noteq> None) items)))"

datatype visibility_key = VisAll bool | VisNs "pair list"

definition visibility_key_of :: "current_user \<Rightarrow> visibility_key" where
  "visibility_key_of u = (if can_see_all_namespaces u then VisAll (is_sec_team u) else VisNs (sort (cu_namespaces u)))"

definition remediation_counts :: "app_db \<Rightarrow> active_recipient \<Rightarrow> date \<Rightarrow> nat \<times> nat \<times> nat" where
  "remediation_counts db r today =
     (let u = as_current_user r;
          rows = filter (\<lambda>x. rem_status x \<in> {RemOpen, RemInProgress}) (rems db);
          open_items = (if can_see_all_namespaces u then rows
                        else filter (\<lambda>x. (rem_namespace x, rem_cluster x) \<in> set (ar_namespaces r)) rows)
      in (length (filter (\<lambda>x. case rem_target_date x of None \<Rightarrow> False | Some d \<Rightarrow> d < today) open_items),
          length (filter (\<lambda>x. case rem_target_date x of None \<Rightarrow> False | Some d \<Rightarrow> today \<le> d \<and> d \<le> today + 7) open_items),
          length (filter (\<lambda>x. rem_assigned_to x = Some (cu_id u)) open_items)))"

definition expiring_ra_count :: "app_db \<Rightarrow> active_recipient \<Rightarrow> datetime \<Rightarrow> nat result" where
  "expiring_ra_count db r now =
     rbind (traverse (user_can_access_ra (as_current_user r))
       (filter (\<lambda>ra. ra_status ra = RiskApproved \<and>
          (case ra_expires_at ra of None \<Rightarrow> False | Some t \<Rightarrow> t \<le> now + timedelta_days 14 \<and> now \<le> t)) (ras db)))
     (\<lambda>bs. Inr (length (filter id bs)))"

text \<open>The default arguments of \<open>fetch_filtered_cves\<close>.\<close>

definition default_query :: cve_query where
  "default_query = \<lparr>cq_search = None, cq_severity = None, cq_fixable = None, cq_prioritized_only = False,
     cq_sort_by = ''severity'', cq_sort_desc = True, cq_cvss_min = None, cq_epss_min = None,
     cq_component = None, cq_risk_status = None, cq_cluster = None, cq_namespace = None,
     cq_age_min = None, cq_age_max = None, cq_deployment = None, cq_show_suppressed = False,
     cq_remediation_status = None, cq_show_remediated = False, cq_fix_overdue = False,
     cq_deployment_id = None, cq_restrict = None, cq_ignore_thresholds = False, cq_origin = None,
     cq_subscribed_only = False\<rparr>"

definition cve_numbers_of :: "pep440 \<Rightarrow> stackrox \<Rightarrow> datetime \<Rightarrow> app_db \<Rightarrow> active_recipient \<Rightarrow> cve_numbers" where
  "cve_numbers_of P sx now db r =
     (let u = as_current_user r;
          items = fetch_filtered_cves P u db sx now default_query;
          nss = (if can_see_all_namespaces u then None else Some (ar_namespaces r));
          rows = get_component_cve_rows sx (map ci_cve items) nss None None None;
          comps = aggregate_component_rows P rows (dict_of ci_cve items);
          (v, n, c, p) = cve_counts items now
      in \<lparr>cn_visible = v, cn_new_fixable = n, cn_critical_fixable = c, cn_prioritized = p,
          cn_upgrades = length (filter (\<lambda>i. 0 < ri_fixable i \<and> truthy (ri_target i)) comps)\<rparr>)"

type_synonym digest_cache = "(visibility_key \<times> cve_numbers) list"

text \<open>The cache is filled before the rest may raise.\<close>

definition build_team_digest_stats ::
    "pep440 \<Rightarrow> stackrox \<Rightarrow> datetime \<Rightarrow> app_db \<Rightarrow> active_recipient \<Rightarrow> digest_cache \<Rightarrow> digest_stats result \<times> digest_cache" where
  "build_team_digest_stats P sx now db r cache =
     (let key = visibility_key_of (as_current_user r);
          (numbers, cache1) = (case map_of cache key of Some n \<Rightarrow> (n, cache)
            | None \<Rightarrow> (let n = cve_numbers_of P sx now db r in (n, AList.update key n cache)));
          (overdue, soon, assigned) = remediation_counts db r (date_of now)
      in (rbind (expiring_ra_count db r now) (\<lambda>e. Inr \<lparr>ds_cves = numbers, ds_overdue = overdue, ds_due_soon = soon,
            ds_assigned = assigned, ds_expiring = e\<rparr>), cache1))"

record digest_mail =
  dm_to :: string
  dm_name :: string
  dm_stats :: digest_stats

text \<open>One recipient: the mail to try, if any; an error while building the numbers is logged and skipped.\<close>

definition digest_recipient ::
    "pep440 \<Rightarrow> (string \<Rightarrow> string option) \<Rightarrow> stackrox \<Rightarrow> datetime \<Rightarrow> app_db \<Rightarrow> active_recipient \<Rightarrow> digest_cache \<Rightarrow>
     (digest_mail option \<times> digest_cache) result" where
  "digest_recipient P valid_email sx now db r cache =
     rbind (wants db (user_id (ar_user r)) ''team_digest'' True) (\<lambda>w.
       if \<not> w then Inr (None, cache)
       else case valid_email (email (ar_user r)) of None \<Rightarrow> Inr (None, cache)
         | Some to \<Rightarrow>
             (case build_team_digest_stats P sx now db r cache of
               (Inl _, cache1) \<Rightarrow> Inr (None, cache1)
             | (Inr stats, cache1) \<Rightarrow>
                 if \<not> digest_has_news stats then Inr (None, cache1)
                 else Inr (Some \<lparr>dm_to = to, dm_name = user_display_name (ar_user r), dm_stats = stats\<rparr>, cache1)))"

fun digest_loop ::
    "pep440 \<Rightarrow> (string \<Rightarrow> string option) \<Rightarrow> stackrox \<Rightarrow> datetime \<Rightarrow> app_db \<Rightarrow> active_recipient list \<Rightarrow> digest_cache \<Rightarrow>
     digest_mail list result" where
  "digest_loop P ve sx now db [] cache = Inr []"
| "digest_loop P ve sx now db (r # rs) cache =
     rbind (digest_recipient P ve sx now db r cache) (\<lambda>(m, cache1).
       rbind (digest_loop P ve sx now db rs cache1) (\<lambda>ms. Inr (opt_list m @ ms)))"

text \<open>The mails tried, and how many the server accepted.\<close>

definition run_team_digest ::
    "pep440 \<Rightarrow> (string \<Rightarrow> string option) \<Rightarrow> (digest_mail \<Rightarrow> bool) \<Rightarrow> config \<Rightarrow> stackrox \<Rightarrow> datetime \<Rightarrow> app_db \<Rightarrow>
     (nat \<times> digest_mail list) result" where
  "run_team_digest P ve sends cf sx now db =
     rbind (digest_loop P ve sx now db (load_active_recipients db (cf_active_days cf) now) []) (\<lambda>ms.
       Inr (length (filter sends ms), ms))"

section \<open>What the numbers depend on\<close>

lemma namespace_filter_set: "set nss = set nss' \<Longrightarrow> namespace_filter nss = namespace_filter nss'"
  by (simp add: namespace_filter_def)

lemma queries_set:
  assumes "set nss = set nss'"
  shows "get_cves_for_namespaces P sx nss mc me w = get_cves_for_namespaces P sx nss' mc me w"
    "get_cve_component_map sx ids nss = get_cve_component_map sx ids nss'"
    "get_cve_component_version_map sx ids nss = get_cve_component_version_map sx ids nss'"
    "get_cve_namespace_cluster_map sx ids (Some nss) = get_cve_namespace_cluster_map sx ids (Some nss')"
    "get_component_cve_rows sx ids (Some nss) i d e = get_component_cve_rows sx ids (Some nss') i d e"
proof -
  have e: "nss = [] \<longleftrightarrow> nss' = []" using assms by (metis set_empty)
  note f = namespace_filter_set [OF assms]
  show "get_cves_for_namespaces P sx nss mc me w = get_cves_for_namespaces P sx nss' mc me w"
    "get_cve_component_map sx ids nss = get_cve_component_map sx ids nss'"
    "get_cve_component_version_map sx ids nss = get_cve_component_version_map sx ids nss'"
    "get_cve_namespace_cluster_map sx ids (Some nss) = get_cve_namespace_cluster_map sx ids (Some nss')"
    by (auto simp: fun_eq_iff get_cves_for_namespaces_def get_cve_component_map_def get_cve_component_version_map_def
        get_cve_namespace_cluster_map_def e f)
  show "get_component_cve_rows sx ids (Some nss) i d e = get_component_cve_rows sx ids (Some nss') i d e" for d e
    by (simp add: get_component_cve_rows_def e comp_where_def assms cong: filter_cong)
qed

text \<open>Two users with the same key see the same CVEs, up to the marker of their own subscriptions.\<close>

definition unmark :: "cve_item \<Rightarrow> cve_item" where
  "unmark i = i\<lparr>ci_subscribed := False\<rparr>"

lemma unmark_simps [simp]:
  "ci_cve (unmark i) = ci_cve i" "ci_severity (unmark i) = ci_severity i" "ci_cvss (unmark i) = ci_cvss i"
  "ci_epss (unmark i) = ci_epss i" "ci_fixable (unmark i) = ci_fixable i" "ci_priority (unmark i) = ci_priority i"
  "ci_first_seen (unmark i) = ci_first_seen i" "ci_fix_since (unmark i) = ci_fix_since i"
  "ci_published (unmark i) = ci_published i" "ci_deployments (unmark i) = ci_deployments i" "ci_rem (unmark i) = ci_rem i"
  by (simp_all add: unmark_def)

lemma map_sort_key: "(\<And>x. k (f x) = k x) \<Longrightarrow> map f (sort_key k xs) = sort_key k (map f xs)"
proof (induction xs)
  case (Cons x xs)
  have "map f (insort_key k y ys) = insort_key k (f y) (map f ys)" for y ys
    by (induction ys) (simp_all add: Cons.prems)
  with Cons show ?case by simp
qed simp

lemma unmark_sort: "map unmark (sort_items by desc items) = sort_items by desc (map unmark items)"
proof -
  have "sort_value by (unmark i) = sort_value by i" for i by (simp add: sort_value_def)
  then show ?thesis
    by (cases desc) (simp_all add: sort_items_def sort_key_rev_def map_sort_key rev_map [symmetric])
qed

lemma unmark_remediation:
  "map unmark (remediation_stage db sx q nss items) = remediation_stage db sx q nss (map unmark items)"
proof -
  have m: "map ci_cve (map unmark items) = map ci_cve items" by (simp add: comp_def)
  have c: "map unmark (filter (\<lambda>i. ci_rem i \<noteq> Remediated) xs) = filter (\<lambda>i. ci_rem i \<noteq> Remediated) (map unmark xs)"
    "map unmark (filter (given_text t (\<lambda>s i. cve_rem_value (ci_rem i) = s)) xs) =
       filter (given_text t (\<lambda>s i. cve_rem_value (ci_rem i) = s)) (map unmark xs)" for xs t
    by (simp_all add: filter_map comp_def given_text_def [abs_def] cong: option.case_cong)
  have u: "map unmark (map (\<lambda>i. i\<lparr>ci_rem := g (ci_cve i)\<rparr>) items) = map (\<lambda>i. i\<lparr>ci_rem := g (ci_cve i)\<rparr>) (map unmark items)" for g
    by (simp add: unmark_def)
  show ?thesis
  proof (cases "items = []")
    case False
    then show ?thesis
      unfolding remediation_stage_def Let_def m by (simp only: c map_is_Nil_conv if_False
          u [of "\<lambda>c. coalesce Unremediated (compute_remediation_status db sx (map ci_cve items) (if nss = [] then None else Some nss) c)"] if_distrib [of "map unmark"] cong: if_cong)
  qed (simp add: remediation_stage_def)
qed

lemma fetch_default:
  assumes "view_cves P u db sx default_query = Some (nss, cves)"
  shows "map unmark (fetch_filtered_cves P u db sx now default_query) =
    sort_items ''severity'' True (remediation_stage db sx default_query nss
      (map unmark (filter (\<lambda>i. \<not> ci_suppressed i)
        (base_items db sx cves nss (compute_suppression_sets db sx u (map cd_cve cves) (Some nss))))))"
proof -
  have d: "cq_sort_by default_query = ''severity''" "cq_sort_desc default_query" "cq_age_min default_query = None"
    "cq_age_max default_query = None" "\<not> cq_fix_overdue default_query" "\<not> cq_show_suppressed default_query"
    "\<not> cq_subscribed_only default_query"
    by (simp_all add: default_query_def)
  have f: "item_filters default_query comps = (\<lambda>i. True)" "deployment_filter u sx default_query items = items" for comps items
    by (simp_all add: fun_eq_iff item_filters_def deployment_filter_def default_query_def)
  have m: "unmark (i\<lparr>ci_subscribed := b\<rparr>) = unmark i" for i b by (simp add: unmark_def)
  show ?thesis
    unfolding fetch_unfold [OF assms] f
    by (simp add: d unmark_sort unmark_remediation listed_items_def m comp_def)
qed

lemma view_same:
  assumes "visibility_key_of u = visibility_key_of u'"
  shows "(view_cves P u db sx default_query = None \<and> view_cves P u' db sx default_query = None) \<or>
    (\<exists>nss nss' cves. view_cves P u db sx default_query = Some (nss, cves) \<and>
       view_cves P u' db sx default_query = Some (nss', cves) \<and> set nss = set nss' \<and>
       compute_suppression_sets db sx u (map cd_cve cves) (Some nss) =
         compute_suppression_sets db sx u' (map cd_cve cves) (Some nss'))"
proof (cases "can_see_all_namespaces u")
  case True
  with assms have s: "can_see_all_namespaces u'" "is_sec_team u = is_sec_team u'"
    by (auto simp: visibility_key_of_def split: if_splits)
  then have "view_cves P u db sx default_query = view_cves P u' db sx default_query"
    using True by (simp add: view_cves_def resolve_view_thresholds_def default_query_def split_beta)
  moreover have "compute_suppression_sets db sx u ids ns = compute_suppression_sets db sx u' ids ns" for ids ns
    using True s by (simp add: compute_suppression_sets_def)
  ultimately show ?thesis by (cases "view_cves P u db sx default_query") auto
next
  case False
  with assms have s: "\<not> can_see_all_namespaces u'" "sort (cu_namespaces u) = sort (cu_namespaces u')"
    by (auto simp: visibility_key_of_def split: if_splits)
  have eq: "set (cu_namespaces u) = set (cu_namespaces u')" by (metis s(2) set_sort)
  have "length (cu_namespaces u) = length (cu_namespaces u')" by (metis s(2) length_sort)
  then have h: "has_namespaces u = has_namespaces u'"
    using False s(1) by (simp add: has_namespaces_def can_see_all_namespaces_def)
  have n: "\<not> is_sec_team u" "\<not> is_sec_team u'" using False s by (auto simp: can_see_all_namespaces_def)
  show ?thesis
  proof (cases "has_namespaces u")
    case True
    define cves where "cves = get_cves_for_namespaces P sx (cu_namespaces u')
      (fst (resolve_view_thresholds u' (gsettings db) False)) (snd (resolve_view_thresholds u' (gsettings db) False)) (always_show db)"
    have "view_cves P u db sx default_query = Some (cu_namespaces u, cves)"
      "view_cves P u' db sx default_query = Some (cu_namespaces u', cves)"
      using False s(1) True h n queries_set(1) [OF eq]
      by (simp_all add: view_cves_def default_query_def resolve_view_thresholds_def cves_def split_beta Let_def)
    moreover have "compute_suppression_sets db sx u ids (Some (cu_namespaces u)) =
        compute_suppression_sets db sx u' ids (Some (cu_namespaces u'))" for ids
    proof -
      have e: "cu_namespaces u = [] \<longleftrightarrow> cu_namespaces u' = []" using eq by (metis set_empty)
      show ?thesis
        by (simp add: compute_suppression_sets_def False s(1) h eq queries_set [OF eq] e cong: if_cong)
    qed
    ultimately show ?thesis using eq by blast
  next
    case F: False
    with False s(1) h show ?thesis
      by (simp add: view_cves_def default_query_def split_beta)
  qed
qed

lemma fetch_same:
  assumes "visibility_key_of u = visibility_key_of u'"
  shows "map unmark (fetch_filtered_cves P u db sx now default_query) = map unmark (fetch_filtered_cves P u' db sx now default_query)"
  using view_same [OF assms, of P db sx]
proof (elim disjE conjE exE)
  fix nss nss' cves
  assume v: "view_cves P u db sx default_query = Some (nss, cves)" "view_cves P u' db sx default_query = Some (nss', cves)"
    and e: "set nss = set nss'"
    and c: "compute_suppression_sets db sx u (map cd_cve cves) (Some nss) = compute_suppression_sets db sx u' (map cd_cve cves) (Some nss')"
  have n: "nss = [] \<longleftrightarrow> nss' = []" using e by (metis set_empty)
  have "compute_remediation_status db sx ids (if nss = [] then None else Some nss) =
      compute_remediation_status db sx ids (if nss' = [] then None else Some nss')" for ids
    using n by (cases "nss' = []") (simp_all add: compute_remediation_status_def queries_set(4) [OF e] cong: if_cong)
  then have "remediation_stage db sx default_query nss items = remediation_stage db sx default_query nss' items" for items
    unfolding remediation_stage_def by simp
  then show ?thesis
    unfolding fetch_default [OF v(1)] fetch_default [OF v(2)] c base_items_def queries_set(2) [OF e] by simp
qed (simp add: fetch_None)

lemma collect_unmark:
  "collect_rows P (map_option unmark \<circ> vis) rows accs = collect_rows P vis rows accs"
proof (induction P vis rows accs rule: collect_rows.induct)
  case (2 P vis r rs accs)
  have "add_row P (unmark i) r a = add_row P i r a" for i a
    by (simp add: add_row_def rollup_cve_of_def)
  with 2 show ?case by (cases "vis (fr_cve r)") simp_all
qed simp

lemma dict_unmark: "dict_of ci_cve (map unmark items) = map_option unmark \<circ> dict_of ci_cve items"
  by (induction items rule: rev_induct) (simp_all add: dict_of_snoc fun_eq_iff)

lemma cve_counts_unmark: "cve_counts (map unmark items) now = cve_counts items now"
  by (simp add: cve_counts_def Let_def filter_map comp_def)

lemma numbers_same:
  assumes "visibility_key_of (as_current_user r) = visibility_key_of (as_current_user r')"
  shows "cve_numbers_of P sx now db r = cve_numbers_of P sx now db r'"
proof -
  let ?i = "fetch_filtered_cves P (as_current_user r) db sx now default_query"
    and ?j = "fetch_filtered_cves P (as_current_user r') db sx now default_query"
  note f = fetch_same [OF assms, of P db sx now]
  have m: "map ci_cve ?i = map ci_cve ?j"
    using arg_cong [OF f, of "map ci_cve"] by (simp add: comp_def)
  have d: "collect_rows P (dict_of ci_cve ?i) rows accs = collect_rows P (dict_of ci_cve ?j) rows accs" for rows accs
    using arg_cong [OF f, of "dict_of ci_cve"] unfolding dict_unmark by (metis collect_unmark)
  have c: "cve_counts ?i now = cve_counts ?j now" using f by (metis cve_counts_unmark)
  have k: "can_see_all_namespaces (as_current_user r) = can_see_all_namespaces (as_current_user r')"
    using assms by (auto simp: visibility_key_of_def split: if_splits)
  have k2: "set (ar_namespaces r) = set (ar_namespaces r')" if "\<not> can_see_all_namespaces (as_current_user r')"
  proof -
    have "sort (ar_namespaces r) = sort (ar_namespaces r')"
      using assms that k by (simp add: visibility_key_of_def as_current_user_def)
    then show ?thesis by (metis set_sort)
  qed
  have "get_component_cve_rows sx ids (if can_see_all_namespaces (as_current_user r) then None else Some (ar_namespaces r)) None None None =
      get_component_cve_rows sx ids (if can_see_all_namespaces (as_current_user r') then None else Some (ar_namespaces r')) None None None" for ids
    using k queries_set(5) [OF k2] by simp
  then show ?thesis
    by (simp add: cve_numbers_of_def Let_def m d c aggregate_component_rows_def)
qed

section \<open>The cache changes nothing\<close>

text \<open>The numbers of one recipient, from scratch, and the mail that follows from them.\<close>

definition own_stats :: "pep440 \<Rightarrow> stackrox \<Rightarrow> datetime \<Rightarrow> app_db \<Rightarrow> active_recipient \<Rightarrow> digest_stats result" where
  "own_stats P sx now db r = fst (build_team_digest_stats P sx now db r [])"

definition own_mail ::
    "pep440 \<Rightarrow> (string \<Rightarrow> string option) \<Rightarrow> stackrox \<Rightarrow> datetime \<Rightarrow> app_db \<Rightarrow> active_recipient \<Rightarrow> digest_mail option" where
  "own_mail P ve sx now db r =
     (case (wants db (user_id (ar_user r)) ''team_digest'' True, ve (email (ar_user r)), own_stats P sx now db r) of
        (Inr True, Some to, Inr stats) \<Rightarrow>
          if digest_has_news stats then Some \<lparr>dm_to = to, dm_name = user_display_name (ar_user r), dm_stats = stats\<rparr> else None
      | _ \<Rightarrow> None)"

definition cache_ok :: "pep440 \<Rightarrow> stackrox \<Rightarrow> datetime \<Rightarrow> app_db \<Rightarrow> digest_cache \<Rightarrow> bool" where
  "cache_ok P sx now db cache \<longleftrightarrow>
     (\<forall>r n. map_of cache (visibility_key_of (as_current_user r)) = Some n \<longrightarrow> n = cve_numbers_of P sx now db r)"

lemma build_cached:
  assumes "cache_ok P sx now db cache"
  shows "fst (build_team_digest_stats P sx now db r cache) = own_stats P sx now db r \<and>
    cache_ok P sx now db (snd (build_team_digest_stats P sx now db r cache))"
proof (cases "map_of cache (visibility_key_of (as_current_user r))")
  case None
  have "cache_ok P sx now db (AList.update (visibility_key_of (as_current_user r)) (cve_numbers_of P sx now db r) cache)"
    unfolding cache_ok_def AList.update_conv'
  proof (intro allI impI)
    fix s n assume h: "((map_of cache)(visibility_key_of (as_current_user r) \<mapsto> cve_numbers_of P sx now db r))
      (visibility_key_of (as_current_user s)) = Some n"
    show "n = cve_numbers_of P sx now db s"
    proof (cases "visibility_key_of (as_current_user s) = visibility_key_of (as_current_user r)")
      case True
      then show ?thesis using h numbers_same [OF True] by simp
    next
      case False
      then show ?thesis using h assms by (simp add: cache_ok_def)
    qed
  qed
  then show ?thesis by (simp add: build_team_digest_stats_def own_stats_def None Let_def split_beta)
next
  case (Some n)
  then have "n = cve_numbers_of P sx now db r" using assms by (simp add: cache_ok_def)
  then show ?thesis using assms by (simp add: build_team_digest_stats_def own_stats_def Some Let_def split_beta)
qed

lemma recipient_cached:
  assumes "cache_ok P sx now db cache"
  shows "\<exists>cache1. digest_recipient P ve sx now db r cache = Inr (own_mail P ve sx now db r, cache1) \<and> cache_ok P sx now db cache1"
proof -
  obtain w where w: "wants db (user_id (ar_user r)) ''team_digest'' True = Inr w"
    using wants_total [of "''team_digest''" db "user_id (ar_user r)" True] by (auto simp: categories_def)
  obtain st c1 where b: "build_team_digest_stats P sx now db r cache = (st, c1)" by (metis surj_pair)
  then have o: "own_stats P sx now db r = st" and c: "cache_ok P sx now db c1" using build_cached [OF assms, of r] by simp_all
  show ?thesis
    using assms c by (cases st; cases "ve (email (ar_user r))"; cases w) (auto simp: digest_recipient_def own_mail_def w b o)
qed

section \<open>Property\<close>

text \<open>C3: The weekly digest always completes, and mails exactly the active recipients who opted in, have a deliverable
  address and have news, each with the numbers computed from their own visibility alone: sharing the CVE work
  between recipients changes no number.\<close>

theorem team_digest_exact:
  "run_team_digest P ve sends cf sx now db =
     (let ms = somes (map (own_mail P ve sx now db) (load_active_recipients db (cf_active_days cf) now))
      in Inr (length (filter sends ms), ms))"
proof -
  have "digest_loop P ve sx now db rs cache = Inr (somes (map (own_mail P ve sx now db) rs))"
    if "cache_ok P sx now db cache" for rs cache
    using that
  proof (induction rs arbitrary: cache)
    case (Cons r rs)
    from recipient_cached [OF Cons.prems] obtain c1 where
      "digest_recipient P ve sx now db r cache = Inr (own_mail P ve sx now db r, c1)" "cache_ok P sx now db c1" by blast
    with Cons.IH show ?case by (cases "own_mail P ve sx now db r") (simp_all add: opt_list_def)
  qed simp
  then show ?thesis by (simp add: run_team_digest_def Let_def cache_ok_def)
qed

end
