(* ===== verification/NotificationSummary.thy ===== *)
theory NotificationSummary
  imports Remediations RiskAcceptances Snapshots
begin

text \<open>
  The daily email summary of notifications: \<open>app/services/notification_summary_service.py\<close>. The address check of the
  mail service and which mails the server accepts are parameters. The log line is left out. A claim that violates the
  primary key (user, day) is an integrity error.
\<close>

section \<open>What is counted\<close>

definition email_event_retention_days :: int where "email_event_retention_days = 14"
definition delivery_retention_days :: int where "delivery_retention_days = 30"
definition remediation_overdue_key :: string where "remediation_overdue_key = ''remediation_overdue''"
definition risk_expiring_key :: string where "risk_expiring_key = ''risk_expiring''"

record summary_job =
  nj_user :: string
  nj_to :: string
  nj_name :: string
  nj_counts :: "(string \<times> nat) list"

record overdue_remediation =
  od_created_by :: string
  od_assigned_to :: "string option"
  od_pair :: pair

definition load_events :: "app_db \<Rightarrow> datetime \<Rightarrow> string \<Rightarrow> (nat \<times> string) list" where
  "load_events db now uid =
     map (\<lambda>e. (ne_id e, ne_key e)) (filter (\<lambda>e. ne_created e \<le> now \<and> ne_user e = uid) (email_events db))"

definition load_overdue :: "app_db \<Rightarrow> datetime \<Rightarrow> overdue_remediation list" where
  "load_overdue db now =
     map (\<lambda>r. \<lparr>od_created_by = rem_created_by r, od_assigned_to = rem_assigned_to r, od_pair = (rem_namespace r, rem_cluster r)\<rparr>)
       (filter (rem_overdue (date_of now)) (rems db))"

text \<open>\<open>expiring.get(user)\<close>: a user without rows is not in the map.\<close>

definition load_expiring_counts :: "app_db \<Rightarrow> datetime \<Rightarrow> string \<rightharpoonup> nat" where
  "load_expiring_counts db now uid =
     (let n = length (filter (\<lambda>r. expiring now r \<and> ra_created_by r = uid) (ras db)) in if n = 0 then None else Some n)"

definition overdue_count :: "active_recipient \<Rightarrow> overdue_remediation list \<Rightarrow> nat" where
  "overdue_count r overdue =
     (let uid = user_id (ar_user r) in
      length (filter (\<lambda>o'. (od_created_by o' = uid \<or> od_assigned_to o' = Some uid) \<and>
        (can_see_all_namespaces (as_current_user r) \<or> od_pair o' \<in> set (ar_namespaces r))) overdue))"

text \<open>\<open>counts[key] += 1\<close> for the events of a category the user wants by email.\<close>

fun count_events :: "app_db \<Rightarrow> string \<Rightarrow> (nat \<times> string) list \<Rightarrow> (string \<times> nat) list \<Rightarrow> (string \<times> nat) list result" where
  "count_events db uid [] counts = Inr counts"
| "count_events db uid ((_, key) # es) counts =
     (case email_summary_keys key of None \<Rightarrow> count_events db uid es counts
      | Some cat \<Rightarrow> rbind (wants db uid cat True) (\<lambda>w.
          count_events db uid es
            (if w then AList.update key ((case map_of counts key of None \<Rightarrow> 0 | Some n \<Rightarrow> n) + 1) counts else counts)))"

definition plan_counts ::
    "app_db \<Rightarrow> active_recipient \<Rightarrow> (nat \<times> string) list \<Rightarrow> overdue_remediation list \<Rightarrow> (string \<rightharpoonup> nat) \<Rightarrow>
     (string \<times> nat) list result" where
  "plan_counts db r events overdue xps =
     (let uid = user_id (ar_user r) in
      rbind (count_events db uid events []) (\<lambda>c0.
      rbind (wants db uid ''remediation'' True) (\<lambda>w.
        let n = overdue_count r overdue;
            c1 = (if w \<and> n \<noteq> 0 then AList.update remediation_overdue_key n c0 else c0) in
        case xps uid of None \<Rightarrow> Inr c1
        | Some m \<Rightarrow>
            if m = 0 then Inr c1
            else rbind (wants db uid ''risk_acceptance_updates'' True) (\<lambda>w2.
              Inr (if w2 then AList.update risk_expiring_key m c1 else c1)))))"

section \<open>The job\<close>

definition claim_summary :: "string \<Rightarrow> datetime \<Rightarrow> app_db \<Rightarrow> app_db result" where
  "claim_summary uid now db =
     (if list_ex (\<lambda>d. fst d = uid \<and> fst (snd d) = date_of now) (summary_deliveries db)
      then Inl (ServerError ''IntegrityError'')
      else Inr (db\<lparr>summary_deliveries := summary_deliveries db @ [(uid, date_of now, now)]\<rparr>))"

text \<open>One recipient: the claims, the job if any, and the ids of the events that were evaluated.\<close>

definition summary_recipient ::
    "(string \<Rightarrow> string option) \<Rightarrow> datetime \<Rightarrow> (string \<Rightarrow> (nat \<times> string) list) \<Rightarrow> overdue_remediation list \<Rightarrow>
     (string \<rightharpoonup> nat) \<Rightarrow> string set \<Rightarrow> active_recipient \<Rightarrow> app_db \<Rightarrow> (app_db \<times> summary_job list \<times> nat list) result" where
  "summary_recipient valid_email now events overdue xps sent_today r db =
     (let uid = user_id (ar_user r) in
      if uid \<in> sent_today then Inr (db, [], [])
      else rbind (plan_counts db r (events uid) overdue xps) (\<lambda>counts.
        let ids = map fst (events uid) in
        if counts = [] then Inr (db, [], ids)
        else case valid_email (email (ar_user r)) of None \<Rightarrow> Inr (db, [], ids)
          | Some to \<Rightarrow> rbind (claim_summary uid now db) (\<lambda>db1.
              Inr (db1, [\<lparr>nj_user = uid, nj_to = to, nj_name = user_display_name (ar_user r), nj_counts = counts\<rparr>], ids))))"

fun summary_loop ::
    "(active_recipient \<Rightarrow> app_db \<Rightarrow> (app_db \<times> summary_job list \<times> nat list) result) \<Rightarrow> active_recipient list \<Rightarrow> app_db \<Rightarrow>
     (app_db \<times> summary_job list \<times> nat list) result" where
  "summary_loop f [] db = Inr (db, [], [])"
| "summary_loop f (r # rs) db =
     rbind (f r db) (\<lambda>(db1, js, is). rbind (summary_loop f rs db1) (\<lambda>(db2, ks, ls). Inr (db2, js @ ks, is @ ls)))"

definition delete_consumed :: "nat list \<Rightarrow> datetime \<Rightarrow> app_db \<Rightarrow> app_db" where
  "delete_consumed ids now db =
     db\<lparr>email_events := filter (\<lambda>e. \<not> ne_created e < now - timedelta_days email_event_retention_days)
          (filter (\<lambda>e. ne_id e \<notin> set ids) (email_events db)),
        summary_deliveries := filter (\<lambda>d. \<not> fst (snd d) < date_of now - delivery_retention_days) (summary_deliveries db)\<rparr>"

text \<open>What is committed, the mails tried, and how many the server accepted.\<close>

definition run_notification_summary ::
    "(string \<Rightarrow> string option) \<Rightarrow> (summary_job \<Rightarrow> bool) \<Rightarrow> config \<Rightarrow> datetime \<Rightarrow> app_db \<Rightarrow>
     (app_db \<times> summary_job list \<times> nat) result" where
  "run_notification_summary valid_email sends cf now db =
     (let sent_today = fst ` {d \<in> set (summary_deliveries db). fst (snd d) = date_of now} in
      rbind (summary_loop (summary_recipient valid_email now (load_events db now) (load_overdue db now)
          (load_expiring_counts db now) sent_today) (load_active_recipients db (cf_active_days cf) now) db)
        (\<lambda>(db1, jobs, ids). Inr (delete_consumed ids now db1, jobs, length (filter sends jobs))))"

section \<open>Counts\<close>

text \<open>What the summary of a recipient counts under a key: the queued events, the overdue remediations and the expiring
  risk acceptances of the categories the user wants by email; never zero.\<close>

definition wants_mail :: "app_db \<Rightarrow> string \<Rightarrow> string \<Rightarrow> bool" where
  "wants_mail db uid cat \<longleftrightarrow> wants db uid cat True = Inr True"

definition some_pos :: "nat \<Rightarrow> nat option" where "some_pos n = (if n = 0 then None else Some n)"

definition summary_count :: "app_db \<Rightarrow> active_recipient \<Rightarrow> datetime \<Rightarrow> string \<Rightarrow> nat option" where
  "summary_count db r now key =
     (let uid = user_id (ar_user r) in
      if key = risk_expiring_key then
        if wants_mail db uid ''risk_acceptance_updates''
        then some_pos (length (filter (\<lambda>x. expiring now x \<and> ra_created_by x = uid) (ras db))) else None
      else if key = remediation_overdue_key then
        if wants_mail db uid ''remediation'' then some_pos (length (filter (\<lambda>x. rem_overdue (date_of now) x \<and>
            (rem_created_by x = uid \<or> rem_assigned_to x = Some uid) \<and>
            (can_see_all_namespaces (as_current_user r) \<or> (rem_namespace x, rem_cluster x) \<in> set (ar_namespaces r))) (rems db)))
        else None
      else case email_summary_keys key of None \<Rightarrow> None
        | Some cat \<Rightarrow> if wants_mail db uid cat
            then some_pos (length (filter (\<lambda>e. ne_created e \<le> now \<and> ne_user e = uid \<and> ne_key e = key) (email_events db))) else None)"

lemma wants_mail_iff: "map_of categories cat \<noteq> None \<Longrightarrow> wants db uid cat True = Inr (wants_mail db uid cat)"
  using wants_total [of cat db uid True] by (auto simp: wants_mail_def)

lemma count_events_Inr:
  "\<exists>c. count_events db uid es counts = Inr c \<and> map_of c key =
     (case email_summary_keys key of None \<Rightarrow> map_of counts key
      | Some cat \<Rightarrow> if wants_mail db uid cat \<and> filter (\<lambda>e. snd e = key) es \<noteq> []
          then Some ((case map_of counts key of None \<Rightarrow> 0 | Some n \<Rightarrow> n) + length (filter (\<lambda>e. snd e = key) es))
          else map_of counts key)"
proof (induction db uid es counts rule: count_events.induct)
  case (2 db uid i k es counts)
  show ?case
  proof (cases "email_summary_keys k")
    case None
    from 2(1) [OF None] show ?thesis using None by (auto split: option.splits)
  next
    case (Some cat)
    then have w: "wants db uid cat True = Inr (wants_mail db uid cat)"
      using summary_categories by (intro wants_mail_iff) blast
    let ?new = "if wants_mail db uid cat then AList.update k ((case map_of counts k of None \<Rightarrow> 0 | Some n \<Rightarrow> n) + 1) counts else counts"
    from 2(2) [OF Some, of "wants_mail db uid cat"] obtain c where c: "count_events db uid es ?new = Inr c"
      and m: "map_of c key = (case email_summary_keys key of None \<Rightarrow> map_of ?new key
      | Some cat \<Rightarrow> if wants_mail db uid cat \<and> filter (\<lambda>e. snd e = key) es \<noteq> []
          then Some ((case map_of ?new key of None \<Rightarrow> 0 | Some n \<Rightarrow> n) + length (filter (\<lambda>e. snd e = key) es))
          else map_of ?new key)" by blast
    have "count_events db uid ((i, k) # es) counts = Inr c" using c by (simp add: Some w)
    moreover have "map_of c key = (case email_summary_keys key of None \<Rightarrow> map_of counts key
      | Some cat \<Rightarrow> if wants_mail db uid cat \<and> filter (\<lambda>e. snd e = key) ((i, k) # es) \<noteq> []
          then Some ((case map_of counts key of None \<Rightarrow> 0 | Some n \<Rightarrow> n) + length (filter (\<lambda>e. snd e = key) ((i, k) # es)))
          else map_of counts key)"
    proof (cases "k = key")
      case True
      then have "email_summary_keys key = Some cat" using Some by simp
      then show ?thesis
        unfolding m using True by (cases "wants_mail db uid cat") (simp_all add: AList.update_conv')
    next
      case False
      then have e: "map_of ?new key = map_of counts key" by (simp add: AList.update_conv')
      show ?thesis unfolding m e using False by (cases "email_summary_keys key") simp_all
    qed
    ultimately show ?thesis by blast
  qed
qed (auto split: option.splits)

lemma plan_counts_Inr:
  assumes "events = load_events db0 now" "overdue = load_overdue db0 now" "xps = load_expiring_counts db0 now"
    and "notif_prefs db = notif_prefs db0"
  shows "\<exists>c. plan_counts db r (events (user_id (ar_user r))) overdue xps = Inr c \<and> map_of c = summary_count db0 r now"
proof -
  let ?uid = "user_id (ar_user r)"
  have w: "wants db uid cat True = wants db0 uid cat True" "wants_mail db uid cat = wants_mail db0 uid cat" for uid cat
    using assms(4) by (simp_all add: wants_mail_def wants_def stored_preference_def)
  have keys: "email_summary_keys remediation_overdue_key = None" "email_summary_keys risk_expiring_key = None"
    "remediation_overdue_key \<noteq> risk_expiring_key"
    by (simp_all add: email_summary_keys_def remediation_overdue_key_def risk_expiring_key_def)
  obtain c0 where c0: "count_events db ?uid (events ?uid) [] = Inr c0" using count_events_Inr by blast
  have m0: "map_of c0 key = (case email_summary_keys key of None \<Rightarrow> None
      | Some cat \<Rightarrow> if wants_mail db0 ?uid cat
          then some_pos (length (filter (\<lambda>e. ne_created e \<le> now \<and> ne_user e = ?uid \<and> ne_key e = key) (email_events db0))) else None)" for key
    using count_events_Inr [of db ?uid "events ?uid" "[]" key] unfolding c0
    by (auto simp: assms(1) load_events_def filter_map comp_def w some_pos_def conj_assoc filter_empty_conv split: option.splits)
  have r: "wants db ?uid ''remediation'' True = Inr (wants_mail db0 ?uid ''remediation'')"
    "wants db ?uid ''risk_acceptance_updates'' True = Inr (wants_mail db0 ?uid ''risk_acceptance_updates'')"
    by (simp_all add: wants_mail_iff categories_def w)
  have n: "overdue_count r overdue = length (filter (\<lambda>x. rem_overdue (date_of now) x \<and>
      (rem_created_by x = ?uid \<or> rem_assigned_to x = Some ?uid) \<and>
      (can_see_all_namespaces (as_current_user r) \<or> (rem_namespace x, rem_cluster x) \<in> set (ar_namespaces r))) (rems db0))"
    by (simp add: overdue_count_def assms(2) load_overdue_def filter_map comp_def Let_def conj_commute conj_left_commute)
  have x: "xps ?uid = some_pos (length (filter (\<lambda>x. expiring now x \<and> ra_created_by x = ?uid) (ras db0)))"
    by (simp add: assms(3) load_expiring_counts_def some_pos_def Let_def)
  show ?thesis
    unfolding plan_counts_def Let_def c0 r x
    by (auto simp: fun_eq_iff summary_count_def m0 keys some_pos_def AList.update_conv' n Let_def split: option.split)
qed

section \<open>The loop\<close>

definition already_mailed :: "app_db \<Rightarrow> datetime \<Rightarrow> string \<Rightarrow> bool" where
  "already_mailed db now uid \<longleftrightarrow> (\<exists>d \<in> set (summary_deliveries db). fst d = uid \<and> fst (snd d) = date_of now)"

text \<open>The mail of a recipient who was not mailed yet, given the counts.\<close>

definition summary_job_ok ::
    "(string \<Rightarrow> string option) \<Rightarrow> app_db \<Rightarrow> datetime \<Rightarrow> active_recipient \<Rightarrow> summary_job \<Rightarrow> bool" where
  "summary_job_ok ve db now r j \<longleftrightarrow> nj_user j = user_id (ar_user r) \<and> \<not> already_mailed db now (nj_user j) \<and>
     ve (email (ar_user r)) = Some (nj_to j) \<and> nj_counts j \<noteq> [] \<and> map_of (nj_counts j) = summary_count db r now"

definition due :: "(string \<Rightarrow> string option) \<Rightarrow> app_db \<Rightarrow> datetime \<Rightarrow> active_recipient \<Rightarrow> bool" where
  "due ve db now r \<longleftrightarrow> \<not> already_mailed db now (user_id (ar_user r)) \<and> ve (email (ar_user r)) \<noteq> None \<and>
     (\<exists>k. summary_count db r now k \<noteq> None)"

definition step ::
    "(string \<Rightarrow> string option) \<Rightarrow> app_db \<Rightarrow> datetime \<Rightarrow> active_recipient \<Rightarrow> app_db \<Rightarrow> (app_db \<times> summary_job list \<times> nat list) result" where
  "step ve db0 now = summary_recipient ve now (load_events db0 now) (load_overdue db0 now) (load_expiring_counts db0 now)
     (fst ` {d \<in> set (summary_deliveries db0). fst (snd d) = date_of now})"

lemma step_Inr:
  assumes "notif_prefs db = notif_prefs db0"
    and "\<forall>d \<in> set (summary_deliveries db). fst (snd d) = date_of now \<longrightarrow> fst d = user_id (ar_user r) \<longrightarrow> d \<in> set (summary_deliveries db0)"
  obtains js where
    "step ve db0 now r db = Inr (db\<lparr>summary_deliveries := summary_deliveries db @ map (\<lambda>j. (nj_user j, date_of now, now)) js\<rparr>, js,
       if already_mailed db0 now (user_id (ar_user r)) then [] else map fst (load_events db0 now (user_id (ar_user r))))"
    "js = [] \<and> \<not> due ve db0 now r \<or> (\<exists>j. js = [j] \<and> summary_job_ok ve db0 now r j)"
proof -
  let ?uid = "user_id (ar_user r)"
  have s: "?uid \<in> fst ` {d \<in> set (summary_deliveries db0). fst (snd d) = date_of now} \<longleftrightarrow> already_mailed db0 now ?uid"
    by (force simp: already_mailed_def)
  obtain c where c: "plan_counts db r (load_events db0 now ?uid) (load_overdue db0 now) (load_expiring_counts db0 now) = Inr c"
    "map_of c = summary_count db0 r now"
    using plan_counts_Inr [OF refl refl refl assms(1)] by blast
  have e: "c = [] \<longleftrightarrow> (\<forall>k. summary_count db0 r now k = None)"
    unfolding c(2) [symmetric] by (cases c) (auto simp: map_of_eq_None_iff)
  show ?thesis
  proof (cases "already_mailed db0 now ?uid \<or> c = [] \<or> ve (email (ar_user r)) = None")
    case True
    then have "step ve db0 now r db = Inr (db, [], if already_mailed db0 now ?uid then [] else map fst (load_events db0 now ?uid))"
      by (cases "already_mailed db0 now ?uid"; cases "c = []") (simp_all add: step_def summary_recipient_def s c(1) Let_def)
    moreover have "\<not> due ve db0 now r" using True e by (auto simp: due_def)
    ultimately show ?thesis using that [of "[]"] by simp
  next
    case False
    then obtain to where to: "ve (email (ar_user r)) = Some to" by auto
    have "\<not> list_ex (\<lambda>d. fst d = ?uid \<and> fst (snd d) = date_of now) (summary_deliveries db)"
      using assms(2) False by (fastforce simp: list_ex_iff already_mailed_def)
    then have "step ve db0 now r db = Inr (db\<lparr>summary_deliveries := summary_deliveries db @ [(?uid, date_of now, now)]\<rparr>,
        [\<lparr>nj_user = ?uid, nj_to = to, nj_name = user_display_name (ar_user r), nj_counts = c\<rparr>], map fst (load_events db0 now ?uid))"
      using False by (simp add: step_def summary_recipient_def s c(1) Let_def to claim_summary_def)
    then show ?thesis
      using that [of "[\<lparr>nj_user = ?uid, nj_to = to, nj_name = user_display_name (ar_user r), nj_counts = c\<rparr>]"] False to c(2)
      by (simp add: summary_job_ok_def)
  qed
qed

lemma loop_Inr:
  assumes "distinct (map (\<lambda>r. user_id (ar_user r)) rs)" and "notif_prefs db = notif_prefs db0"
    and "\<forall>r \<in> set rs. \<forall>d \<in> set (summary_deliveries db). fst (snd d) = date_of now \<longrightarrow> fst d = user_id (ar_user r) \<longrightarrow>
      d \<in> set (summary_deliveries db0)"
  shows "\<exists>js. summary_loop (step ve db0 now) rs db =
      Inr (db\<lparr>summary_deliveries := summary_deliveries db @ map (\<lambda>j. (nj_user j, date_of now, now)) js\<rparr>, js,
        concat (map (\<lambda>r. if already_mailed db0 now (user_id (ar_user r)) then [] else map fst (load_events db0 now (user_id (ar_user r)))) rs)) \<and>
      subseq (map nj_user js) (map (\<lambda>r. user_id (ar_user r)) rs) \<and>
      (\<forall>j \<in> set js. \<exists>r \<in> set rs. summary_job_ok ve db0 now r j) \<and> (\<forall>r \<in> set rs. due ve db0 now r \<longrightarrow> (\<exists>j \<in> set js. summary_job_ok ve db0 now r j))"
  using assms
proof (induction rs arbitrary: db)
  case (Cons r rs)
  have "\<forall>d \<in> set (summary_deliveries db). fst (snd d) = date_of now \<longrightarrow> fst d = user_id (ar_user r) \<longrightarrow> d \<in> set (summary_deliveries db0)"
    using Cons.prems(3) by simp
  from step_Inr [OF Cons.prems(2) this, of ve] obtain js where
    js: "step ve db0 now r db = Inr (db\<lparr>summary_deliveries := summary_deliveries db @ map (\<lambda>j. (nj_user j, date_of now, now)) js\<rparr>, js,
       if already_mailed db0 now (user_id (ar_user r)) then [] else map fst (load_events db0 now (user_id (ar_user r))))"
    "js = [] \<and> \<not> due ve db0 now r \<or> (\<exists>j. js = [j] \<and> summary_job_ok ve db0 now r j)" .
  let ?m = "db\<lparr>summary_deliveries := summary_deliveries db @ map (\<lambda>j. (nj_user j, date_of now, now)) js\<rparr>"
  have u: "set (map nj_user js) \<subseteq> {user_id (ar_user r)}" "subseq (map nj_user js) [user_id (ar_user r)]"
    using js(2) by (auto simp: summary_job_ok_def)
  have "\<forall>q \<in> set rs. \<forall>d \<in> set (summary_deliveries ?m). fst (snd d) = date_of now \<longrightarrow> fst d = user_id (ar_user q) \<longrightarrow>
      d \<in> set (summary_deliveries db0)"
  proof (intro ballI impI)
    fix q d assume q: "q \<in> set rs" and d: "d \<in> set (summary_deliveries ?m)" "fst (snd d) = date_of now" "fst d = user_id (ar_user q)"
    have "user_id (ar_user q) \<noteq> user_id (ar_user r)" using Cons.prems(1) q by (auto simp: image_iff)
    then have "fst d \<notin> set (map nj_user js)" using u(1) d(3) by auto
    then have "d \<in> set (summary_deliveries db)" using d(1) by auto
    then show "d \<in> set (summary_deliveries db0)" using Cons.prems(3) q d by simp
  qed
  with Cons.IH [of ?m] Cons.prems(1,2) obtain ks where ks: "summary_loop (step ve db0 now) rs ?m =
      Inr (?m\<lparr>summary_deliveries := summary_deliveries ?m @ map (\<lambda>j. (nj_user j, date_of now, now)) ks\<rparr>, ks,
        concat (map (\<lambda>r. if already_mailed db0 now (user_id (ar_user r)) then [] else map fst (load_events db0 now (user_id (ar_user r)))) rs))"
      "subseq (map nj_user ks) (map (\<lambda>r. user_id (ar_user r)) rs)"
      "\<forall>j \<in> set ks. \<exists>r \<in> set rs. summary_job_ok ve db0 now r j" "\<forall>r \<in> set rs. due ve db0 now r \<longrightarrow> (\<exists>j \<in> set ks. summary_job_ok ve db0 now r j)"
    by auto
  have "subseq (map nj_user (js @ ks)) (map (\<lambda>r. user_id (ar_user r)) (r # rs))"
    using list_emb_append_mono [OF u(2) ks(2)] by simp
  moreover have "\<forall>j \<in> set (js @ ks). \<exists>q \<in> set (r # rs). summary_job_ok ve db0 now q j" using js(2) ks(3) by auto
  moreover have "\<forall>q \<in> set (r # rs). due ve db0 now q \<longrightarrow> (\<exists>j \<in> set (js @ ks). summary_job_ok ve db0 now q j)" using js(2) ks(4) by auto
  moreover have "summary_loop (step ve db0 now) (r # rs) db =
      Inr (db\<lparr>summary_deliveries := summary_deliveries db @ map (\<lambda>j. (nj_user j, date_of now, now)) (js @ ks)\<rparr>, js @ ks,
        concat (map (\<lambda>r. if already_mailed db0 now (user_id (ar_user r)) then [] else map fst (load_events db0 now (user_id (ar_user r)))) (r # rs)))"
    by (simp add: js(1) ks(1))
  ultimately show ?case by blast
next
  case Nil
  then show ?case by (intro exI [of _ "[]"]) simp
qed

definition evaluated_ids :: "app_db \<Rightarrow> active_recipient list \<Rightarrow> datetime \<Rightarrow> nat list" where
  "evaluated_ids db rs now = concat (map (\<lambda>r. if already_mailed db now (user_id (ar_user r)) then []
     else map fst (load_events db now (user_id (ar_user r)))) rs)"

lemma run_Inr:
  assumes "distinct (map user_id (users db))" "snapshots_ok db"
  obtains js where "run_notification_summary ve sends cf now db =
      Inr (delete_consumed (evaluated_ids db (load_active_recipients db (cf_active_days cf) now) now) now
        (db\<lparr>summary_deliveries := summary_deliveries db @ map (\<lambda>j. (nj_user j, date_of now, now)) js\<rparr>),
        js, length (filter sends js))"
    "distinct (map nj_user js)"
    "\<forall>j \<in> set js. \<exists>r \<in> set (load_active_recipients db (cf_active_days cf) now). summary_job_ok ve db now r j"
    "\<forall>r \<in> set (load_active_recipients db (cf_active_days cf) now). due ve db now r \<longrightarrow> (\<exists>j \<in> set js. summary_job_ok ve db now r j)"
proof -
  let ?rs = "load_active_recipients db (cf_active_days cf) now"
  note d = distinct_recipients [OF assms, of "cf_active_days cf" now]
  have "\<exists>js. summary_loop (step ve db now) ?rs db =
      Inr (db\<lparr>summary_deliveries := summary_deliveries db @ map (\<lambda>j. (nj_user j, date_of now, now)) js\<rparr>, js, evaluated_ids db ?rs now) \<and>
      subseq (map nj_user js) (map (\<lambda>r. user_id (ar_user r)) ?rs) \<and>
      (\<forall>j \<in> set js. \<exists>r \<in> set ?rs. summary_job_ok ve db now r j) \<and> (\<forall>r \<in> set ?rs. due ve db now r \<longrightarrow> (\<exists>j \<in> set js. summary_job_ok ve db now r j))"
    unfolding evaluated_ids_def by (rule loop_Inr [OF d refl]) simp
  then obtain js where js: "summary_loop (step ve db now) ?rs db =
      Inr (db\<lparr>summary_deliveries := summary_deliveries db @ map (\<lambda>j. (nj_user j, date_of now, now)) js\<rparr>, js, evaluated_ids db ?rs now)"
    "subseq (map nj_user js) (map (\<lambda>r. user_id (ar_user r)) ?rs)"
    "\<forall>j \<in> set js. \<exists>r \<in> set ?rs. summary_job_ok ve db now r j"
    "\<forall>r \<in> set ?rs. due ve db now r \<longrightarrow> (\<exists>j \<in> set js. summary_job_ok ve db now r j)" by blast
  show ?thesis
    by (rule that [OF _ subseq_distinct [OF js(2) d] js(3,4)]) (use js(1) in \<open>simp add: run_notification_summary_def step_def\<close>)
qed

lemma in_evaluated:
  "i \<in> set (evaluated_ids db rs now) \<longleftrightarrow> (\<exists>r \<in> set rs. \<not> already_mailed db now (user_id (ar_user r)) \<and>
     i \<in> ne_id ` {x \<in> set (email_events db). ne_created x \<le> now \<and> ne_user x = user_id (ar_user r)})"
proof -
  have "set (map fst (load_events db now uid)) = ne_id ` {x \<in> set (email_events db). ne_created x \<le> now \<and> ne_user x = uid}" for uid
    by (simp add: load_events_def image_image)
  moreover have "set (if b then [] else xs) = (if b then {} else set xs)" for b and xs :: "nat list" by simp
  ultimately show ?thesis by (simp add: evaluated_ids_def) blast
qed

lemma evaluated_iff:
  assumes "distinct (map ne_id (email_events db))" and e: "e \<in> set (email_events db)"
  shows "ne_id e \<in> set (evaluated_ids db rs now) \<longleftrightarrow> ne_created e \<le> now \<and> \<not> already_mailed db now (ne_user e) \<and>
      ne_user e \<in> (\<lambda>r. user_id (ar_user r)) ` set rs"
proof -
  have same: "x = e" if "x \<in> set (email_events db)" "ne_id x = ne_id e" for x
    using assms that by (auto simp: distinct_map dest: inj_onD)
  have i: "ne_id e \<in> ne_id ` {x \<in> set (email_events db). ne_created x \<le> now \<and> ne_user x = uid} \<longleftrightarrow> ne_created e \<le> now \<and> ne_user e = uid" for uid
    using same e by (auto simp: image_iff)
  show ?thesis unfolding in_evaluated i by (auto simp: image_def)
qed

section \<open>Properties\<close>

text \<open>C9: The daily summary always completes. It mails exactly the active recipients who were not mailed today, have a
  deliverable address and something to count, each with exactly the counts of the categories they want by email; it
  consumes exactly the queued events of the recipients it evaluates, drops those older than the retention, and
  leaves every other event queued.\<close>

theorem notification_summary_exact:
  assumes "distinct (map user_id (users db))" "snapshots_ok db" "distinct (map ne_id (email_events db))"
  shows "\<exists>db' jobs. run_notification_summary ve sends cf now db = Inr (db', jobs, length (filter sends jobs)) \<and>
    (\<forall>j \<in> set jobs. \<exists>r \<in> set (load_active_recipients db (cf_active_days cf) now). summary_job_ok ve db now r j) \<and>
    (\<forall>r \<in> set (load_active_recipients db (cf_active_days cf) now). due ve db now r \<longrightarrow> (\<exists>j \<in> set jobs. summary_job_ok ve db now r j)) \<and>
    email_events db' = filter (\<lambda>e. now - timedelta_days 14 \<le> ne_created e \<and>
       \<not> (ne_created e \<le> now \<and> \<not> already_mailed db now (ne_user e) \<and>
          ne_user e \<in> (\<lambda>r. user_id (ar_user r)) ` set (load_active_recipients db (cf_active_days cf) now))) (email_events db)"
proof -
  let ?rs = "load_active_recipients db (cf_active_days cf) now"
  obtain js where js: "run_notification_summary ve sends cf now db =
      Inr (delete_consumed (evaluated_ids db ?rs now) now
        (db\<lparr>summary_deliveries := summary_deliveries db @ map (\<lambda>j. (nj_user j, date_of now, now)) js\<rparr>), js, length (filter sends js))"
    "\<forall>j \<in> set js. \<exists>r \<in> set ?rs. summary_job_ok ve db now r j"
    "\<forall>r \<in> set ?rs. due ve db now r \<longrightarrow> (\<exists>j \<in> set js. summary_job_ok ve db now r j)"
    using run_Inr [OF assms(1,2)] by metis
  have "email_events (delete_consumed (evaluated_ids db ?rs now) now (db\<lparr>summary_deliveries := ds\<rparr>)) =
      filter (\<lambda>e. now - timedelta_days 14 \<le> ne_created e \<and> \<not> (ne_created e \<le> now \<and> \<not> already_mailed db now (ne_user e) \<and>
        ne_user e \<in> (\<lambda>r. user_id (ar_user r)) ` set ?rs)) (email_events db)" for ds
    unfolding delete_consumed_def using evaluated_iff [OF assms(3)]
    by (auto simp: email_event_retention_days_def not_less intro!: filter_cong)
  with js show ?thesis by blast
qed

text \<open>No user is mailed twice on a day: whoever a mail is claimed for was not mailed that day before, is claimed for
  once, and is on record afterwards, so a second run on the same day mails nobody again.\<close>

theorem notification_summary_once_a_day:
  assumes "distinct (map user_id (users db))" "snapshots_ok db"
    and "run_notification_summary ve sends cf now db = Inr (db', jobs, n)"
  shows "distinct (map nj_user jobs) \<and> (\<forall>j \<in> set jobs. \<not> already_mailed db now (nj_user j)) \<and>
    (\<forall>now'. date_of now' = date_of now \<longrightarrow> (\<forall>j \<in> set jobs. already_mailed db' now' (nj_user j)))"
proof -
  let ?rs = "load_active_recipients db (cf_active_days cf) now"
  obtain js where js: "run_notification_summary ve sends cf now db =
      Inr (delete_consumed (evaluated_ids db ?rs now) now
        (db\<lparr>summary_deliveries := summary_deliveries db @ map (\<lambda>j. (nj_user j, date_of now, now)) js\<rparr>), js, length (filter sends js))"
    "distinct (map nj_user js)" "\<forall>j \<in> set js. \<exists>r \<in> set ?rs. summary_job_ok ve db now r j"
    using run_Inr [OF assms(1,2)] by metis
  then have run: "db' = delete_consumed (evaluated_ids db ?rs now) now
      (db\<lparr>summary_deliveries := summary_deliveries db @ map (\<lambda>j. (nj_user j, date_of now, now)) js\<rparr>)" "jobs = js"
    using assms(3) by simp_all
  moreover have "\<forall>j \<in> set js. \<not> already_mailed db now (nj_user j)" using js(3) by (auto simp: summary_job_ok_def)
  moreover have "already_mailed db' now' (nj_user j)" if "date_of now' = date_of now" "j \<in> set js" for now' j
  proof -
    have "(nj_user j, date_of now, now) \<in> set (summary_deliveries db')"
      using that(2) by (simp add: run(1) delete_consumed_def delivery_retention_days_def)
    with that(1) show ?thesis by (force simp: already_mailed_def)
  qed
  ultimately show ?thesis using js(2) by simp
qed

section \<open>Witnesses\<close>

definition ex_user :: user where
  "ex_user = \<lparr>user_id = ''u1'', username = ''ann'', full_name = None, email = ''ann@x'', role = TeamMember\<rparr>"

definition ex_queue :: app_db where
  "ex_queue = empty_db\<lparr>users := [ex_user],
     snapshots := [\<lparr>sn_user = ''u1'', sn_namespaces = [(''shop'', ''c1'')], sn_has_all = False, sn_hash = [], sn_last_seen = 0\<rparr>],
     notif_prefs := [\<lparr>np_user = ''u1'', np_category = ''remediation'', np_in_app = True, np_email = True\<rparr>],
     email_events := [\<lparr>ne_id = 1, ne_user = ''u1'', ne_key = ''remediation_created'', ne_created = 0\<rparr>]\<rparr>"

definition ex_cfg :: config where
  "ex_cfg = \<lparr>cf_default_escalation_email = [], cf_management_email = [], cf_active_days = 30\<rparr>"

lemma ex_queue_ok: "distinct (map user_id (users ex_queue))" "snapshots_ok ex_queue" "distinct (map ne_id (email_events ex_queue))"
  by (simp_all add: ex_queue_def snapshots_ok_def)

lemma ex_due: "\<exists>r \<in> set (load_active_recipients ex_queue (cf_active_days ex_cfg) 0). due Some ex_queue 0 r"
proof -
  let ?r = "\<lparr>ar_user = ex_user, ar_namespaces = [(''shop'', ''c1'')], ar_has_all = False\<rparr>"
  have "load_active_recipients ex_queue (cf_active_days ex_cfg) 0 = [?r]"
    by (simp add: load_active_recipients_def ex_queue_def ex_user_def ex_cfg_def timedelta_days_def day_us_def)
  moreover have "summary_count ex_queue ?r 0 ''remediation_created'' = Some 1"
    by (simp add: summary_count_def risk_expiring_key_def remediation_overdue_key_def email_summary_keys_def wants_mail_def
        wants_def effective_def categories_def stored_preference_def ex_queue_def ex_user_def some_pos_def)
  moreover have "\<not> already_mailed ex_queue 0 (user_id (ar_user ?r))" by (simp add: already_mailed_def ex_queue_def)
  ultimately show ?thesis by (auto simp: due_def)
qed

theorem notification_summary_exact_witness:
  "\<exists>db' jobs. run_notification_summary Some (\<lambda>_. True) ex_cfg 0 ex_queue = Inr (db', jobs, length jobs) \<and> jobs \<noteq> [] \<and> email_events db' = []"
proof -
  from notification_summary_exact [OF ex_queue_ok, of Some "\<lambda>_. True" ex_cfg 0] obtain db' jobs where
    r: "run_notification_summary Some (\<lambda>_. True) ex_cfg 0 ex_queue = Inr (db', jobs, length jobs)"
    and j: "\<forall>r \<in> set (load_active_recipients ex_queue (cf_active_days ex_cfg) 0). due Some ex_queue 0 r \<longrightarrow>
      (\<exists>j \<in> set jobs. summary_job_ok Some ex_queue 0 r j)"
    and e: "email_events db' = filter (\<lambda>e. 0 - timedelta_days 14 \<le> ne_created e \<and>
       \<not> (ne_created e \<le> 0 \<and> \<not> already_mailed ex_queue 0 (ne_user e) \<and>
          ne_user e \<in> (\<lambda>r. user_id (ar_user r)) ` set (load_active_recipients ex_queue (cf_active_days ex_cfg) 0))) (email_events ex_queue)"
    by auto
  have "jobs \<noteq> []" using j ex_due by auto
  moreover have "email_events db' = []"
    unfolding e by (simp add: load_active_recipients_def ex_queue_def ex_user_def ex_cfg_def timedelta_days_def day_us_def already_mailed_def)
  ultimately show ?thesis using r by blast
qed

theorem notification_summary_once_a_day_witness:
  "\<exists>db' jobs n. run_notification_summary Some (\<lambda>_. True) ex_cfg 0 ex_queue = Inr (db', jobs, n) \<and> jobs \<noteq> [] \<and>
     (\<forall>j \<in> set jobs. already_mailed db' 5 (nj_user j))"
proof -
  obtain js where js: "run_notification_summary Some (\<lambda>_. True) ex_cfg 0 ex_queue =
      Inr (delete_consumed (evaluated_ids ex_queue (load_active_recipients ex_queue (cf_active_days ex_cfg) 0) 0) 0
        (ex_queue\<lparr>summary_deliveries := summary_deliveries ex_queue @ map (\<lambda>j. (nj_user j, date_of 0, 0)) js\<rparr>), js,
        length (filter (\<lambda>_. True) js))"
    and d: "\<forall>r \<in> set (load_active_recipients ex_queue (cf_active_days ex_cfg) 0). due Some ex_queue 0 r \<longrightarrow>
      (\<exists>j \<in> set js. summary_job_ok Some ex_queue 0 r j)"
    using run_Inr [OF ex_queue_ok(1,2)] by metis
  have "js \<noteq> []" using d ex_due by auto
  moreover have "\<forall>j \<in> set js. already_mailed (delete_consumed (evaluated_ids ex_queue (load_active_recipients ex_queue (cf_active_days ex_cfg) 0) 0) 0
        (ex_queue\<lparr>summary_deliveries := summary_deliveries ex_queue @ map (\<lambda>j. (nj_user j, date_of 0, 0)) js\<rparr>)) 5 (nj_user j)"
    using notification_summary_once_a_day [OF ex_queue_ok(1,2) js] by (simp add: date_of_def days_of_def day_us_def)
  ultimately show ?thesis using js by blast
qed

end
