(* ===== verification/Presence.thy ===== *)
theory Presence
  imports Scopes Examples
begin

text \<open>
  Who is viewing a CVE or a risk acceptance: \<open>app/routers/presence.py\<close>. The module's dictionaries are one record of
  association lists, passed through the handlers; they are kept also when a handler answers with an error. Time is
  the monotonic clock in seconds. The parser of UUIDs is a parameter. A run is the list of the requests so far; it
  serves to say which earlier request an entry of the store stems from.
\<close>

section \<open>The store\<close>

datatype entity_type = EntCve | EntRiskAcceptance

definition heartbeat_ttl :: num where "heartbeat_ttl = 30"
definition access_cache_ttl :: num where "access_cache_ttl = 300"
definition max_buckets :: nat where "max_buckets = 5000"

record viewer =
  vw_username :: string
  vw_display_name :: string
  vw_last_seen :: num

type_synonym bucket = "(string \<times> viewer) list"

record presence =
  pz_viewers :: "(string \<times> bucket) list"
  pz_access :: "((string \<times> string) \<times> bool \<times> num) list"
  pz_last_sweep :: num

definition empty_presence :: presence where
  "empty_presence = \<lparr>pz_viewers = [], pz_access = [], pz_last_sweep = 0\<rparr>"

record heartbeat_request =
  hb_type :: entity_type
  hb_id :: string

record viewer_out =
  vo_user :: string
  vo_username :: string
  vo_display_name :: string

definition entity_key :: "entity_type \<Rightarrow> string \<Rightarrow> string" where
  "entity_key t i = (case t of EntCve \<Rightarrow> ''cve'' | EntRiskAcceptance \<Rightarrow> ''risk_acceptance'') @ '':'' @ i"

definition clean_stale :: "string \<Rightarrow> num \<Rightarrow> (string \<times> bucket) list \<Rightarrow> (string \<times> bucket) list" where
  "clean_stale key now viewers =
     (case map_of viewers key of None \<Rightarrow> viewers
      | Some bucket \<Rightarrow>
          if bucket = [] then viewers
          else let kept = filter (\<lambda>(_, v). \<not> heartbeat_ttl < now - vw_last_seen v) bucket in
            if kept = [] then AList.delete key viewers else AList.update key kept viewers)"

definition sweep_all :: "num \<Rightarrow> presence \<Rightarrow> presence" where
  "sweep_all now s =
     (if now - pz_last_sweep s < heartbeat_ttl then s
      else \<lparr>pz_viewers = fold (\<lambda>k. clean_stale k now) (map fst (pz_viewers s)) (pz_viewers s),
            pz_access = filter (\<lambda>(_, _, expires). \<not> expires \<le> now) (pz_access s), pz_last_sweep = now\<rparr>)"

section \<open>Access\<close>

definition check_access ::
    "(string \<Rightarrow> nat option) \<Rightarrow> entity_type \<Rightarrow> string \<Rightarrow> current_user \<Rightarrow> app_db \<Rightarrow> stackrox \<Rightarrow> bool result" where
  "check_access parse_uuid t i u db sx =
     (case t of
        EntRiskAcceptance \<Rightarrow>
          (case parse_uuid i of None \<Rightarrow> Inr False
           | Some rid \<Rightarrow> rbind (scalar_one_or_none (filter (\<lambda>r. ra_id r = rid) (ras db))) (\<lambda>ra.
               case ra of None \<Rightarrow> Inr False | Some r \<Rightarrow> user_can_access_ra u r))
      | EntCve \<Rightarrow>
          if can_see_all_namespaces u then Inr True
          else if \<not> has_namespaces u then Inr False
          else Inr (cve_visible_in_namespaces sx i (cu_namespaces u)))"

definition require_access ::
    "(string \<Rightarrow> nat option) \<Rightarrow> entity_type \<Rightarrow> string \<Rightarrow> current_user \<Rightarrow> app_db \<Rightarrow> stackrox \<Rightarrow> num \<Rightarrow> presence \<Rightarrow>
     presence \<times> string result" where
  "require_access parse_uuid t i u db sx now s =
     (let key = entity_key t i;
          answer = (\<lambda>allowed. if allowed then Inr key else Inl (ApiError 404 ''presence_entity_not_found''))
      in case map_of (pz_access s) (cu_id u, key) of
           Some (allowed, expires) \<Rightarrow>
             if now < expires then (s, answer allowed)
             else (case check_access parse_uuid t i u db sx of Inl e \<Rightarrow> (s, Inl e)
                   | Inr a \<Rightarrow> (s\<lparr>pz_access := AList.update (cu_id u, key) (a, now + access_cache_ttl) (pz_access s)\<rparr>, answer a))
         | None \<Rightarrow> (case check_access parse_uuid t i u db sx of Inl e \<Rightarrow> (s, Inl e)
             | Inr a \<Rightarrow> (s\<lparr>pz_access := AList.update (cu_id u, key) (a, now + access_cache_ttl) (pz_access s)\<rparr>, answer a)))"

section \<open>The handlers\<close>

definition heartbeat ::
    "(string \<Rightarrow> nat option) \<Rightarrow> heartbeat_request \<Rightarrow> current_user \<Rightarrow> app_db \<Rightarrow> stackrox \<Rightarrow> num \<Rightarrow> presence \<Rightarrow>
     presence \<times> bool result" where
  "heartbeat parse_uuid body u db sx now s0 =
     (case require_access parse_uuid (hb_type body) (hb_id body) u db sx now (sweep_all now s0) of
        (s, Inl e) \<Rightarrow> (s, Inl e)
      | (s, Inr key) \<Rightarrow>
          if map_of (pz_viewers s) key = None \<and> max_buckets \<le> length (pz_viewers s) then (s, Inr False)
          else let bucket = (case map_of (pz_viewers s) key of None \<Rightarrow> [] | Some b \<Rightarrow> b);
                   me = \<lparr>vw_username = cu_username u, vw_display_name = cu_display_name u, vw_last_seen = now\<rparr>
            in (s\<lparr>pz_viewers := clean_stale key now (AList.update key (AList.update (cu_id u) me bucket) (pz_viewers s))\<rparr>, Inr True))"

definition get_viewers ::
    "(string \<Rightarrow> nat option) \<Rightarrow> entity_type \<Rightarrow> string \<Rightarrow> current_user \<Rightarrow> app_db \<Rightarrow> stackrox \<Rightarrow> num \<Rightarrow> presence \<Rightarrow>
     presence \<times> viewer_out list result" where
  "get_viewers parse_uuid t i u db sx now s0 =
     (case require_access parse_uuid t i u db sx now s0 of
        (s, Inl e) \<Rightarrow> (s, Inl e)
      | (s, Inr key) \<Rightarrow>
          let viewers = clean_stale key now (pz_viewers s);
              bucket = (case map_of viewers key of None \<Rightarrow> [] | Some b \<Rightarrow> b)
          in (s\<lparr>pz_viewers := viewers\<rparr>,
              Inr (map (\<lambda>(uid, v). \<lparr>vo_user = uid, vo_username = vw_username v, vo_display_name = vw_display_name v\<rparr>)
                (filter (\<lambda>(uid, _). uid \<noteq> cu_id u) bucket))))"

section \<open>Runs\<close>

record presence_event =
  pe_beat :: bool               \<comment> \<open>a heartbeat, or a question for the viewers\<close>
  pe_type :: entity_type
  pe_id :: string
  pe_user :: current_user
  pe_db :: app_db
  pe_sx :: stackrox
  pe_time :: num

definition apply_event :: "(string \<Rightarrow> nat option) \<Rightarrow> presence_event \<Rightarrow> presence \<Rightarrow> presence" where
  "apply_event P e s =
     (if pe_beat e then fst (heartbeat P \<lparr>hb_type = pe_type e, hb_id = pe_id e\<rparr> (pe_user e) (pe_db e) (pe_sx e) (pe_time e) s)
      else fst (get_viewers P (pe_type e) (pe_id e) (pe_user e) (pe_db e) (pe_sx e) (pe_time e) s))"

inductive presence_run :: "(string \<Rightarrow> nat option) \<Rightarrow> presence_event list \<Rightarrow> presence \<Rightarrow> bool" for P where
  start: "presence_run P [] empty_presence"
| event: "presence_run P es s \<Longrightarrow> \<forall>f \<in> set es. pe_time f \<le> pe_time e \<Longrightarrow> presence_run P (e # es) (apply_event P e s)"

section \<open>Where the entries stem from\<close>

definition entries :: "(string \<times> bucket) list \<Rightarrow> (string \<times> string \<times> viewer) set" where
  "entries vs = {(k, uid, v). \<exists>b. (k, b) \<in> set vs \<and> (uid, v) \<in> set b}"

lemma entries_update: "entries (AList.update key b vs) \<subseteq> entries vs \<union> {key} \<times> set b"
  by (auto simp: entries_def dest!: in_update)

lemma entries_clean: "entries (clean_stale key now vs) \<subseteq> entries vs"
proof (cases "map_of vs key")
  case (Some b)
  let ?kept = "filter (\<lambda>(_, v). \<not> heartbeat_ttl < now - vw_last_seen v) b"
  have "{key} \<times> set ?kept \<subseteq> entries vs" using map_of_SomeD [OF Some] by (auto simp: entries_def)
  then have "entries (AList.update key ?kept vs) \<subseteq> entries vs" using entries_update [of key ?kept vs] by blast
  moreover have "entries (AList.delete key vs) \<subseteq> entries vs" by (auto simp: entries_def AList.delete_eq)
  ultimately show ?thesis by (simp add: clean_stale_def Some Let_def)
qed (simp add: clean_stale_def)

lemma distinct_clean: "distinct (map fst vs) \<Longrightarrow> distinct (map fst (clean_stale key now vs))"
  by (simp add: clean_stale_def Let_def AList.distinct_update AList.distinct_delete split: option.split)

lemma length_clean: "length (clean_stale key now vs) \<le> length vs"
proof (cases "map_of vs key")
  case (Some b)
  then have "key \<in> fst ` set vs" by (force dest: map_of_SomeD)
  then show ?thesis by (simp add: clean_stale_def Some Let_def length_update AList.delete_eq)
qed (simp add: clean_stale_def)

lemma clean_fresh:
  assumes "map_of (clean_stale key now vs) key = Some b" and "(uid, v) \<in> set b"
  shows "now - vw_last_seen v \<le> heartbeat_ttl"
  using assms
  by (auto simp: clean_stale_def Let_def AList.update_conv' AList.delete_conv' split: option.splits if_splits)

lemma sweep_viewers:
  "entries (pz_viewers (sweep_all now s)) \<subseteq> entries (pz_viewers s)"
  "distinct (map fst (pz_viewers s)) \<Longrightarrow> distinct (map fst (pz_viewers (sweep_all now s)))"
  "length (pz_viewers (sweep_all now s)) \<le> length (pz_viewers s)"
  "set (pz_access (sweep_all now s)) \<subseteq> set (pz_access s)"
proof -
  have "entries (fold (\<lambda>k. clean_stale k now) ks vs) \<subseteq> entries vs \<and>
      (distinct (map fst vs) \<longrightarrow> distinct (map fst (fold (\<lambda>k. clean_stale k now) ks vs))) \<and>
      length (fold (\<lambda>k. clean_stale k now) ks vs) \<le> length vs" for ks vs
  proof (induction ks arbitrary: vs)
    case (Cons k ks)
    from Cons.IH [of "clean_stale k now vs"] entries_clean [of k now vs] distinct_clean [of vs k now] length_clean [of k now vs]
    show ?case by auto
  qed simp
  then show "entries (pz_viewers (sweep_all now s)) \<subseteq> entries (pz_viewers s)"
    "distinct (map fst (pz_viewers s)) \<Longrightarrow> distinct (map fst (pz_viewers (sweep_all now s)))"
    "length (pz_viewers (sweep_all now s)) \<le> length (pz_viewers s)"
    "set (pz_access (sweep_all now s)) \<subseteq> set (pz_access s)"
    by (auto simp: sweep_all_def)
qed

text \<open>An access decision stems from a check of the same user for the same entity.\<close>

definition checked :: "(string \<Rightarrow> nat option) \<Rightarrow> presence_event \<Rightarrow> string \<Rightarrow> string \<Rightarrow> bool \<Rightarrow> bool" where
  "checked P e uid key a \<longleftrightarrow> cu_id (pe_user e) = uid \<and> entity_key (pe_type e) (pe_id e) = key \<and>
     check_access P (pe_type e) (pe_id e) (pe_user e) (pe_db e) (pe_sx e) = Inr a"

definition access_ok :: "(string \<Rightarrow> nat option) \<Rightarrow> presence_event list \<Rightarrow> presence \<Rightarrow> bool" where
  "access_ok P es s \<longleftrightarrow> (\<forall>uid key a x. ((uid, key), a, x) \<in> set (pz_access s) \<longrightarrow>
     (\<exists>e \<in> set es. checked P e uid key a \<and> x = pe_time e + access_cache_ttl))"

definition viewers_ok :: "presence_event list \<Rightarrow> presence \<Rightarrow> bool" where
  "viewers_ok es s \<longleftrightarrow> (\<forall>key uid v. (key, uid, v) \<in> entries (pz_viewers s) \<longrightarrow>
     (\<exists>e \<in> set es. pe_beat e \<and> entity_key (pe_type e) (pe_id e) = key \<and> cu_id (pe_user e) = uid \<and>
        vw_last_seen v = pe_time e \<and> vw_username v = cu_username (pe_user e) \<and> vw_display_name v = cu_display_name (pe_user e)))"

definition presence_ok :: "(string \<Rightarrow> nat option) \<Rightarrow> presence_event list \<Rightarrow> presence \<Rightarrow> bool" where
  "presence_ok P es s \<longleftrightarrow> distinct (map fst (pz_viewers s)) \<and> length (pz_viewers s) \<le> max_buckets \<and> access_ok P es s \<and> viewers_ok es s"

lemma require_access_ok:
  assumes "require_access P (pe_type e) (pe_id e) (pe_user e) (pe_db e) (pe_sx e) (pe_time e) s = (s', r)"
    and "access_ok P es s"
  shows "pz_viewers s' = pz_viewers s \<and> access_ok P (e # es) s' \<and>
    (\<forall>key. r = Inr key \<longrightarrow> key = entity_key (pe_type e) (pe_id e) \<and>
       (\<exists>c \<in> set (e # es). checked P c (cu_id (pe_user e)) key True \<and> pe_time e - pe_time c < access_cache_ttl))"
proof -
  let ?k = "(cu_id (pe_user e), entity_key (pe_type e) (pe_id e))"
  have old: "access_ok P (e # es) s" using assms(2) by (auto simp: access_ok_def)
  have upd: "access_ok P (e # es) (s\<lparr>pz_access := AList.update ?k (a, pe_time e + access_cache_ttl) (pz_access s)\<rparr>)"
    if "check_access P (pe_type e) (pe_id e) (pe_user e) (pe_db e) (pe_sx e) = Inr a" for a
    using old that by (auto simp: access_ok_def checked_def dest!: in_update)
  show ?thesis
  proof (cases "\<exists>a x. map_of (pz_access s) ?k = Some (a, x) \<and> pe_time e < x")
    case True
    then obtain a x where h: "map_of (pz_access s) ?k = Some (a, x)" "pe_time e < x" by blast
    with assms(1) have "s' = s" "r = (if a then Inr (snd ?k) else Inl (ApiError 404 ''presence_entity_not_found''))"
      by (auto simp: require_access_def Let_def)
    moreover obtain c where "c \<in> set es" "checked P c (fst ?k) (snd ?k) a" "x = pe_time c + access_cache_ttl"
      using map_of_SomeD [OF h(1)] assms(2) unfolding access_ok_def fst_conv snd_conv by blast
    ultimately show ?thesis using old h(2) by (auto split: if_splits)
  next
    case False
    then have q: "require_access P (pe_type e) (pe_id e) (pe_user e) (pe_db e) (pe_sx e) (pe_time e) s =
        (case check_access P (pe_type e) (pe_id e) (pe_user e) (pe_db e) (pe_sx e) of Inl x \<Rightarrow> (s, Inl x)
         | Inr a \<Rightarrow> (s\<lparr>pz_access := AList.update ?k (a, pe_time e + access_cache_ttl) (pz_access s)\<rparr>,
             if a then Inr (entity_key (pe_type e) (pe_id e)) else Inl (ApiError 404 ''presence_entity_not_found'')))"
      by (auto simp: require_access_def Let_def split: option.split)
    show ?thesis
    proof (cases "check_access P (pe_type e) (pe_id e) (pe_user e) (pe_db e) (pe_sx e)")
      case (Inl x)
      with q assms(1) old show ?thesis by auto
    next
      case (Inr a)
      with q assms(1) upd [OF Inr] show ?thesis
        by (auto simp: checked_def access_cache_ttl_def split: if_splits)
    qed
  qed
qed

lemma access_ok_mono: "access_ok P es s \<Longrightarrow> set (pz_access s') \<subseteq> set (pz_access s) \<Longrightarrow> access_ok P es s'"
  unfolding access_ok_def by blast

lemma viewers_ok_mono: "viewers_ok es s \<Longrightarrow> entries (pz_viewers s') \<subseteq> entries (pz_viewers s) \<Longrightarrow> viewers_ok (e # es) s'"
  unfolding viewers_ok_def by (auto dest!: subsetD)

lemma heartbeat_ok:
  assumes "presence_ok P es s0" and "pe_beat e"
  shows "presence_ok P (e # es) (apply_event P e s0)"
proof -
  let ?s0 = "sweep_all (pe_time e) s0"
  obtain s r where q: "require_access P (pe_type e) (pe_id e) (pe_user e) (pe_db e) (pe_sx e) (pe_time e) ?s0 = (s, r)"
    by (metis surj_pair)
  have acc: "access_ok P es ?s0"
    using assms(1) sweep_viewers(4) [of "pe_time e" s0] access_ok_mono unfolding presence_ok_def by blast
  note a = require_access_ok [OF q acc]
  have v: "viewers_ok (e # es) s"
    by (rule viewers_ok_mono [of es s0]) (use assms(1) a sweep_viewers(1) [of "pe_time e" s0] in \<open>simp_all add: presence_ok_def\<close>)
  have len: "length (pz_viewers s) \<le> max_buckets" and dist: "distinct (map fst (pz_viewers s))"
    using assms(1) a sweep_viewers(2) [of s0 "pe_time e"] sweep_viewers(3) [of "pe_time e" s0] by (auto simp: presence_ok_def)
  have old: "presence_ok P (e # es) s" using len dist a v by (simp add: presence_ok_def)
  show ?thesis
  proof (cases "\<exists>key. r = Inr key \<and> \<not> (map_of (pz_viewers s) key = None \<and> max_buckets \<le> length (pz_viewers s))")
    case False
    then have "apply_event P e s0 = s"
      using assms(2) q by (auto simp: apply_event_def heartbeat_def split: sum.split)
    then show ?thesis using old by simp
  next
    case True
    then obtain key where key: "r = Inr key" "\<not> (map_of (pz_viewers s) key = None \<and> max_buckets \<le> length (pz_viewers s))" by blast
    define b where "b = (case map_of (pz_viewers s) key of None \<Rightarrow> [] | Some b \<Rightarrow> b)"
    define me where "me = \<lparr>vw_username = cu_username (pe_user e), vw_display_name = cu_display_name (pe_user e), vw_last_seen = pe_time e\<rparr>"
    define vs where "vs = AList.update key (AList.update (cu_id (pe_user e)) me b) (pz_viewers s)"
    have app: "apply_event P e s0 = s\<lparr>pz_viewers := clean_stale key (pe_time e) vs\<rparr>"
      using assms(2) q key by (auto simp: apply_event_def heartbeat_def Let_def b_def me_def vs_def)
    have k: "key = entity_key (pe_type e) (pe_id e)" using a key by blast
    have b: "{key} \<times> set b \<subseteq> entries (pz_viewers s)"
      by (cases "map_of (pz_viewers s) key") (auto simp: b_def entries_def dest: map_of_SomeD)
    have ent: "entries vs \<subseteq> entries (pz_viewers s) \<union> {(key, cu_id (pe_user e), me)}"
    proof -
      have "{key} \<times> set (AList.update (cu_id (pe_user e)) me b) \<subseteq> entries (pz_viewers s) \<union> {(key, cu_id (pe_user e), me)}"
        using b by (auto dest!: in_update)
      with entries_update [of key "AList.update (cu_id (pe_user e)) me b" "pz_viewers s"] show ?thesis
        unfolding vs_def by blast
    qed
    have "viewers_ok (e # es) (s\<lparr>pz_viewers := clean_stale key (pe_time e) vs\<rparr>)"
      unfolding viewers_ok_def
    proof (intro allI impI)
      fix k' uid w assume "(k', uid, w) \<in> entries (pz_viewers (s\<lparr>pz_viewers := clean_stale key (pe_time e) vs\<rparr>))"
      then have "(k', uid, w) \<in> entries (pz_viewers s) \<or> (k' = key \<and> uid = cu_id (pe_user e) \<and> w = me)"
        using entries_clean [of key "pe_time e" vs] ent by auto
      then show "\<exists>f \<in> set (e # es). pe_beat f \<and> entity_key (pe_type f) (pe_id f) = k' \<and> cu_id (pe_user f) = uid \<and>
          vw_last_seen w = pe_time f \<and> vw_username w = cu_username (pe_user f) \<and> vw_display_name w = cu_display_name (pe_user f)"
      proof
        assume "(k', uid, w) \<in> entries (pz_viewers s)"
        then show ?thesis using v unfolding viewers_ok_def by blast
      next
        assume "k' = key \<and> uid = cu_id (pe_user e) \<and> w = me"
        then show ?thesis using assms(2) k by (simp add: me_def)
      qed
    qed
    moreover have "length vs \<le> max_buckets"
      using key(2) len by (auto simp: vs_def length_update map_of_eq_None_iff)
    then have "length (clean_stale key (pe_time e) vs) \<le> max_buckets" using length_clean order_trans by blast
    moreover have "distinct (map fst (clean_stale key (pe_time e) vs))"
      using dist by (simp add: vs_def distinct_clean AList.distinct_update)
    moreover have "access_ok P (e # es) (s\<lparr>pz_viewers := clean_stale key (pe_time e) vs\<rparr>)"
      using a by (simp add: access_ok_def)
    ultimately show ?thesis unfolding app presence_ok_def by simp
  qed
qed

lemma viewers_ok_step:
  assumes "presence_ok P es s0" and "\<not> pe_beat e"
  shows "presence_ok P (e # es) (apply_event P e s0)"
proof -
  obtain s r where q: "require_access P (pe_type e) (pe_id e) (pe_user e) (pe_db e) (pe_sx e) (pe_time e) s0 = (s, r)"
    by (metis surj_pair)
  have "access_ok P es s0" using assms(1) by (simp add: presence_ok_def)
  note a = require_access_ok [OF q this]
  have v: "viewers_ok (e # es) s" and s: "length (pz_viewers s) \<le> max_buckets" "distinct (map fst (pz_viewers s))"
    using assms(1) a by (auto simp: presence_ok_def intro: viewers_ok_mono)
  show ?thesis
  proof (cases r)
    case (Inl x)
    then have "apply_event P e s0 = s" using assms(2) q by (simp add: apply_event_def get_viewers_def)
    then show ?thesis using a v s by (simp add: presence_ok_def)
  next
    case (Inr key)
    then have app: "apply_event P e s0 = s\<lparr>pz_viewers := clean_stale key (pe_time e) (pz_viewers s)\<rparr>"
      using assms(2) q by (simp add: apply_event_def get_viewers_def Let_def)
    have "viewers_ok (e # es) (apply_event P e s0)"
      using v entries_clean [of key "pe_time e" "pz_viewers s"] unfolding app viewers_ok_def by simp blast
    moreover have "length (clean_stale key (pe_time e) (pz_viewers s)) \<le> max_buckets"
      using s(1) length_clean order_trans by blast
    moreover have "access_ok P (e # es) (apply_event P e s0)" using a unfolding app by (simp add: access_ok_def)
    ultimately show ?thesis using s(2) unfolding app presence_ok_def by (simp add: distinct_clean)
  qed
qed

lemma presence_run_ok: "presence_run P es s \<Longrightarrow> presence_ok P es s"
proof (induction rule: presence_run.induct)
  case start
  then show ?case by (simp add: presence_ok_def empty_presence_def access_ok_def viewers_ok_def entries_def)
next
  case (event es s e)
  then show ?case using heartbeat_ok viewers_ok_step by (cases "pe_beat e") blast+
qed

lemma entity_key_inj: "entity_key t i = entity_key t' i' \<longleftrightarrow> t = t' \<and> i = i'"
  by (cases t; cases t') (auto simp: entity_key_def)

section \<open>Properties\<close>

text \<open>C7: Presence reveals nothing to those who may not see the entity: whoever is answered with viewers passed the access
  check for this entity less than 300 seconds ago, and every viewer shown is another user who sent a heartbeat for
  this very entity in the last 30 seconds, under the name of that heartbeat.\<close>

theorem viewers_only_with_access:
  assumes "presence_run P es s"
    and "get_viewers P (pe_type e) (pe_id e) (pe_user e) (pe_db e) (pe_sx e) (pe_time e) s = (s', Inr vs)"
  shows "(\<exists>c \<in> set (e # es). pe_type c = pe_type e \<and> pe_id c = pe_id e \<and> cu_id (pe_user c) = cu_id (pe_user e) \<and>
       check_access P (pe_type c) (pe_id c) (pe_user c) (pe_db c) (pe_sx c) = Inr True \<and> pe_time e - pe_time c < 300) \<and>
    (\<forall>v \<in> set vs. vo_user v \<noteq> cu_id (pe_user e) \<and>
       (\<exists>b \<in> set es. pe_beat b \<and> pe_type b = pe_type e \<and> pe_id b = pe_id e \<and> cu_id (pe_user b) = vo_user v \<and>
          cu_username (pe_user b) = vo_username v \<and> cu_display_name (pe_user b) = vo_display_name v \<and> pe_time e - pe_time b \<le> 30))"
proof -
  obtain s1 r where q: "require_access P (pe_type e) (pe_id e) (pe_user e) (pe_db e) (pe_sx e) (pe_time e) s = (s1, r)"
    by (metis surj_pair)
  have ok: "presence_ok P es s" by (rule presence_run_ok [OF assms(1)])
  then have "access_ok P es s" by (simp add: presence_ok_def)
  note a = require_access_ok [OF q this]
  obtain key where key: "r = Inr key" using assms(2) q by (cases r) (simp_all add: get_viewers_def)
  have k: "key = entity_key (pe_type e) (pe_id e)" using a key by blast
  define vw where "vw = clean_stale key (pe_time e) (pz_viewers s)"
  have vs: "vs = map (\<lambda>(uid, v). \<lparr>vo_user = uid, vo_username = vw_username v, vo_display_name = vw_display_name v\<rparr>)
      (filter (\<lambda>(uid, _). uid \<noteq> cu_id (pe_user e)) (case map_of vw key of None \<Rightarrow> [] | Some b \<Rightarrow> b))"
    using assms(2) q key a by (simp add: get_viewers_def Let_def vw_def)
  have "\<exists>c \<in> set (e # es). checked P c (cu_id (pe_user e)) key True \<and> pe_time e - pe_time c < access_cache_ttl"
    using a key by blast
  then have 1: "\<exists>c \<in> set (e # es). pe_type c = pe_type e \<and> pe_id c = pe_id e \<and> cu_id (pe_user c) = cu_id (pe_user e) \<and>
       check_access P (pe_type c) (pe_id c) (pe_user c) (pe_db c) (pe_sx c) = Inr True \<and> pe_time e - pe_time c < 300"
    unfolding checked_def k entity_key_inj access_cache_ttl_def by blast
  have 2: "vo_user v \<noteq> cu_id (pe_user e) \<and>
       (\<exists>b \<in> set es. pe_beat b \<and> pe_type b = pe_type e \<and> pe_id b = pe_id e \<and> cu_id (pe_user b) = vo_user v \<and>
          cu_username (pe_user b) = vo_username v \<and> cu_display_name (pe_user b) = vo_display_name v \<and> pe_time e - pe_time b \<le> 30)"
    if "v \<in> set vs" for v
  proof -
    from that obtain b where m: "map_of vw key = Some b" unfolding vs by (cases "map_of vw key") simp_all
    from that obtain p where "p \<in> set b" "fst p \<noteq> cu_id (pe_user e)"
      "v = \<lparr>vo_user = fst p, vo_username = vw_username (snd p), vo_display_name = vw_display_name (snd p)\<rparr>"
      unfolding vs m by (auto simp: split_beta)
    with m obtain uid w where b: "map_of vw key = Some b" "(uid, w) \<in> set b" "uid \<noteq> cu_id (pe_user e)"
      "v = \<lparr>vo_user = uid, vo_username = vw_username w, vo_display_name = vw_display_name w\<rparr>"
      by (metis prod.collapse)
    have f: "pe_time e - vw_last_seen w \<le> 30" using clean_fresh [OF b(1)[unfolded vw_def] b(2)] by (simp add: heartbeat_ttl_def)
    have "(key, uid, w) \<in> entries vw" using b(1,2) by (auto simp: entries_def dest: map_of_SomeD)
    then have "(key, uid, w) \<in> entries (pz_viewers s)" unfolding vw_def using entries_clean by blast
    then obtain h where h: "h \<in> set es" "pe_beat h" "entity_key (pe_type h) (pe_id h) = key" "cu_id (pe_user h) = uid"
      "vw_last_seen w = pe_time h" "vw_username w = cu_username (pe_user h)" "vw_display_name w = cu_display_name (pe_user h)"
      using ok unfolding presence_ok_def viewers_ok_def by blast
    then show ?thesis using f b(3,4) by (auto simp: k entity_key_inj intro!: bexI [of _ h])
  qed
  from 1 2 show ?thesis by blast
qed

text \<open>The store of viewers stays bounded: at most 5000 entities, each listed once, whatever requests arrive.\<close>

theorem presence_bounded:
  assumes "presence_run P es s"
  shows "length (pz_viewers s) \<le> 5000 \<and> distinct (map fst (pz_viewers s))"
  using presence_run_ok [OF assms] by (simp add: presence_ok_def max_buckets_def)

section \<open>Witnesses\<close>

definition ex_beat :: presence_event where
  "ex_beat = \<lparr>pe_beat = True, pe_type = EntCve, pe_id = ''CVE-2024-1'', pe_user = ex_sec, pe_db = ex_db, pe_sx = ex_sx, pe_time = 100\<rparr>"

definition ex_ask :: presence_event where
  "ex_ask = ex_beat\<lparr>pe_beat := False, pe_user := ex_sec\<lparr>cu_id := ''s2''\<rparr>, pe_time := 110\<rparr>"

lemma ex_run: "presence_run P [ex_beat] (apply_event P ex_beat empty_presence)"
  by (rule presence_run.event [OF presence_run.start]) simp

lemma ex_answer:
  "\<exists>s'. get_viewers P (pe_type ex_ask) (pe_id ex_ask) (pe_user ex_ask) (pe_db ex_ask) (pe_sx ex_ask) (pe_time ex_ask)
     (apply_event P ex_beat empty_presence) = (s', Inr [\<lparr>vo_user = ''s1'', vo_username = ''sam'', vo_display_name = ''sam''\<rparr>])"
proof -
  have sec: "can_see_all_namespaces (ex_sec\<lparr>cu_id := ''s2''\<rparr>)" by (simp add: can_see_all_namespaces_def is_sec_team_def ex_sec_def)
  have n: "cu_id ex_sec = ''s1''" "cu_username ex_sec = ''sam''" "cu_display_name ex_sec = ''sam''"
    by (simp_all add: ex_sec_def cu_display_name_def display_name_of_def py_strip_def)
  show ?thesis
    by (simp add: apply_event_def ex_beat_def ex_ask_def heartbeat_def get_viewers_def require_access_def check_access_def sec n
        sweep_all_def empty_presence_def Let_def clean_stale_def heartbeat_ttl_def access_cache_ttl_def max_buckets_def entity_key_def)
qed

theorem viewers_only_with_access_witness:
  "\<exists>s' vs. get_viewers (\<lambda>_. None) (pe_type ex_ask) (pe_id ex_ask) (pe_user ex_ask) (pe_db ex_ask) (pe_sx ex_ask) (pe_time ex_ask)
     (apply_event (\<lambda>_. None) ex_beat empty_presence) = (s', Inr vs) \<and> length vs = 1 \<and>
     (\<forall>v \<in> set vs. vo_user v \<noteq> ''s2'' \<and> (\<exists>b \<in> set [ex_beat]. cu_id (pe_user b) = vo_user v))"
proof -
  obtain s' where s: "get_viewers (\<lambda>_. None) (pe_type ex_ask) (pe_id ex_ask) (pe_user ex_ask) (pe_db ex_ask) (pe_sx ex_ask) (pe_time ex_ask)
     (apply_event (\<lambda>_. None) ex_beat empty_presence) = (s', Inr [\<lparr>vo_user = ''s1'', vo_username = ''sam'', vo_display_name = ''sam''\<rparr>])"
    using ex_answer by blast
  have i: "cu_id (pe_user ex_ask) = ''s2''" by (simp add: ex_ask_def ex_beat_def)
  from viewers_only_with_access [OF ex_run s] s show ?thesis unfolding i by auto
qed

theorem presence_bounded_witness:
  "length (pz_viewers (apply_event (\<lambda>_. None) ex_beat empty_presence)) \<le> 5000"
  using presence_bounded [OF ex_run [of "\<lambda>_. None"]] by simp

end
