(* ===== verification/Priorities.thy ===== *)
theory Priorities
  imports Auth SuppressionRules CveView
begin

text \<open>
  Prioritised CVEs: \<open>app/routers/priorities.py\<close>. The unique index on the CVE is checked where the code flushes. The
  lemmas show what each handler changes and, with the CVE list, that a prioritised CVE is never below the floor of
  scores. The response objects are the rows.
\<close>

section \<open>The handlers\<close>

record priority_create =
  pc_cve :: string
  pc_level :: prio_level
  pc_reason :: string
  pc_deadline :: "datetime option"

record priority_update =
  pu_level :: "prio_level option"
  pu_reason :: "string option"
  pu_deadline :: "datetime option"

definition priority_create_ok :: "priority_create \<Rightarrow> bool" where
  "priority_create_ok b \<longleftrightarrow> cve_id_ok (pc_cve b) \<and> 5 \<le> length (pc_reason b) \<and> length (pc_reason b) \<le> 2000"

definition priority_update_ok :: "priority_update \<Rightarrow> bool" where
  "priority_update_ok b \<longleftrightarrow> opt_len_ok 5 2000 (pu_reason b)"

definition list_priorities :: "app_db \<Rightarrow> cve_priority list" where
  "list_priorities db = sort_key_rev pr_created_at (prios db)"

definition get_priority :: "nat \<Rightarrow> app_db \<Rightarrow> cve_priority result" where
  "get_priority i db =
     rbind (scalar_one_or_none (filter (\<lambda>p. pr_id p = i) (prios db))) (\<lambda>x.
       case x of None \<Rightarrow> Inl (ApiError 404 ''not_found'') | Some p \<Rightarrow> Inr p)"

definition log_priority :: "current_user \<Rightarrow> string \<Rightarrow> cve_priority \<Rightarrow> app_db \<Rightarrow> app_db" where
  "log_priority u action p db = log_action (cu_id u) action ''cve_priority'' (id_str (pr_id p)) [] db"

definition announce_priority :: "stackrox \<Rightarrow> current_user \<Rightarrow> string \<Rightarrow> string \<Rightarrow> (string \<times> string) list \<Rightarrow> app_db \<Rightarrow> app_db result" where
  "announce_priority sx u cve kind params =
     broadcast_subscription_event (Some sx) cve kind params None (Some (cu_id u)) [] None"

definition create_priority ::
    "stackrox \<Rightarrow> current_user \<Rightarrow> priority_create \<Rightarrow> app_db \<Rightarrow> (app_db \<times> cve_priority) result" where
  "create_priority sx u b db =
     rbind (require_sec_team u) (\<lambda>_.
     rbind (scalar_one_or_none (filter (\<lambda>p. pr_cve p = pc_cve b) (prios db))) (\<lambda>existing.
     if existing \<noteq> None then Inl (ApiError 409 ''already_prioritized'')
     else let (i, db1) = fresh_id db;
              p = \<lparr>pr_id = i, pr_cve = pc_cve b, pr_level = pc_level b, pr_reason = pc_reason b, pr_set_by = cu_id u,
                   pr_deadline = pc_deadline b, pr_created_at = db_now db, pr_updated_at = db_now db\<rparr>
       in rbind (notify_new_priority (pc_cve b) (prio_level_value (pc_level b)) (db1\<lparr>prios := prios db1 @ [p]\<rparr>)) (\<lambda>db2.
          rbind (announce_priority sx u (pc_cve b) ''priority_set'' [(''status'', prio_level_value (pc_level b))] db2) (\<lambda>db3.
          Inr (log_priority u ''priority_created'' p db3, p)))))"

definition put_priority :: "cve_priority \<Rightarrow> app_db \<Rightarrow> app_db" where
  "put_priority p db = db\<lparr>prios := map (\<lambda>x. if pr_id x = pr_id p then p else x) (prios db)\<rparr>"

definition updated_priority :: "priority_update \<Rightarrow> datetime \<Rightarrow> cve_priority \<Rightarrow> cve_priority" where
  "updated_priority b now p =
     p\<lparr>pr_level := (case pu_level b of None \<Rightarrow> pr_level p | Some l \<Rightarrow> l),
       pr_reason := (case pu_reason b of None \<Rightarrow> pr_reason p | Some r \<Rightarrow> r),
       pr_deadline := (case pu_deadline b of None \<Rightarrow> pr_deadline p | Some d \<Rightarrow> Some d), pr_updated_at := now\<rparr>"

definition update_priority ::
    "stackrox \<Rightarrow> current_user \<Rightarrow> nat \<Rightarrow> priority_update \<Rightarrow> app_db \<Rightarrow> (app_db \<times> cve_priority) result" where
  "update_priority sx u i b db =
     rbind (require_sec_team u) (\<lambda>_.
     rbind (get_priority i db) (\<lambda>p.
       let changed = (pu_level b \<noteq> None \<and> pu_level b \<noteq> Some (pr_level p));
           p' = updated_priority b (db_now db) p;
           db1 = put_priority p' db
       in rbind (if changed then announce_priority sx u (pr_cve p') ''priority_changed'' [(''status'', prio_level_value (pr_level p'))] db1
                 else Inr db1) (\<lambda>db2.
          Inr (log_priority u ''priority_updated'' p' db2, p'))))"

definition delete_priority :: "stackrox \<Rightarrow> current_user \<Rightarrow> nat \<Rightarrow> app_db \<Rightarrow> app_db result" where
  "delete_priority sx u i db =
     rbind (require_sec_team u) (\<lambda>_.
     rbind (get_priority i db) (\<lambda>p.
     rbind (announce_priority sx u (pr_cve p) ''priority_removed'' [] db) (\<lambda>db1.
       let db2 = log_priority u ''priority_deleted'' p db1 in
       Inr (db2\<lparr>prios := filter (\<lambda>x. pr_id x \<noteq> pr_id p) (prios db2)\<rparr>))))"

section \<open>What the handlers change\<close>

lemma log_priority_simps [simp]:
  "prios (log_priority u a p db) = prios db" "ras (log_priority u a p db) = ras db" "next_id (log_priority u a p db) = next_id db"
  by (simp_all add: log_priority_def)

lemma announce_priority_frame:
  "announce_priority sx u cve kind params db = Inr db' \<Longrightarrow> prios db' = prios db \<and> ras db' = ras db \<and> next_id db \<le> next_id db'"
  unfolding announce_priority_def
  by (intro conjI) (blast dest: broadcast.unchanged2(6), blast dest: broadcast.unchanged2(2), blast dest: broadcast.grows2)

lemma get_priority_Inr: "get_priority i db = Inr p \<Longrightarrow> p \<in> set (prios db) \<and> pr_id p = i"
proof -
  assume "get_priority i db = Inr p"
  then have "filter (\<lambda>p. pr_id p = i) (prios db) = [p]"
    by (auto simp: get_priority_def rbind_Inr_iff scalar_one_or_none_Some_iff split: option.splits)
  then have "p \<in> set (filter (\<lambda>p. pr_id p = i) (prios db))" by simp
  then show ?thesis by simp
qed

lemma create_priority_Inr:
  assumes "create_priority sx u b db = Inr (db', p)"
  shows "is_sec_team u \<and> prios db' = prios db @ [p] \<and> pr_id p = next_id db \<and> next_id db < next_id db' \<and>
    pr_cve p = pc_cve b \<and> pr_set_by p = cu_id u \<and> ras db' = ras db \<and> pc_cve b \<notin> pr_cve ` set (prios db)"
proof -
  from assms have g: "is_sec_team u" "filter (\<lambda>p. pr_cve p = pc_cve b) (prios db) = []"
    by (auto simp: create_priority_def require_sec_team_def rbind_Inr_iff split: if_splits)
  define q where "q = \<lparr>pr_id = next_id db, pr_cve = pc_cve b, pr_level = pc_level b, pr_reason = pc_reason b, pr_set_by = cu_id u,
      pr_deadline = pc_deadline b, pr_created_at = db_now db, pr_updated_at = db_now db\<rparr>"
  from assms obtain d2 d3 where n: "notify_new_priority (pc_cve b) (prio_level_value (pc_level b))
        (db\<lparr>next_id := Suc (next_id db), prios := prios db @ [q]\<rparr>) = Inr d2"
    and a: "announce_priority sx u (pc_cve b) ''priority_set'' [(''status'', prio_level_value (pc_level b))] d2 = Inr d3"
    and r: "db' = log_priority u ''priority_created'' q d3" "p = q"
    by (auto simp: create_priority_def require_sec_team_def g rbind_Inr_iff Let_def fresh_id_def q_def split: if_splits)
  have "pc_cve b \<notin> pr_cve ` set (prios db)" using g(2) by (auto simp: filter_empty_conv)
  then show ?thesis
    using g(1) new_priority.unchanged(2,6) [OF n] new_priority.grows [OF n] announce_priority_frame [OF a] by (simp add: r q_def)
qed

lemma update_priority_Inr:
  assumes "update_priority sx u i b db = Inr (db', p)"
  shows "is_sec_team u \<and> (\<exists>p0 \<in> set (prios db). pr_id p = pr_id p0 \<and> pr_cve p = pr_cve p0 \<and> pr_set_by p = pr_set_by p0 \<and>
    prios db' = prios (put_priority p db) \<and> next_id db \<le> next_id db')"
proof -
  from assms obtain p0 d2 where p0: "is_sec_team u" "get_priority i db = Inr p0" "p = updated_priority b (db_now db) p0"
    "(if pu_level b \<noteq> None \<and> pu_level b \<noteq> Some (pr_level p0)
      then announce_priority sx u (pr_cve p) ''priority_changed'' [(''status'', prio_level_value (pr_level p))] (put_priority p db)
      else Inr (put_priority p db)) = Inr d2"
    and r: "db' = log_priority u ''priority_updated'' p d2"
    unfolding update_priority_def require_sec_team_def by (cases "is_sec_team u") (auto simp: rbind_Inr_iff Let_def split del: if_split)
  have "prios d2 = prios (put_priority p db) \<and> next_id db \<le> next_id d2"
    using p0(4) by (auto simp: put_priority_def dest!: announce_priority_frame split: if_splits)
  then show ?thesis
    using get_priority_Inr [OF p0(2)] p0(1,3) r by (intro conjI bexI [of _ p0]) (auto simp: updated_priority_def)
qed

lemma delete_priority_Inr:
  assumes "delete_priority sx u i db = Inr db'"
  shows "is_sec_team u \<and> next_id db \<le> next_id db' \<and> (\<exists>p \<in> set (prios db). pr_id p = i \<and> prios db' = filter (\<lambda>x. pr_id x \<noteq> i) (prios db))"
  using assms unfolding delete_priority_def require_sec_team_def rbind_Inr_iff Let_def
  by (auto dest!: get_priority_Inr announce_priority_frame split: if_splits)

section \<open>Steps and reachable databases\<close>

inductive priority_step :: "current_user \<Rightarrow> app_db \<Rightarrow> app_db \<Rightarrow> bool" for u where
  create: "create_priority sx u b db = Inr (db', p) \<Longrightarrow> priority_step u db db'"
| update: "update_priority sx u i b db = Inr (db', p) \<Longrightarrow> priority_step u db db'"
| delete: "delete_priority sx u i db = Inr db' \<Longrightarrow> priority_step u db db'"

text \<open>\<open>sec\<close> holds the ids of the users who act as security team at some time.\<close>

inductive priority_reachable :: "(string \<Rightarrow> bool) \<Rightarrow> app_db \<Rightarrow> bool" for sec where
  start: "prios db = [] \<Longrightarrow> priority_reachable sec db"
| step: "priority_reachable sec db \<Longrightarrow> priority_step u db db' \<Longrightarrow> (is_sec_team u \<longrightarrow> sec (cu_id u)) \<Longrightarrow> priority_reachable sec db'"
| elsewhere: "priority_reachable sec db \<Longrightarrow> prios db' = prios db \<Longrightarrow> next_id db \<le> next_id db' \<Longrightarrow> priority_reachable sec db'"

definition prios_ok :: "(string \<Rightarrow> bool) \<Rightarrow> app_db \<Rightarrow> bool" where
  "prios_ok sec db \<longleftrightarrow> table_ok pr_id (\<lambda>_. True) pr_cve (\<lambda>p. sec (pr_set_by p)) (next_id db) (prios db)"

lemma priority_step_ok:
  "priority_step u db db' \<Longrightarrow> (is_sec_team u \<longrightarrow> sec (cu_id u)) \<Longrightarrow> prios_ok sec db \<Longrightarrow> prios_ok sec db'"
proof (induction rule: priority_step.induct)
  case (create sx b db db' p)
  note c = create_priority_Inr [OF create(1)]
  have "pr_cve x \<noteq> pr_cve p" if "x \<in> set (prios db)" for x using c that by (metis image_eqI)
  then show ?case
    unfolding prios_ok_def c [THEN conjunct2, THEN conjunct1]
    by (intro table_ok_insert [OF create(3) [unfolded prios_ok_def]]) (use c create(2) in auto)
next
  case (update sx i b db db' p)
  from update_priority_Inr [OF update(1)] obtain p0 where p0: "p0 \<in> set (prios db)" "pr_id p = pr_id p0" "pr_cve p = pr_cve p0"
    "pr_set_by p = pr_set_by p0" "prios db' = prios (put_priority p db)" "next_id db \<le> next_id db'" by blast
  note ok = update(3) [unfolded prios_ok_def]
  show ?case
    unfolding prios_ok_def p0(5)
    by (simp add: put_priority_def, rule table_ok_replace [OF ok p0(6,1,2)])
      (use table_okD(2,4) [OF ok] p0 in auto)
next
  case (delete sx i db db')
  from delete_priority_Inr [OF delete(1)] delete(3) show ?case
    by (auto simp: prios_ok_def intro!: table_ok_filter intro: table_ok_mono)
qed

lemma reachable_prios_ok: "priority_reachable sec db \<Longrightarrow> prios_ok sec db"
proof (induction rule: priority_reachable.induct)
  case (step db u db')
  then show ?case by (blast intro: priority_step_ok)
next
  case (elsewhere db db')
  then show ?case by (auto simp: prios_ok_def intro: table_ok_mono)
qed (simp add: prios_ok_def)

section \<open>Properties\<close>

text \<open>In every reachable database a CVE has at most one priority, it was set by a member of the security team, and
  ids are unique.\<close>

theorem priorities_invariant:
  assumes "priority_reachable sec db"
  shows "distinct (map pr_id (prios db)) \<and> distinct (map pr_cve (prios db)) \<and> (\<forall>p \<in> set (prios db). sec (pr_set_by p))"
proof -
  note ok = reachable_prios_ok [OF assms, unfolded prios_ok_def]
  have "distinct (prios db)" using table_okD(1) [OF ok] by (simp add: distinct_map)
  then have "distinct (map pr_cve (prios db))"
    using table_okD(4) [OF ok] by (auto simp: distinct_map intro!: inj_onI)
  with table_okD(1,2) [OF ok] show ?thesis by blast
qed

lemma cves_of_always:
  assumes "w \<in> set vs" "vr_cve w \<in> always"
  shows "vr_cve w \<in> cd_cve ` set (cves_of P mc me always vs)"
proof -
  have "(vr_cve w, filter (\<lambda>x. vr_cve x = vr_cve w) vs) \<in> set (group_by vr_cve vs)" using assms(1) by (auto simp: in_group_by)
  moreover have "cd_cve (cve_data_of P g) = fst g" for g by (simp add: cve_data_of_def Let_def)
  ultimately show ?thesis using assms(2) by (force simp: cves_of_def passes_def)
qed

lemma view_cves_always:
  assumes "view_cves P v db sx q = Some (nss, cves)" and "w \<in> set (joined sx)" "vr_cve w \<in> always_show db" "vr_pair w \<in> view_pairs v sx q"
  shows "vr_cve w \<in> cd_cve ` set cves"
proof -
  have get: "vr_cve w \<in> cd_cve ` set (get_cves_for_namespaces P sx ns mc me (always_show db))" if "vr_pair w \<in> set ns" for ns mc me
    using cves_of_always [of w "namespace_filter ns (joined sx)"] assms(2,3) that
    by (auto simp: get_cves_for_namespaces_def namespace_filter_def)
  have all: "vr_cve w \<in> cd_cve ` set (get_all_cves P sx mc me (always_show db))" for mc me
    using cves_of_always [OF assms(2,3)] by (simp add: get_all_cves_def)
  show ?thesis
    using assms(1,4) get all joined_pair_known [OF assms(2)]
    by (auto simp: view_cves_def Let_def view_pairs_def visible_pairs_def set_narrow_namespaces
        split: prod.splits option.splits if_splits)
qed

text \<open>C27: Setting a priority makes the CVE visible to everybody who has it: afterwards it is in the view of every user in
  whose namespaces, within the request, it is deployed, however low its scores are; no other CVE gains or loses its
  exemption from the floor of scores.\<close>

theorem priority_lifts_floor:
  assumes "create_priority sx u b db = Inr (db', p)"
    and "w \<in> set (joined sx)" "vr_cve w = pc_cve b" "vr_pair w \<in> view_pairs v sx q"
    and "view_cves P v db' sx q = Some (nss, cves)"
  shows "pc_cve b \<in> cd_cve ` set cves \<and> always_show db' = insert (pc_cve b) (always_show db)"
proof -
  note c = create_priority_Inr [OF assms(1)]
  have a: "always_show db' = insert (pc_cve b) (always_show db)" using c by (auto simp: always_show_def)
  then have "vr_cve w \<in> always_show db'" using assms(3) by simp
  from view_cves_always [OF assms(5,2) this assms(4)] a show ?thesis using assms(3) by simp
qed

section \<open>Witnesses\<close>

definition ex_priority :: priority_create where
  "ex_priority = \<lparr>pc_cve = ''CVE-2024-1'', pc_level = PrioHigh, pc_reason = ''urgent'', pc_deadline = None\<rparr>"

lemma announce_priority_total:
  "kind \<in> {''priority_set'', ''priority_changed'', ''priority_removed''} \<Longrightarrow> \<exists>db'. announce_priority sx u cve kind params db = Inr db'"
  unfolding announce_priority_def by (rule broadcast_total) (auto simp: message_keys_def)

lemma create_priority_total:
  assumes "is_sec_team u" and "pc_cve b \<notin> pr_cve ` set (prios db)"
  shows "\<exists>db' p. create_priority sx u b db = Inr (db', p)"
proof -
  have f: "filter (\<lambda>p. pr_cve p = pc_cve b) (prios db) = []" using assms(2) by (force simp: filter_empty_conv)
  define q where "q = \<lparr>pr_id = next_id db, pr_cve = pc_cve b, pr_level = pc_level b, pr_reason = pc_reason b, pr_set_by = cu_id u,
      pr_deadline = pc_deadline b, pr_created_at = db_now db, pr_updated_at = db_now db\<rparr>"
  obtain d2 where n: "notify_new_priority (pc_cve b) (prio_level_value (pc_level b))
      (db\<lparr>next_id := Suc (next_id db), prios := prios db @ [q]\<rparr>) = Inr d2" using notify_total(4) by blast
  obtain d3 where "announce_priority sx u (pc_cve b) ''priority_set'' [(''status'', prio_level_value (pc_level b))] d2 = Inr d3"
    using announce_priority_total [of "''priority_set''"] by blast
  with n show ?thesis
    by (simp add: create_priority_def require_sec_team_def assms(1) f Let_def fresh_id_def q_def [symmetric])
qed

lemma ex_priority_created: "\<exists>db' p. create_priority ex_sx ex_sec ex_priority ex_db = Inr (db', p)"
  by (rule create_priority_total) simp_all

theorem priorities_invariant_witness:
  "\<exists>db'. priority_reachable (\<lambda>i. i = ''s1'') db' \<and> prios db' \<noteq> [] \<and> distinct (map pr_cve (prios db'))"
proof -
  obtain db' p where c: "create_priority ex_sx ex_sec ex_priority ex_db = Inr (db', p)" using ex_priority_created by blast
  have r: "priority_reachable (\<lambda>i. i = ''s1'') db'"
    by (rule priority_reachable.step [OF priority_reachable.start priority_step.create [OF c]]) (simp_all add: ex_sec_def)
  from priorities_invariant [OF r] show ?thesis using create_priority_Inr [OF c] r by auto
qed

theorem priority_lifts_floor_witness:
  "\<exists>db' p nss cves. create_priority ex_sx ex_sec ex_priority ex_db = Inr (db', p) \<and>
     view_cves ex_P ex_member db' ex_sx ex_query = Some (nss, cves) \<and> ''CVE-2024-1'' \<in> cd_cve ` set cves"
proof -
  obtain db' p where c: "create_priority ex_sx ex_sec ex_priority ex_db = Inr (db', p)" using ex_priority_created by blast
  have w: "ex_row \<in> set (joined ex_sx)" "vr_cve ex_row = pc_cve ex_priority" by (simp_all add: joined_ex ex_priority_def)
  have v: "vr_pair ex_row \<in> view_pairs ex_member ex_sx ex_query"
    by (simp add: view_pairs_def visible_pairs_def ex_query_def)
  obtain nss cves where q: "view_cves ex_P ex_member db' ex_sx ex_query = Some (nss, cves)"
    by (cases "resolve_view_thresholds ex_member (gsettings db') False") (simp add: view_cves_def ex_query_def Let_def)
  from priority_lifts_floor [OF c w v q] c q show ?thesis by (auto simp: ex_priority_def)
qed

end
