(* ===== verification/EffectiveScores.thy ===== *)
theory EffectiveScores
  imports StackRox Examples
begin

text \<open>
  Scope-independent scores: \<open>app/stackrox/effective_scores.py\<close>. The query over the freshest scans is a function on
  the tables; its outcome (\<open>None\<close> when it fails) and the monotonic clock in seconds are arguments of the loads. A
  load is one step, as it runs under one lock. The four parallel arrays are bound into the queries as
  \<open>sx_scores\<close> of StackRox. The lemmas show that every query sees one score per CVE, the greatest of the freshest
  ratings, and what a failed load does.
\<close>

section \<open>The query\<close>

text \<open>A row: the finding, the name of its component, the time of the last scan of its image.\<close>

type_synonym scored_row = "image_cve \<times> string option \<times> datetime option"

definition scored_rows :: "stackrox \<Rightarrow> scored_row list" where
  "scored_rows sx =
     [(ic, cp_name c, scan). ic \<leftarrow> sx_image_cves sx, ic_origin ic \<noteq> None,
        (iv, n, scan) \<leftarrow> sx_images_v2 sx, ic_imageidv2 ic = Some iv,
        c \<leftarrow> sx_components sx, ic_component ic = Some (cp_id c)]"

definition partition_of :: "scored_row \<Rightarrow> string \<times> int option \<times> string option" where
  "partition_of r = (ic_cve (fst r), ic_origin (fst r), fst (snd r))"

text \<open>\<open>ORDER BY scan_scantime DESC NULLS LAST\<close>: strictly before.\<close>

fun scanned_after :: "datetime option \<Rightarrow> datetime option \<Rightarrow> bool" where
  "scanned_after None s = False"
| "scanned_after (Some t) None = True"
| "scanned_after (Some t) (Some s) = (s < t)"

text \<open>\<open>rank() = 1\<close>: no row of the partition comes strictly before.\<close>

definition freshest :: "scored_row list \<Rightarrow> scored_row list" where
  "freshest rs =
     filter (\<lambda>r. \<not> list_ex (\<lambda>r'. partition_of r' = partition_of r \<and>
       scanned_after (snd (snd r')) (snd (snd r))) rs) rs"

record feed_row =
  ef_cve :: string
  ef_origin :: int
  ef_severity :: "int option"
  ef_cvss :: "num option"
  ef_epss :: "num option"

definition feed_scores_sql :: "stackrox \<Rightarrow> feed_row list" where
  "feed_scores_sql sx =
     map (\<lambda>((cve, origin), rs).
       \<lparr>ef_cve = cve, ef_origin = coalesce 0 origin,
        ef_severity = Some (coalesce 0 (sql_max (map (\<lambda>r. Some (ic_severity (fst r))) rs))),
        ef_cvss = Some (coalesce 0 (sql_max (map (ic_cvss \<circ> fst) rs))),
        ef_epss = Some (coalesce 0 (sql_max (map (ic_epss \<circ> fst) rs)))\<rparr>)
     (group_by (\<lambda>r. (ic_cve (fst r), ic_origin (fst r))) (freshest (scored_rows sx)))"

section \<open>The snapshot\<close>

record score =
  score_severity :: int
  score_cvss :: num
  score_epss :: num

record score_params =
  es_cve_ids :: "string list"
  es_severity :: "int list"
  es_cvss :: "num list"
  es_epss :: "num list"

record effective_scores =
  es_feeds :: "((string \<times> int) \<times> score) list"
  es_params :: score_params
  es_loaded_at :: num

definition empty_params :: score_params where
  "empty_params = \<lparr>es_cve_ids = [], es_severity = [], es_cvss = [], es_epss = []\<rparr>"

definition score_of :: "feed_row \<Rightarrow> score" where
  "score_of r = \<lparr>score_severity = coalesce 0 (ef_severity r), score_cvss = coalesce 0 (ef_cvss r),
     score_epss = coalesce 0 (ef_epss r)\<rparr>"

definition max_score :: "score \<Rightarrow> score \<Rightarrow> score" where
  "max_score a b = \<lparr>score_severity = max (score_severity a) (score_severity b),
     score_cvss = max (score_cvss a) (score_cvss b), score_epss = max (score_epss a) (score_epss b)\<rparr>"

definition add_feed_row ::
    "feed_row \<Rightarrow> ((string \<times> int) \<times> score) list \<times> (string \<times> score) list \<Rightarrow>
     ((string \<times> int) \<times> score) list \<times> (string \<times> score) list" where
  "add_feed_row r = (\<lambda>(feeds, cves).
     (AList.update (ef_cve r, ef_origin r) (score_of r) feeds,
      case map_of cves (ef_cve r) of
        None \<Rightarrow> AList.update (ef_cve r) (score_of r) cves
      | Some current \<Rightarrow> AList.update (ef_cve r) (max_score current (score_of r)) cves))"

definition build_effective_scores :: "feed_row list \<Rightarrow> num \<Rightarrow> effective_scores" where
  "build_effective_scores rows loaded_at =
     (let (feeds, cves) = fold add_feed_row rows ([], [])
      in \<lparr>es_feeds = feeds,
          es_params = \<lparr>es_cve_ids = map fst cves, es_severity = map (score_severity \<circ> snd) cves,
            es_cvss = map (score_cvss \<circ> snd) cves, es_epss = map (score_epss \<circ> snd) cves\<rparr>,
          es_loaded_at = loaded_at\<rparr>)"

text \<open>\<open>unnest\<close> of the four arrays, and the tables that a query with these parameters reads.\<close>

definition unnest :: "score_params \<Rightarrow> (string \<times> int \<times> num \<times> num) list" where
  "unnest p = zip (es_cve_ids p) (zip (es_severity p) (zip (es_cvss p) (es_epss p)))"

definition bind_scores :: "score_params \<Rightarrow> stackrox \<Rightarrow> stackrox" where
  "bind_scores p sx = sx\<lparr>sx_scores := unnest p\<rparr>"

section \<open>Process state\<close>

definition refresh_interval_seconds :: num where "refresh_interval_seconds = 300"
definition load_retry_seconds :: num where "load_retry_seconds = 60"

record score_state =
  ss_snapshot :: "effective_scores option"
  ss_failed_at :: "num option"

definition reset_effective_scores :: score_state where
  "reset_effective_scores = \<lparr>ss_snapshot = None, ss_failed_at = None\<rparr>"

definition set_effective_scores :: "feed_row list \<Rightarrow> num \<Rightarrow> effective_scores \<times> score_state" where
  "set_effective_scores rows now =
     (let s = build_effective_scores rows now in (s, \<lparr>ss_snapshot = Some s, ss_failed_at = None\<rparr>))"

text \<open>\<open>refresh_effective_scores\<close>: \<open>None\<close> when the query raises, which leaves the state as it was.\<close>

definition refresh_effective_scores :: "stackrox option \<Rightarrow> num \<Rightarrow> (effective_scores \<times> score_state) option" where
  "refresh_effective_scores sx now =
     (case sx of None \<Rightarrow> None | Some t \<Rightarrow> Some (set_effective_scores (feed_scores_sql t) now))"

definition load_scores_on_demand ::
    "stackrox option \<Rightarrow> num \<Rightarrow> score_state \<Rightarrow> effective_scores option \<times> score_state" where
  "load_scores_on_demand sx now st =
     (if ss_snapshot st \<noteq> None then (ss_snapshot st, st)
      else if (case ss_failed_at st of None \<Rightarrow> False | Some t \<Rightarrow> now - t < load_retry_seconds) then (None, st)
      else case refresh_effective_scores sx now of
        None \<Rightarrow> (None, st\<lparr>ss_failed_at := Some now\<rparr>)
      | Some (s, st') \<Rightarrow> (Some s, st'))"

definition effective_score_params :: "stackrox option \<Rightarrow> num \<Rightarrow> score_state \<Rightarrow> score_params \<times> score_state" where
  "effective_score_params sx now st =
     (let (snapshot, st') = (if ss_snapshot st = None then load_scores_on_demand sx now st else (ss_snapshot st, st))
      in (case snapshot of None \<Rightarrow> empty_params | Some s \<Rightarrow> es_params s, st'))"

definition feed_score :: "score_state \<Rightarrow> string \<Rightarrow> int option \<Rightarrow> score option" where
  "feed_score st cve origin =
     (case (ss_snapshot st, origin) of
        (Some s, Some k) \<Rightarrow> map_of (es_feeds s) (cve, k)
      | _ \<Rightarrow> None)"

text \<open>One round of the refresh loop: the new state and the delay before the next round.\<close>

definition score_refresh_round :: "stackrox option \<Rightarrow> num \<Rightarrow> score_state \<Rightarrow> score_state \<times> num" where
  "score_refresh_round sx now st =
     (case refresh_effective_scores sx now of
        None \<Rightarrow> (st, refresh_interval_seconds)
      | Some (s, st') \<Rightarrow> (st', refresh_interval_seconds))"

section \<open>What the snapshot holds\<close>

abbreviation cve_dict :: "feed_row list \<Rightarrow> (string \<times> score) list" where
  "cve_dict rows \<equiv> snd (fold add_feed_row rows ([], []))"

lemma snd_add_feed_row:
  "snd (add_feed_row r d) = AList.update (ef_cve r)
     (case map_of (snd d) (ef_cve r) of None \<Rightarrow> score_of r | Some s \<Rightarrow> max_score s (score_of r)) (snd d)"
  by (cases d) (simp add: add_feed_row_def split: option.split)

lemma distinct_cve_dict: "distinct (map fst (cve_dict rows))"
  by (induction rows rule: rev_induct) (simp_all add: snd_add_feed_row distinct_update)

lemma cve_dict_snoc:
  "map_of (cve_dict (rows @ [r])) = (map_of (cve_dict rows))(ef_cve r \<mapsto>
     (case map_of (cve_dict rows) (ef_cve r) of None \<Rightarrow> score_of r | Some s \<Rightarrow> max_score s (score_of r)))"
  by (simp add: snd_add_feed_row update_conv')

lemma cve_dict_None_iff: "map_of (cve_dict rows) c = None \<longleftrightarrow> c \<notin> ef_cve ` set rows"
proof (induction rows rule: rev_induct)
  case (snoc r rows)
  then show ?case unfolding cve_dict_snoc by (cases "c = ef_cve r") auto
qed simp

text \<open>Each component of a score is the greatest of the rows of the CVE.\<close>

lemma cve_dict_max:
  assumes f: "\<And>a b. f (max_score a b) = max (f a) (f b :: 'a::linorder)"
    and "map_of (cve_dict rows) c = Some s"
  shows "(\<forall>r \<in> set rows. ef_cve r = c \<longrightarrow> f (score_of r) \<le> f s) \<and>
    (\<exists>r \<in> set rows. ef_cve r = c \<and> f (score_of r) = f s)"
  using assms(2)
proof (induction rows arbitrary: s rule: rev_induct)
  case (snoc r rows)
  show ?case
  proof (cases "ef_cve r = c")
    case False
    then have "map_of (cve_dict rows) c = Some s" using snoc.prems unfolding cve_dict_snoc by simp
    from snoc.IH [OF this] False show ?thesis by auto
  next
    case c: True
    show ?thesis
    proof (cases "map_of (cve_dict rows) c")
      case None
      then have "s = score_of r" using snoc.prems c unfolding cve_dict_snoc by simp
      moreover have "ef_cve x \<noteq> c" if "x \<in> set rows" for x
        using None that unfolding cve_dict_None_iff by (metis image_eqI)
      ultimately show ?thesis using c by auto
    next
      case (Some s0)
      then have s: "f s = max (f s0) (f (score_of r))" using snoc.prems c f unfolding cve_dict_snoc by auto
      from snoc.IH [OF Some] have le: "\<And>x. x \<in> set rows \<Longrightarrow> ef_cve x = c \<Longrightarrow> f (score_of x) \<le> f s0"
        and "\<exists>x \<in> set rows. ef_cve x = c \<and> f (score_of x) = f s0" by auto
      then obtain x where x: "x \<in> set rows" "ef_cve x = c" "f (score_of x) = f s0" by blast
      have "\<exists>y \<in> set (rows @ [r]). ef_cve y = c \<and> f (score_of y) = f s"
      proof (cases "f s0 \<le> f (score_of r)")
        case True
        then show ?thesis using c s by (intro bexI [of _ r]) (auto simp: max_def)
      next
        case False
        then show ?thesis using x s by (intro bexI [of _ x]) (auto simp: max_def)
      qed
      moreover have "f (score_of y) \<le> f s" if "y \<in> set (rows @ [r])" "ef_cve y = c" for y
        using that le [of y] s by (auto simp: le_max_iff_disj)
      ultimately show ?thesis by blast
    qed
  qed
qed simp

lemma unnest_build: "unnest (es_params (build_effective_scores rows t)) =
    map (\<lambda>(c, s). (c, score_severity s, score_cvss s, score_epss s)) (cve_dict rows)"
proof -
  have z: "zip (map fst ys) (zip (map (score_severity \<circ> snd) ys)
      (zip (map (score_cvss \<circ> snd) ys) (map (score_epss \<circ> snd) ys))) =
    map (\<lambda>(c, s). (c, score_severity s, score_cvss s, score_epss s)) ys" for ys :: "(string \<times> score) list"
    by (induction ys) auto
  show ?thesis by (simp add: unnest_def build_effective_scores_def z split: prod.split)
qed

lemma effective_score_build:
  "effective_score (bind_scores (es_params (build_effective_scores rows t)) sx) c =
     map_option (\<lambda>s. (score_severity s, score_cvss s, score_epss s)) (map_of (cve_dict rows) c)"
proof -
  let ?g = "\<lambda>(c, s). (c, score_severity s, score_cvss s, score_epss s)"
  have key: "filter (\<lambda>e. fst e = c) (map ?g ys) =
      (case map_of ys c of None \<Rightarrow> [] | Some s \<Rightarrow> [(c, score_severity s, score_cvss s, score_epss s)])"
    if "distinct (map fst ys)" for ys :: "(string \<times> score) list"
    using that
  proof (induction ys)
    case (Cons y ys)
    have "fst y \<notin> set (map fst ys)" using Cons.prems by simp
    then have "filter (\<lambda>e. fst e = c) (map ?g ys) = []" if "fst y = c"
      using that by (induction ys) auto
    with Cons show ?case by (cases y) (auto split: option.splits)
  qed simp
  show ?thesis
    unfolding effective_score_def bind_scores_def
    using key [OF distinct_cve_dict] by (simp add: unnest_build split: option.split)
qed

text \<open>A query that binds no scores reads the raw ones.\<close>

lemma effective_score_empty: "effective_score (bind_scores empty_params sx) c = None"
  by (simp add: effective_score_def bind_scores_def unnest_def empty_params_def)

section \<open>The rows of the query\<close>

lemma max_of_row: "r \<in> set rs \<Longrightarrow> f r = Some v \<Longrightarrow> v \<le> coalesce d (sql_max (map f rs))"
proof (rule coalesce_max_ge)
  assume "r \<in> set rs" "f r = Some v"
  then show "Some v \<in> set (map f rs)" by (metis image_eqI list.set_map)
qed

lemma fresh_feed_row:
  assumes "r \<in> set (freshest (scored_rows sx))"
  shows "\<exists>x \<in> set (feed_scores_sql sx). ef_cve x = ic_cve (fst r) \<and>
    ic_severity (fst r) \<le> score_severity (score_of x) \<and>
    (\<forall>v. ic_cvss (fst r) = Some v \<longrightarrow> v \<le> score_cvss (score_of x)) \<and>
    (\<forall>v. ic_epss (fst r) = Some v \<longrightarrow> v \<le> score_epss (score_of x))"
proof -
  let ?R = "freshest (scored_rows sx)"
  let ?k = "\<lambda>r :: scored_row. (ic_cve (fst r), ic_origin (fst r))"
  let ?rs = "filter (\<lambda>x. ?k x = ?k r) ?R"
  let ?x = "\<lparr>ef_cve = ic_cve (fst r), ef_origin = coalesce 0 (ic_origin (fst r)),
    ef_severity = Some (coalesce 0 (sql_max (map (\<lambda>r. Some (ic_severity (fst r))) ?rs))),
    ef_cvss = Some (coalesce 0 (sql_max (map (ic_cvss \<circ> fst) ?rs))),
    ef_epss = Some (coalesce 0 (sql_max (map (ic_epss \<circ> fst) ?rs)))\<rparr>"
  have r: "r \<in> set ?rs" using assms by simp
  have "?x \<in> set (feed_scores_sql sx)"
    using assms unfolding feed_scores_sql_def group_by_def set_map image_image set_dedupe
    by (intro image_eqI [of _ _ r]) auto
  moreover have "ic_severity (fst r) \<le> score_severity (score_of ?x)"
    using max_of_row [OF r, of "\<lambda>r. Some (ic_severity (fst r))"] by (simp add: score_of_def)
  moreover have "\<forall>v. ic_cvss (fst r) = Some v \<longrightarrow> v \<le> score_cvss (score_of ?x)"
    using max_of_row [OF r, of "ic_cvss \<circ> fst"] by (simp add: score_of_def)
  moreover have "\<forall>v. ic_epss (fst r) = Some v \<longrightarrow> v \<le> score_epss (score_of ?x)"
    using max_of_row [OF r, of "ic_epss \<circ> fst"] by (simp add: score_of_def)
  ultimately show ?thesis by (intro bexI [of _ ?x]) simp_all
qed

lemma feed_row_fresh:
  assumes "x \<in> set (feed_scores_sql sx)"
  shows "(\<exists>r \<in> set (freshest (scored_rows sx)). ic_cve (fst r) = ef_cve x \<and>
      ic_severity (fst r) = score_severity (score_of x)) \<and>
    (score_cvss (score_of x) = 0 \<or>
      (\<exists>r \<in> set (freshest (scored_rows sx)). ic_cve (fst r) = ef_cve x \<and> ic_cvss (fst r) = Some (score_cvss (score_of x)))) \<and>
    (score_epss (score_of x) = 0 \<or>
      (\<exists>r \<in> set (freshest (scored_rows sx)). ic_cve (fst r) = ef_cve x \<and> ic_epss (fst r) = Some (score_epss (score_of x))))"
proof -
  let ?R = "freshest (scored_rows sx)"
  obtain cve origin rs where g: "((cve, origin), rs) \<in> set (group_by (\<lambda>r :: scored_row. (ic_cve (fst r), ic_origin (fst r))) ?R)"
    and x: "x = \<lparr>ef_cve = cve, ef_origin = coalesce 0 origin,
        ef_severity = Some (coalesce 0 (sql_max (map (\<lambda>r. Some (ic_severity (fst r))) rs))),
        ef_cvss = Some (coalesce 0 (sql_max (map (ic_cvss \<circ> fst) rs))),
        ef_epss = Some (coalesce 0 (sql_max (map (ic_epss \<circ> fst) rs)))\<rparr>"
    using assms by (auto simp: feed_scores_sql_def)
  have rs: "r \<in> set ?R \<and> ic_cve (fst r) = cve" if "r \<in> set rs" for r
    using g that by (auto simp: in_group_by)
  obtain r0 where r0: "r0 \<in> set rs" using g by (auto simp: in_group_by)
  have att: "coalesce 0 (sql_max (map f rs)) = 0 \<or> (\<exists>r \<in> set rs. f r = Some (coalesce 0 (sql_max (map f rs))))"
    for f :: "scored_row \<Rightarrow> 'b::{linorder,zero} option"
    using coalesce_max_in [of 0 "map f rs"] unfolding set_map image_iff by fastforce
  have "\<exists>m. sql_max (map (\<lambda>r. Some (ic_severity (fst r))) rs) = Some m"
    using r0 by (cases "sql_max (map (\<lambda>r. Some (ic_severity (fst r))) rs)") (auto simp: sql_max_None_iff)
  then obtain m where m: "sql_max (map (\<lambda>r. Some (ic_severity (fst r))) rs) = Some m" by blast
  then obtain r1 where "r1 \<in> set rs" "ic_severity (fst r1) = m" by (auto simp: sql_max_Some_iff)
  with m x rs have "\<exists>r \<in> set ?R. ic_cve (fst r) = ef_cve x \<and> ic_severity (fst r) = score_severity (score_of x)"
    by (intro bexI [of _ r1]) (auto simp: score_of_def)
  with att [of "ic_cvss \<circ> fst"] att [of "ic_epss \<circ> fst"] x rs show ?thesis
    by (auto simp: score_of_def)
qed

section \<open>One score per CVE\<close>

lemma joined_score:
  assumes "v \<in> set (joined sx)" and "effective_score sx (vr_cve v) = Some (s, x, e)"
  shows "ic_severity (vr_ic v) = s \<and> ic_cvss (vr_ic v) = Some x \<and> ic_epss (vr_ic v) = Some e"
proof -
  obtain dc ic where "(dc, ic) \<in> set (cve_rows sx)" and "vr_ic v = ic"
    using assms(1) by (auto simp: joined_def)
  then obtain ic0 where w: "vr_ic v = with_scores sx ic0" by (auto simp: cve_rows_def)
  then have "vr_cve v = ic_cve ic0" by (simp add: vr_cve_def with_scores_def split: option.split)
  with w assms(2) show ?thesis by (simp add: with_scores_def)
qed

lemma cves_of_group:
  assumes "c \<in> set (cves_of P a b w vs)"
  shows "\<exists>rs. rs \<noteq> [] \<and> set rs \<subseteq> {v \<in> set vs. vr_cve v = cd_cve c} \<and> c = cve_data_of P (cd_cve c, rs)"
proof -
  obtain g rs where g: "(g, rs) \<in> set (group_by vr_cve vs)" and c: "c = cve_data_of P (g, rs)"
    using assms by (auto simp: cves_of_def)
  moreover have "rs \<noteq> []" using g by (auto simp: in_group_by filter_empty_conv)
  ultimately show ?thesis by (intro exI [of _ rs]) (auto simp: in_group_by)
qed

lemma cve_data_score:
  assumes "rs \<noteq> []" and "\<And>v. v \<in> set rs \<Longrightarrow> ic_severity (vr_ic v) = s \<and> ic_cvss (vr_ic v) = Some x \<and> ic_epss (vr_ic v) = Some e"
  shows "cd_severity (cve_data_of P (c, rs)) = s \<and> cd_cvss (cve_data_of P (c, rs)) = x \<and> cd_epss (cve_data_of P (c, rs)) = e"
proof -
  have "sql_max (map (\<lambda>v. Some (ic_severity (vr_ic v))) rs) = Some s"
    "sql_max (map (\<lambda>v. Some (coalesce 0 (ic_cvss (vr_ic v)))) rs) = Some x"
    "sql_max (map (\<lambda>v. Some (coalesce 0 (ic_epss (vr_ic v)))) rs) = Some e"
    using assms by (auto intro!: sql_max_const)
  then show ?thesis by (simp add: cve_data_of_def Let_def max0_def comp_def)
qed

lemma cves_of_score:
  assumes "effective_score sx cve = Some (s, x, e)" and "set vs \<subseteq> set (joined sx)"
    and c: "c \<in> set (cves_of P a b w vs)" "cd_cve c = cve"
  shows "cd_severity c = s \<and> cd_cvss c = x \<and> cd_epss c = e"
proof -
  obtain rs where rs: "rs \<noteq> []" "set rs \<subseteq> {v \<in> set vs. vr_cve v = cve}" "c = cve_data_of P (cve, rs)"
    using cves_of_group [OF c(1)] unfolding c(2) by auto
  have "ic_severity (vr_ic v) = s \<and> ic_cvss (vr_ic v) = Some x \<and> ic_epss (vr_ic v) = Some e"
    if v: "v \<in> set rs" for v
  proof (rule joined_score)
    show "v \<in> set (joined sx)" "effective_score sx (vr_cve v) = Some (s, x, e)" using v rs(2) assms by auto
  qed
  then show ?thesis unfolding rs(3) by (intro cve_data_score [OF rs(1)])
qed

lemma query_score:
  assumes "effective_score sx cve = Some (s, x, e)"
    and c: "c \<in> set (get_cves_for_namespaces P sx nss a b w) \<union> set (get_all_cves P sx a b w)" "cd_cve c = cve"
  shows "cd_severity c = s \<and> cd_cvss c = x \<and> cd_epss c = e"
proof -
  have sub: "set (namespace_filter nss (joined sx)) \<subseteq> set (joined sx)" by (auto simp: namespace_filter_def)
  have "c \<in> set (cves_of P a b w (namespace_filter nss (joined sx))) \<or> c \<in> set (cves_of P a b w (joined sx))"
    using c(1) by (auto simp: get_cves_for_namespaces_def get_all_cves_def split: if_splits)
  then show ?thesis
    using cves_of_score [OF assms(1) sub _ c(2)] cves_of_score [OF assms(1) subset_refl _ c(2)] by blast
qed

text \<open>The rows of a CVE that no later scan of the same component and feed supersedes, an unscanned image last.\<close>

definition fresh_of :: "stackrox \<Rightarrow> string \<Rightarrow> image_cve list" where
  "fresh_of sx cve = map fst (filter (\<lambda>(ic, component, scan). ic_cve ic = cve \<and>
     list_all (\<lambda>(ic', component', scan').
         ic_cve ic' = cve \<and> ic_origin ic' = ic_origin ic \<and> component' = component \<longrightarrow>
         (case (scan', scan) of (None, _) \<Rightarrow> True | (Some t', None) \<Rightarrow> False | (Some t', Some t) \<Rightarrow> t' \<le> t))
       (scored_rows sx)) (scored_rows sx))"

lemma fresh_of_freshest: "fresh_of sx cve = filter (\<lambda>ic. ic_cve ic = cve) (map fst (freshest (scored_rows sx)))"
proof -
  have after: "scanned_after s' s \<longleftrightarrow> \<not> (case (s', s) of (None, _) \<Rightarrow> True | (Some t', None) \<Rightarrow> False | (Some t', Some t) \<Rightarrow> t' \<le> t)"
    for s' s by (cases s'; cases s) auto
  show ?thesis
    unfolding fresh_of_def freshest_def after
    by (auto simp: filter_map comp_def partition_of_def list_all_iff list_ex_iff case_prod_unfold
        intro!: arg_cong [where f = "map fst"] filter_cong)
qed

text \<open>The score of a CVE in the dict against the fresh rows of the CVE.\<close>

lemma cve_dict_fresh_None: "map_of (cve_dict (feed_scores_sql sx)) cve = None \<longleftrightarrow> fresh_of sx cve = []"
proof -
  have "cve \<in> ef_cve ` set (feed_scores_sql sx) \<longleftrightarrow> fresh_of sx cve \<noteq> []"
  proof
    assume "cve \<in> ef_cve ` set (feed_scores_sql sx)"
    then obtain x where x: "x \<in> set (feed_scores_sql sx)" "ef_cve x = cve" by blast
    from feed_row_fresh [OF x(1)] x(2) obtain r where "r \<in> set (freshest (scored_rows sx))" "ic_cve (fst r) = cve"
      by blast
    then have "fst r \<in> set (fresh_of sx cve)" by (simp add: fresh_of_freshest)
    then show "fresh_of sx cve \<noteq> []" by auto
  next
    assume "fresh_of sx cve \<noteq> []"
    then obtain r where "r \<in> set (freshest (scored_rows sx))" "ic_cve (fst r) = cve"
      by (auto simp: fresh_of_freshest filter_empty_conv)
    with fresh_feed_row [of r sx] show "cve \<in> ef_cve ` set (feed_scores_sql sx)" by (metis image_eqI)
  qed
  then show ?thesis unfolding cve_dict_None_iff by blast
qed

lemma cve_dict_fresh_ge:
  assumes "map_of (cve_dict (feed_scores_sql sx)) cve = Some m" and "ic \<in> set (fresh_of sx cve)"
  shows "ic_severity ic \<le> score_severity m \<and> (\<forall>v. ic_cvss ic = Some v \<longrightarrow> v \<le> score_cvss m) \<and>
    (\<forall>v. ic_epss ic = Some v \<longrightarrow> v \<le> score_epss m)"
proof -
  from assms(2) obtain r where r: "r \<in> set (freshest (scored_rows sx))" "fst r = ic" "ic_cve ic = cve"
    by (auto simp: fresh_of_freshest)
  from fresh_feed_row [OF r(1)] obtain x where x: "x \<in> set (feed_scores_sql sx)" "ef_cve x = cve"
    "ic_severity ic \<le> score_severity (score_of x)" "\<forall>v. ic_cvss ic = Some v \<longrightarrow> v \<le> score_cvss (score_of x)"
    "\<forall>v. ic_epss ic = Some v \<longrightarrow> v \<le> score_epss (score_of x)" unfolding r(2,3) by blast
  have "score_severity (score_of x) \<le> score_severity m" "score_cvss (score_of x) \<le> score_cvss m"
    "score_epss (score_of x) \<le> score_epss m"
    using cve_dict_max [where f = score_severity, OF _ assms(1)] cve_dict_max [where f = score_cvss, OF _ assms(1)]
      cve_dict_max [where f = score_epss, OF _ assms(1)] x(1,2) by (auto simp: max_score_def)
  with x(3-5) show ?thesis by (meson order.trans)
qed

lemma cve_dict_fresh_in:
  assumes "map_of (cve_dict (feed_scores_sql sx)) cve = Some m"
  shows "score_severity m \<in> ic_severity ` set (fresh_of sx cve)"
    and "score_cvss m = 0 \<or> Some (score_cvss m) \<in> ic_cvss ` set (fresh_of sx cve)"
    and "score_epss m = 0 \<or> Some (score_epss m) \<in> ic_epss ` set (fresh_of sx cve)"
proof -
  have in_fresh: "fst r \<in> set (fresh_of sx cve)"
    if "r \<in> set (freshest (scored_rows sx))" "ic_cve (fst r) = cve" for r
    using that by (simp add: fresh_of_freshest)
  obtain x where "x \<in> set (feed_scores_sql sx)" "ef_cve x = cve" "score_severity (score_of x) = score_severity m"
    using cve_dict_max [where f = score_severity, OF _ assms] by (auto simp: max_score_def)
  with feed_row_fresh [of x sx] in_fresh show "score_severity m \<in> ic_severity ` set (fresh_of sx cve)" by force
  obtain y where "y \<in> set (feed_scores_sql sx)" "ef_cve y = cve" "score_cvss (score_of y) = score_cvss m"
    using cve_dict_max [where f = score_cvss, OF _ assms] by (auto simp: max_score_def)
  with feed_row_fresh [of y sx] in_fresh
  show "score_cvss m = 0 \<or> Some (score_cvss m) \<in> ic_cvss ` set (fresh_of sx cve)" by force
  obtain z where "z \<in> set (feed_scores_sql sx)" "ef_cve z = cve" "score_epss (score_of z) = score_epss m"
    using cve_dict_max [where f = score_epss, OF _ assms] by (auto simp: max_score_def)
  with feed_row_fresh [of z sx] in_fresh
  show "score_epss m = 0 \<or> Some (score_epss m) \<in> ic_epss ` set (fresh_of sx cve)" by force
qed

text \<open>The tables that a query reads after a refresh.\<close>

definition after_refresh :: "stackrox \<Rightarrow> num \<Rightarrow> score_state \<Rightarrow> stackrox option \<Rightarrow> num \<Rightarrow> stackrox" where
  "after_refresh sx now st out later =
     bind_scores (fst (effective_score_params out later (fst (score_refresh_round (Some sx) now st)))) sx"

lemma effective_score_after_refresh:
  "effective_score (after_refresh sx now st out later) cve =
     map_option (\<lambda>s. (score_severity s, score_cvss s, score_epss s)) (map_of (cve_dict (feed_scores_sql sx)) cve)"
proof -
  have "after_refresh sx now st out later = bind_scores (es_params (build_effective_scores (feed_scores_sql sx) now)) sx"
    by (simp add: after_refresh_def effective_score_params_def score_refresh_round_def refresh_effective_scores_def
        set_effective_scores_def Let_def)
  then show ?thesis by (simp add: effective_score_build)
qed

text \<open>C1: After a refresh, every list of CVEs shows one score per CVE, whatever the namespaces asked for: the
  greatest severity, CVSS and EPSS among the freshest scans of each component and feed. A CVE that no fresh row of a
  known feed mentions keeps the raw scores.\<close>

theorem score_is_scope_independent:
  "(if fresh_of sx cve = [] then effective_score (after_refresh sx now st out later) cve = None
    else \<exists>s x e. effective_score (after_refresh sx now st out later) cve = Some (s, x, e) \<and>
      s = Max (ic_severity ` set (fresh_of sx cve)) \<and>
      (\<forall>ic \<in> set (fresh_of sx cve). coalesce x (ic_cvss ic) \<le> x \<and> coalesce e (ic_epss ic) \<le> e) \<and>
      x \<in> insert 0 (coalesce 0 ` ic_cvss ` set (fresh_of sx cve)) \<and>
      e \<in> insert 0 (coalesce 0 ` ic_epss ` set (fresh_of sx cve)) \<and>
      (\<forall>P nss a b w. \<forall>c \<in> set (get_cves_for_namespaces P (after_refresh sx now st out later) nss a b w) \<union>
           set (get_all_cves P (after_refresh sx now st out later) a b w).
         cd_cve c = cve \<longrightarrow> cd_severity c = s \<and> cd_cvss c = x \<and> cd_epss c = e))"
proof (cases "map_of (cve_dict (feed_scores_sql sx)) cve")
  case None
  then show ?thesis by (simp add: effective_score_after_refresh flip: cve_dict_fresh_None)
next
  case (Some m)
  let ?sx' = "after_refresh sx now st out later"
  have e: "effective_score ?sx' cve = Some (score_severity m, score_cvss m, score_epss m)"
    using Some by (simp add: effective_score_after_refresh)
  have ne: "fresh_of sx cve \<noteq> []" using Some cve_dict_fresh_None [of sx cve] by auto
  note ge = cve_dict_fresh_ge [OF Some] and fresh = cve_dict_fresh_in [OF Some]
  have "\<forall>P nss a b w. \<forall>c \<in> set (get_cves_for_namespaces P ?sx' nss a b w) \<union> set (get_all_cves P ?sx' a b w).
      cd_cve c = cve \<longrightarrow> cd_severity c = score_severity m \<and> cd_cvss c = score_cvss m \<and> cd_epss c = score_epss m"
    using query_score [OF e] by blast
  moreover have "score_severity m = Max (ic_severity ` set (fresh_of sx cve))"
    using ge fresh(1) by (intro Max_eqI [symmetric]) auto
  moreover have "coalesce (score_cvss m) (ic_cvss ic) \<le> score_cvss m \<and> coalesce (score_epss m) (ic_epss ic) \<le> score_epss m"
    if "ic \<in> set (fresh_of sx cve)" for ic
    using ge [OF that] by (cases "ic_cvss ic"; cases "ic_epss ic") auto
  moreover have "score_cvss m \<in> insert 0 (coalesce 0 ` ic_cvss ` set (fresh_of sx cve))"
    "score_epss m \<in> insert 0 (coalesce 0 ` ic_epss ` set (fresh_of sx cve))"
    using fresh(2,3) by (metis coalesce_simps(2) image_eqI insert_iff)+
  ultimately show ?thesis unfolding if_not_P [OF ne] using e
    by (intro exI [of _ "score_severity m"] exI [of _ "score_cvss m"] exI [of _ "score_epss m"] conjI) simp_all
qed

text \<open>The rating of a feed never exceeds the score of the CVE.\<close>

lemma feed_dict_score:
  "map_of (fst (fold add_feed_row rows ([], []))) k = Some f \<Longrightarrow> \<exists>r \<in> set rows. (ef_cve r, ef_origin r) = k \<and> f = score_of r"
proof (induction rows arbitrary: f rule: rev_induct)
  case (snoc r rows)
  have "map_of (fst (fold add_feed_row (rows @ [r]) ([], []))) =
      (map_of (fst (fold add_feed_row rows ([], []))))((ef_cve r, ef_origin r) \<mapsto> score_of r)"
    by (simp add: add_feed_row_def update_conv' split: prod.split)
  with snoc show ?case by (auto split: if_splits)
qed simp

lemma feed_score_le:
  assumes "ss_snapshot st = Some (build_effective_scores rows t)" and "feed_score st cve origin = Some f"
  shows "\<exists>s x e. effective_score (bind_scores (es_params (build_effective_scores rows t)) sx) cve = Some (s, x, e) \<and>
    score_severity f \<le> s \<and> score_cvss f \<le> x \<and> score_epss f \<le> e"
proof -
  obtain k where "map_of (fst (fold add_feed_row rows ([], []))) (cve, k) = Some f"
    using assms by (auto simp: feed_score_def build_effective_scores_def split: option.splits prod.splits)
  from feed_dict_score [OF this] obtain r where r: "r \<in> set rows" "ef_cve r = cve" "f = score_of r" by auto
  then obtain m where m: "map_of (cve_dict rows) cve = Some m"
    using cve_dict_None_iff [of rows cve] by (cases "map_of (cve_dict rows) cve") auto
  have "score_severity f \<le> score_severity m" "score_cvss f \<le> score_cvss m" "score_epss f \<le> score_epss m"
    using cve_dict_max [where f = score_severity, OF _ m] cve_dict_max [where f = score_cvss, OF _ m]
      cve_dict_max [where f = score_epss, OF _ m] r by (auto simp: max_score_def)
  with m show ?thesis by (simp add: effective_score_build)
qed

section \<open>Example\<close>

text \<open>The same package in two images: the older scan rates the CVE 0, the newer one 8.\<close>

definition ex_old_ic :: image_cve where
  "ex_old_ic = ex_ic\<lparr>ic_imageid := None, ic_imageidv2 := Some ''v1'', ic_cvss := Some 0\<rparr>"

definition ex_new_ic :: image_cve where
  "ex_new_ic = ex_ic\<lparr>ic_imageid := None, ic_imageidv2 := Some ''v2'', ic_cvss := Some 8\<rparr>"

definition ex_scans :: stackrox where
  "ex_scans = ex_sx\<lparr>sx_containers := [ex_ct\<lparr>ct_image_idv2 := Some ''v1''\<rparr>],
     sx_image_cves := [ex_old_ic, ex_new_ic], sx_images_v2 := [(''v1'', 1, Some 5), (''v2'', 1, Some 9)]\<rparr>"

lemma fresh_ex_scans: "fresh_of ex_scans ''CVE-2024-1'' = [ex_new_ic]"
  by (simp add: fresh_of_freshest freshest_def scored_rows_def partition_of_def ex_scans_def ex_old_ic_def ex_new_ic_def
      ex_world)

theorem score_is_scope_independent_witness:
  "effective_score (after_refresh ex_scans 3 reset_effective_scores None 4) ''CVE-2024-1'' = Some (4, 8, 1/2) \<and>
   (\<exists>c \<in> set (get_all_cves ex_P (after_refresh ex_scans 3 reset_effective_scores None 4) 7 0 {}). cd_cvss c = 8)"
proof -
  let ?sx = "after_refresh ex_scans 3 reset_effective_scores None 4"
  obtain s x e where "effective_score ?sx ''CVE-2024-1'' = Some (s, x, e)" "s = Max {4}" "coalesce x (Some 8) \<le> x"
      "coalesce e (Some (1/2)) \<le> e" "x \<in> {0, 8}" "e \<in> {0, 1/2}"
    and q: "\<forall>P nss a b w. \<forall>c \<in> set (get_cves_for_namespaces P ?sx nss a b w) \<union> set (get_all_cves P ?sx a b w).
       cd_cve c = ''CVE-2024-1'' \<longrightarrow> cd_severity c = s \<and> cd_cvss c = x \<and> cd_epss c = e"
    using score_is_scope_independent [of ex_scans "''CVE-2024-1''" 3 reset_effective_scores None 4]
    unfolding fresh_ex_scans by (auto simp: ex_new_ic_def ex_ic_def)
  then have e: "effective_score ?sx ''CVE-2024-1'' = Some (4, 8, 1/2)" and x: "x = 8" by auto
  have sx: "sx_deployments ?sx = [ex_shop, ex_pay]" "sx_components ?sx = [ex_comp]"
    "sx_containers ?sx = [ex_ct\<lparr>ct_image_idv2 := Some ''v1''\<rparr>]" "sx_image_cves ?sx = [ex_old_ic, ex_new_ic]"
    "sx_images_v2 ?sx = [(''v1'', 1, Some 5), (''v2'', 1, Some 9)]"
    by (simp_all add: after_refresh_def bind_scores_def ex_scans_def ex_sx_def)
  have w: "with_scores ?sx ex_old_ic = ex_old_ic\<lparr>ic_cvss := Some 8\<rparr>"
    using e by (simp add: with_scores_def ex_old_ic_def ex_ic_def)
  let ?v = "\<lparr>vr_dep = ex_shop, vr_ct = ex_ct\<lparr>ct_image_idv2 := Some ''v1''\<rparr>, vr_ic = ex_old_ic\<lparr>ic_cvss := Some 8\<rparr>,
    vr_comp = Some ex_comp\<rparr>"
  have j: "joined ?sx = [?v]"
    by (simp add: joined_def cve_rows_def cve_rows_raw_def sx w comps_of_def)
      (simp add: w ex_old_ic_def ex_new_ic_def ex_world)
  have "get_all_cves ex_P ?sx 7 0 {} = [cve_data_of ex_P (''CVE-2024-1'', [?v])]"
    by (simp add: get_all_cves_def cves_of_def j group_by_def vr_cve_def passes_def cve_data_of_def Let_def max0_def
        sql_max_def ex_old_ic_def ex_ic_def)
  then have "\<exists>c \<in> set (get_all_cves ex_P ?sx 7 0 {}). cd_cve c = ''CVE-2024-1''" by simp
  then obtain c where "c \<in> set (get_all_cves ex_P ?sx 7 0 {})" "cd_cve c = ''CVE-2024-1''" by blast
  with q x have "cd_cvss c = 8" by blast
  with e \<open>c \<in> _\<close> show ?thesis by blast
qed

end
