(* ===== verification/CveDetail.thy ===== *)
theory CveDetail
  imports EscalationRules Comments EscalationWorkspace EffectiveScores
begin

text \<open>
  One CVE: the detail view, its deployments and its comments, from \<open>app/routers/cves.py\<close>, with the queries of
  \<open>app/stackrox/queries/core.py\<close> that they use. \<open>occurrence\<close> stands for the table \<open>image_cve_infos\<close>, which is
  read for the first occurrence in the whole system. The texts that are decoded from the protobuf column (summary,
  links, references) and the operating system are left out. The lemmas show that the answer to a member depends on
  nothing outside the requested scope, which acceptance stands for the CVE, and what deleting a comment changes.
\<close>

section \<open>Queries\<close>

definition get_cve_detail :: "pep440 \<Rightarrow> stackrox \<Rightarrow> string \<Rightarrow> pair list \<Rightarrow> cve_data option" where
  "get_cve_detail P sx cve nss =
     (if nss = [] then None
      else case filter (\<lambda>v. vr_cve v = cve) (namespace_filter nss (joined sx)) of
        [] \<Rightarrow> None
      | v # vs \<Rightarrow> Some (cve_data_of P (cve, v # vs)))"

record affected_component =
  co_name :: string
  co_version :: "string option"
  co_fixable :: bool
  co_fixed_by :: "string option"
  co_origin :: "int option"

text \<open>\<open>ORDER BY\<close> puts NULL last.\<close>

definition nulls_last :: "'a \<Rightarrow> 'a option \<Rightarrow> bool \<times> 'a" where
  "nulls_last d x = (x = None, coalesce d x)"

definition fetch_affected_components ::
    "bool \<Rightarrow> stackrox \<Rightarrow> string \<Rightarrow> pair list \<Rightarrow> affected_component list" where
  "fetch_affected_components include_origin sx cve nss =
     (if nss = [] then []
      else sort_key (\<lambda>c. (co_name c, nulls_last [] (co_version c), nulls_last 0 (co_origin c)))
        (dedupe [\<lparr>co_name = n, co_version = Option.bind (vr_comp v) cp_version,
             co_fixable = coalesce False (ic_fixable (vr_ic v)), co_fixed_by = ic_fixedby (vr_ic v),
             co_origin = (if include_origin then ic_origin (vr_ic v) else None)\<rparr>.
           v \<leftarrow> namespace_filter nss (joined sx), vr_cve v = cve, n \<leftarrow> opt_list (vr_comp_name v)]))"

definition get_affected_components :: "stackrox \<Rightarrow> string \<Rightarrow> pair list \<Rightarrow> affected_component list" where
  "get_affected_components = fetch_affected_components False"

definition get_affected_components_with_origin :: "stackrox \<Rightarrow> string \<Rightarrow> pair list \<Rightarrow> affected_component list" where
  "get_affected_components_with_origin = fetch_affected_components True"

text \<open>The rows without the scores of the process: \<open>deployments d JOIN cve_rows_raw ic\<close> under the namespace filter.\<close>

definition raw_rows :: "stackrox \<Rightarrow> pair list \<Rightarrow> image_cve list" where
  "raw_rows sx nss =
     [ic. d \<leftarrow> sx_deployments sx, (dc, ic) \<leftarrow> cve_rows_raw sx, ct_deployment dc = dp_id d,
        (dp_namespace d, dp_cluster d) \<in> set nss]"

record origin_rating =
  or_origin :: "int option"
  or_severity :: int
  or_cvss :: num
  or_components :: nat

definition raw_rating :: "int option \<times> image_cve list \<Rightarrow> origin_rating" where
  "raw_rating g =
     \<lparr>or_origin = fst g,
      or_severity = coalesce 0 (sql_max (map (\<lambda>ic. Some (ic_severity ic)) (snd g))),
      or_cvss = max0 (map ic_cvss (snd g)),
      or_components = length (dedupe (somes (map ic_component (snd g))))\<rparr>"

definition with_feed_score :: "score_state \<Rightarrow> string \<Rightarrow> origin_rating \<Rightarrow> origin_rating" where
  "with_feed_score es cve r =
     (case feed_score es cve (or_origin r) of None \<Rightarrow> r
      | Some s \<Rightarrow> r\<lparr>or_severity := score_severity s, or_cvss := score_cvss s\<rparr>)"

definition get_cve_origin_ratings :: "score_state \<Rightarrow> stackrox \<Rightarrow> string \<Rightarrow> pair list \<Rightarrow> origin_rating list" where
  "get_cve_origin_ratings es sx cve nss =
     (if nss = [] then []
      else sort_key (\<lambda>r. (- or_severity r, - or_cvss r, nulls_last 0 (or_origin r)))
        (map (with_feed_score es cve \<circ> raw_rating)
          (group_by ic_origin (filter (\<lambda>ic. ic_cve ic = cve) (raw_rows sx nss)))))"

section \<open>The detail view\<close>

definition visible_detail_pairs ::
    "current_user \<Rightarrow> stackrox \<Rightarrow> string option \<Rightarrow> string option \<Rightarrow> pair list" where
  "visible_detail_pairs u sx cluster namespace =
     narrow_namespaces (if can_see_all_namespaces u then list_namespaces sx else cu_namespaces u) cluster namespace"

record detail_deployment =
  dd_deployment :: affected
  dd_ra_status :: "risk_status option"
  dd_rem_status :: "rem_status option"
  dd_suppressed :: bool

record cve_detail =
  dt_data :: cve_data
  dt_first_system :: "datetime option"
  dt_origins :: "string list"
  dt_ratings :: "origin_rating list"
  dt_priority :: "cve_priority option"
  dt_priority_setter :: "string option"
  dt_acceptance :: "risk_acceptance option"
  dt_level_at :: "int \<Rightarrow> datetime option"
  dt_level_expected :: "int \<Rightarrow> datetime option"
  dt_contacts :: "string list"
  dt_deployments :: "detail_deployment list"
  dt_components :: "affected_component list"

text \<open>The column is a database enumeration: its order is the order in which the values are declared.\<close>

fun status_order :: "risk_status \<Rightarrow> nat" where
  "status_order RiskRequested = 0"
| "status_order RiskApproved = 1"
| "status_order RiskRejected = 2"
| "status_order RiskExpired = 3"

definition active_acceptances :: "app_db \<Rightarrow> string \<Rightarrow> risk_acceptance list" where
  "active_acceptances db cve =
     sort_key (\<lambda>r. (status_order (ra_status r), - ra_created_at r))
       (filter (\<lambda>r. ra_cve r = cve \<and> ra_status r \<in> {RiskRequested, RiskApproved}) (ras db))"

definition level_dates :: "escalation list \<Rightarrow> int \<Rightarrow> datetime option" where
  "level_dates es =
     fold (\<lambda>e d. case d (esc_level e) of
         None \<Rightarrow> d(esc_level e := Some (esc_triggered_at e))
       | Some cur \<Rightarrow> if esc_triggered_at e < cur then d(esc_level e := Some (esc_triggered_at e)) else d)
       es (\<lambda>_. None)"

definition expected_dates :: "app_db \<Rightarrow> cve_data \<Rightarrow> int \<Rightarrow> datetime option" where
  "expected_dates db c =
     (if cd_first_seen c = None \<and> cd_fix_since c = None then Map.empty
      else case gsettings db of None \<Rightarrow> Map.empty
        | Some s \<Rightarrow> (case pick_matching_rule (gs_rules s) (cd_severity c) (cd_epss c) of
            None \<Rightarrow> Map.empty
          | Some r \<Rightarrow> map_of (level_deadlines r (cd_first_seen c) (cd_fix_since c))))"

definition contact_emails :: "config \<Rightarrow> current_user \<Rightarrow> app_db \<Rightarrow> affected list \<Rightarrow> string list" where
  "contact_emails cf u db ds =
     (let pairs = sorted_set (map (\<lambda>d. (af_namespace d, af_cluster d))
            (filter (\<lambda>d. af_namespace d \<noteq> [] \<and> af_cluster d \<noteq> []) ds));
          found = filter (\<lambda>c. (nc_namespace c, nc_cluster c) \<in> set pairs) (contacts db);
          covered = (\<lambda>c. (nc_namespace c, nc_cluster c)) ` set found;
          emails = sorted_set (filter (\<lambda>e. e \<noteq> []) (map nc_email found))
      in if \<not> can_see_all_namespaces u \<or> pairs = [] then []
         else if \<not> set pairs \<subseteq> covered \<and> cf_default_escalation_email cf \<noteq> []
           then sorted_set (cf_default_escalation_email cf # emails) else emails)"

definition ra_status_for :: "risk_acceptance list \<Rightarrow> affected \<Rightarrow> risk_status option" where
  "ra_status_for as d =
     (if list_ex (\<lambda>a. deployment_covered_by_scope (ra_scope a) d) (filter (\<lambda>a. ra_status a = RiskApproved) as)
      then Some RiskApproved
      else if list_ex (\<lambda>a. deployment_covered_by_scope (ra_scope a) d) (filter (\<lambda>a. ra_status a = RiskRequested) as)
      then Some RiskRequested else None)"

definition suppression_scopes :: "app_db \<Rightarrow> string \<Rightarrow> stored_scope list" where
  "suppression_scopes db cve =
     map sr_scope (filter (\<lambda>r. sr_type r = SuppCve \<and> sr_cve r = Some cve \<and> sr_status r = SuppApproved) (rules db))"

definition detail_deployment_of :: "app_db \<Rightarrow> string \<Rightarrow> affected \<Rightarrow> detail_deployment" where
  "detail_deployment_of db cve d =
     \<lparr>dd_deployment = d,
      dd_ra_status = ra_status_for (active_acceptances db cve) d,
      dd_rem_status = map_option rem_status (dict_of (\<lambda>r. (rem_namespace r, rem_cluster r))
         (filter (\<lambda>r. rem_cve r = cve) (rems db)) (af_namespace d, af_cluster d)),
      dd_suppressed = list_ex (\<lambda>s. deployment_covered_by_scope s d) (suppression_scopes db cve)\<rparr>"

definition get_cve ::
    "pep440 \<Rightarrow> (string \<Rightarrow> datetime option) \<Rightarrow> config \<Rightarrow> score_state \<Rightarrow> current_user \<Rightarrow> string \<Rightarrow>
     string option \<Rightarrow> string option \<Rightarrow> app_db \<Rightarrow> stackrox \<Rightarrow> cve_detail result" where
  "get_cve P occurrence cf es u cve cluster namespace db sx =
     rbind (scalar_one_or_none (filter (\<lambda>p. pr_cve p = cve) (prios db))) (\<lambda>priority.
       let acceptances = active_acceptances db cve;
           ns = visible_detail_pairs u sx cluster namespace
       in if ns = [] then Inl (ApiError 404 ''cve_not_found'')
          else case get_cve_detail P sx cve ns of None \<Rightarrow> Inl (ApiError 404 ''cve_not_found'')
            | Some c \<Rightarrow>
                let ds = get_affected_deployments sx cve ns
                in Inr \<lparr>dt_data = c,
                     dt_first_system = (if can_see_all_namespaces u then occurrence cve else None),
                     dt_origins = origin_names (map Some (cd_origins c)),
                     dt_ratings = get_cve_origin_ratings es sx cve ns,
                     dt_priority = priority,
                     dt_priority_setter = Option.bind priority (\<lambda>p. display_map (users db) (pr_set_by p)),
                     dt_acceptance = (case acceptances of [] \<Rightarrow> None | a # as \<Rightarrow> Some a),
                     dt_level_at = level_dates (filter (\<lambda>e. esc_cve e = cve) (escs db)),
                     dt_level_expected = expected_dates db c,
                     dt_contacts = contact_emails cf u db ds,
                     dt_deployments = map (detail_deployment_of db cve) ds,
                     dt_components = get_affected_components_with_origin sx cve ns\<rparr>)"

definition get_cve_deployments ::
    "current_user \<Rightarrow> string \<Rightarrow> string option \<Rightarrow> string option \<Rightarrow> stackrox \<Rightarrow> affected list" where
  "get_cve_deployments u cve cluster namespace sx =
     (let ns = visible_detail_pairs u sx cluster namespace
      in if ns = [] then [] else get_affected_deployments sx cve ns)"

section \<open>Comments\<close>

record comment_view =
  cv_comment :: cve_comment
  cv_username :: string
  cv_display_name :: string
  cv_content :: "enriched list option"
  cv_is_sec_team :: bool
  cv_context :: "(string \<times> string \<times> int) option"

definition escalation_context :: "escalation option \<Rightarrow> (string \<times> string \<times> int) option" where
  "escalation_context e = map_option (\<lambda>x. (esc_cluster x, esc_namespace x, esc_level x)) e"

definition load_comment_users :: "app_db \<Rightarrow> cve_comment list \<Rightarrow> string \<rightharpoonup> user" where
  "load_comment_users db cs =
     (let ids = filter (\<lambda>i. i \<noteq> []) (map cc_user cs) @ concat (map (mention_user_ids \<circ> cc_segments) cs)
      in users_by_id (filter (\<lambda>u. user_id u \<in> set ids) (users db)))"

definition list_cve_comments :: "current_user \<Rightarrow> string \<Rightarrow> app_db \<Rightarrow> comment_view list" where
  "list_cve_comments u cve db =
     (let cs = sort_key cc_created (filter (\<lambda>c. cc_cve c = cve) (cve_comments db));
          ids = somes (map cc_escalation cs);
          esc = (if is_sec_team u then dict_of esc_id (filter (\<lambda>e. esc_id e \<in> set ids) (escs db)) else Map.empty);
          us = load_comment_users db cs;
          names = map_option user_display_name \<circ> us
      in map (\<lambda>c. \<lparr>cv_comment = c,
           cv_username = (case us (cc_user c) of None \<Rightarrow> cc_user c | Some x \<Rightarrow> username x),
           cv_display_name = (case us (cc_user c) of None \<Rightarrow> cc_user c | Some x \<Rightarrow> user_display_name x),
           cv_content = enrich_segments (cc_segments c) names,
           cv_is_sec_team = (case us (cc_user c) of None \<Rightarrow> False | Some x \<Rightarrow> role x = SecTeam),
           cv_context = (case cc_escalation c of None \<Rightarrow> None | Some i \<Rightarrow> escalation_context (esc i))\<rparr>) cs)"

definition comment_deletion_log :: "current_user \<Rightarrow> cve_comment \<Rightarrow> app_db \<Rightarrow> app_db result" where
  "comment_deletion_log u c db =
     (case cc_escalation c of None \<Rightarrow> Inr db
      | Some k \<Rightarrow> rbind (scalar_one_or_none (filter (\<lambda>e. esc_id e = k) (escs db))) (\<lambda>esc.
          Inr (log_action (cu_id u) ''escalation_comment_deleted'' ''escalation'' (id_str k)
            [(''cve_id'', Some (cc_cve c)), (''comment_id'', Some (id_str (cc_id c))),
             (''cluster_name'', map_option esc_cluster esc), (''namespace'', map_option esc_namespace esc),
             (''level'', map_option (\<lambda>e. id_str (nat (esc_level e))) esc)] db)))"

definition delete_cve_comment :: "current_user \<Rightarrow> string \<Rightarrow> nat \<Rightarrow> app_db \<Rightarrow> app_db result" where
  "delete_cve_comment u cve i db =
     rbind (load_cve_comment cve i db) (\<lambda>c.
       if cc_user c \<noteq> cu_id u then Inl (ApiError 403 ''comment_delete_forbidden'')
       else rbind (comment_deletion_log u c db) (\<lambda>db'.
         Inr (db'\<lparr>cve_comments := filter (\<lambda>x. cc_id x \<noteq> i) (cve_comments db')\<rparr>)))"

section \<open>What the queries read\<close>

lemma get_cve_detail_iff:
  "(\<exists>c. get_cve_detail P sx cve nss = Some c) \<longleftrightarrow> cve_visible_in_namespaces sx cve nss"
proof -
  have "list_ex (\<lambda>v. vr_cve v = cve) vs \<longleftrightarrow> filter (\<lambda>v. vr_cve v = cve) vs \<noteq> []" for vs
    by (simp add: list_ex_iff filter_empty_conv)
  then show ?thesis by (simp add: get_cve_detail_def cve_visible_in_namespaces_def split: list.split)
qed

lemma get_cve_detail_data:
  "get_cve_detail P sx cve nss = Some c \<Longrightarrow>
    c = cve_data_of P (cve, filter (\<lambda>v. vr_cve v = cve) (namespace_filter nss (joined sx)))"
  by (auto simp: get_cve_detail_def split: if_splits list.splits)

lemma query_depends_on_scope:
  assumes "namespace_filter nss (joined sx1) = namespace_filter nss (joined sx2)"
  shows "get_cve_detail P sx1 cve nss = get_cve_detail P sx2 cve nss"
    and "get_affected_deployments sx1 cve nss = get_affected_deployments sx2 cve nss"
    and "fetch_affected_components o' sx1 cve nss = fetch_affected_components o' sx2 cve nss"
  by (simp_all add: get_cve_detail_def get_affected_deployments_def fetch_affected_components_def assms)

lemma ratings_depend_on_scope:
  "raw_rows sx1 nss = raw_rows sx2 nss \<Longrightarrow> get_cve_origin_ratings es sx1 cve nss = get_cve_origin_ratings es sx2 cve nss"
  by (simp add: get_cve_origin_ratings_def)

lemma affected_nonempty:
  "get_affected_deployments sx cve nss \<noteq> [] \<longleftrightarrow> cve_visible_in_namespaces sx cve nss"
proof -
  have "get_affected_deployments sx cve nss \<noteq> [] \<longleftrightarrow>
      (\<exists>a \<in> set (get_affected_deployments sx cve nss). \<exists>p. (af_namespace a, af_cluster a) = p)"
    by (cases "get_affected_deployments sx cve nss") auto
  also have "\<dots> \<longleftrightarrow> (\<exists>p. \<exists>v \<in> set (joined sx). vr_cve v = cve \<and> vr_pair v = p \<and> p \<in> set nss)"
    using affected_iff [of sx cve nss] by metis
  also have "\<dots> \<longleftrightarrow> cve_visible_in_namespaces sx cve nss"
    by (cases "nss = []") (auto simp: cve_visible_in_namespaces_def namespace_filter_def list_ex_iff simp del: split_paired_Ex)
  finally show ?thesis .
qed

text \<open>The answer of the detail handler, split at its branches.\<close>

lemma get_cve_Inr_iff:
  "get_cve P occurrence cf es u cve cluster namespace db sx = Inr d \<longleftrightarrow>
    (\<exists>priority c. scalar_one_or_none (filter (\<lambda>p. pr_cve p = cve) (prios db)) = Inr priority \<and>
      get_cve_detail P sx cve (visible_detail_pairs u sx cluster namespace) = Some c \<and>
      d = (let ns = visible_detail_pairs u sx cluster namespace; ds = get_affected_deployments sx cve ns in
        \<lparr>dt_data = c, dt_first_system = (if can_see_all_namespaces u then occurrence cve else None),
         dt_origins = origin_names (map Some (cd_origins c)), dt_ratings = get_cve_origin_ratings es sx cve ns,
         dt_priority = priority, dt_priority_setter = Option.bind priority (\<lambda>p. display_map (users db) (pr_set_by p)),
         dt_acceptance = (case active_acceptances db cve of [] \<Rightarrow> None | a # as \<Rightarrow> Some a),
         dt_level_at = level_dates (filter (\<lambda>e. esc_cve e = cve) (escs db)),
         dt_level_expected = expected_dates db c, dt_contacts = contact_emails cf u db ds,
         dt_deployments = map (detail_deployment_of db cve) ds,
         dt_components = get_affected_components_with_origin sx cve ns\<rparr>))"
  by (auto simp: get_cve_def rbind_Inr_iff Let_def get_cve_detail_def split: option.splits if_splits)

lemma get_cve_not_found:
  assumes "distinct (map pr_cve (prios db))"
    and "\<not> cve_visible_in_namespaces sx cve (visible_detail_pairs u sx cluster namespace)"
  shows "get_cve P occurrence cf es u cve cluster namespace db sx = Inl (ApiError 404 ''cve_not_found'')"
proof -
  obtain x where "scalar_one_or_none (filter (\<lambda>p. pr_cve p = cve) (prios db)) = Inr x"
    using scalar_unique [OF assms(1), of cve] by blast
  moreover have "get_cve_detail P sx cve (visible_detail_pairs u sx cluster namespace) = None"
    using assms(2) get_cve_detail_iff [of P sx cve] by (cases "get_cve_detail P sx cve (visible_detail_pairs u sx cluster namespace)") auto
  ultimately show ?thesis by (simp add: get_cve_def Let_def)
qed

lemma suppressed_iff_location:
  assumes "\<And>r. r \<in> set (rules db) \<Longrightarrow> \<exists>s. sr_scope r = dump_scope s \<and> rs_mode s \<in> {ModeAll, ModeNamespace} \<and> risk_scope_ok s"
  shows "dd_suppressed (detail_deployment_of db cve d) =
    is_location_suppressed cve (af_namespace d) (af_cluster d) comps (fst (load_approved_suppression_rules db)) []"
proof -
  have "deployment_covered_by_scope (sr_scope r) d \<longleftrightarrow>
      (rule_mode r = Some ''all'' \<or>
       list_ex (\<lambda>t. tg_namespace t = af_namespace d \<and> tg_cluster t = af_cluster d) (rule_targets r))"
    if r: "r \<in> set (rules db)" for r
  proof -
    from assms [OF r] obtain s where s: "sr_scope r = dump_scope s" "rs_mode s \<in> {ModeAll, ModeNamespace}"
      "risk_scope_ok s" by blast
    have "rule_mode r = Some (scope_mode_value (rs_mode s))" "rule_targets r = rs_targets s"
      by (simp_all add: rule_mode_def rule_targets_def s(1) dump_scope_def)
    with s(2,3) show ?thesis
      unfolding s(1) covered_dump by (auto simp: list_ex_iff risk_scope_ok_def)
  qed
  then show ?thesis
    by (fastforce simp: detail_deployment_of_def suppression_scopes_def is_location_suppressed_def list_ex_iff
        cve_rule_hides_def load_approved_suppression_rules_def load_suppression_sets_def)
qed

section \<open>Properties\<close>

text \<open>C4: The answer to a user who does not see all namespaces depends only on the rows of StackRox in the namespaces
  that the user may see within the requested scope, and names neither contacts nor the first occurrence in the system.\<close>

theorem detail_reads_only_scope:
  assumes "\<not> can_see_all_namespaces u"
    and ns: "ns = narrow_namespaces (cu_namespaces u) cluster namespace"
    and "namespace_filter ns (joined sx1) = namespace_filter ns (joined sx2)" and "raw_rows sx1 ns = raw_rows sx2 ns"
  shows "get_cve P occ1 cf es u cve cluster namespace db sx1 = get_cve P occ2 cf es u cve cluster namespace db sx2 \<and>
    get_cve_deployments u cve cluster namespace sx1 = get_cve_deployments u cve cluster namespace sx2 \<and>
    (\<forall>d. get_cve P occ1 cf es u cve cluster namespace db sx1 = Inr d \<longrightarrow>
       dt_contacts d = [] \<and> dt_first_system d = None \<and>
       (\<forall>x \<in> set (dt_deployments d). (af_namespace (dd_deployment x), af_cluster (dd_deployment x)) \<in> set ns))"
proof -
  have v: "visible_detail_pairs u sx cluster namespace = ns" for sx
    using assms(1) by (simp add: visible_detail_pairs_def ns)
  note q = query_depends_on_scope [OF assms(3)] ratings_depend_on_scope [OF assms(4)]
  have "get_cve P occ1 cf es u cve cluster namespace db sx1 = get_cve P occ2 cf es u cve cluster namespace db sx2"
    using assms(1) by (simp add: get_cve_def v q get_affected_components_with_origin_def cong: option.case_cong if_cong)
  moreover have "get_cve_deployments u cve cluster namespace sx1 = get_cve_deployments u cve cluster namespace sx2"
    by (simp add: get_cve_deployments_def v q)
  moreover have "dt_contacts d = [] \<and> dt_first_system d = None \<and>
      (\<forall>x \<in> set (dt_deployments d). (af_namespace (dd_deployment x), af_cluster (dd_deployment x)) \<in> set ns)"
    if "get_cve P occ1 cf es u cve cluster namespace db sx1 = Inr d" for d
    using that assms(1) affected_in_namespaces
    by (auto simp: get_cve_Inr_iff v Let_def contact_emails_def detail_deployment_of_def)
  ultimately show ?thesis by blast
qed


text \<open>As long as a requested acceptance of a CVE exists, the newest requested one stands for the CVE in the
  detail view, even if another acceptance of the CVE is approved.\<close>

theorem detail_prefers_requested:
  assumes "get_cve P occurrence cf es u cve cluster namespace db sx = Inr d"
    and "r \<in> set (ras db)" and "ra_cve r = cve" and "ra_status r = RiskRequested"
  shows "\<exists>a. dt_acceptance d = Some a \<and> a \<in> set (ras db) \<and> ra_cve a = cve \<and> ra_status a = RiskRequested \<and>
    ra_created_at r \<le> ra_created_at a"
proof -
  let ?k = "\<lambda>r. (status_order (ra_status r), - ra_created_at r)"
  have r: "r \<in> set (active_acceptances db cve)" using assms by (simp add: active_acceptances_def)
  then obtain a as where as: "active_acceptances db cve = a # as" by (cases "active_acceptances db cve") auto
  have "sorted (map ?k (active_acceptances db cve))" by (simp add: active_acceptances_def)
  then have "?k a \<le> ?k r" using r unfolding as by auto
  moreover have "a \<in> set (active_acceptances db cve)" by (simp add: as)
  then have a: "a \<in> set (ras db)" "ra_cve a = cve" "ra_status a \<in> {RiskRequested, RiskApproved}"
    by (auto simp: active_acceptances_def)
  ultimately have "ra_status a = RiskRequested" "ra_created_at r \<le> ra_created_at a"
    using assms(4) by (auto simp: less_eq_prod_def)
  moreover have "dt_acceptance d = Some a" using assms(1) by (auto simp: get_cve_Inr_iff Let_def as)
  ultimately show ?thesis using a by blast
qed

text \<open>Only its author deletes a comment, and nothing but that comment and the audit log changes; a row of the
  escalation workspace counts as contacted afterwards exactly if another comment is linked to its escalation.\<close>

theorem delete_comment_reopens:
  assumes "delete_cve_comment u cve i db = Inr db'" and "distinct (map cc_id (cve_comments db))"
  shows "\<exists>c \<in> set (cve_comments db). cc_id c = i \<and> cc_cve c = cve \<and> cc_user c = cu_id u \<and>
    cve_comments db' = filter (\<lambda>x. x \<noteq> c) (cve_comments db) \<and>
    db'\<lparr>cve_comments := cve_comments db, audit := audit db\<rparr> = db \<and>
    (audit db' = audit db \<longleftrightarrow> cc_escalation c = None) \<and>
    current_rows db' = map (\<lambda>r. r\<lparr>ws_contacted :=
      list_ex (\<lambda>x. cc_id x \<noteq> i \<and> cc_escalation x = Some (ws_id r)) (cve_comments db)\<rparr>) (current_rows db)"
proof -
  obtain c db1 where c: "load_cve_comment cve i db = Inr c" "cc_user c = cu_id u"
    and step: "comment_deletion_log u c db = Inr db1"
    and db': "db' = db1\<lparr>cve_comments := filter (\<lambda>x. cc_id x \<noteq> i) (cve_comments db1)\<rparr>"
    using assms(1) by (auto simp: delete_cve_comment_def rbind_Inr_iff split: if_splits)
  have "filter (\<lambda>x. cc_id x = i \<and> cc_cve x = cve) (cve_comments db) = [c]"
    using c(1) by (auto simp: load_cve_comment_def rbind_Inr_iff scalar_one_or_none_Some_iff split: option.splits)
  then have "c \<in> set (filter (\<lambda>x. cc_id x = i \<and> cc_cve x = cve) (cve_comments db))" by simp
  then have in_db: "c \<in> set (cve_comments db)" "cc_id c = i" "cc_cve c = cve" by auto
  have key: "x = c" if "x \<in> set (cve_comments db)" "cc_id x = i" for x
    using inj_onD [of cc_id "set (cve_comments db)" x c] assms(2) in_db that by (simp add: distinct_map)
  obtain al where al: "db1 = db\<lparr>audit := al\<rparr>" "al = audit db \<longleftrightarrow> cc_escalation c = None"
  proof (cases "cc_escalation c")
    case None
    then have "db1 = db" using step by (simp add: comment_deletion_log_def)
    with None that [of "audit db"] show ?thesis by simp
  next
    case (Some k)
    then obtain e d where "db1 = log_action (cu_id u) e ''escalation'' (id_str k) d db"
      using step by (auto simp: comment_deletion_log_def rbind_Inr_iff)
    with Some that show ?thesis by (simp add: log_action_def)
  qed
  have cs: "cve_comments db' = filter (\<lambda>x. cc_id x \<noteq> i) (cve_comments db)"
    unfolding db' al(1) by simp
  have "filter (\<lambda>x. cc_id x \<noteq> i) (cve_comments db) = filter (\<lambda>x. x \<noteq> c) (cve_comments db)"
    by (rule filter_cong) (use key in_db(2) in blast)+
  then have others: "cve_comments db' = filter (\<lambda>x. x \<noteq> c) (cve_comments db)" unfolding cs .
  have same: "db'\<lparr>cve_comments := cve_comments db, audit := audit db\<rparr> = db" "escs db' = escs db"
    unfolding db' al(1) by simp_all
  have log: "audit db' = audit db \<longleftrightarrow> cc_escalation c = None"
    using al(2) unfolding db' al(1) by simp
  have "current_at db' = current_at db" by (simp add: fun_eq_iff current_at_def same(2))
  moreover have "ws_row_of db' e = (ws_row_of db e)\<lparr>ws_contacted :=
      list_ex (\<lambda>x. cc_id x \<noteq> i \<and> cc_escalation x = Some (ws_id (ws_row_of db e))) (cve_comments db)\<rparr>" for e
    by (auto simp: cs ws_row_of_def esc_contacted_def list_ex_iff)
  ultimately have rows: "current_rows db' = map (\<lambda>r. r\<lparr>ws_contacted :=
      list_ex (\<lambda>x. cc_id x \<noteq> i \<and> cc_escalation x = Some (ws_id r)) (cve_comments db)\<rparr>) (current_rows db)"
    by (simp add: current_rows_def same(2))
  show ?thesis by (rule bexI [OF _ in_db(1)]) (intro conjI in_db(2,3) c(2) others same(1) log rows)
qed

section \<open>Examples\<close>

text \<open>The image of the small world also runs in \<open>pay\<close>.\<close>

definition ex_two_sx :: stackrox where
  "ex_two_sx = ex_sx\<lparr>sx_containers := [ex_ct, ex_ct\<lparr>ct_deployment := ''d2''\<rparr>]\<rparr>"

definition ex_pay_row :: vrow where
  "ex_pay_row = ex_row\<lparr>vr_dep := ex_pay, vr_ct := ex_ct\<lparr>ct_deployment := ''d2''\<rparr>\<rparr>"

lemma joined_two: "joined ex_two_sx = [ex_row, ex_pay_row]"
  by (simp add: joined_def cve_rows_def cve_rows_raw_def with_scores_def effective_score_def comps_of_def
      ex_row_def ex_pay_row_def ex_two_sx_def ex_world)

lemma ex_two_scope:
  "namespace_filter [(''shop'', ''c1'')] (joined ex_sx) = namespace_filter [(''shop'', ''c1'')] (joined ex_two_sx)"
  "raw_rows ex_sx [(''shop'', ''c1'')] = raw_rows ex_two_sx [(''shop'', ''c1'')]"
  subgoal unfolding joined_ex joined_two
    by (simp add: namespace_filter_def ex_pay_row_def vr_pair_def ex_row_def ex_pay_def ex_shop_def)
  subgoal by (simp add: raw_rows_def cve_rows_raw_def ex_two_sx_def ex_world)
  done

definition ex_cf0 :: config where
  "ex_cf0 = \<lparr>cf_default_escalation_email = ''sec@x'', cf_management_email = [], cf_active_days = 30\<rparr>"


lemma ex_detail: "\<exists>d. get_cve ex_P occ ex_cf0 reset_effective_scores ex_member ''CVE-2024-1'' None None ex_db ex_sx = Inr d"
proof -
  have v: "visible_detail_pairs ex_member ex_sx None None = [(''shop'', ''c1'')]" by (simp add: visible_detail_pairs_def)
  have "cve_visible_in_namespaces ex_sx ''CVE-2024-1'' [(''shop'', ''c1'')]"
    by (simp add: cve_visible_in_namespaces_def joined_ex namespace_filter_def)
  then obtain c where "get_cve_detail ex_P ex_sx ''CVE-2024-1'' [(''shop'', ''c1'')] = Some c"
    using get_cve_detail_iff [of ex_P ex_sx] by blast
  with v show ?thesis by (simp add: get_cve_def Let_def)
qed

theorem detail_reads_only_scope_witness:
  "\<exists>d. get_cve ex_P (\<lambda>_. Some 5) ex_cf0 reset_effective_scores ex_member ''CVE-2024-1'' None None ex_db ex_two_sx = Inr d \<and>
    dt_contacts d = [] \<and> dt_first_system d = None"
  using ex_detail [of "\<lambda>_. None"]
    detail_reads_only_scope [of ex_member "[(''shop'', ''c1'')]" None None ex_sx ex_two_sx ex_P "\<lambda>_. None" ex_cf0
      reset_effective_scores "''CVE-2024-1''" ex_db "\<lambda>_. Some 5"] ex_two_scope by auto

text \<open>Two acceptances of one CVE: an approved one, and a requested one that is older.\<close>

definition ex_approved :: risk_acceptance where
  "ex_approved = \<lparr>ra_id = 1, ra_cve = ''CVE-2024-1'', ra_status = RiskApproved, ra_justification = ''ok'',
     ra_scope = \<lparr>ss_mode = Some ''all'', ss_targets = Some []\<rparr>, ra_scope_key = ''k1'', ra_expires_at = None,
     ra_created_at = 9, ra_created_by = ''u1'', ra_reviewed_by = Some ''s1'', ra_reviewed_at = Some 9, ra_assigned_to = None\<rparr>"

definition ex_requested :: risk_acceptance where
  "ex_requested = ex_approved\<lparr>ra_id := 2, ra_status := RiskRequested, ra_scope_key := ''k2'', ra_created_at := 3,
     ra_reviewed_by := None, ra_reviewed_at := None\<rparr>"

theorem detail_prefers_requested_witness:
  "\<exists>d. get_cve ex_P (\<lambda>_. None) ex_cf0 reset_effective_scores ex_member ''CVE-2024-1'' None None
      (ex_db\<lparr>ras := [ex_approved, ex_requested]\<rparr>) ex_sx = Inr d \<and>
    dt_acceptance d = Some ex_requested"
proof -
  let ?db = "ex_db\<lparr>ras := [ex_approved, ex_requested]\<rparr>"
  have v: "visible_detail_pairs ex_member ex_sx None None = [(''shop'', ''c1'')]" by (simp add: visible_detail_pairs_def)
  have "cve_visible_in_namespaces ex_sx ''CVE-2024-1'' [(''shop'', ''c1'')]"
    by (simp add: cve_visible_in_namespaces_def joined_ex namespace_filter_def)
  then obtain c where "get_cve_detail ex_P ex_sx ''CVE-2024-1'' [(''shop'', ''c1'')] = Some c"
    using get_cve_detail_iff [of ex_P ex_sx] by blast
  with v obtain d where d: "get_cve ex_P (\<lambda>_. None) ex_cf0 reset_effective_scores ex_member ''CVE-2024-1'' None None ?db ex_sx = Inr d"
    by (auto simp: get_cve_def Let_def)
  from detail_prefers_requested [OF d, of ex_requested] d show ?thesis
    by (auto simp: ex_requested_def ex_approved_def)
qed

theorem delete_comment_reopens_witness:
  "\<exists>db'. delete_cve_comment ex_member ''CVE-2024-1'' 1 (ex_db\<lparr>cve_comments := [ex_comment]\<rparr>) = Inr db' \<and>
    cve_comments db' = [] \<and> audit db' = audit ex_db"
proof -
  let ?db = "ex_db\<lparr>cve_comments := [ex_comment]\<rparr>"
  have "\<exists>db'. delete_cve_comment ex_member ''CVE-2024-1'' 1 ?db = Inr db'"
    by (simp add: delete_cve_comment_def comment_deletion_log_def load_cve_comment_def ex_comment_def ex_member_def)
  then obtain db' where d: "delete_cve_comment ex_member ''CVE-2024-1'' 1 ?db = Inr db'" by blast
  from delete_comment_reopens [OF d] d show ?thesis by (auto simp: ex_comment_def)
qed

end
