(* ===== verification/CveImages.thy ===== *)
theory CveImages
  imports CveView FixRollup
begin

text \<open>
  The pages of the CVE list and the view by image: \<open>app/routers/cves.py\<close> and \<open>app/stackrox/queries/images.py\<close>.
  Where a query joins the components only for a filter, the model always joins them: its aggregates ignore
  repeated rows. The schema admits only known feeds, so the feed predicate never raises. The lemmas show that the
  pages of the list make up the list, and that the numbers of an image are those of its own list.
\<close>

section \<open>Queries\<close>

record image_query =
  iq_search :: "string option"
  iq_severity :: "int option"
  iq_fixable :: "bool option"
  iq_cvss_min :: "num option"
  iq_epss_min :: "num option"
  iq_component :: "string option"
  iq_origin :: "string option"
  iq_image_name :: "string option"

definition scoped_rows :: "pair list option \<Rightarrow> stackrox \<Rightarrow> vrow list" where
  "scoped_rows nss sx = (case nss of None \<Rightarrow> joined sx | Some ps \<Rightarrow> namespace_filter ps (joined sx))"

definition rows_cvss :: "vrow list \<Rightarrow> num" where "rows_cvss vs = max0 (map (ic_cvss \<circ> vr_ic) vs)"

definition rows_epss :: "vrow list \<Rightarrow> num" where "rows_epss vs = max0 (map (ic_epss \<circ> vr_ic) vs)"

definition rows_fixable :: "vrow list \<Rightarrow> bool" where
  "rows_fixable vs = list_ex (\<lambda>v. coalesce False (ic_fixable (vr_ic v))) vs"

definition rows_severity :: "vrow list \<Rightarrow> int" where
  "rows_severity vs = coalesce 0 (sql_max (map (\<lambda>v. Some (ic_severity (vr_ic v))) vs))"

text \<open>The \<open>HAVING\<close> conditions that the filters of the user add.\<close>

definition image_having :: "image_query \<Rightarrow> string \<Rightarrow> vrow list \<Rightarrow> bool" where
  "image_having q cve vs \<longleftrightarrow>
     given_text (iq_search q) ilike_contains cve \<and>
     given (iq_severity q) (\<lambda>s. (=) s) (rows_severity vs) \<and>
     given (iq_fixable q) (\<lambda>b. (=) b) (rows_fixable vs) \<and>
     given (iq_cvss_min q) (\<lambda>m x. 0 < m \<longrightarrow> m \<le> x) (rows_cvss vs) \<and>
     given (iq_epss_min q) (\<lambda>m x. 0 < m \<longrightarrow> m \<le> x) (rows_epss vs) \<and>
     given_text (iq_component q) (\<lambda>c. list_ex (\<lambda>v. case vr_comp_name v of None \<Rightarrow> False | Some n \<Rightarrow> ilike_contains c n)) vs \<and>
     given_text (iq_origin q) (\<lambda>k. list_ex (\<lambda>v. origin_filter k (ic_origin (vr_ic v)) = Inr True)) vs"

record image_group =
  ig_image_name :: "string option"
  ig_image_id :: string
  ig_total :: nat
  ig_critical :: nat
  ig_high :: nat
  ig_medium :: nat
  ig_low :: nat
  ig_max_cvss :: num
  ig_max_epss :: num
  ig_fixable :: nat
  ig_deployments :: nat
  ig_namespaces :: "string list"
  ig_clusters :: "string list"

definition vr_image :: "vrow \<Rightarrow> string" where "vr_image v = ct_image_id (vr_ct v)"

definition count_cves :: "(vrow \<Rightarrow> bool) \<Rightarrow> vrow list \<Rightarrow> nat" where
  "count_cves f vs = length (dedupe (map vr_cve (filter f vs)))"

definition visible_image_cves ::
    "image_query \<Rightarrow> num \<Rightarrow> num \<Rightarrow> string set \<Rightarrow> vrow list \<Rightarrow> (string \<times> string) list" where
  "visible_image_cves q min_cvss min_epss always vs =
     map fst (filter (\<lambda>((cve, img), rs). passes min_cvss min_epss always cve (rows_cvss rs) (rows_epss rs) \<and> image_having q cve rs)
       (group_by (\<lambda>v. (vr_cve v, vr_image v)) vs))"

definition image_group_of :: "(string option \<times> string) \<times> vrow list \<Rightarrow> image_group" where
  "image_group_of g =
     (let vs = snd g; sev = (\<lambda>v. ic_severity (vr_ic v)) in
      \<lparr>ig_image_name = fst (fst g), ig_image_id = snd (fst g),
       ig_total = count_cves (\<lambda>_. True) vs,
       ig_critical = count_cves (\<lambda>v. sev v = 4) vs, ig_high = count_cves (\<lambda>v. sev v = 3) vs,
       ig_medium = count_cves (\<lambda>v. sev v = 2) vs, ig_low = count_cves (\<lambda>v. sev v \<le> 1) vs,
       ig_max_cvss = rows_cvss vs, ig_max_epss = rows_epss vs,
       ig_fixable = count_cves (\<lambda>v. coalesce False (ic_fixable (vr_ic v))) vs,
       ig_deployments = length (dedupe (map (dp_id \<circ> vr_dep) vs)),
       ig_namespaces = sorted_set (map (dp_namespace \<circ> vr_dep) vs),
       ig_clusters = sorted_set (map (dp_cluster \<circ> vr_dep) vs)\<rparr>)"

definition get_cves_grouped_by_image ::
    "stackrox \<Rightarrow> pair list option \<Rightarrow> num \<Rightarrow> num \<Rightarrow> string set \<Rightarrow> image_query \<Rightarrow> image_group list" where
  "get_cves_grouped_by_image sx nss min_cvss min_epss always q =
     (if nss = Some [] then []
      else let vs = scoped_rows nss sx; vis = visible_image_cves q min_cvss min_epss always vs in
        sort_key (\<lambda>g. - int (ig_total g))
          (map image_group_of (group_by (\<lambda>v. (ct_image_name (vr_ct v), vr_image v))
            (filter (\<lambda>v. (vr_cve v, vr_image v) \<in> set vis \<and>
                (truthy (iq_image_name q) \<longrightarrow> ct_image_name (vr_ct v) = iq_image_name q)) vs))))"

definition get_cves_for_image ::
    "pep440 \<Rightarrow> stackrox \<Rightarrow> string \<Rightarrow> pair list option \<Rightarrow> num \<Rightarrow> num \<Rightarrow> string set \<Rightarrow> image_query \<Rightarrow> cve_data list" where
  "get_cves_for_image P sx img nss min_cvss min_epss always q =
     (if nss = Some [] then []
      else let vs = scoped_rows nss sx;
             vis = map fst (filter (\<lambda>(cve, rs). passes min_cvss min_epss always cve (rows_cvss rs) (rows_epss rs))
               (group_by vr_cve vs)) in
        sort_key (\<lambda>c. (- cd_severity c, - cd_cvss c))
          (map (cve_data_of P) (filter (\<lambda>(cve, rs). image_having q cve rs)
            (group_by vr_cve (filter (\<lambda>v. vr_cve v \<in> set vis \<and> vr_image v = img) vs)))))"

text \<open>How many CVEs a pair of thresholds leaves visible.\<close>

definition get_threshold_preview :: "stackrox \<Rightarrow> num \<Rightarrow> num \<Rightarrow> nat \<times> nat \<times> nat" where
  "get_threshold_preview sx min_cvss min_epss =
     (let total = length (dedupe (map vr_cve (joined sx)));
          visible = length (filter (\<lambda>(cve, rs). min_cvss \<le> rows_cvss rs \<and> min_epss \<le> rows_epss rs)
            (group_by vr_cve (joined sx)))
      in (total, visible, total - visible))"

section \<open>Handlers\<close>

definition list_cves ::
    "pep440 \<Rightarrow> current_user \<Rightarrow> app_db \<Rightarrow> stackrox \<Rightarrow> datetime \<Rightarrow> int \<Rightarrow> int \<Rightarrow> cve_query \<Rightarrow> cve_item list \<times> nat" where
  "list_cves P u db sx now page sz q =
     (let items = fetch_filtered_cves P u db sx now q in (page_slice page sz items, length items))"

definition list_component_fixes ::
    "pep440 \<Rightarrow> current_user \<Rightarrow> app_db \<Rightarrow> stackrox \<Rightarrow> datetime \<Rightarrow> int \<Rightarrow> int \<Rightarrow> string \<Rightarrow> bool \<Rightarrow> string option \<Rightarrow> bool \<Rightarrow>
     cve_query \<Rightarrow> rollup_page" where
  "list_component_fixes P u db sx now page sz by desc img fixable_only q =
     build_fix_rollup P u db sx now page sz by desc img fixable_only q"

text \<open>The namespaces of a request: \<open>None\<close> is the early return, \<open>Some None\<close> no restriction.\<close>

definition image_scope :: "current_user \<Rightarrow> stackrox \<Rightarrow> string option \<Rightarrow> string option \<Rightarrow> pair list option option" where
  "image_scope u sx cluster namespace =
     (if can_see_all_namespaces u
      then Some (if cluster \<noteq> None \<or> namespace \<noteq> None
        then Some (narrow_namespaces (list_namespaces sx) cluster namespace) else None)
      else if \<not> has_namespaces u then None
      else Some (Some (narrow_namespaces (cu_namespaces u) cluster namespace)))"

definition list_cves_by_image ::
    "current_user \<Rightarrow> app_db \<Rightarrow> stackrox \<Rightarrow> string option \<Rightarrow> string option \<Rightarrow> bool \<Rightarrow> image_query \<Rightarrow> image_group list" where
  "list_cves_by_image u db sx cluster namespace ignore q =
     (let (mc, me) = resolve_view_thresholds u (gsettings db) ignore in
      case image_scope u sx cluster namespace of None \<Rightarrow> []
      | Some nss \<Rightarrow> map (\<lambda>g. g\<lparr>ig_image_name := Some (if truthy (ig_image_name g) then the (ig_image_name g) else ''unknown'')\<rparr>)
          (get_cves_grouped_by_image sx nss mc me (always_show db) q))"

definition list_cves_for_image ::
    "pep440 \<Rightarrow> current_user \<Rightarrow> app_db \<Rightarrow> stackrox \<Rightarrow> string \<Rightarrow> string option \<Rightarrow> string option \<Rightarrow> bool \<Rightarrow> image_query \<Rightarrow>
     cve_data list" where
  "list_cves_for_image P u db sx img cluster namespace ignore q =
     (let (mc, me) = resolve_view_thresholds u (gsettings db) ignore in
      case image_scope u sx cluster namespace of None \<Rightarrow> []
      | Some nss \<Rightarrow> get_cves_for_image P sx img nss mc me (always_show db) q)"

section \<open>The CVEs of an image\<close>

definition image_rows :: "string \<Rightarrow> string \<Rightarrow> vrow list \<Rightarrow> vrow list" where
  "image_rows c img vs = filter (\<lambda>v. vr_cve v = c \<and> vr_image v = img) vs"

lemma in_visible_image_cves:
  "(c, img) \<in> set (visible_image_cves q mc me w vs) \<longleftrightarrow>
    image_rows c img vs \<noteq> [] \<and>
    passes mc me w c (rows_cvss (image_rows c img vs)) (rows_epss (image_rows c img vs)) \<and>
    image_having q c (image_rows c img vs)"
proof -
  have "(c, img) \<in> (\<lambda>v. (vr_cve v, vr_image v)) ` set vs \<longleftrightarrow> image_rows c img vs \<noteq> []"
    by (auto simp: image_rows_def filter_empty_conv)
  then show ?thesis
    unfolding visible_image_cves_def in_map_fst_filter in_group_by by (simp add: image_rows_def)
qed

lemma set_for_image:
  assumes "nss \<noteq> Some []"
  shows "c \<in> cd_cve ` set (get_cves_for_image P sx img nss mc me w q) \<longleftrightarrow>
    (let vs = scoped_rows nss sx; all = filter (\<lambda>v. vr_cve v = c) vs in
     passes mc me w c (rows_cvss all) (rows_epss all) \<and> image_rows c img vs \<noteq> [] \<and>
     image_having q c (image_rows c img vs))"
proof -
  let ?vs = "scoped_rows nss sx"
  let ?vis = "map fst (filter (\<lambda>(cve, rs). passes mc me w cve (rows_cvss rs) (rows_epss rs)) (group_by vr_cve ?vs))"
  let ?in = "filter (\<lambda>v. vr_cve v \<in> set ?vis \<and> vr_image v = img) ?vs"
  have vis: "c \<in> set ?vis \<longleftrightarrow> c \<in> vr_cve ` set ?vs \<and>
      passes mc me w c (rows_cvss (filter (\<lambda>v. vr_cve v = c) ?vs)) (rows_epss (filter (\<lambda>v. vr_cve v = c) ?vs))" for c
    unfolding in_map_fst_filter in_group_by by simp
  have rows: "c \<in> set ?vis \<Longrightarrow> filter (\<lambda>v. vr_cve v = c) ?in = image_rows c img ?vs"
    by (auto simp: image_rows_def intro: filter_cong)
  have "c \<in> cd_cve ` set (get_cves_for_image P sx img nss mc me w q) \<longleftrightarrow>
      (c, filter (\<lambda>v. vr_cve v = c) ?in) \<in> set (group_by vr_cve ?in) \<and> image_having q c (filter (\<lambda>v. vr_cve v = c) ?in)"
    using assms by (force simp: get_cves_for_image_def Let_def in_group_by image_iff)
  also have "\<dots> \<longleftrightarrow> c \<in> set ?vis \<and> image_rows c img ?vs \<noteq> [] \<and> image_having q c (image_rows c img ?vs)"
  proof (cases "c \<in> set ?vis")
    case True
    have "c \<in> vr_cve ` set ?in \<longleftrightarrow> filter (\<lambda>v. vr_cve v = c) ?in \<noteq> []" by (auto simp: filter_empty_conv)
    then show ?thesis using True unfolding in_group_by rows [OF True] by simp
  next
    case False
    then have "c \<notin> vr_cve ` set ?in" by auto
    with False show ?thesis unfolding in_group_by by simp
  qed
  also have "\<dots> \<longleftrightarrow> passes mc me w c (rows_cvss (filter (\<lambda>v. vr_cve v = c) ?vs)) (rows_epss (filter (\<lambda>v. vr_cve v = c) ?vs)) \<and>
      image_rows c img ?vs \<noteq> [] \<and> image_having q c (image_rows c img ?vs)"
    unfolding vis by (auto simp: image_rows_def filter_empty_conv)
  finally show ?thesis by (simp only: Let_def)
qed

lemma distinct_for_image: "distinct (map cd_cve (get_cves_for_image P sx img nss mc me w q))"
proof -
  have "distinct (map fst (filter f (group_by vr_cve vs)))" for f and vs :: "vrow list"
    using distinct_map_filter [of fst "group_by vr_cve vs" f] by (simp add: fst_group_by)
  then have "distinct (map cd_cve (map (cve_data_of P) (filter f (group_by vr_cve vs))))" for f vs
    by (simp add: comp_def)
  then show ?thesis unfolding get_cves_for_image_def Let_def
    by (auto simp only: distinct_map_sort_key if_split list.map distinct.simps split: if_split)
qed

text \<open>With one score per CVE the rows of an image give the score of the CVE.\<close>

lemma rows_scores_uniform:
  assumes "\<And>v v'. v \<in> set vs \<Longrightarrow> v' \<in> set vs \<Longrightarrow> vr_cve v = vr_cve v' \<Longrightarrow>
      ic_cvss (vr_ic v) = ic_cvss (vr_ic v') \<and> ic_epss (vr_ic v) = ic_epss (vr_ic v')"
    and "image_rows c img vs \<noteq> []"
  shows "rows_cvss (image_rows c img vs) = rows_cvss (filter (\<lambda>v. vr_cve v = c) vs) \<and>
    rows_epss (image_rows c img vs) = rows_epss (filter (\<lambda>v. vr_cve v = c) vs)"
proof -
  obtain v0 where v0: "v0 \<in> set vs" "vr_cve v0 = c" "vr_image v0 = img"
    using assms(2) by (auto simp: image_rows_def filter_empty_conv)
  have const: "max0 (map (f \<circ> vr_ic) rs) = coalesce 0 (f (vr_ic v0))"
    if "rs \<noteq> []" "\<And>v. v \<in> set rs \<Longrightarrow> f (vr_ic v) = f (vr_ic v0)" for f rs
  proof -
    have "sql_max (map (\<lambda>v. Some (coalesce 0 (f (vr_ic v)))) rs) = Some (coalesce 0 (f (vr_ic v0)))"
      using that by (intro sql_max_const) auto
    then show ?thesis by (simp add: max0_def comp_def)
  qed
  have sub: "set (image_rows c img vs) \<subseteq> {v \<in> set vs. vr_cve v = c}" by (auto simp: image_rows_def)
  have "filter (\<lambda>v. vr_cve v = c) vs \<noteq> []" using v0 by (auto simp: filter_empty_conv)
  then have "rows_cvss rs = coalesce 0 (ic_cvss (vr_ic v0)) \<and> rows_epss rs = coalesce 0 (ic_epss (vr_ic v0))"
    if "rs \<noteq> []" "set rs \<subseteq> {v \<in> set vs. vr_cve v = c}" for rs
  proof -
    have "ic_cvss (vr_ic v) = ic_cvss (vr_ic v0) \<and> ic_epss (vr_ic v) = ic_epss (vr_ic v0)" if "v \<in> set rs" for v
      using assms(1) [of v v0] v0 that \<open>set rs \<subseteq> _\<close> by auto
    then show ?thesis unfolding rows_cvss_def rows_epss_def using const \<open>rs \<noteq> []\<close> by metis
  qed
  note eq = this
  have "filter (\<lambda>v. vr_cve v = c) vs \<noteq> []" using v0 by (auto simp: filter_empty_conv)
  from eq [OF assms(2) sub] eq [OF this] show ?thesis by simp
qed

lemma in_image_lists:
  assumes "\<And>v v'. v \<in> set (scoped_rows nss sx) \<Longrightarrow> v' \<in> set (scoped_rows nss sx) \<Longrightarrow> vr_cve v = vr_cve v' \<Longrightarrow>
      ic_cvss (vr_ic v) = ic_cvss (vr_ic v') \<and> ic_epss (vr_ic v) = ic_epss (vr_ic v')"
    and ne: "nss \<noteq> Some []"
  shows "(c, img) \<in> set (visible_image_cves q mc me w (scoped_rows nss sx)) \<longleftrightarrow>
    c \<in> cd_cve ` set (get_cves_for_image P sx img nss mc me w q)"
proof (cases "image_rows c img (scoped_rows nss sx) = []")
  case False
  show ?thesis
    using rows_scores_uniform [OF assms(1) False]
    unfolding set_for_image [OF ne] in_visible_image_cves Let_def by (simp only: conj_ac)
next
  case True
  then show ?thesis unfolding set_for_image [OF ne] in_visible_image_cves Let_def by simp
qed

lemma image_scope_visible:
  assumes nss: "image_scope u sx cluster namespace = Some nss" and v: "v \<in> set (scoped_rows nss sx)"
  shows "vr_pair v \<in> set (visible_pairs (list_namespaces sx) u)"
proof (cases nss)
  case None
  then have "can_see_all_namespaces u" using nss by (auto simp: image_scope_def split: if_splits)
  then show ?thesis using v None joined_pair_known by (auto simp: visible_pairs_def scoped_rows_def)
next
  case (Some ps)
  then have "vr_pair v \<in> set ps" using v by (simp add: scoped_rows_def namespace_filter_def)
  with nss Some show ?thesis
    by (auto simp: image_scope_def visible_pairs_def set_narrow_namespaces split: if_splits)
qed

section \<open>Properties\<close>


text \<open>Reading the pages of the CVE list one after the other gives the whole list, in its order and without repetition.\<close>

theorem pages_make_up_the_list:
  assumes "0 < sz" and "int (length (fetch_filtered_cves P u db sx now q)) \<le> int n * sz"
  shows "concat (map (\<lambda>i. fst (list_cves P u db sx now (int i + 1) sz q)) [0..<n]) = fetch_filtered_cves P u db sx now q \<and>
    (\<forall>i. snd (list_cves P u db sx now (int i + 1) sz q) = length (fetch_filtered_cves P u db sx now q)) \<and>
    distinct (map ci_cve (concat (map (\<lambda>i. fst (list_cves P u db sx now (int i + 1) sz q)) [0..<n])))"
proof -
  let ?xs = "fetch_filtered_cves P u db sx now q"
  have page: "page_slice (int i + 1) sz xs = take (nat sz) (drop (i * nat sz) xs)" for i and xs :: "cve_item list"
    using assms(1) by (simp add: page_slice_def nat_mult_distrib)
  have "concat (map (\<lambda>i. fst (list_cves P u db sx now (int i + 1) sz q)) [0..<n]) = take (n * nat sz) ?xs"
    by (simp add: list_cves_def page Let_def concat_pages)
  also have "n * nat sz \<ge> length ?xs"
    using assms by (metis int_nat_eq less_imp_le nat_0_le of_nat_le_iff of_nat_mult)
  then have "take (n * nat sz) ?xs = ?xs" by simp
  finally show ?thesis using fetch_distinct [of P u db sx now q] by (simp add: list_cves_def Let_def)
qed

section \<open>Examples\<close>

definition ex_no_filter :: image_query where
  "ex_no_filter = \<lparr>iq_search = None, iq_severity = None, iq_fixable = None, iq_cvss_min = None, iq_epss_min = None,
     iq_component = None, iq_origin = None, iq_image_name = None\<rparr>"

lemma ex_image_visible: "(''CVE-2024-1'', ''i1'') \<in> set (visible_image_cves ex_no_filter 7 0 w [ex_row])"
  unfolding in_visible_image_cves
  by (simp add: image_rows_def image_having_def ex_no_filter_def passes_def rows_cvss_def rows_epss_def max0_def
      sql_max_def) (simp add: ex_row_def ex_ic_def ex_ct_def vr_image_def)

lemma ex_by_image: "\<exists>g. g \<in> set (list_cves_by_image ex_member ex_db ex_sx None None False ex_no_filter) \<and> ig_image_id g = ''i1''"
proof -
  have "vr_image ex_row = ''i1''" "\<not> truthy (iq_image_name ex_no_filter)"
    by (simp_all add: vr_image_def ex_row_def ex_ct_def ex_no_filter_def)
  then show ?thesis using ex_image_visible
    by (simp add: list_cves_by_image_def resolve_view_thresholds_def image_scope_def get_cves_grouped_by_image_def
        scoped_rows_def namespace_filter_def joined_ex group_by_def image_group_of_def Let_def ex_settings_def)
qed


theorem pages_make_up_the_list_witness:
  "concat (map (\<lambda>i. fst (list_cves ex_P ex_member ex_db ex_sx (timedelta_days 2) (int i + 1) 50 ex_query)) [0..<1]) =
    fetch_filtered_cves ex_P ex_member ex_db ex_sx (timedelta_days 2) ex_query"
  using pages_make_up_the_list [of 50 ex_P ex_member ex_db ex_sx "timedelta_days 2" ex_query 1]
  by (simp add: ex_fetch)

end
