(* ===== verification/Inbox.thy ===== *)
theory Inbox
  imports Notifications Snapshots Examples
begin

text \<open>
  What a signed-in user does with the own notifications and preferences: \<open>app/routers/notifications.py\<close> and
  \<open>app/routers/preferences.py\<close>. A response holds the row and the parameters that the texts are rendered with; the
  rendering is left out. \<open>ORDER BY created_at DESC\<close> leaves rows of the same time in the order of the table, which
  SQL leaves open. The lemmas show that a user reaches only the own rows, that no namespace outside the current access
  is named, and that the counter and the stored preferences follow the requests.
\<close>

section \<open>Notifications\<close>

definition notif_visible_scope :: "notification \<Rightarrow> current_user \<Rightarrow> pair list option" where
  "notif_visible_scope n u =
     (case nt_scope n of None \<Rightarrow> None
      | Some ps \<Rightarrow> Some (if can_see_all_namespaces u then ps else filter (\<lambda>p. p \<in> set (cu_namespaces u)) ps))"

fun join_with :: "string \<Rightarrow> string list \<Rightarrow> string" where
  "join_with sep [] = []"
| "join_with sep [x] = x"
| "join_with sep (x # y # ys) = x @ sep @ join_with sep (y # ys)"

definition namespace_label :: "pair list \<Rightarrow> string" where
  "namespace_label ps =
     join_with '', '' (map (\<lambda>(ns, cl). cl @ ''/'' @ ns) (sort_key (\<lambda>(ns, cl). (cl, ns)) ps))"

record notification_view =
  nv_row :: notification
  nv_params :: "(string \<times> string) list"

definition notif_response :: "notification \<Rightarrow> current_user \<Rightarrow> notification_view" where
  "notif_response n u =
     \<lparr>nv_row = n,
      nv_params = (case notif_visible_scope n u of None \<Rightarrow> nt_params n
        | Some ps \<Rightarrow> AList.update ''namespaces'' (namespace_label ps) (nt_params n))\<rparr>"

definition list_limit :: nat where "list_limit = 50"
definition list_scan_limit :: nat where "list_scan_limit = 200"

definition notif_visible_to :: "notification \<Rightarrow> current_user \<Rightarrow> bool" where
  "notif_visible_to n u =
     (case notif_visible_scope n u of None \<Rightarrow> True | Some ps \<Rightarrow> 0 < length ps)"

definition list_notifications :: "current_user \<Rightarrow> app_db \<Rightarrow> notification_view list" where
  "list_notifications u db =
     (let rows = take list_scan_limit (sort_key (\<lambda>n. - nt_created n)
            (filter (\<lambda>n. nt_user n = cu_id u) (notifs db)))
      in map (\<lambda>n. notif_response n u) (take list_limit (filter (\<lambda>n. notif_visible_to n u) rows)))"

definition unread_count :: "current_user \<Rightarrow> app_db \<Rightarrow> nat" where
  "unread_count u db =
     length (filter (\<lambda>n. notif_visible_to n u) (filter (\<lambda>n. nt_user n = cu_id u \<and> \<not> nt_read n) (notifs db)))"

definition mark_read :: "current_user \<Rightarrow> nat \<Rightarrow> app_db \<Rightarrow> (app_db \<times> notification_view) result" where
  "mark_read u i db =
     rbind (scalar_one_or_none (filter (\<lambda>n. nt_id n = i \<and> nt_user n = cu_id u) (notifs db))) (\<lambda>x.
       case x of None \<Rightarrow> Inl (ApiError 404 ''not_found'')
       | Some n \<Rightarrow> if \<not> notif_visible_to n u then Inl (ApiError 404 ''not_found'')
           else Inr (db\<lparr>notifs := map (\<lambda>m. if nt_id m = i then m\<lparr>nt_read := True\<rparr> else m) (notifs db)\<rparr>,
                     notif_response (n\<lparr>nt_read := True\<rparr>) u))"

definition mark_all_read :: "current_user \<Rightarrow> app_db \<Rightarrow> app_db" where
  "mark_all_read u db =
     db\<lparr>notifs := map (\<lambda>n. if nt_user n = cu_id u \<and> \<not> nt_read n then n\<lparr>nt_read := True\<rparr> else n) (notifs db)\<rparr>"

definition delete_notification :: "current_user \<Rightarrow> nat \<Rightarrow> app_db \<Rightarrow> app_db" where
  "delete_notification u i db =
     db\<lparr>notifs := filter (\<lambda>n. \<not> (nt_id n = i \<and> nt_user n = cu_id u)) (notifs db)\<rparr>"

definition clear_notifications :: "current_user \<Rightarrow> app_db \<Rightarrow> app_db" where
  "clear_notifications u db = db\<lparr>notifs := filter (\<lambda>n. nt_user n \<noteq> cu_id u) (notifs db)\<rparr>"

section \<open>Preferences\<close>

record preferences_response =
  pf_items :: "effective_preference list"
  pf_team_active :: bool

definition preferences_response_of :: "config \<Rightarrow> string \<Rightarrow> app_db \<Rightarrow> preferences_response result" where
  "preferences_response_of cf uid db =
     rbind (get_preferences db uid) (\<lambda>items.
       Inr \<lparr>pf_items = items,
            pf_team_active = (case snapshot_of db uid of None \<Rightarrow> False
              | Some s \<Rightarrow> db_now db - timedelta_days (cf_active_days cf) \<le> sn_last_seen s)\<rparr>)"

definition get_my_preferences :: "config \<Rightarrow> current_user \<Rightarrow> app_db \<Rightarrow> preferences_response result" where
  "get_my_preferences cf u db = preferences_response_of cf (cu_id u) db"

definition update_my_preferences ::
    "config \<Rightarrow> current_user \<Rightarrow> effective_preference list \<Rightarrow> app_db \<Rightarrow> (app_db \<times> preferences_response) result" where
  "update_my_preferences cf u items db =
     (if filter (\<lambda>i. map_of categories (ep_category i) = None) items \<noteq> []
      then Inl (ApiError 400 ''notification_category_unknown'')
      else rbind (set_preferences (cu_id u) items db) (\<lambda>db1.
        let db2 = log_action (cu_id u) ''notification_preferences_updated'' ''user'' (cu_id u)
              [(''categories'', Some (join_with '', '' (sort (map ep_category items))))] db1
        in rbind (preferences_response_of cf (cu_id u) db2) (\<lambda>r. Inr (db2, r))))"

section \<open>A session of requests\<close>

datatype inbox_request = MarkRead nat | MarkAllRead | DeleteOne nat | ClearAll

text \<open>An error commits nothing.\<close>

fun serve_inbox :: "current_user \<Rightarrow> inbox_request \<Rightarrow> app_db \<Rightarrow> app_db" where
  "serve_inbox u (MarkRead i) db = (case mark_read u i db of Inl e \<Rightarrow> db | Inr (db', _) \<Rightarrow> db')"
| "serve_inbox u MarkAllRead db = mark_all_read u db"
| "serve_inbox u (DeleteOne i) db = delete_notification u i db"
| "serve_inbox u ClearAll db = clear_notifications u db"

definition unread_row :: "current_user \<Rightarrow> notification \<Rightarrow> bool" where
  "unread_row u n \<longleftrightarrow> nt_user n = cu_id u \<and> \<not> nt_read n \<and> notif_visible_to n u"

lemma unread_count_rows: "unread_count u db = length (filter (unread_row u) (notifs db))"
  unfolding unread_count_def filter_filter unread_row_def by (simp only: conj_ac)

lemma mark_read_Inr:
  assumes "mark_read u i db = Inr (db', v)" and "distinct (map nt_id (notifs db))"
  obtains n where "n \<in> set (notifs db)" "nt_id n = i" "nt_user n = cu_id u" "notif_visible_to n u"
    "v = notif_response (n\<lparr>nt_read := True\<rparr>) u"
    "db' = db\<lparr>notifs := map (\<lambda>m. if m = n then n\<lparr>nt_read := True\<rparr> else m) (notifs db)\<rparr>"
proof -
  from assms(1) obtain n where f: "filter (\<lambda>n. nt_id n = i \<and> nt_user n = cu_id u) (notifs db) = [n]"
    and rest: "notif_visible_to n u" "v = notif_response (n\<lparr>nt_read := True\<rparr>) u"
      "db' = db\<lparr>notifs := map (\<lambda>m. if nt_id m = i then m\<lparr>nt_read := True\<rparr> else m) (notifs db)\<rparr>"
    unfolding mark_read_def handler_Inr
    by (auto simp: scalar_one_or_none_Some_iff split: if_splits)
  have "n \<in> set (filter (\<lambda>n. nt_id n = i \<and> nt_user n = cu_id u) (notifs db))" by (simp add: f)
  then have n: "n \<in> set (notifs db)" "nt_id n = i" "nt_user n = cu_id u" by auto
  have "m = n" if "m \<in> set (notifs db)" "nt_id m = i" for m
    using assms(2) n that by (auto simp: distinct_map dest: inj_onD)
  then have "\<forall>m \<in> set (notifs db). nt_id m = i \<longleftrightarrow> m = n" using n(2) by blast
  then have "map (\<lambda>m. if nt_id m = i then m\<lparr>nt_read := True\<rparr> else m) (notifs db) =
      map (\<lambda>m. if m = n then n\<lparr>nt_read := True\<rparr> else m) (notifs db)"
    by (simp cong: map_cong)
  with rest(3) have "db' = db\<lparr>notifs := map (\<lambda>m. if m = n then n\<lparr>nt_read := True\<rparr> else m) (notifs db)\<rparr>" by simp
  with n rest(1,2) show ?thesis by (rule that)
qed

lemma mark_frame:
  assumes "\<And>m. nt_id (f m) = nt_id m" and "\<And>m. nt_user (f m) = nt_user m" and "\<And>m. nt_user m \<noteq> cu_id u \<Longrightarrow> f m = m"
  shows "subseq (map nt_id (map f ms)) (map nt_id ms) \<and>
    filter (\<lambda>m. nt_user m \<noteq> cu_id u) (map f ms) = filter (\<lambda>m. nt_user m \<noteq> cu_id u) ms"
  using assms by (induction ms) auto

lemma serve_inbox_frame:
  assumes "distinct (map nt_id (notifs db))"
  shows "\<exists>ns. serve_inbox u r db = db\<lparr>notifs := ns\<rparr> \<and> subseq (map nt_id ns) (map nt_id (notifs db)) \<and>
    filter (\<lambda>n. nt_user n \<noteq> cu_id u) ns = filter (\<lambda>n. nt_user n \<noteq> cu_id u) (notifs db)"
proof (cases r)
  case (MarkRead i)
  show ?thesis
  proof (cases "mark_read u i db")
    case (Inl e)
    with MarkRead show ?thesis by (intro exI [of _ "notifs db"]) simp
  next
    case (Inr p)
    then have "mark_read u i db = Inr (fst p, snd p)" by simp
    then obtain n where "n \<in> set (notifs db)" "nt_id n = i" and n: "nt_user n = cu_id u" and "notif_visible_to n u"
      "snd p = notif_response (n\<lparr>nt_read := True\<rparr>) u"
      and db': "fst p = db\<lparr>notifs := map (\<lambda>m. if m = n then n\<lparr>nt_read := True\<rparr> else m) (notifs db)\<rparr>"
      by (rule mark_read_Inr [OF _ assms])
    let ?ns = "map (\<lambda>m. if m = n then n\<lparr>nt_read := True\<rparr> else m) (notifs db)"
    have "subseq (map nt_id ?ns) (map nt_id (notifs db)) \<and>
      filter (\<lambda>m. nt_user m \<noteq> cu_id u) ?ns = filter (\<lambda>m. nt_user m \<noteq> cu_id u) (notifs db)"
      using n by (intro mark_frame) auto
    moreover have "serve_inbox u r db = db\<lparr>notifs := ?ns\<rparr>" using MarkRead Inr db' by (cases p) simp
    ultimately show ?thesis by blast
  qed
next
  case MarkAllRead
  let ?f = "\<lambda>n. if nt_user n = cu_id u \<and> \<not> nt_read n then n\<lparr>nt_read := True\<rparr> else n"
  have "subseq (map nt_id (map ?f (notifs db))) (map nt_id (notifs db)) \<and>
      filter (\<lambda>n. nt_user n \<noteq> cu_id u) (map ?f (notifs db)) = filter (\<lambda>n. nt_user n \<noteq> cu_id u) (notifs db)"
    by (intro mark_frame) auto
  moreover have "serve_inbox u r db = db\<lparr>notifs := map ?f (notifs db)\<rparr>" using MarkAllRead by (simp add: mark_all_read_def)
  ultimately show ?thesis by blast
next
  case (DeleteOne i)
  let ?ns = "filter (\<lambda>n. \<not> (nt_id n = i \<and> nt_user n = cu_id u)) (notifs db)"
  have "filter (\<lambda>n. nt_user n \<noteq> cu_id u) (filter (\<lambda>n. \<not> (nt_id n = i \<and> nt_user n = cu_id u)) ms) =
      filter (\<lambda>n. nt_user n \<noteq> cu_id u) ms" for ms
    by (induction ms) auto
  moreover have "subseq (map nt_id ?ns) (map nt_id (notifs db))" by (intro subseq_map) simp
  moreover have "serve_inbox u r db = db\<lparr>notifs := ?ns\<rparr>" using DeleteOne by (simp only: serve_inbox.simps delete_notification_def)
  ultimately show ?thesis by blast
next
  case ClearAll
  let ?ns = "filter (\<lambda>n. nt_user n \<noteq> cu_id u) (notifs db)"
  have "subseq (map nt_id ?ns) (map nt_id (notifs db))" by (intro subseq_map) simp
  moreover have "serve_inbox u r db = db\<lparr>notifs := ?ns\<rparr>" using ClearAll by (simp only: serve_inbox.simps clear_notifications_def)
  ultimately show ?thesis by (intro exI [of _ ?ns]) simp
qed

lemma serve_all_frame:
  assumes "distinct (map nt_id (notifs db))"
  shows "\<exists>ns. fold (serve_inbox u) rs db = db\<lparr>notifs := ns\<rparr> \<and> distinct (map nt_id ns) \<and>
    filter (\<lambda>n. nt_user n \<noteq> cu_id u) ns = filter (\<lambda>n. nt_user n \<noteq> cu_id u) (notifs db)"
  using assms
proof (induction rs arbitrary: db)
  case Nil
  then show ?case by (intro exI [of _ "notifs db"]) simp
next
  case (Cons r rs)
  from serve_inbox_frame [OF Cons.prems, of u r] obtain ns where ns: "serve_inbox u r db = db\<lparr>notifs := ns\<rparr>"
    "subseq (map nt_id ns) (map nt_id (notifs db))"
    "filter (\<lambda>n. nt_user n \<noteq> cu_id u) ns = filter (\<lambda>n. nt_user n \<noteq> cu_id u) (notifs db)" by blast
  have "distinct (map nt_id (notifs (db\<lparr>notifs := ns\<rparr>)))" using subseq_distinct [OF ns(2) Cons.prems] by simp
  from Cons.IH [OF this] show ?case using ns by auto
qed

definition may_see_pair :: "current_user \<Rightarrow> pair \<Rightarrow> bool" where
  "may_see_pair u p \<longleftrightarrow> can_see_all_namespaces u \<or> p \<in> set (cu_namespaces u)"

lemma notif_visible_scope_pairs: "notif_visible_scope n u = map_option (filter (may_see_pair u)) (nt_scope n)"
  by (cases "nt_scope n") (auto simp: notif_visible_scope_def may_see_pair_def [abs_def])

lemma list_notifications_in:
  assumes "v \<in> set (list_notifications u db)"
  shows "nv_row v \<in> set (notifs db) \<and> nt_user (nv_row v) = cu_id u \<and>
    (\<forall>ps. nt_scope (nv_row v) = Some ps \<longrightarrow> list_ex (may_see_pair u) ps \<and>
      map_of (nv_params v) ''namespaces'' = Some (namespace_label (filter (may_see_pair u) ps)))"
proof -
  obtain n where n: "v = notif_response n u" "notif_visible_to n u" "n \<in> set (notifs db)" "nt_user n = cu_id u"
    using assms by (auto simp: list_notifications_def dest!: in_set_takeD)
  have "list_ex (may_see_pair u) ps" if "nt_scope n = Some ps" for ps
    using n(2) that by (simp add: notif_visible_to_def notif_visible_scope_pairs list_ex_iff filter_empty_conv)
  then show ?thesis using n by (auto simp: notif_response_def notif_visible_scope_pairs update_conv')
qed

section \<open>Properties\<close>


lemma length_filter_mark:
  assumes "distinct ns" and "n \<in> set ns" and "\<not> f (n\<lparr>nt_read := True\<rparr>)"
  shows "length (filter f (map (\<lambda>m. if m = n then n\<lparr>nt_read := True\<rparr> else m) ns)) =
    length (filter f ns) - (if f n then 1 else 0)"
  using assms(1,2)
proof (induction ns)
  case (Cons m ns)
  show ?case
  proof (cases "m = n")
    case True
    then have "map (\<lambda>m. if m = n then n\<lparr>nt_read := True\<rparr> else m) ns = ns"
      using Cons.prems by (intro map_idI) auto
    with True assms(3) show ?thesis by simp
  next
    case False
    have "f n \<Longrightarrow> n \<in> set ns \<Longrightarrow> 0 < length (filter f ns)" by (auto simp: filter_empty_conv)
    with False Cons show ?thesis by auto
  qed
qed simp

text \<open>The unread counter follows the requests: reading a notification lowers it by one if the notification was
  unread, reading all or clearing brings it to zero, and what is hidden from the user is answered like a missing row.\<close>

theorem unread_count_tracks:
  assumes "distinct (map nt_id (notifs db))" and "n \<in> set (notifs db)" and "nt_user n = cu_id u"
  shows "(if notif_visible_to n u
     then \<exists>db' v. mark_read u (nt_id n) db = Inr (db', v) \<and>
       unread_count u db' = unread_count u db - (if nt_read n then 0 else 1) \<and> nt_read (nv_row v)
     else mark_read u (nt_id n) db = Inl (ApiError 404 ''not_found'') \<and>
       nt_id n \<notin> nt_id ` nv_row ` set (list_notifications u db)) \<and>
    unread_count u (mark_all_read u db) = 0 \<and> unread_count u (clear_notifications u db) = 0 \<and>
    list_notifications u (clear_notifications u db) = []"
proof -
  have "distinct (map nt_id (filter (\<lambda>m. nt_user m = cu_id u) (notifs db)))" using assms(1) by (rule distinct_map_filter)
  then have "filter (\<lambda>m. nt_id m = nt_id n) (filter (\<lambda>m. nt_user m = cu_id u) (notifs db)) = [n]"
    using assms(2,3) by (intro filter_key_single) simp_all
  then have f: "filter (\<lambda>m. nt_id m = nt_id n \<and> nt_user m = cu_id u) (notifs db) = [n]"
    by (simp add: conj_commute)
  have first: "if notif_visible_to n u
     then \<exists>db' v. mark_read u (nt_id n) db = Inr (db', v) \<and>
       unread_count u db' = unread_count u db - (if nt_read n then 0 else 1) \<and> nt_read (nv_row v)
     else mark_read u (nt_id n) db = Inl (ApiError 404 ''not_found'') \<and>
       nt_id n \<notin> nt_id ` nv_row ` set (list_notifications u db)"
  proof (cases "notif_visible_to n u")
    case True
    then obtain db' v where m: "mark_read u (nt_id n) db = Inr (db', v)" by (simp add: mark_read_def f)
    then obtain k where k: "k \<in> set (notifs db)" "nt_id k = nt_id n" "nt_user k = cu_id u" "notif_visible_to k u"
      "v = notif_response (k\<lparr>nt_read := True\<rparr>) u"
      "db' = db\<lparr>notifs := map (\<lambda>m. if m = k then k\<lparr>nt_read := True\<rparr> else m) (notifs db)\<rparr>"
      by (rule mark_read_Inr [OF _ assms(1)])
    have kn: "k = n" using assms(1,2) k(1,2) by (auto simp: distinct_map dest: inj_onD)
    have "distinct (notifs db)" using assms(1) by (simp add: distinct_map)
    moreover have "\<not> unread_row u (n\<lparr>nt_read := True\<rparr>)" by (simp add: unread_row_def)
    ultimately have "unread_count u db' = unread_count u db - (if unread_row u n then 1 else 0)"
      using length_filter_mark [of "notifs db" n "unread_row u"] assms(2) unfolding unread_count_rows k(6) kn by simp
    moreover have "nt_read (nv_row v)" by (simp add: k(5) notif_response_def)
    ultimately show ?thesis using True m assms(3) by (auto simp: unread_row_def)
  next
    case False
    have "nv_row v \<noteq> n" if "v \<in> set (list_notifications u db)" for v
      using that False by (auto simp: list_notifications_def notif_response_def dest: in_set_takeD)
    moreover have "nv_row v = n" if "v \<in> set (list_notifications u db)" "nt_id (nv_row v) = nt_id n" for v
      using list_notifications_in [OF that(1)] that(2) assms(1,2) by (auto simp: distinct_map dest: inj_onD)
    ultimately have "nt_id n \<notin> nt_id ` nv_row ` set (list_notifications u db)" unfolding image_image by (metis imageE)
    with False show ?thesis by (simp add: mark_read_def f)
  qed
  have "unread_count u (mark_all_read u db) = 0"
    by (simp add: unread_count_rows mark_all_read_def filter_empty_conv unread_row_def)
  moreover have "unread_count u (clear_notifications u db) = 0"
    by (simp add: unread_count_rows clear_notifications_def filter_empty_conv unread_row_def)
  moreover have "list_notifications u (clear_notifications u db) = []"
    by (simp add: list_notifications_def clear_notifications_def filter_empty_conv)
  ultimately show ?thesis using first by blast
qed

text \<open>The rows of a user do not change when others store theirs.\<close>

lemma effective_category: "effective c s = Inr e \<Longrightarrow> ep_category e = c"
  by (auto simp: effective_def Let_def split: option.splits)

lemma set_preferences_frame:
  "set_preferences uid items db = Inr db' \<Longrightarrow> db'\<lparr>notif_prefs := notif_prefs db\<rparr> = db \<and>
    (\<forall>v d. v \<noteq> uid \<or> d \<notin> ep_category ` set items \<longrightarrow> stored_preference db' v d = stored_preference db v d)"
proof (induction items arbitrary: db)
  case (Cons i items)
  then obtain m where m: "set_preference uid i db = Inr m" "set_preferences uid items m = Inr db'"
    by (auto simp: rbind_Inr_iff)
  then obtain c cur where c: "map_of categories (ep_category i) = Some c"
    "effective (ep_category i) (stored_preference db uid (ep_category i)) = Inr cur"
    by (auto simp: set_preference_def rbind_Inr_iff split: option.splits)
  have "m\<lparr>notif_prefs := notif_prefs db\<rparr> = db"
    using m(1) c by (auto simp: set_preference_def Let_def)
  with Cons.IH [OF m(2)] set_preference_roundtrip [OF m(1) c] show ?case
    by (cases m; cases db; cases db') auto
qed simp

text \<open>What a stored preference reads after an update: the update's value for every channel that it names and that exists.\<close>

definition follows_update :: "effective_preference \<Rightarrow> category \<Rightarrow> effective_preference \<Rightarrow> effective_preference \<Rightarrow> bool" where
  "follows_update i c old p \<longleftrightarrow> ep_category p = ep_category i \<and>
     ep_in_app p = (if cat_in_app c = None then None else if ep_in_app i \<noteq> None then ep_in_app i else ep_in_app old) \<and>
     ep_email p = (if cat_email c = None then None else if ep_email i \<noteq> None then ep_email i else ep_email old)"

lemma set_preferences_follow:
  assumes "set_preferences uid items db = Inr db'" and "distinct (map ep_category items)" and "i \<in> set items"
  shows "\<exists>c old p. map_of categories (ep_category i) = Some c \<and>
    effective (ep_category i) (stored_preference db uid (ep_category i)) = Inr old \<and>
    effective (ep_category i) (stored_preference db' uid (ep_category i)) = Inr p \<and> follows_update i c old p"
  using assms
proof (induction items arbitrary: db)
  case (Cons j items)
  then obtain m where m: "set_preference uid j db = Inr m" "set_preferences uid items m = Inr db'"
    by (auto simp: rbind_Inr_iff)
  then obtain c cur where c: "map_of categories (ep_category j) = Some c"
    "effective (ep_category j) (stored_preference db uid (ep_category j)) = Inr cur"
    by (auto simp: set_preference_def rbind_Inr_iff split: option.splits)
  note rt = set_preference_roundtrip [OF m(1) c]
  show ?case
  proof (cases "i = j")
    case True
    have "ep_category j \<notin> ep_category ` set items" using Cons.prems(2) by auto
    with set_preferences_frame [OF m(2)] have "stored_preference db' uid (ep_category j) = stored_preference m uid (ep_category j)"
      by blast
    with rt c True show ?thesis by (auto simp: follows_update_def)
  next
    case False
    with Cons.prems have i: "i \<in> set items" by simp
    moreover have "ep_category j \<notin> ep_category ` set items" using Cons.prems(2) by simp
    ultimately have "ep_category i \<noteq> ep_category j" by (metis image_eqI)
    with rt have "stored_preference m uid (ep_category i) = stored_preference db uid (ep_category i)" by auto
    with Cons.IH [OF m(2) _ i] Cons.prems(2) show ?thesis by simp
  qed
qed simp

text \<open>C37: After a user has stored preferences, reading them gives the answer of the request: all categories in the order
  of the catalog, each channel with the value sent or else the old one; an unknown category is refused as a whole, and
  nobody else's preferences change.\<close>

theorem preferences_put_get:
  assumes "update_my_preferences cf u items db = Inr (db', r)" and "distinct (map ep_category items)"
  shows "get_my_preferences cf u db' = Inr r \<and> map ep_category (pf_items r) = map fst categories \<and>
    (\<forall>i \<in> set items. \<exists>c old p. map_of categories (ep_category i) = Some c \<and>
       effective (ep_category i) (stored_preference db (cu_id u) (ep_category i)) = Inr old \<and>
       p \<in> set (pf_items r) \<and> follows_update i c old p) \<and>
    (\<forall>v d. v \<noteq> cu_id u \<or> d \<notin> ep_category ` set items \<longrightarrow> stored_preference db' v d = stored_preference db v d)"
proof -
  obtain db1 l where db1: "set_preferences (cu_id u) items db = Inr db1"
    and db': "db' = log_action (cu_id u) ''notification_preferences_updated'' ''user'' (cu_id u) l db1"
    and r: "preferences_response_of cf (cu_id u) db' = Inr r"
    using assms(1) by (auto simp: update_my_preferences_def rbind_Inr_iff Let_def split: if_splits)
  have same: "stored_preference db' v d = stored_preference db1 v d" for v d
    by (simp add: db' stored_preference_def)
  obtain ps where ps: "get_preferences db' (cu_id u) = Inr ps" "pf_items r = ps"
    using r by (auto simp: preferences_response_of_def rbind_Inr_iff)
  have t: "list_all2 (\<lambda>x y. effective (fst x) (stored_preference db' (cu_id u) (fst x)) = Inr y) categories ps"
    using ps(1) by (simp add: get_preferences_def traverse_Inr_iff case_prod_unfold)
  then have "list_all2 (\<lambda>x y. ep_category y = fst x) categories ps"
    by (rule list_all2_mono) (simp add: effective_category)
  then have "map ep_category ps = map fst categories"
    by (induction rule: list_all2_induct) simp_all
  moreover have "\<exists>c old p. map_of categories (ep_category i) = Some c \<and>
      effective (ep_category i) (stored_preference db (cu_id u) (ep_category i)) = Inr old \<and>
      p \<in> set ps \<and> follows_update i c old p" if i: "i \<in> set items" for i
  proof -
    from set_preferences_follow [OF db1 assms(2) i] obtain c old p where c: "map_of categories (ep_category i) = Some c"
      "effective (ep_category i) (stored_preference db (cu_id u) (ep_category i)) = Inr old"
      "effective (ep_category i) (stored_preference db' (cu_id u) (ep_category i)) = Inr p" "follows_update i c old p"
      by (auto simp: same)
    have "(ep_category i, c) \<in> set categories" using c(1) by (rule map_of_SomeD)
    with t have "\<exists>y \<in> set ps. effective (ep_category i) (stored_preference db' (cu_id u) (ep_category i)) = Inr y"
      by (force simp: list_all2_conv_all_nth in_set_conv_nth)
    then have "p \<in> set ps" using c(3) by auto
    with c show ?thesis by blast
  qed
  moreover have "get_my_preferences cf u db' = Inr r" using r by (simp add: get_my_preferences_def)
  ultimately show ?thesis using set_preferences_frame [OF db1] same ps(2) by simp
qed

section \<open>Examples\<close>

definition ex_notif :: notification where
  "ex_notif = \<lparr>nt_id = 1, nt_user = ''u1'', nt_type = NNewCriticalCve, nt_key = ''new_relevant_cve'', nt_params = [],
     nt_scope = Some [(''shop'', ''c1''), (''pay'', ''c1'')], nt_link = None, nt_read = False, nt_created = 5\<rparr>"

definition ex_hidden_notif :: notification where
  "ex_hidden_notif = ex_notif\<lparr>nt_id := 2, nt_scope := Some [(''pay'', ''c1'')]\<rparr>"

definition ex_inbox :: app_db where
  "ex_inbox = ex_db\<lparr>notifs := [ex_notif, ex_hidden_notif]\<rparr>"


theorem unread_count_tracks_witness:
  "\<exists>db' v. mark_read ex_member 1 ex_inbox = Inr (db', v) \<and> unread_count ex_member db' = 0"
proof -
  have "notif_visible_to ex_notif ex_member"
    by (simp add: notif_visible_to_def notif_visible_scope_def ex_notif_def)
  moreover have "unread_count ex_member ex_inbox = 1"
    by (simp add: unread_count_def ex_inbox_def notif_visible_to_def notif_visible_scope_def ex_notif_def ex_hidden_notif_def
        ex_member_def can_see_all_namespaces_def is_sec_team_def)
  moreover have "distinct (map nt_id (notifs ex_inbox))" "ex_notif \<in> set (notifs ex_inbox)" "nt_user ex_notif = cu_id ex_member"
    "nt_id ex_notif = 1" "\<not> nt_read ex_notif"
    by (simp_all add: ex_inbox_def ex_notif_def ex_hidden_notif_def ex_member_def)
  ultimately show ?thesis using unread_count_tracks [of ex_inbox ex_notif ex_member] by auto
qed

theorem preferences_put_get_witness:
  "\<exists>db' r. update_my_preferences \<lparr>cf_default_escalation_email = [], cf_management_email = [], cf_active_days = 30\<rparr>
      ex_member [ex_update] ex_db = Inr (db', r) \<and>
    get_my_preferences \<lparr>cf_default_escalation_email = [], cf_management_email = [], cf_active_days = 30\<rparr> ex_member db' = Inr r"
proof -
  let ?cf = "\<lparr>cf_default_escalation_email = [], cf_management_email = [], cf_active_days = 30\<rparr>"
  have c: "map_of categories ''team_digest'' = Some \<lparr>cat_types = [], cat_in_app = None, cat_email = Some False\<rparr>"
    by (simp add: categories_def)
  then obtain db1 where s: "set_preferences ''u1'' [ex_update] ex_db = Inr db1"
    by (simp add: set_preference_def effective_def ex_update_def Let_def)
  have "\<exists>ps. get_preferences db uid = Inr ps" for db uid
    unfolding get_preferences_def traverse_defined by (auto simp: effective_def categories_def split: prod.split)
  then have "\<exists>r. preferences_response_of ?cf uid db = Inr r" for db uid
    by (auto simp: preferences_response_of_def rbind_Inr_iff)
  then obtain db' r where "update_my_preferences ?cf ex_member [ex_update] ex_db = Inr (db', r)"
    using s c by (fastforce simp: update_my_preferences_def ex_update_def ex_member_def Let_def rbind_Inr_iff)
  from preferences_put_get [OF this] this show ?thesis by auto
qed

end
