(* ===== verification/Badges.thy ===== *)
theory Badges
  imports CveDetail "HOL-Library.Multiset"
begin

text \<open>
  Public badges: \<open>app/routers/badges.py\<close> and \<open>app/badges/generator.py\<close>. The cache of rendered images is process
  state, passed through the handlers; time is the monotonic clock in seconds. The random token of a new badge is an
  argument. A character is a code point, so the dot between two counts is \<open>CHR 0xB7\<close>. The lemmas show which
  namespaces a badge counts, how large the cache gets, and that the label gets into the image as it is.
\<close>

section \<open>The image\<close>

definition text_width :: "string \<Rightarrow> nat" where "text_width s = max (length s * 7) 30"

fun badge_parts :: "nat \<Rightarrow> nat \<Rightarrow> nat \<Rightarrow> string \<times> string" where
  "badge_parts critical high moderate =
     (if 0 < critical then (''#e05d44'', digits_of critical @ '' kritisch'' @
        (if 0 < high then '' '' @ [CHR 0xB7] @ '' '' @ digits_of high @ '' hoch'' else []))
      else if 0 < high then (''#fe7d37'', digits_of high @ '' hoch'')
      else if 0 < moderate then (''#dfb317'', digits_of moderate @ '' mittel'')
      else (''#4c1'', ''Keine Kritischen''))"

abbreviation newline :: string where "newline \<equiv> [CHR 0x0A]"

definition svg_head :: "nat \<Rightarrow> nat \<Rightarrow> nat \<Rightarrow> string \<Rightarrow> string" where
  \<open>svg_head left_w right_w total_w color = concat
     [''<svg xmlns="http://www.w3.org/2000/svg" width="'', digits_of total_w, ''" height="20">'', newline,
      ''  <defs>'', newline,
      ''    <linearGradient id="s" x1="0" y1="0" x2="0" y2="1">'', newline,
      ''      <stop offset="0" stop-color="#bbb" stop-opacity=".1"/>'', newline,
      ''      <stop offset="1" stop-opacity=".1"/>'', newline,
      ''    </linearGradient>'', newline,
      ''    <clipPath id="r">'', newline,
      ''      <rect width="'', digits_of total_w, ''" height="20" rx="3" fill="#fff"/>'', newline,
      ''    </clipPath>'', newline,
      ''  </defs>'', newline,
      ''  <g clip-path="url(#r)">'', newline,
      ''    <rect width="'', digits_of left_w, ''" height="20" fill="#555"/>'', newline,
      ''    <rect x="'', digits_of left_w, ''" width="'', digits_of right_w, ''" height="20" fill="'', color, ''"/>'', newline,
      ''    <rect width="'', digits_of total_w, ''" height="20" fill="url(#s)"/>'', newline,
      ''  </g>'', newline,
      ''  <g fill="#fff" text-anchor="middle" font-family="Verdana,Geneva,DejaVu Sans,sans-serif" font-size="11">'', newline]\<close>

definition svg_text :: "nat \<Rightarrow> string \<Rightarrow> string" where
  \<open>svg_text x txt = concat
     [''    <text x="'', digits_of x, ''" y="15" fill="#010101" fill-opacity=".3">'', txt, ''</text>'', newline,
      ''    <text x="'', digits_of x, ''" y="14">'', txt, ''</text>'', newline]\<close>

definition generate_badge_svg :: "nat \<Rightarrow> nat \<Rightarrow> nat \<Rightarrow> nat \<Rightarrow> string \<Rightarrow> string" where
  "generate_badge_svg critical high moderate low label =
     (let (color, right_text) = badge_parts critical high moderate;
          left_w = text_width label + 10; right_w = text_width right_text + 10; total_w = left_w + right_w;
          left_x = left_w div 2 + 1; right_x = left_w + right_w div 2
      in svg_head left_w right_w total_w color @ svg_text left_x label @ svg_text right_x right_text @
         ''  </g>'' @ newline @ ''</svg>'')"

section \<open>The cache\<close>

type_synonym svg_cache = "(string \<times> string \<times> num) list"

definition svg_cache_ttl :: num where "svg_cache_ttl = 300"
definition svg_cache_max_size :: nat where "svg_cache_max_size = 10000"

definition evict_svg_cache :: "num \<Rightarrow> svg_cache \<Rightarrow> svg_cache" where
  "evict_svg_cache now cache =
     (let live = filter (\<lambda>(k, svg, ts). \<not> svg_cache_ttl \<le> now - ts) cache in
      if svg_cache_max_size \<le> length live
      then let by_age = sort_key (\<lambda>(k, svg, ts). ts) live;
               gone = map fst (take (length live - svg_cache_max_size + 1) by_age)
           in filter (\<lambda>e. fst e \<notin> set gone) live
      else live)"

section \<open>Scopes\<close>

definition user_can_see_badge :: "current_user \<Rightarrow> badge \<Rightarrow> bool" where
  "user_can_see_badge u b =
     (if can_see_all_namespaces u then True
      else if truthy (bd_namespace b) \<and> truthy (bd_cluster b)
      then (the (bd_namespace b), the (bd_cluster b)) \<in> set (cu_namespaces u)
      else if truthy (bd_namespace b) \<and> (bd_scope b = None \<or> bd_scope b = Some [])
      then list_ex (\<lambda>p. Some (fst p) = bd_namespace b) (cu_namespaces u)
      else (case bd_scope b of None \<Rightarrow> False | Some ps \<Rightarrow> ps \<noteq> [] \<and> set ps \<subseteq> set (cu_namespaces u)))"

definition stackrox_pairs :: "stackrox \<Rightarrow> string option \<Rightarrow> string option \<Rightarrow> pair list" where
  "stackrox_pairs sx namespace cluster =
     filter (\<lambda>(ns, cl). (truthy namespace \<longrightarrow> Some ns = namespace) \<and> (truthy cluster \<longrightarrow> Some cl = cluster)) (list_namespaces sx)"

definition creator_scope_pairs :: "current_user \<Rightarrow> string option \<Rightarrow> string option \<Rightarrow> pair list" where
  "creator_scope_pairs u namespace cluster =
     filter (\<lambda>(ns, cl). (truthy namespace \<longrightarrow> Some ns = namespace) \<and> (truthy cluster \<longrightarrow> Some cl = cluster)) (cu_namespaces u)"

definition badge_scope_pairs :: "badge \<Rightarrow> stackrox \<Rightarrow> pair list option" where
  "badge_scope_pairs b sx =
     (if truthy (bd_namespace b) \<and> truthy (bd_cluster b) then Some [(the (bd_namespace b), the (bd_cluster b))]
      else case bd_scope b of Some ps \<Rightarrow> Some ps
      | None \<Rightarrow>
          if truthy (bd_namespace b) then Some []
          else if truthy (bd_cluster b) then Some (stackrox_pairs sx None (bd_cluster b))
          else None)"

section \<open>Handlers\<close>

definition badge_thresholds :: "badge \<Rightarrow> app_db \<Rightarrow> num \<times> num" where
  "badge_thresholds b db =
     (if bd_is_sec_team b then (0, 0)
      else case gsettings db of None \<Rightarrow> (0, 0) | Some s \<Rightarrow> (gs_min_cvss s, gs_min_epss s))"

definition badge_svg_of :: "cve_data list \<Rightarrow> string \<Rightarrow> string" where
  "badge_svg_of cves label =
     (let n = (\<lambda>f. length (filter (\<lambda>c. f (cd_severity c)) cves)) in
      generate_badge_svg (n (\<lambda>s. s = 4)) (n (\<lambda>s. s = 3)) (n (\<lambda>s. s = 2)) (n (\<lambda>s. s \<le> 1)) label)"

definition badge_not_found :: string where "badge_not_found = generate_badge_svg 0 0 0 0 ''nicht gefunden''"

text \<open>What a badge shows at the moment: \<open>True\<close> says that it is cached.\<close>

definition render_badge :: "pep440 \<Rightarrow> badge \<Rightarrow> app_db \<Rightarrow> stackrox \<Rightarrow> string \<times> bool" where
  "render_badge P b db sx =
     (let (mc, me) = badge_thresholds b db; w = always_show db in
      case badge_scope_pairs b sx of
        None \<Rightarrow> (badge_svg_of (get_all_cves P sx mc me w) (bd_label b), True)
      | Some ps \<Rightarrow> if ps \<noteq> [] then (badge_svg_of (get_cves_for_namespaces P sx ps mc me w) (bd_label b), True)
          else (generate_badge_svg 0 0 0 0 (bd_label b), False))"

definition get_badge_svg_uncached ::
    "pep440 \<Rightarrow> string \<Rightarrow> num \<Rightarrow> app_db \<Rightarrow> stackrox \<Rightarrow> svg_cache \<Rightarrow> (string \<times> svg_cache) result" where
  "get_badge_svg_uncached P token now db sx cache =
     rbind (scalar_one_or_none (filter (\<lambda>b. bd_token b = token) (badges db))) (\<lambda>x.
       case x of None \<Rightarrow> Inr (badge_not_found, cache)
       | Some b \<Rightarrow>
           (let (svg, store) = render_badge P b db sx in
            if store then Inr (svg, AList.update token (svg, now)
                (if svg_cache_max_size \<le> length cache then evict_svg_cache now cache else cache))
            else Inr (svg, cache)))"

definition get_badge_svg ::
    "pep440 \<Rightarrow> string \<Rightarrow> num \<Rightarrow> app_db \<Rightarrow> stackrox \<Rightarrow> svg_cache \<Rightarrow> (string \<times> svg_cache) result" where
  "get_badge_svg P token now db sx cache =
     (case map_of cache token of
        None \<Rightarrow> get_badge_svg_uncached P token now db sx cache
      | Some (svg, ts) \<Rightarrow>
          if now - ts < svg_cache_ttl then Inr (svg, cache) else get_badge_svg_uncached P token now db sx cache)"

definition list_badges :: "current_user \<Rightarrow> string option \<Rightarrow> string option \<Rightarrow> app_db \<Rightarrow> badge list" where
  "list_badges u cluster namespace db =
     (let bs = filter (user_can_see_badge u) (sort_key (\<lambda>b. - bd_created_at b) (badges db));
          bs1 = (if truthy cluster then filter (\<lambda>b. bd_cluster b = cluster \<or> bd_cluster b = None) bs else bs)
      in if truthy namespace then filter (\<lambda>b. bd_namespace b = namespace \<or> bd_namespace b = None) bs1 else bs1)"

record badge_create =
  bc_namespace :: "string option"
  bc_cluster :: "string option"
  bc_label :: string

definition badge_create_ok :: "badge_create \<Rightarrow> bool" where
  "badge_create_ok b \<longleftrightarrow> (case bc_namespace b of None \<Rightarrow> True | Some n \<Rightarrow> length n \<le> 255) \<and>
     (case bc_cluster b of None \<Rightarrow> True | Some n \<Rightarrow> length n \<le> 255) \<and> length (bc_label b) \<le> 50"

text \<open>The pairs that are stored with the badge, or none.\<close>

definition new_badge_scope :: "current_user \<Rightarrow> badge_create \<Rightarrow> stackrox \<Rightarrow> pair list option result" where
  "new_badge_scope u body sx =
     (if cu_has_all u
      then if truthy (bc_namespace body) \<and> \<not> truthy (bc_cluster body)
           then let ps = stackrox_pairs sx (bc_namespace body) None in
                if ps = [] then Inl (ApiError 400 ''badge_namespace_not_accessible'') else Inr (Some ps)
           else Inr None
      else let ps = creator_scope_pairs u (bc_namespace body) (bc_cluster body) in
           if (truthy (bc_namespace body) \<or> truthy (bc_cluster body)) \<and> ps = []
           then Inl (ApiError 400 ''badge_namespace_not_accessible'')
           else Inr (if truthy (bc_namespace body) \<and> truthy (bc_cluster body) then None else Some ps))"

definition create_badge ::
    "string \<Rightarrow> current_user \<Rightarrow> badge_create \<Rightarrow> stackrox \<Rightarrow> app_db \<Rightarrow> (app_db \<times> badge) result" where
  "create_badge token u body sx db =
     (if \<not> has_namespaces u then Inl (ApiError 400 ''no_namespaces'')
      else rbind (new_badge_scope u body sx) (\<lambda>scope.
        if token \<in> bd_token ` set (badges db) then Inl (ServerError ''IntegrityError'')
        else let (i, db1) = fresh_id db;
                 b = \<lparr>bd_id = i, bd_created_by = cu_id u, bd_namespace = bc_namespace body, bd_cluster = bc_cluster body,
                      bd_token = token, bd_label = bc_label body, bd_scope = scope, bd_is_sec_team = is_sec_team u,
                      bd_created_at = db_now db\<rparr>
             in Inr (db1\<lparr>badges := badges db1 @ [b]\<rparr>, b)))"

definition delete_badge :: "current_user \<Rightarrow> nat \<Rightarrow> app_db \<Rightarrow> svg_cache \<Rightarrow> (app_db \<times> svg_cache) result" where
  "delete_badge u i db cache =
     rbind (scalar_one_or_none (filter (\<lambda>b. bd_id b = i) (badges db))) (\<lambda>x.
       case x of None \<Rightarrow> Inl (ApiError 404 ''not_found'')
       | Some b \<Rightarrow>
           if \<not> is_sec_team u \<and> bd_created_by b \<noteq> cu_id u then Inl (ApiError 403 ''forbidden'')
           else Inr (db\<lparr>badges := filter (\<lambda>y. bd_id y \<noteq> i) (badges db)\<rparr>, AList.delete (bd_token b) cache))"

definition badge_url :: "string \<Rightarrow> string \<Rightarrow> string" where
  "badge_url base token =
     (let path = ''/api/badges/'' @ token @ ''/status.svg'' in
      if base = [] then path else rev (dropWhile (\<lambda>c. c = CHR ''/'') (rev base)) @ path)"

section \<open>Runs\<close>

text \<open>Requests in sequence; the clock of the process does not go back.\<close>

inductive badge_run :: "num \<Rightarrow> app_db \<Rightarrow> svg_cache \<Rightarrow> bool" where
  start: "badges db = [] \<Longrightarrow> badge_run t db []"
| created: "badge_run t db cache \<Longrightarrow> create_badge token u body sx db = Inr (db', b) \<Longrightarrow> badge_run t db' cache"
| deleted: "badge_run t db cache \<Longrightarrow> delete_badge u i db cache = Inr (db', cache') \<Longrightarrow> badge_run t db' cache'"
| viewed: "badge_run t db cache \<Longrightarrow> t \<le> now \<Longrightarrow> get_badge_svg P token now db sx cache = Inr (svg, cache') \<Longrightarrow>
    badge_run now db cache'"
| otherwise: "badge_run t db cache \<Longrightarrow> badges db' = badges db \<Longrightarrow> next_id db \<le> next_id db' \<Longrightarrow> badge_run t db' cache"

definition badge_state_ok :: "num \<Rightarrow> app_db \<Rightarrow> svg_cache \<Rightarrow> bool" where
  "badge_state_ok t db cache \<longleftrightarrow>
     distinct (map bd_id (badges db)) \<and> distinct (map bd_token (badges db)) \<and>
     (\<forall>b \<in> set (badges db). bd_id b < next_id db) \<and>
     distinct (map fst cache) \<and> fst ` set cache \<subseteq> bd_token ` set (badges db) \<and>
     length cache \<le> svg_cache_max_size \<and> (\<forall>(k, svg, ts) \<in> set cache. ts \<le> t)"

text \<open>Dropping the first entries of a permutation by their keys drops as many entries.\<close>

lemma length_drop_keys:
  assumes "mset ys = mset xs" and "distinct (map fst xs)"
  shows "length (filter (\<lambda>e. fst e \<notin> set (map fst (take n ys))) xs) = length xs - n"
proof -
  let ?P = "\<lambda>e. fst e \<notin> fst ` set (take n ys)"
  have "mset (map fst ys) = mset (map fst xs)" using assms(1) by simp
  then have d: "distinct (map fst ys)" using assms(2) by (metis mset_eq_imp_distinct_iff)
  have "map fst (take n ys) @ map fst (drop n ys) = map fst ys" by (simp add: map_append [symmetric] del: map_append)
  then have "fst ` set (take n ys) \<inter> fst ` set (drop n ys) = {}"
    using d by (metis distinct_append list.set_map)
  then have "filter ?P (drop n ys) = drop n ys" and "filter ?P (take n ys) = []"
    by (auto intro!: filter_True simp: filter_empty_conv)
  moreover have "filter ?P ys = filter ?P (take n ys) @ filter ?P (drop n ys)"
    by (simp only: filter_append [symmetric] append_take_drop_id)
  ultimately have "length (filter ?P ys) = length ys - n" by simp
  moreover have "mset (filter ?P ys) = mset (filter ?P xs)" using assms(1) by simp
  ultimately show ?thesis using mset_eq_length [OF assms(1)] mset_eq_length by fastforce
qed

lemma length_evict:
  assumes "distinct (map fst cache)"
  shows "length (evict_svg_cache now cache) < svg_cache_max_size"
proof -
  have d: "distinct (map fst (filter f cache))" for f by (rule distinct_map_filter [OF assms])
  have pos: "0 < svg_cache_max_size" by (simp add: svg_cache_max_size_def)
  let ?live = "filter (\<lambda>(k, svg, ts). \<not> svg_cache_ttl \<le> now - ts) cache"
  have "length (filter (\<lambda>e. fst e \<notin> set (map fst (take (length ?live - svg_cache_max_size + 1)
      (sort_key (\<lambda>(k, svg, ts). ts) ?live)))) ?live) = length ?live - (length ?live - svg_cache_max_size + 1)"
    by (rule length_drop_keys [OF _ d]) simp
  then show ?thesis using pos unfolding evict_svg_cache_def Let_def by (simp del: set_map filter_filter)
qed

section \<open>The properties\<close>

lemma namespace_filter_subset:
  "set ps \<subseteq> set ns \<Longrightarrow> namespace_filter ps (namespace_filter ns xs) = namespace_filter ps xs"
  by (auto simp: namespace_filter_def intro!: filter_cong)

lemma create_badge_scope:
  assumes "create_badge token u body sx db = Inr (db', b)"
  shows "new_badge_scope u body sx = Inr (bd_scope b)" and "bd_namespace b = bc_namespace body"
    and "bd_cluster b = bc_cluster body" and "has_namespaces u" and "bd_label b = bc_label body"
    and "bd_token b = token" and "bd_id b = next_id db" and "token \<notin> bd_token ` set (badges db)"
    and "db' = db\<lparr>next_id := Suc (next_id db), badges := badges db @ [b]\<rparr>"
  using assms by (auto simp: create_badge_def rbind_Inr_iff Let_def fresh_id_def split: if_splits)

lemma truthy_obtain: "truthy x \<Longrightarrow> \<exists>s. x = Some s \<and> s \<noteq> []"
  by (cases x) (auto simp: truthy_def)

text \<open>A creator without access to all namespaces pins the badge to a pair of theirs, or stores pairs of theirs.\<close>

lemma scoped_badge:
  assumes c: "create_badge token u body sx0 db0 = Inr (db1, b)" and "\<not> cu_has_all u"
  shows "cu_namespaces u \<noteq> []"
    and "(\<exists>ns cl. bd_namespace b = Some ns \<and> bd_cluster b = Some cl \<and> ns \<noteq> [] \<and> cl \<noteq> [] \<and> (ns, cl) \<in> set (cu_namespaces u)) \<or>
      (\<exists>ps. bd_scope b = Some ps \<and> ps \<noteq> [] \<and> set ps \<subseteq> set (cu_namespaces u) \<and>
        \<not> (truthy (bd_namespace b) \<and> truthy (bd_cluster b)))"
proof -
  note s = create_badge_scope [OF c]
  show ne: "cu_namespaces u \<noteq> []" using s(4) assms(2) by (simp add: has_namespaces_def)
  let ?ps = "creator_scope_pairs u (bd_namespace b) (bd_cluster b)"
  have sub: "set ?ps \<subseteq> set (cu_namespaces u)" by (auto simp: creator_scope_pairs_def)
  have "\<exists>x y. (x, y) \<in> set (cu_namespaces u)" using ne by (cases "cu_namespaces u") auto
  then have 1: "?ps \<noteq> []"
    using s(1-3) assms(2)
    by (auto simp: new_badge_scope_def Let_def creator_scope_pairs_def filter_empty_conv split: if_splits)
  have 2: "bd_scope b = (if truthy (bd_namespace b) \<and> truthy (bd_cluster b) then None else Some ?ps)"
    using s(1-3) assms(2) by (auto simp: new_badge_scope_def Let_def split: if_splits)
  show "(\<exists>ns cl. bd_namespace b = Some ns \<and> bd_cluster b = Some cl \<and> ns \<noteq> [] \<and> cl \<noteq> [] \<and> (ns, cl) \<in> set (cu_namespaces u)) \<or>
      (\<exists>ps. bd_scope b = Some ps \<and> ps \<noteq> [] \<and> set ps \<subseteq> set (cu_namespaces u) \<and>
        \<not> (truthy (bd_namespace b) \<and> truthy (bd_cluster b)))"
  proof (cases "truthy (bd_namespace b) \<and> truthy (bd_cluster b)")
    case True
    with 1 show ?thesis by (auto simp: creator_scope_pairs_def filter_empty_conv dest!: truthy_obtain)
  next
    case False
    with 1 2 sub show ?thesis by auto
  qed
qed

lemma scoped_badge_pairs:
  assumes "create_badge token u body sx0 db0 = Inr (db1, b)" and "\<not> cu_has_all u"
  shows "\<exists>ps. ps \<noteq> [] \<and> set ps \<subseteq> set (cu_namespaces u) \<and> (\<forall>sx. badge_scope_pairs b sx = Some ps)"
  using scoped_badge(2) [OF assms] by (auto simp: badge_scope_pairs_def truthy_def)

lemma creator_sees_badge:
  assumes "create_badge token u body sx0 db0 = Inr (db1, b)" and "\<not> cu_has_all u"
  shows "user_can_see_badge u b"
  using scoped_badge [OF assms] by (auto simp: user_can_see_badge_def truthy_def)

text \<open>C13: A badge of a user without access to all namespaces counts, at any later time, only StackRox rows in the
  namespaces the creator had when creating it, and never falls back to all namespaces; the creator sees the badge.\<close>

theorem badge_counts_creator_scope:
  assumes c: "create_badge token u body sx0 db0 = Inr (db1, b)" and "\<not> cu_has_all u"
    and same: "namespace_filter (cu_namespaces u) (joined sx1) = namespace_filter (cu_namespaces u) (joined sx2)"
  shows "render_badge P b db sx1 = render_badge P b db sx2 \<and> user_can_see_badge u b \<and>
    (\<exists>ps. badge_scope_pairs b sx1 = Some ps \<and> ps \<noteq> [] \<and> set ps \<subseteq> set (cu_namespaces u))"
proof -
  obtain ps where ps: "ps \<noteq> []" "set ps \<subseteq> set (cu_namespaces u)" "\<And>sx. badge_scope_pairs b sx = Some ps"
    using scoped_badge_pairs [OF c assms(2)] by blast
  have "namespace_filter ps (joined sx1) = namespace_filter ps (joined sx2)"
    by (metis namespace_filter_subset [OF ps(2)] same)
  then have "render_badge P b db sx1 = render_badge P b db sx2"
    by (simp add: render_badge_def ps(3) get_cves_for_namespaces_def cong: if_cong)
  moreover have "user_can_see_badge u b" by (rule creator_sees_badge [OF c assms(2)])
  ultimately show ?thesis using ps by blast
qed

lemma set_evict: "set (evict_svg_cache now cache) \<subseteq> set cache"
  by (auto simp: evict_svg_cache_def Let_def)

lemma distinct_evict: "distinct (map fst cache) \<Longrightarrow> distinct (map fst (evict_svg_cache now cache))"
  by (auto simp: evict_svg_cache_def Let_def intro: distinct_map_filter)

lemma unknown_token_not_found:
  assumes "badge_state_ok t db cache" and "token \<notin> bd_token ` set (badges db)"
  shows "get_badge_svg P token now db sx cache = Inr (badge_not_found, cache)"
proof -
  have "map_of cache token = None" using assms by (auto simp: badge_state_ok_def map_of_eq_None_iff)
  moreover have "filter (\<lambda>b. bd_token b = token) (badges db) = []" using assms(2) by (auto simp: filter_empty_conv)
  ultimately show ?thesis by (simp add: get_badge_svg_def get_badge_svg_uncached_def)
qed

lemma state_ok_store:
  assumes ok: "badge_state_ok t db cache" and "t \<le> now" and "token \<in> bd_token ` set (badges db)"
  shows "badge_state_ok now db (AList.update token (svg, now)
    (if svg_cache_max_size \<le> length cache then evict_svg_cache now cache else cache))"
proof -
  let ?c = "if svg_cache_max_size \<le> length cache then evict_svg_cache now cache else cache"
  have d: "distinct (map fst cache)" using ok by (simp add: badge_state_ok_def)
  have sub: "set ?c \<subseteq> set cache" using set_evict by simp
  have "length ?c < svg_cache_max_size" using length_evict [OF d] by simp
  then have "length (AList.update token (svg, now) ?c) \<le> svg_cache_max_size" by (simp add: length_update)
  moreover have "distinct (map fst (AList.update token (svg, now) ?c))"
    using d by (intro distinct_update) (simp add: distinct_evict)
  moreover have upd: "set (AList.update token (svg, now) ?c) \<subseteq> insert (token, svg, now) (set cache)"
    using sub by (blast dest: in_update)
  have old: "\<forall>e \<in> set cache. fst e \<in> bd_token ` set (badges db) \<and> snd (snd e) \<le> t"
    using ok by (auto simp: badge_state_ok_def)
  have "\<forall>e \<in> set (AList.update token (svg, now) ?c). fst e \<in> bd_token ` set (badges db) \<and> snd (snd e) \<le> now"
  proof
    fix e assume "e \<in> set (AList.update token (svg, now) ?c)"
    with upd have "e = (token, svg, now) \<or> e \<in> set cache" by blast
    then show "fst e \<in> bd_token ` set (badges db) \<and> snd (snd e) \<le> now"
      using old assms(2,3) by (metis fst_conv order_trans order_refl snd_conv)
  qed
  ultimately show ?thesis using ok unfolding badge_state_ok_def by (auto simp: image_subset_iff split_beta)
qed

lemma uncached_stores:
  assumes "get_badge_svg_uncached P token now db sx cache = Inr (svg, cache')"
  shows "cache' = cache \<or> token \<in> bd_token ` set (badges db) \<and> cache' = AList.update token (svg, now)
    (if svg_cache_max_size \<le> length cache then evict_svg_cache now cache else cache)"
proof (cases "scalar_one_or_none (filter (\<lambda>b. bd_token b = token) (badges db))")
  case (Inr x)
  show ?thesis
  proof (cases x)
    case (Some b)
    with Inr have "b \<in> set (filter (\<lambda>b. bd_token b = token) (badges db))" by (simp add: scalar_one_or_none_Some_iff)
    with assms Inr Some show ?thesis
      by (cases "render_badge P b db sx") (auto simp: get_badge_svg_uncached_def split: if_splits)
  qed (use assms Inr in \<open>simp add: get_badge_svg_uncached_def\<close>)
qed (use assms in \<open>simp add: get_badge_svg_uncached_def\<close>)

lemma state_ok_viewed:
  assumes "badge_state_ok t db cache" and "t \<le> now" and "get_badge_svg P token now db sx cache = Inr (svg, cache')"
  shows "badge_state_ok now db cache'"
proof -
  have same: "badge_state_ok now db cache" using assms(1,2) by (fastforce simp: badge_state_ok_def)
  have "cache' = cache \<or> token \<in> bd_token ` set (badges db) \<and> cache' = AList.update token (svg, now)
      (if svg_cache_max_size \<le> length cache then evict_svg_cache now cache else cache)"
    using assms(3) uncached_stores [of P token now db sx cache svg cache']
    by (auto simp: get_badge_svg_def split: option.splits if_splits)
  then show ?thesis using same state_ok_store [OF assms(1,2)] by blast
qed

lemma state_ok_created:
  assumes ok: "badge_state_ok t db cache" and c: "create_badge token u body sx db = Inr (db', b)"
  shows "badge_state_ok t db' cache"
proof -
  note s = create_badge_scope(6-9) [OF c]
  have "next_id db \<notin> bd_id ` set (badges db)" using ok by (auto simp: badge_state_ok_def)
  then have "distinct (map bd_id (badges db'))" using ok s by (simp add: badge_state_ok_def)
  moreover have "distinct (map bd_token (badges db'))" using ok s by (simp add: badge_state_ok_def)
  moreover have "\<forall>b \<in> set (badges db'). bd_id b < next_id db'" using ok s by (auto simp: badge_state_ok_def)
  moreover have "fst ` set cache \<subseteq> bd_token ` set (badges db')" using ok s by (auto simp: badge_state_ok_def)
  ultimately show ?thesis using ok by (simp add: badge_state_ok_def)
qed

lemma state_ok_deleted:
  assumes ok: "badge_state_ok t db cache" and del: "delete_badge u i db cache = Inr (db', cache')"
  shows "badge_state_ok t db' cache'"
proof -
  obtain b where b: "filter (\<lambda>b. bd_id b = i) (badges db) = [b]"
    and db': "db' = db\<lparr>badges := filter (\<lambda>y. bd_id y \<noteq> i) (badges db)\<rparr>" and c: "cache' = AList.delete (bd_token b) cache"
    using del by (auto simp: delete_badge_def rbind_Inr_iff scalar_one_or_none_Some_iff split: option.splits if_splits)
  have "y = b" if "y \<in> set (badges db)" "bd_id y = i" for y
  proof -
    have "y \<in> set (filter (\<lambda>b. bd_id b = i) (badges db))" using that by simp
    then show ?thesis unfolding b by simp
  qed
  then have keys: "bd_token ` set (badges db) - {bd_token b} \<subseteq> bd_token ` set (filter (\<lambda>y. bd_id y \<noteq> i) (badges db))"
    by auto
  have "set cache' \<subseteq> set cache" "fst ` set cache' = fst ` set cache - {bd_token b}" "length cache' \<le> length cache"
    unfolding c by (auto simp: AList.delete_eq image_iff)
  moreover have "fst ` set cache' \<subseteq> bd_token ` set (badges db')"
    using ok keys calculation(2) unfolding badge_state_ok_def db' by simp blast
  moreover have "distinct (map fst cache')" using ok unfolding badge_state_ok_def c by (simp add: distinct_delete)
  moreover have "distinct (map bd_id (badges db'))" "distinct (map bd_token (badges db'))"
    using ok unfolding badge_state_ok_def db' by (auto intro: distinct_map_filter)
  ultimately show ?thesis using ok unfolding badge_state_ok_def by (auto simp: db')
qed

lemma run_state_ok: "badge_run t db cache \<Longrightarrow> badge_state_ok t db cache"
proof (induction rule: badge_run.induct)
  case (start db t)
  then show ?case by (simp add: badge_state_ok_def)
next
  case (otherwise t db cache db')
  then show ?case by (fastforce simp: badge_state_ok_def)
qed (blast intro: state_ok_created state_ok_deleted state_ok_viewed)+

text \<open>C31: Over any sequence of requests the cache of images holds at most ten thousand images, one per token and only
  of badges that exist, badges keep distinct ids and tokens, and a token without badge (never issued, or deleted)
  is answered with the image for a missing badge.\<close>

theorem badges_invariant:
  assumes "badge_run t db cache"
  shows "badge_state_ok t db cache \<and>
    (\<forall>token. token \<notin> bd_token ` set (badges db) \<longrightarrow> get_badge_svg P token now db sx cache = Inr (badge_not_found, cache))"
  using run_state_ok [OF assms] unknown_token_not_found [OF run_state_ok [OF assms]] by blast

lemma concat_fourth: "\<exists>before after. concat (a # b # c # x # rest) = before @ x @ after"
  by (rule exI [of _ "a @ b @ c"], rule exI [of _ "concat rest"]) simp

lemma generate_badge_svg_label: "\<exists>before after. generate_badge_svg c h m l label = before @ label @ after"
proof -
  obtain color right where "badge_parts c h m = (color, right)" by fastforce
  then have "\<exists>before x after. generate_badge_svg c h m l label = before @ svg_text x label @ after"
    by (fastforce simp: generate_badge_svg_def Let_def)
  moreover have "\<exists>before after. svg_text x label = before @ label @ after" for x
    unfolding svg_text_def using concat_fourth by blast
  ultimately show ?thesis by (metis append.assoc)
qed

text \<open>The label of a badge stands in the public image as the creator wrote it, markup included.\<close>

theorem label_is_not_escaped:
  assumes "get_badge_svg_uncached P token now db sx cache = Inr (svg, cache')" and "b \<in> set (badges db)" and "bd_token b = token"
    and "distinct (map bd_token (badges db))"
  shows "\<exists>before after. svg = before @ bd_label b @ after"
  using assms by (auto simp: get_badge_svg_uncached_def filter_key_single [of bd_token] render_badge_def generate_badge_svg_label
      badge_svg_of_def Let_def split: option.splits if_splits prod.splits)

section \<open>Witnesses\<close>

definition ex_body :: badge_create where
  "ex_body = \<lparr>bc_namespace = None, bc_cluster = None, bc_label = ''</text><script>alert(1)</script>''\<rparr>"

definition ex_badge :: badge where
  "ex_badge = \<lparr>bd_id = next_id ex_db, bd_created_by = ''u1'', bd_namespace = None, bd_cluster = None, bd_token = ''tok'',
     bd_label = ''</text><script>alert(1)</script>'', bd_scope = Some [(''shop'', ''c1'')], bd_is_sec_team = False,
     bd_created_at = db_now ex_db\<rparr>"

definition ex_badge_db :: app_db where
  "ex_badge_db = ex_db\<lparr>next_id := Suc (next_id ex_db), badges := [ex_badge]\<rparr>"

lemma ex_created: "badge_create_ok ex_body \<and> create_badge ''tok'' ex_member ex_body ex_sx ex_db = Inr (ex_badge_db, ex_badge)"
  by (simp add: badge_create_ok_def create_badge_def new_badge_scope_def creator_scope_pairs_def ex_body_def ex_badge_def
      ex_badge_db_def fresh_id_def Let_def has_namespaces_def is_sec_team_def ex_member_def ex_db_def)

theorem badge_counts_creator_scope_witness:
  "render_badge ex_P ex_badge ex_db ex_sx = render_badge ex_P ex_badge ex_db ex_two_sx \<and> user_can_see_badge ex_member ex_badge"
proof -
  have "\<not> cu_has_all ex_member" by (simp add: ex_member_def)
  moreover have "namespace_filter (cu_namespaces ex_member) (joined ex_sx) =
      namespace_filter (cu_namespaces ex_member) (joined ex_two_sx)"
    using ex_two_scope by simp
  ultimately show ?thesis using badge_counts_creator_scope ex_created by blast
qed

theorem badges_invariant_witness:
  "badge_state_ok 0 ex_badge_db [] \<and> (\<forall>now. get_badge_svg ex_P ''other'' now ex_badge_db ex_sx [] = Inr (badge_not_found, []))"
proof -
  have "badge_run 0 ex_db []" by (rule badge_run.start) (simp add: ex_db_def)
  then have run: "badge_run 0 ex_badge_db []" using ex_created by (blast intro: badge_run.created)
  have "''other'' \<notin> bd_token ` set (badges ex_badge_db)" by (simp add: ex_badge_db_def ex_badge_def)
  then show ?thesis using badges_invariant [OF run] by blast
qed

end
