(* ===== verification/Dashboard.thy ===== *)
theory Dashboard
  imports CveDetail CveImages EscalationWorkspace TeamDigest Subscriptions "HOL-Library.Multiset"
begin

text \<open>
  The dashboard: \<open>app/routers/dashboard.py\<close> with the aggregations of \<open>app/stackrox/queries/aggregations.py\<close> and
  \<open>fixability.py\<close>. Every panel is its own query; the queries that run concurrently are independent, so they are
  evaluated in turn. A count of joined rows is a count of groups, so the join with the components changes none. The
  lemmas show that the panels agree with each other and with the CVE list, and where they do not.
\<close>

section \<open>Aggregations\<close>

text \<open>What \<open>VISIBILITY_HAVING\<close> is bound to.\<close>

record visibility =
  vi_cvss :: num
  vi_epss :: num
  vi_always :: "string set"
  vi_exclude :: "string list"

definition visibility_having :: "visibility \<Rightarrow> string \<Rightarrow> vrow list \<Rightarrow> bool" where
  "visibility_having vi cve rs \<longleftrightarrow>
     passes (vi_cvss vi) (vi_epss vi) (vi_always vi) cve (rows_cvss rs) (rows_epss rs) \<and> cve \<notin> set (vi_exclude vi)"

definition visible_groups :: "visibility \<Rightarrow> vrow list \<Rightarrow> (string \<times> vrow list) list" where
  "visible_groups vi vs = filter (\<lambda>(cve, rs). visibility_having vi cve rs) (group_by vr_cve vs)"

definition get_severity_distribution :: "stackrox \<Rightarrow> pair list option \<Rightarrow> visibility \<Rightarrow> (int \<times> nat) list" where
  "get_severity_distribution sx nss vi =
     (if nss = Some [] then []
      else sort_key fst (map (\<lambda>(sev, gs). (sev, length gs))
        (group_by (\<lambda>(cve, rs). rows_severity rs) (visible_groups vi (scoped_rows nss sx)))))"

record ns_count =
  nc_namespace :: string
  nc_count :: nat
  nc_critical :: nat
  nc_important :: nat
  nc_moderate :: nat
  nc_low :: nat
  nc_unknown :: nat
  nc_clusters :: nat

definition get_cves_per_namespace :: "stackrox \<Rightarrow> pair list option \<Rightarrow> visibility \<Rightarrow> ns_count list" where
  "get_cves_per_namespace sx nss vi =
     (if nss = Some [] then []
      else let by_ns_cluster = filter (\<lambda>((p, cve), rs). visibility_having vi cve rs)
             (group_by (\<lambda>v. (vr_pair v, vr_cve v)) (scoped_rows nss sx));
             deduped = map (\<lambda>((ns, cve), gs). (ns, coalesce 0 (sql_max (map (\<lambda>(k, rs). Some (rows_severity rs)) gs))))
               (group_by (\<lambda>((p, cve), rs). (fst p, cve)) by_ns_cluster)
           in sort_key (\<lambda>c. - int (nc_count c)) (map (\<lambda>(ns, ds). let n = (\<lambda>s. length (filter (\<lambda>d. snd d = s) ds)) in
             \<lparr>nc_namespace = ns, nc_count = length ds, nc_critical = n 4, nc_important = n 3, nc_moderate = n 2,
              nc_low = n 1, nc_unknown = n 0,
              nc_clusters = length (dedupe (map (\<lambda>((p, cve), rs). snd p) (filter (\<lambda>((p, cve), rs). fst p = ns) by_ns_cluster)))\<rparr>)
             (group_by fst deduped)))"

record trend_point =
  tp_date :: date
  tp_critical :: nat
  tp_important :: nat
  tp_moderate :: nat
  tp_low :: nat

definition get_cve_trend :: "stackrox \<Rightarrow> pair list option \<Rightarrow> visibility \<Rightarrow> int \<Rightarrow> datetime \<Rightarrow> trend_point list" where
  "get_cve_trend sx nss vi days now =
     (if nss = Some [] then []
      else let since = now - timedelta_days days;
             vs = filter (\<lambda>v. case ic_first_seen (vr_ic v) of None \<Rightarrow> False | Some t \<Rightarrow> since \<le> t) (scoped_rows nss sx);
             seen = (\<lambda>(cve, rs). date_of (coalesce 0 (sql_min (map (ic_first_seen \<circ> vr_ic) rs))))
           in sort_key tp_date (map (\<lambda>(d, gs). let n = (\<lambda>s. length (filter (\<lambda>(cve, rs). rows_severity rs = s) gs)) in
             \<lparr>tp_date = d, tp_critical = n 4, tp_important = n 3, tp_moderate = n 2, tp_low = n 1\<rparr>)
             (group_by seen (visible_groups vi vs))))"

record matrix_point =
  mp_cve :: string
  mp_cvss :: num
  mp_epss :: num
  mp_severity :: int
  mp_fixable :: bool

definition get_epss_risk_matrix :: "stackrox \<Rightarrow> pair list option \<Rightarrow> visibility \<Rightarrow> matrix_point list" where
  "get_epss_risk_matrix sx nss vi =
     (if nss = Some [] then []
      else sort_key (\<lambda>p. (- mp_severity p, - mp_cvss p)) (map (\<lambda>(cve, rs).
        \<lparr>mp_cve = cve, mp_cvss = rows_cvss rs, mp_epss = rows_epss rs, mp_severity = rows_severity rs,
         mp_fixable = rows_fixable rs\<rparr>) (visible_groups vi (scoped_rows nss sx))))"

record heat_row =
  hm_cluster :: string
  hm_unknown :: nat
  hm_low :: nat
  hm_moderate :: nat
  hm_important :: nat
  hm_critical :: nat
  hm_total :: nat

definition set_heat :: "int \<Rightarrow> nat \<Rightarrow> heat_row \<Rightarrow> heat_row" where
  "set_heat sev n r =
     (let r1 = (if sev = 1 then r\<lparr>hm_low := n\<rparr> else if sev = 2 then r\<lparr>hm_moderate := n\<rparr>
        else if sev = 3 then r\<lparr>hm_important := n\<rparr> else if sev = 4 then r\<lparr>hm_critical := n\<rparr> else r\<lparr>hm_unknown := n\<rparr>)
      in r1\<lparr>hm_total := hm_total r1 + n\<rparr>)"

definition add_heat :: "(string \<times> int) \<times> nat \<Rightarrow> (string \<times> heat_row) list \<Rightarrow> (string \<times> heat_row) list" where
  "add_heat = (\<lambda>((c, sev), n) clusters.
     AList.update c (set_heat sev n (coalesce \<lparr>hm_cluster = c, hm_unknown = 0, hm_low = 0, hm_moderate = 0,
       hm_important = 0, hm_critical = 0, hm_total = 0\<rparr> (map_of clusters c))) clusters)"

definition heat_counts :: "stackrox \<Rightarrow> pair list option \<Rightarrow> visibility \<Rightarrow> ((string \<times> int) \<times> nat) list" where
  "heat_counts sx nss vi =
     (let vs = scoped_rows nss sx; sev = map_of (map (\<lambda>(cve, rs). (cve, rows_severity rs)) (visible_groups vi vs))
      in sort_key fst (map (\<lambda>(k, rs). (k, length (dedupe (map vr_cve rs))))
        (group_by (\<lambda>v. (dp_cluster (vr_dep v), the (sev (vr_cve v)))) (filter (\<lambda>v. sev (vr_cve v) \<noteq> None) vs))))"

definition get_cluster_heatmap :: "stackrox \<Rightarrow> pair list option \<Rightarrow> visibility \<Rightarrow> heat_row list" where
  "get_cluster_heatmap sx nss vi =
     (if nss = Some [] then [] else map snd (fold add_heat (heat_counts sx nss vi) []))"

definition age_buckets :: "(string \<times> num \<times> num option) list" where
  "age_buckets = [(''0-7'', 0, Some 7), (''8-30'', 8, Some 30), (''31-90'', 31, Some 90), (''91-180'', 91, Some 180),
     (''180+'', 181, None)]"

definition in_bucket :: "num \<times> num option \<Rightarrow> num \<Rightarrow> bool" where
  "in_bucket b d \<longleftrightarrow> fst b \<le> d \<and> (case snd b of None \<Rightarrow> True | Some hi \<Rightarrow> d \<le> hi)"

definition age_days :: "datetime \<Rightarrow> vrow list \<Rightarrow> num option" where
  "age_days now rs = map_option (\<lambda>t. of_int (now - t) / of_int day_us) (sql_min (map (ic_first_seen \<circ> vr_ic) rs))"

definition get_cve_aging :: "stackrox \<Rightarrow> pair list option \<Rightarrow> visibility \<Rightarrow> datetime \<Rightarrow> (string \<times> nat) list" where
  "get_cve_aging sx nss vi now =
     (if nss = Some [] then []
      else let ages = somes (map (\<lambda>(cve, rs). age_days now rs) (visible_groups vi (scoped_rows nss sx)))
           in map (\<lambda>(label, b). (label, length (filter (in_bucket b) ages))) age_buckets)"

definition get_fixability_breakdown :: "stackrox \<Rightarrow> pair list option \<Rightarrow> visibility \<Rightarrow> nat \<times> nat" where
  "get_fixability_breakdown sx nss vi =
     (if nss = Some [] then (0, 0)
      else let gs = visible_groups vi (scoped_rows nss sx)
           in (length (filter (\<lambda>(cve, rs). rows_fixable rs) gs), length (filter (\<lambda>(cve, rs). \<not> rows_fixable rs) gs)))"

text \<open>(severity, first seen) of a CVE over all its rows.\<close>

definition get_cve_severity_and_first_seen :: "stackrox \<Rightarrow> string list \<Rightarrow> string \<Rightarrow> (int \<times> datetime option) option" where
  "get_cve_severity_and_first_seen sx ids cve =
     (let rows = filter (\<lambda>i. ic_cve i = cve) (sx_image_cves sx) in
      if cve \<notin> set ids \<or> rows = [] then None
      else Some (coalesce (coalesce 0 (sql_max (map (\<lambda>i. Some (ic_severity i)) rows))) (map_option fst (effective_score sx cve)),
        sql_min (map ic_first_seen rows)))"

definition get_cve_component_fixes ::
    "stackrox \<Rightarrow> string list \<Rightarrow> pair list option \<Rightarrow> string \<Rightarrow> (string \<times> string \<times> string option) list" where
  "get_cve_component_fixes sx ids nss cve =
     (if cve \<notin> set ids \<or> nss = Some [] then []
      else map (\<lambda>(name, version, fix). (name, coalesce [] version, fix))
        (sort_key (\<lambda>(name, version, fix). (name, nulls_last [] version))
          (dedupe (map (\<lambda>v. (the (vr_comp_name v), Option.bind (vr_comp v) cp_version, or_none (ic_fixedby (vr_ic v))))
            (filter (\<lambda>v. vr_cve v = cve \<and> vr_comp_name v \<noteq> None) (scoped_rows nss sx))))))"

section \<open>Panels from the application database\<close>

definition is_fix_overdue :: "datetime option \<Rightarrow> datetime \<Rightarrow> bool" where
  "is_fix_overdue fa cutoff = (case fa of None \<Rightarrow> False | Some t \<Rightarrow> t \<le> cutoff)"

definition enrich_cves ::
    "cve_data list \<Rightarrow> (string \<rightharpoonup> cve_priority) \<Rightarrow> (string \<rightharpoonup> risk_acceptance) \<Rightarrow> cve_item list" where
  "enrich_cves cves prio acc = map (\<lambda>c. (build_cve_item prio acc (\<lambda>_. []) [] [] c)\<lparr>ci_origins := []\<rparr>) cves"

record history_point =
  hp_date :: date
  hp_critical :: nat
  hp_important :: nat
  hp_moderate :: nat
  hp_low :: nat
  hp_unknown :: nat

definition history_point_of :: "(cve_snapshot \<Rightarrow> nat) \<Rightarrow> date \<Rightarrow> cve_snapshot list \<Rightarrow> history_point" where
  "history_point_of cnt d rows =
     (let n = (\<lambda>f. sum_list (map cnt (filter (\<lambda>r. cs_date r = d \<and> f (cs_severity r)) rows))) in
      \<lparr>hp_date = d, hp_critical = n (\<lambda>s. s = 4), hp_important = n (\<lambda>s. s = 3), hp_moderate = n (\<lambda>s. s = 2),
       hp_low = n (\<lambda>s. s = 1), hp_unknown = n (\<lambda>s. s \<notin> {1, 2, 3, 4})\<rparr>)"

definition cve_history :: "app_db \<Rightarrow> pair list option \<Rightarrow> bool \<Rightarrow> int \<Rightarrow> datetime \<Rightarrow> history_point list" where
  "cve_history db ns_list use_visible days now =
     (let rows = filter (\<lambda>r. date_of now - days \<le> cs_date r \<and>
            (case ns_list of None \<Rightarrow> cs_namespace r = ''*''
             | Some ps \<Rightarrow> cs_namespace r \<noteq> ''*'' \<and> (cs_namespace r, cs_cluster r) \<in> set ps)) (cve_snapshots db)
      in map (\<lambda>d. history_point_of (if use_visible then cs_visible else cs_total) d rows) (sorted_set (map cs_date rows)))"

definition ra_pipeline :: "app_db \<Rightarrow> nat \<times> nat \<times> nat \<times> nat" where
  "ra_pipeline db =
     (let n = (\<lambda>st. length (filter (\<lambda>r. ra_status r = st) (ras db))) in
      (n RiskRequested, n RiskApproved, n RiskRejected, n RiskExpired))"

record mttr_severity =
  mt_severity :: int
  mt_avg_days :: num
  mt_count :: nat

text \<open>The exposure of a resolved remediation in days, with the severity of its CVE.\<close>

definition mttr_of :: "(string \<Rightarrow> (int \<times> datetime option) option) \<Rightarrow> remediation \<Rightarrow> (int \<times> num) option" where
  "mttr_of info r =
     (case info (rem_cve r) of None \<Rightarrow> None
      | Some (sev, first_seen) \<Rightarrow> (case (first_seen, rem_resolved_at r) of
          (Some t, Some e) \<Rightarrow> (let d = of_int (e - t) / of_int day_us in if d < 0 then None else Some (sev, d))
        | _ \<Rightarrow> None))"

definition mttr_by_severity :: "app_db \<Rightarrow> stackrox \<Rightarrow> pair list option \<Rightarrow> mttr_severity list" where
  "mttr_by_severity db sx ns_list =
     (let rows = filter (\<lambda>r. rem_resolved_at r \<noteq> None \<and>
            (case ns_list of None \<Rightarrow> True | Some ps \<Rightarrow> ps \<noteq> [] \<longrightarrow> (rem_namespace r, rem_cluster r) \<in> set ps)) (rems db);
          info = get_cve_severity_and_first_seen sx (dedupe (map rem_cve rows));
          days = somes (map (mttr_of info) rows)
      in map (\<lambda>(sev, ds). \<lparr>mt_severity = sev,
            mt_avg_days = of_int (round_even (sum_list (map snd ds) / of_nat (length ds) * 10000)) / 10000,
            mt_count = length ds\<rparr>)
          (sort_key fst (group_by fst days)))"

definition upcoming_for_dashboard ::
    "pep440 \<Rightarrow> app_db \<Rightarrow> stackrox \<Rightarrow> pair list \<Rightarrow> datetime \<Rightarrow> upcoming list" where
  "upcoming_for_dashboard P db sx nss now =
     (case gsettings db of None \<Rightarrow> [] | Some s \<Rightarrow> compute_upcoming_escalations P db sx nss s now)"

section \<open>Rankings\<close>

definition keep_best :: "cve_item \<Rightarrow> (string \<times> cve_item) list \<Rightarrow> (string \<times> cve_item) list" where
  "keep_best i seen =
     (case map_of seen (ci_cve i) of None \<Rightarrow> AList.update (ci_cve i) i seen
      | Some j \<Rightarrow> if ci_epss j < ci_epss i then AList.update (ci_cve i) i seen else seen)"

definition unique_items :: "cve_item list \<Rightarrow> cve_item list" where
  "unique_items items = map snd (fold keep_best items [])"

definition datetime_max :: datetime where "datetime_max = 253402300799999999"

definition top_epss :: "cve_item list \<Rightarrow> cve_item list" where
  "top_epss items = take 5 (sort_key_rev ci_epss items)"

definition priority_key :: "cve_item \<Rightarrow> bool \<times> datetime \<times> int \<times> num" where
  "priority_key i =
     (let deadline = Option.bind (ci_priority i) pr_deadline in
      (deadline = None, (case deadline of Some t \<Rightarrow> t | None \<Rightarrow> coalesce datetime_max (ci_first_seen i)),
       - ci_severity i, - ci_epss i))"

definition top_priorities :: "cve_item list \<Rightarrow> cve_item list" where
  "top_priorities items =
     take 8 (sort_key priority_key (filter (\<lambda>i. ci_priority i \<noteq> None \<and> ci_ra i = None) items))"

definition fix_first_key :: "cve_item \<Rightarrow> bool \<times> bool \<times> num \<times> int" where
  "fix_first_key i = (ci_priority i = None, \<not> ci_fixable i, - ci_epss i, - ci_severity i)"

definition fix_first :: "cve_item list \<Rightarrow> cve_item list" where
  "fix_first items = take 10 (sort_key fix_first_key (filter (\<lambda>i. ci_ra i = None) items))"

definition attach_component_fixes ::
    "stackrox \<Rightarrow> cve_item list \<Rightarrow> pair list option \<Rightarrow> (cve_item \<times> (string \<times> string \<times> string option) list) list" where
  "attach_component_fixes sx items nss =
     map (\<lambda>i. (i, get_cve_component_fixes sx (map ci_cve items) nss (ci_cve i))) items"

section \<open>The handler\<close>

record dashboard_data =
  da_total :: nat
  da_escalations :: nat
  da_upcoming :: nat
  da_fixable_critical :: nat
  da_open_ra :: nat
  da_fix_overdue :: nat
  da_in_remediation :: nat
  da_overdue_days :: int
  da_severity :: "(int \<times> nat) list"
  da_namespaces :: "ns_count list"
  da_priority :: "cve_item list"
  da_high_epss :: "cve_item list"
  da_trend :: "trend_point list"
  da_matrix :: "matrix_point list"
  da_heatmap :: "heat_row list"
  da_aging :: "(string \<times> nat) list"
  da_pipeline :: "nat \<times> nat \<times> nat \<times> nat"
  da_fixability :: "nat \<times> nat"
  da_history :: "history_point list"
  da_mttr :: "mttr_severity list"
  da_fix_first :: "(cve_item \<times> (string \<times> string \<times> string option) list) list"

definition empty_dashboard :: "int \<Rightarrow> dashboard_data" where
  "empty_dashboard days =
     \<lparr>da_total = 0, da_escalations = 0, da_upcoming = 0, da_fixable_critical = 0, da_open_ra = 0, da_fix_overdue = 0,
      da_in_remediation = 0, da_overdue_days = days, da_severity = [], da_namespaces = [], da_priority = [],
      da_high_epss = [], da_trend = [], da_matrix = [], da_heatmap = [], da_aging = [], da_pipeline = (0, 0, 0, 0),
      da_fixability = (0, 0), da_history = [], da_mttr = [], da_fix_first = []\<rparr>"

definition overdue_days :: "app_db \<Rightarrow> int" where
  "overdue_days db = (case gsettings db of None \<Rightarrow> 30 | Some s \<Rightarrow> gs_fix_overdue_days s)"

text \<open>The namespaces of the request; for a user who sees all of them and asks for no scope, none stands for all.\<close>

definition dashboard_namespaces :: "current_user \<Rightarrow> string option \<Rightarrow> string option \<Rightarrow> stackrox \<Rightarrow> pair list" where
  "dashboard_namespaces u cluster namespace sx =
     (if can_see_all_namespaces u
      then if cluster \<noteq> None \<or> namespace \<noteq> None then narrow_namespaces (list_namespaces sx) cluster namespace else []
      else narrow_namespaces (cu_namespaces u) cluster namespace)"

definition ns_list_for_queries :: "current_user \<Rightarrow> string option \<Rightarrow> string option \<Rightarrow> stackrox \<Rightarrow> pair list option" where
  "ns_list_for_queries u cluster namespace sx =
     (if can_see_all_namespaces u \<and> cluster = None \<and> namespace = None then None
      else Some (dashboard_namespaces u cluster namespace sx))"

text \<open>(all CVEs of the view, those left after suppression, the suppressed ids, the bounds of the charts).\<close>

definition dashboard_cves ::
    "pep440 \<Rightarrow> current_user \<Rightarrow> string option \<Rightarrow> string option \<Rightarrow> bool \<Rightarrow> app_db \<Rightarrow> stackrox \<Rightarrow> cve_data list \<times> visibility" where
  "dashboard_cves P u cluster namespace ignore db sx =
     (let (mc, me) = resolve_view_thresholds u (gsettings db) ignore; w = always_show db;
          nss = ns_list_for_queries u cluster namespace sx;
          cves = (case nss of None \<Rightarrow> get_all_cves P sx mc me w | Some ps \<Rightarrow> get_cves_for_namespaces P sx ps mc me w);
          supp = fst (compute_suppression_sets db sx u (map cd_cve cves) nss)
      in (filter (\<lambda>c. cd_cve c \<notin> set supp) cves, \<lparr>vi_cvss = mc, vi_epss = me, vi_always = w, vi_exclude = supp\<rparr>))"

definition open_risk_acceptances :: "current_user \<Rightarrow> app_db \<Rightarrow> nat result" where
  "open_risk_acceptances u db =
     (let open_ras = filter (\<lambda>r. ra_status r = RiskRequested) (ras db) in
      if is_sec_team u then Inr (length open_ras)
      else rbind (traverse (user_can_access_ra u) open_ras) (\<lambda>bs. Inr (length (filter id bs))))"

definition dashboard ::
    "pep440 \<Rightarrow> current_user \<Rightarrow> string option \<Rightarrow> string option \<Rightarrow> bool \<Rightarrow> app_db \<Rightarrow> stackrox \<Rightarrow> dashboard_data result" where
  "dashboard P u cluster namespace ignore db sx =
     (if \<not> can_see_all_namespaces u \<and> \<not> has_namespaces u then Inr (empty_dashboard (overdue_days db))
      else
        let now = db_now db;
            namespaces = dashboard_namespaces u cluster namespace sx;
            nss = ns_list_for_queries u cluster namespace sx;
            (cves, vi) = dashboard_cves P u cluster namespace ignore db sx;
            rem = compute_remediation_status db sx (map cd_cve cves) nss;
            items = unique_items (enrich_cves cves (priorities_of db) (acceptances_of db));
            cutoff = now - timedelta_days (overdue_days db)
        in rbind (open_risk_acceptances u db) (\<lambda>open_ra. Inr
          \<lparr>da_total = length cves,
           da_escalations = count_active_workspace (can_see_all_namespaces u) namespaces cluster namespace db,
           da_upcoming = length (upcoming_for_dashboard P db sx namespaces now),
           da_fixable_critical = length (filter (\<lambda>c. cd_severity c = 4 \<and> cd_fixable c) cves),
           da_open_ra = open_ra,
           da_fix_overdue = length (filter (\<lambda>c. is_fix_overdue (cd_fix_since c) cutoff) cves),
           da_in_remediation = length (filter (\<lambda>c. rem (cd_cve c) = Some InProgress) cves),
           da_overdue_days = overdue_days db,
           da_severity = get_severity_distribution sx nss vi,
           da_namespaces = get_cves_per_namespace sx nss vi,
           da_priority = top_priorities items,
           da_high_epss = top_epss items,
           da_trend = get_cve_trend sx nss vi 90 now,
           da_matrix = get_epss_risk_matrix sx nss vi,
           da_heatmap = get_cluster_heatmap sx nss vi,
           da_aging = get_cve_aging sx nss vi now,
           da_pipeline = ra_pipeline db,
           da_fixability = get_fixability_breakdown sx nss vi,
           da_history = cve_history db nss (\<not> (is_sec_team u \<or> ignore)) 90 now,
           da_mttr = (if is_sec_team u then mttr_by_severity db sx nss else []),
           da_fix_first = attach_component_fixes sx (fix_first items) nss\<rparr>))"

section \<open>The charts and the list\<close>

lemma rows_of_cve_data [simp]:
  "cd_cvss (cve_data_of P g) = rows_cvss (snd g)" "cd_epss (cve_data_of P g) = rows_epss (snd g)"
  "cd_severity (cve_data_of P g) = rows_severity (snd g)" "cd_fixable (cve_data_of P g) = rows_fixable (snd g)"
  by (simp_all add: cve_data_of_def Let_def rows_cvss_def rows_epss_def rows_severity_def rows_fixable_def comp_def list_ex_iff)

text \<open>The CVEs of the view that are not excluded are the groups the charts are made of.\<close>

lemma cves_of_groups:
  "mset (filter (\<lambda>c. cd_cve c \<notin> set ex) (cves_of P mc me w vs)) =
     mset (map (cve_data_of P) (visible_groups \<lparr>vi_cvss = mc, vi_epss = me, vi_always = w, vi_exclude = ex\<rparr> vs))"
proof -
  have "filter (\<lambda>c. cd_cve c \<notin> set ex)
      (filter (\<lambda>c. passes mc me w (cd_cve c) (cd_cvss c) (cd_epss c)) (map (cve_data_of P) (group_by vr_cve vs))) =
    map (cve_data_of P) (visible_groups \<lparr>vi_cvss = mc, vi_epss = me, vi_always = w, vi_exclude = ex\<rparr> vs)"
    by (simp add: filter_map comp_def visible_groups_def visibility_having_def case_prod_unfold conj_commute)
  from arg_cong [OF this, of mset] show ?thesis by (simp only: cves_of_def mset_filter mset_sort)
qed

lemma dashboard_cves_mset:
  assumes "dashboard_cves P u cluster namespace ignore db sx = (cves, vi)"
    and "nss = ns_list_for_queries u cluster namespace sx"
  shows "mset cves = (if nss = Some [] then {#} else mset (map (cve_data_of P) (visible_groups vi (scoped_rows nss sx))))"
proof (cases "resolve_view_thresholds u (gsettings db) ignore")
  case (Pair mc me)
  show ?thesis
    using assms cves_of_groups [of _ P mc me "always_show db" "scoped_rows nss sx"]
    by (auto simp: dashboard_cves_def Pair Let_def get_all_cves_def get_cves_for_namespaces_def scoped_rows_def
        split: option.splits)
qed

lemma mset_sort_items [simp]: "mset (sort_items by desc items) = mset items"
  by (simp add: sort_items_def sort_key_rev_def)

text \<open>What the charts count of a CVE.\<close>

definition chart_view :: "cve_item \<Rightarrow> string \<times> int \<times> bool" where
  "chart_view i = (ci_cve i, ci_severity i, ci_fixable i)"

definition chart_data :: "cve_data \<Rightarrow> string \<times> int \<times> bool" where
  "chart_data c = (cd_cve c, cd_severity c, cd_fixable c)"

lemma chart_view_simps [simp]:
  "chart_view (i\<lparr>ci_rem := r\<rparr>) = chart_view i" "chart_view (i\<lparr>ci_subscribed := b\<rparr>) = chart_view i"
  "chart_view (build_cve_item p a c s s2 d) = chart_data d"
  by (simp_all add: chart_view_def chart_data_def build_cve_item_def)

definition panel_query :: "string option \<Rightarrow> string option \<Rightarrow> bool \<Rightarrow> cve_query" where
  "panel_query cluster namespace ignore = default_query\<lparr>cq_cluster := cluster, cq_namespace := namespace,
     cq_ignore_thresholds := ignore, cq_show_remediated := True\<rparr>"

lemma panel_query_simps [simp]:
  "cq_sort_by (panel_query c n g) = ''severity''" "cq_age_min (panel_query c n g) = None" "cq_age_max (panel_query c n g) = None"
  "\<not> cq_fix_overdue (panel_query c n g)" "\<not> cq_show_suppressed (panel_query c n g)" "cq_cluster (panel_query c n g) = c"
  "\<not> cq_subscribed_only (panel_query c n g)" "cq_namespace (panel_query c n g) = n" "cq_restrict (panel_query c n g) = None"
  "cq_ignore_thresholds (panel_query c n g) = g" "cq_show_remediated (panel_query c n g)"
  "cq_remediation_status (panel_query c n g) = None" "item_filters (panel_query c n g) comps = (\<lambda>i. True)"
  "deployment_filter u sx (panel_query c n g) items = items"
  by (simp_all add: panel_query_def default_query_def item_filters_def deployment_filter_def fun_eq_iff)

lemma panel_list:
  assumes "view_cves P u db sx (panel_query c n g) = Some (nss, cves)"
    and "fst (compute_suppression_sets db sx u (map cd_cve cves) (Some nss)) = supp"
  shows "mset (map chart_view (fetch_filtered_cves P u db sx now (panel_query c n g))) =
    mset (map chart_data (filter (\<lambda>c. cd_cve c \<notin> set supp) cves))"
proof -
  let ?items = "listed_items u db (panel_query c n g) (base_items db sx cves nss
    (compute_suppression_sets db sx u (map cd_cve cves) (Some nss)))"
  have r: "map chart_view (remediation_stage db sx (panel_query c n g) nss xs) = map chart_view xs" for xs
    by (simp add: remediation_stage_def Let_def comp_def)
  have s: "ci_suppressed (build_cve_item p a cs x y d) = (cd_cve d \<in> set x)" for p a cs x y d
    by (simp add: build_cve_item_def)
  have "map chart_view ?items = map chart_data (filter (\<lambda>c. cd_cve c \<notin> set supp) cves)"
    by (simp add: listed_items_def base_items_def filter_map comp_def s assms(2))
  moreover have "mset (map chart_view (fetch_filtered_cves P u db sx now (panel_query c n g))) =
      mset (map chart_view (remediation_stage db sx (panel_query c n g) nss ?items))"
    unfolding fetch_unfold [OF assms(1)] mset_map mset_sort_items by simp
  ultimately show ?thesis unfolding r by (rule trans [rotated, OF arg_cong])
qed

text \<open>The suppression of an unscoped view of all namespaces is that of the view of each of them.\<close>

lemma suppression_all_namespaces:
  "can_see_all_namespaces u \<Longrightarrow> compute_suppression_sets db sx u ids None = compute_suppression_sets db sx u ids (Some (list_namespaces sx))"
  by (auto simp: compute_suppression_sets_def Let_def split: prod.splits)

lemma dashboard_list:
  assumes "dashboard_cves P u cluster namespace ignore db sx = (cves, vi)" and "can_see_all_namespaces u \<or> has_namespaces u"
  shows "mset (map chart_view (fetch_filtered_cves P u db sx now (panel_query cluster namespace ignore))) = mset (map chart_data cves)"
proof (cases "ns_list_for_queries u cluster namespace sx")
  case None
  then have all: "can_see_all_namespaces u" "cluster = None" "namespace = None"
    by (auto simp: ns_list_for_queries_def split: if_splits)
  obtain mc me where t: "resolve_view_thresholds u (gsettings db) ignore = (mc, me)" by fastforce
  have "view_cves P u db sx (panel_query cluster namespace ignore) =
      Some (list_namespaces sx, get_all_cves P sx mc me (always_show db))"
    using all by (simp add: view_cves_def t)
  from panel_list [OF this refl] show ?thesis
    using assms(1) suppression_all_namespaces [OF all(1)] by (auto simp: dashboard_cves_def t None Let_def)
next
  case (Some nss)
  obtain mc me where t: "resolve_view_thresholds u (gsettings db) ignore = (mc, me)" by fastforce
  have "view_cves P u db sx (panel_query cluster namespace ignore) =
      Some (nss, get_cves_for_namespaces P sx nss mc me (always_show db))"
    using Some assms(2)
    by (auto simp: view_cves_def t ns_list_for_queries_def dashboard_namespaces_def Let_def split: if_splits)
  from panel_list [OF this refl] show ?thesis using assms(1) by (auto simp: dashboard_cves_def t Some Let_def)
qed

lemma sum_length_filter: "finite A \<Longrightarrow> (\<Sum>k \<in> A. length (filter (\<lambda>x. f x = k) xs)) = length (filter (\<lambda>x. f x \<in> A) xs)"
proof (induction xs)
  case (Cons x xs)
  have "(\<Sum>k \<in> A. length (filter (\<lambda>y. f y = k) (x # xs))) =
      (\<Sum>k \<in> A. length (filter (\<lambda>y. f y = k) xs)) + (\<Sum>k \<in> A. if k = f x then 1 else 0)"
    by (simp add: sum.distrib [symmetric]) (rule sum.cong; simp)
  then show ?case using Cons by (simp add: sum.delta)
qed simp

text \<open>The rows that \<open>h\<close> selects, counted over the groups whose key \<open>p\<close> selects.\<close>

lemma sum_group_by_filter:
  "sum_list (map (\<lambda>(k, xs). length (filter h xs)) (filter (\<lambda>(k, xs). p k) (group_by f xs))) = length (filter (\<lambda>x. h x \<and> p (f x)) xs)"
proof -
  have "sum_list (map (\<lambda>(k, xs). length (filter h xs)) (filter (\<lambda>(k, xs). p k) (group_by f xs))) =
      sum_list (map (\<lambda>k. length (filter (\<lambda>x. f x = k) (filter h xs))) (filter p (dedupe (map f xs))))"
    by (simp add: group_by_def filter_map comp_def conj_commute)
  also have "\<dots> = (\<Sum>k \<in> {k \<in> f ` set xs. p k}. length (filter (\<lambda>x. f x = k) (filter h xs)))"
    by (subst sum_list_distinct_conv_sum_set) simp_all
  also have "\<dots> = length (filter (\<lambda>x. f x \<in> {k \<in> f ` set xs. p k}) (filter h xs))"
    by (rule sum_length_filter) simp
  also have "filter (\<lambda>x. f x \<in> {k \<in> f ` set xs. p k}) (filter h xs) = filter (\<lambda>x. h x \<and> p (f x)) xs"
    by (auto intro!: filter_cong)
  finally show ?thesis .
qed

lemma sum_group_by: "sum_list (map (\<lambda>(k, xs). length xs) (group_by f xs)) = length xs"
  using sum_group_by_filter [of "\<lambda>_. True" "\<lambda>_. True" f xs] by (simp add: case_prod_unfold)

lemma mset_filter_length: "mset xs = mset ys \<Longrightarrow> length (filter f xs) = length (filter f ys)"
  by (metis mset_filter size_mset)

lemma mset_map_filter_length:
  assumes "mset (map f xs) = mset (map g ys)"
  shows "length (filter (\<lambda>x. h (f x)) xs) = length (filter (\<lambda>y. h (g y)) ys)"
  using mset_filter_length [OF assms, of h] by (simp add: filter_map comp_def)

text \<open>The panels of one bound are counts over one list of groups.\<close>

lemma panels_of_groups:
  assumes "mset cves = (if nss = Some [] then {#} else mset (map (cve_data_of P) (visible_groups vi (scoped_rows nss sx))))"
  shows "sum_list (map snd (get_severity_distribution sx nss vi)) = length cves"
    and "(s, n) \<in> set (get_severity_distribution sx nss vi) \<Longrightarrow> n = length (filter (\<lambda>c. cd_severity c = s) cves)"
    and "mset (map mp_cve (get_epss_risk_matrix sx nss vi)) = mset (map cd_cve cves)"
    and "get_fixability_breakdown sx nss vi = (length (filter cd_fixable cves), length (filter (\<lambda>c. \<not> cd_fixable c) cves))"
proof -
  let ?gs = "if nss = Some [] then [] else visible_groups vi (scoped_rows nss sx)"
  have m: "mset cves = mset (map (cve_data_of P) ?gs)" using assms by simp
  note f = mset_filter_length [OF m, unfolded filter_map length_map comp_def rows_of_cve_data]
  have d: "get_severity_distribution sx nss vi =
      sort_key fst (map (\<lambda>(sev, gs). (sev, length gs)) (group_by (\<lambda>(cve, rs). rows_severity rs) ?gs))"
    by (simp add: get_severity_distribution_def group_by_def)
  have "mset (map snd (get_severity_distribution sx nss vi)) = mset (map (\<lambda>(k, xs). length xs) (group_by (\<lambda>(cve, rs). rows_severity rs) ?gs))"
    unfolding d mset_map mset_sort by (simp add: image_mset.compositionality comp_def case_prod_unfold)
  from arg_cong [OF this, of sum_mset] show "sum_list (map snd (get_severity_distribution sx nss vi)) = length cves"
    unfolding sum_mset_sum_list sum_group_by using arg_cong [OF m, of size] by (simp only: size_mset length_map)
  show "n = length (filter (\<lambda>c. cd_severity c = s) cves)" if "(s, n) \<in> set (get_severity_distribution sx nss vi)"
    using that unfolding d f by (auto simp: in_group_by case_prod_unfold)
  show "mset (map mp_cve (get_epss_risk_matrix sx nss vi)) = mset (map cd_cve cves)"
    unfolding mset_map m by (simp add: get_epss_risk_matrix_def image_mset.compositionality comp_def case_prod_unfold)
  show "get_fixability_breakdown sx nss vi = (length (filter cd_fixable cves), length (filter (\<lambda>c. \<not> cd_fixable c) cves))"
    unfolding f by (simp add: get_fixability_breakdown_def case_prod_unfold Let_def)
qed

text \<open>C2: The panels of the dashboard agree with each other and with the CVE list: the total is the length of the list
  for the same scope and bounds with remediated CVEs included, the severity counts add up to it and each is the
  number of listed CVEs of that severity, the risk matrix has exactly the listed CVEs, and the fixable and unfixable
  ones are those of the list.\<close>

theorem dashboard_matches_list:
  assumes "dashboard P u cluster namespace ignore db sx = Inr d"
    and "items = fetch_filtered_cves P u db sx now (panel_query cluster namespace ignore)"
  shows "da_total d = length items \<and> sum_list (map snd (da_severity d)) = length items \<and>
    (\<forall>(s, n) \<in> set (da_severity d). n = length (filter (\<lambda>i. ci_severity i = s) items)) \<and>
    mset (map mp_cve (da_matrix d)) = mset (map ci_cve items) \<and>
    da_fixability d = (length (filter ci_fixable items), length (filter (\<lambda>i. \<not> ci_fixable i) items)) \<and>
    da_fixable_critical d = length (filter (\<lambda>i. ci_severity i = 4 \<and> ci_fixable i) items)"
proof (cases "can_see_all_namespaces u \<or> has_namespaces u")
  case False
  then have "view_cves P u db sx (panel_query cluster namespace ignore) = None"
    by (simp add: view_cves_def split: prod.splits)
  with False assms show ?thesis by (auto simp: dashboard_def empty_dashboard_def fetch_None)
next
  case True
  obtain cves vi where c: "dashboard_cves P u cluster namespace ignore db sx = (cves, vi)" by fastforce
  note p = panels_of_groups [OF dashboard_cves_mset [OF c refl]]
  have m: "mset (map chart_view items) = mset (map chart_data cves)"
    using dashboard_list [OF c True] assms(2) by simp
  note f = mset_map_filter_length [OF m]
  have counts: "length (filter ci_fixable items) = length (filter cd_fixable cves)"
    "length (filter (\<lambda>i. \<not> ci_fixable i) items) = length (filter (\<lambda>c. \<not> cd_fixable c) cves)"
    "length (filter (\<lambda>i. ci_severity i = s) items) = length (filter (\<lambda>c. cd_severity c = s) cves)"
    "length (filter (\<lambda>i. ci_severity i = 4 \<and> ci_fixable i) items) = length (filter (\<lambda>c. cd_severity c = 4 \<and> cd_fixable c) cves)" for s
    using f [of "\<lambda>x. snd (snd x)"] f [of "\<lambda>x. \<not> snd (snd x)"] f [of "\<lambda>x. fst (snd x) = s"]
      f [of "\<lambda>x. fst (snd x) = 4 \<and> snd (snd x)"] by (simp_all add: chart_view_def chart_data_def)
  have len: "length items = length cves" using f [of "\<lambda>_. True"] by simp
  have "image_mset fst (mset (map chart_view items)) = image_mset fst (mset (map chart_data cves))" using m by simp
  then have ids: "mset (map ci_cve items) = mset (map cd_cve cves)"
    by (simp add: image_mset.compositionality comp_def chart_view_def chart_data_def)
  let ?nss = "ns_list_for_queries u cluster namespace sx"
  have fields: "da_total d = length cves" "da_severity d = get_severity_distribution sx ?nss vi"
    "da_matrix d = get_epss_risk_matrix sx ?nss vi" "da_fixability d = get_fixability_breakdown sx ?nss vi"
    "da_fixable_critical d = length (filter (\<lambda>c. cd_severity c = 4 \<and> cd_fixable c) cves)"
    using assms(1) True by (auto simp: dashboard_def c Let_def rbind_Inr_iff)
  show ?thesis unfolding fields counts ids len using p by auto
qed

section \<open>Where the panels do not agree\<close>

text \<open>A user without access to all namespaces who asks for a cluster or namespace outside their access gets an empty
  dashboard, except that the number of upcoming escalations is the one of all namespaces, as on the dashboard of the
  security team, and that the counts of risk acceptances by status are those of all teams in any case.\<close>

theorem dashboard_scope_leak:
  assumes "\<not> can_see_all_namespaces u" and "has_namespaces u" and "narrow_namespaces (cu_namespaces u) cluster namespace = []"
    and "dashboard P u cluster namespace ignore db sx = Inr d"
    and "can_see_all_namespaces sec" and "dashboard P sec None None ignore' db sx = Inr e"
  shows "da_total d = 0 \<and> da_matrix d = [] \<and> da_namespaces d = [] \<and> da_upcoming d = da_upcoming e \<and> da_pipeline d = da_pipeline e"
proof -
  obtain cves vi where c: "dashboard_cves P u cluster namespace ignore db sx = (cves, vi)" by fastforce
  obtain cves' vi' where c': "dashboard_cves P sec None None ignore' db sx = (cves', vi')" by fastforce
  have n: "dashboard_namespaces u cluster namespace sx = []" "dashboard_namespaces sec None None sx = []"
    "ns_list_for_queries u cluster namespace sx = Some []"
    using assms(1,3,5) by (auto simp: dashboard_namespaces_def ns_list_for_queries_def)
  have "cves = []" using dashboard_cves_mset [OF c refl] n(3) by simp
  with assms show ?thesis
    by (auto simp: dashboard_def c c' n Let_def rbind_Inr_iff get_epss_risk_matrix_def get_cves_per_namespace_def)
qed

text \<open>A CVE that is seven and a half days old is in none of the age buckets, which start and end at whole days.\<close>

lemma aging_gap:
  "get_severity_distribution ex_sx None \<lparr>vi_cvss = 0, vi_epss = 0, vi_always = {}, vi_exclude = []\<rparr> = [(4, 1)] \<and>
   map snd (get_cve_aging ex_sx None \<lparr>vi_cvss = 0, vi_epss = 0, vi_always = {}, vi_exclude = []\<rparr> (648000000000)) = [0, 0, 0, 0, 0]"
  by (simp add: get_severity_distribution_def get_cve_aging_def visible_groups_def visibility_having_def scoped_rows_def joined_ex
      group_by_def rows_severity_def rows_cvss_def rows_epss_def passes_def max0_def sql_max_def sql_min_def age_buckets_def
      in_bucket_def age_days_def ex_row_def ex_ic_def Let_def day_us_def insort_key_def)

section \<open>Witnesses\<close>

lemma ex_dashboard:
  "\<exists>d. dashboard ex_P ex_member c n g ex_db ex_sx = Inr d" "\<exists>d. dashboard ex_P ex_sec c n g ex_db ex_sx = Inr d"
  by (auto simp: dashboard_def open_risk_acceptances_def Let_def split: prod.splits)

theorem dashboard_matches_list_witness:
  "\<exists>d. dashboard ex_P ex_member None None False ex_db ex_sx = Inr d \<and> sum_list (map snd (da_severity d)) = da_total d \<and>
    length (da_matrix d) = da_total d"
proof -
  obtain d where d: "dashboard ex_P ex_member None None False ex_db ex_sx = Inr d" using ex_dashboard(1) by blast
  note m = dashboard_matches_list [OF d refl]
  have "mset (map mp_cve (da_matrix d)) = mset (map ci_cve (fetch_filtered_cves ex_P ex_member ex_db ex_sx 0 (panel_query None None False)))"
    using m [of 0] by blast
  then have "length (da_matrix d) = length (fetch_filtered_cves ex_P ex_member ex_db ex_sx 0 (panel_query None None False))"
    by (metis length_map size_mset)
  with d m [of 0] show ?thesis by auto
qed

theorem dashboard_scope_leak_witness:
  "\<exists>d e. dashboard ex_P ex_member (Some ''c9'') None False ex_db ex_sx = Inr d \<and> dashboard ex_P ex_sec None None False ex_db ex_sx = Inr e \<and>
    da_matrix d = [] \<and> da_upcoming d = da_upcoming e"
proof -
  obtain d e where d: "dashboard ex_P ex_member (Some ''c9'') None False ex_db ex_sx = Inr d"
    and e: "dashboard ex_P ex_sec None None False ex_db ex_sx = Inr e" using ex_dashboard by blast
  have "narrow_namespaces (cu_namespaces ex_member) (Some ''c9'') None = []" by (simp add: narrow_namespaces_def)
  with d e dashboard_scope_leak [OF _ _ _ d _ e] show ?thesis by auto
qed

end
