(* ===== verification/History.thy ===== *)
theory History
  imports Dashboard
begin

text \<open>
  The daily snapshot of the CVE counts: \<open>run_cve_snapshot\<close> of \<open>app/tasks/scheduler.py\<close> with \<open>get_snapshot_counts\<close>,
  whose rows the history panel of the dashboard adds up. The unique constraint on (date, cluster, namespace, severity)
  is checked when the job commits. The lemmas show that a rerun on the same day changes nothing and that the point
  the dashboard draws for the day is what the charts of that day count.
\<close>

section \<open>Counts\<close>

type_synonym snapshot_key = "string \<times> string \<times> int"     \<comment> \<open>cluster, namespace, severity\<close>

text \<open>One row per (cluster, namespace, CVE): severity, CVSS, EPSS.\<close>

type_synonym cve_scores = "int \<times> num \<times> num"

definition per_ns_cve :: "stackrox \<Rightarrow> string list \<Rightarrow> ((string \<times> string \<times> string) \<times> cve_scores) list" where
  "per_ns_cve sx ex =
     map (\<lambda>(k, rs). (k, (rows_severity rs, rows_cvss rs, rows_epss rs)))
       (group_by (\<lambda>v. (dp_cluster (vr_dep v), dp_namespace (vr_dep v), vr_cve v)) (filter (\<lambda>v. vr_cve v \<notin> set ex) (joined sx)))"

definition max_scores :: "cve_scores list \<Rightarrow> cve_scores" where
  "max_scores xs =
     (coalesce 0 (sql_max (map (Some \<circ> fst) xs)), coalesce 0 (sql_max (map (Some \<circ> fst \<circ> snd) xs)),
      coalesce 0 (sql_max (map (Some \<circ> snd \<circ> snd) xs)))"

definition org_cve :: "stackrox \<Rightarrow> string list \<Rightarrow> (string \<times> cve_scores) list" where
  "org_cve sx ex = map (\<lambda>(cve, rows). (cve, max_scores (map snd rows))) (group_by (snd \<circ> snd \<circ> fst) (per_ns_cve sx ex))"

text \<open>\<open>COUNT(*)\<close> and \<open>COUNT(*) FILTER (WHERE \<dots>)\<close> of a group.\<close>

definition count_rows ::
    "num \<Rightarrow> num \<Rightarrow> string set \<Rightarrow> ('a \<Rightarrow> string) \<Rightarrow> ('a \<times> cve_scores) list \<Rightarrow> nat \<times> nat" where
  "count_rows mc me w cve rows =
     (length rows, length (filter (\<lambda>(k, sev, cvss, epss). passes mc me w (cve k) cvss epss) rows))"

definition get_snapshot_counts ::
    "stackrox \<Rightarrow> num \<Rightarrow> num \<Rightarrow> string set \<Rightarrow> string list \<Rightarrow> (snapshot_key \<times> nat \<times> nat) list" where
  "get_snapshot_counts sx mc me w ex =
     map (\<lambda>(k, rows). (k, count_rows mc me w (snd \<circ> snd) rows))
       (group_by (\<lambda>((cl, ns, cve), sev, _). (cl, ns, sev)) (per_ns_cve sx ex)) @
     map (\<lambda>(sev, rows). ((''*'', ''*'', sev), count_rows mc me w id rows)) (group_by (fst \<circ> snd) (org_cve sx ex))"

section \<open>The job\<close>

definition retention_days :: int where "retention_days = 400"

text \<open>The stand-in for the user that the suppression is computed for: it sees everything.\<close>

definition org_user :: current_user where
  "org_user = \<lparr>cu_id = [], cu_username = [], cu_full_name = None, cu_email = [], cu_role = SecTeam, cu_namespaces = [],
     cu_has_all = True\<rparr>"

definition org_suppressed :: "pep440 \<Rightarrow> stackrox \<Rightarrow> app_db \<Rightarrow> string list" where
  "org_suppressed P sx db =
     fst (compute_suppression_sets db sx org_user (map cd_cve (get_all_cves P sx 0 0 {})) None)"

definition snapshot_thresholds :: "app_db \<Rightarrow> num \<times> num" where
  "snapshot_thresholds db = (case gsettings db of None \<Rightarrow> (0, 0) | Some s \<Rightarrow> (gs_min_cvss s, gs_min_epss s))"

definition snapshot_rows :: "pep440 \<Rightarrow> stackrox \<Rightarrow> app_db \<Rightarrow> cve_snapshot list" where
  "snapshot_rows P sx db =
     (let (mc, me) = snapshot_thresholds db in
      map (\<lambda>((cl, ns, sev), total, visible). \<lparr>cs_date = date_of (db_now db), cs_cluster = cl, cs_namespace = ns,
          cs_severity = sev, cs_total = total, cs_visible = visible\<rparr>)
        (get_snapshot_counts sx mc me (always_show db) (org_suppressed P sx db)))"

definition snapshot_id :: "cve_snapshot \<Rightarrow> date \<times> string \<times> string \<times> int" where
  "snapshot_id r = (cs_date r, cs_cluster r, cs_namespace r, cs_severity r)"

definition run_cve_snapshot :: "pep440 \<Rightarrow> stackrox \<Rightarrow> app_db \<Rightarrow> app_db result" where
  "run_cve_snapshot P sx db =
     (let today = date_of (db_now db);
          kept = filter (\<lambda>r. cs_date r \<noteq> today) (cve_snapshots db);
          rows = kept @ snapshot_rows P sx db
      in if \<not> distinct (map snapshot_id rows) then Inl (ServerError ''IntegrityError'')
         else Inr (db\<lparr>cve_snapshots := filter (\<lambda>r. \<not> cs_date r < today - retention_days) rows\<rparr>))"

section \<open>Lemmas\<close>

lemma coalesce_max_Max: "xs \<noteq> [] \<Longrightarrow> coalesce d (sql_max (map (\<lambda>x. Some (f x)) xs)) = Max (f ` set xs)"
proof -
  assume "xs \<noteq> []"
  have "sql_max (map (\<lambda>x. Some (f x)) xs) = Some (Max (f ` set xs))"
  proof -
    have "Max (f ` set xs) \<in> f ` set xs" using \<open>xs \<noteq> []\<close> by (intro Max_in) auto
    then obtain x where "x \<in> set xs" "Max (f ` set xs) = f x" by blast
    moreover have "\<forall>y \<in> set xs. f y \<le> Max (f ` set xs)" by simp
    ultimately show ?thesis unfolding sql_max_Some_iff by auto
  qed
  then show ?thesis by simp
qed

lemma Max_groups:
  assumes "finite A" and "A \<noteq> {}"
  shows "Max ((\<lambda>k. Max (f ` {x \<in> A. g x = k})) ` g ` A) = (Max (f ` A) :: 'b::linorder)"
proof (rule Max_eqI)
  fix y assume "y \<in> (\<lambda>k. Max (f ` {x \<in> A. g x = k})) ` g ` A"
  then obtain a where a: "a \<in> A" "y = Max (f ` {x \<in> A. g x = g a})" by auto
  have "Max (f ` {x \<in> A. g x = g a}) \<le> Max (f ` A)" using a(1) assms(1) by (intro Max_mono) auto
  with a show "y \<le> Max (f ` A)" by simp
next
  have "Max (f ` A) \<in> f ` A" using assms by (intro Max_in) auto
  then obtain a where a: "a \<in> A" "Max (f ` A) = f a" by auto
  have "Max (f ` {x \<in> A. g x = g a}) = f a"
  proof (rule Max_eqI)
    fix y assume "y \<in> f ` {x \<in> A. g x = g a}"
    then have "y \<le> Max (f ` A)" using assms(1) by (auto intro: Max_ge)
    then show "y \<le> f a" unfolding a(2) .
  qed (use a(1) assms(1) in auto)
  then have "Max (f ` A) = Max (f ` {x \<in> A. g x = g a})" using a(2) by simp
  then show "Max (f ` A) \<in> (\<lambda>k. Max (f ` {x \<in> A. g x = k})) ` g ` A" using a(1) by (rule image_eqI [OF _ imageI])
qed (use assms in auto)

lemma rows_Max:
  assumes "rs \<noteq> []"
  shows "rows_severity rs = Max ((\<lambda>v. ic_severity (vr_ic v)) ` set rs)"
    and "rows_cvss rs = Max ((\<lambda>v. coalesce 0 (ic_cvss (vr_ic v))) ` set rs)"
    and "rows_epss rs = Max ((\<lambda>v. coalesce 0 (ic_epss (vr_ic v))) ` set rs)"
  using coalesce_max_Max [OF assms] by (simp_all add: rows_severity_def rows_cvss_def rows_epss_def max0_def comp_def)

text \<open>The greatest scores over the namespaces of a CVE are its greatest scores.\<close>

lemma max_scores_groups:
  assumes "rs \<noteq> []"
  shows "max_scores (map (\<lambda>(k, xs). (rows_severity xs, rows_cvss xs, rows_epss xs)) (group_by g rs)) =
    (rows_severity rs, rows_cvss rs, rows_epss rs)"
proof -
  have Max: "coalesce 0 (sql_max (map (\<lambda>(k, xs). Some (F xs)) (group_by g rs))) = F rs"
    if F: "\<And>xs. xs \<noteq> [] \<Longrightarrow> F xs = Max (f ` set xs)" for F and f :: "vrow \<Rightarrow> 'c::{linorder,zero}"
  proof -
    have ne: "group_by g rs \<noteq> []" using assms by (simp add: group_by_def)
    have "F xs = Max (f ` {x \<in> set rs. g x = k})" if "(k, xs) \<in> set (group_by g rs)" for k xs
    proof -
      have "xs = filter (\<lambda>x. g x = k) rs" "xs \<noteq> []" using that by (auto simp: in_group_by filter_empty_conv)
      then show ?thesis using F by auto
    qed
    then have "(\<lambda>(k, xs). F xs) ` set (group_by g rs) = (\<lambda>k. Max (f ` {x \<in> set rs. g x = k})) ` fst ` set (group_by g rs)"
      by (force simp: image_iff)
    moreover have "fst ` set (group_by g rs) = g ` set rs" by (simp add: fst_group_by flip: set_map)
    moreover have "coalesce 0 (sql_max (map (\<lambda>(k, xs). Some (F xs)) (group_by g rs))) = Max ((\<lambda>(k, xs). F xs) ` set (group_by g rs))"
      using coalesce_max_Max [OF ne, of 0 "\<lambda>(k, xs). F xs"] by (simp add: case_prod_unfold)
    ultimately show ?thesis using Max_groups [of "set rs" f g] assms F by simp
  qed
  note m = rows_Max
  show ?thesis
    using Max [of rows_severity, OF m(1)] Max [of rows_cvss, OF m(2)] Max [of rows_epss, OF m(3)]
    by (simp add: max_scores_def comp_def case_prod_unfold)
qed

lemma filter_group_by: "filter (\<lambda>g. p (fst g)) (group_by f xs) = group_by f (filter (\<lambda>x. p (f x)) xs)"
proof -
  have "filter p (dedupe (map f xs)) = dedupe (map f (filter (\<lambda>x. p (f x)) xs))"
    unfolding dedupe_filter [symmetric] by (simp add: filter_map comp_def)
  then show ?thesis by (auto simp: group_by_def filter_map comp_def intro!: filter_cong)
qed

lemma org_cve_groups:
  "org_cve sx ex = map (\<lambda>(cve, rs). (cve, (rows_severity rs, rows_cvss rs, rows_epss rs)))
    (filter (\<lambda>(cve, rs). cve \<notin> set ex) (group_by vr_cve (joined sx)))"
proof -
  let ?vs = "filter (\<lambda>v. vr_cve v \<notin> set ex) (joined sx)"
  let ?k = "\<lambda>v. (dp_cluster (vr_dep v), dp_namespace (vr_dep v), vr_cve v)"
  let ?s = "\<lambda>rs. (rows_severity rs, rows_cvss rs, rows_epss rs)"
  have keys: "dedupe (map (snd \<circ> snd \<circ> fst) (per_ns_cve sx ex)) = dedupe (map vr_cve ?vs)"
  proof -
    have "map (snd \<circ> snd \<circ> fst) (per_ns_cve sx ex) = map (snd \<circ> snd) (dedupe (map ?k ?vs))"
      by (simp add: per_ns_cve_def group_by_def comp_def)
    then show ?thesis by (simp only: dedupe_map_dedupe) (simp add: comp_def)
  qed
  have scores: "max_scores (map snd (filter (\<lambda>x. (snd \<circ> snd \<circ> fst) x = cve) (per_ns_cve sx ex))) = ?s (filter (\<lambda>v. vr_cve v = cve) ?vs)"
    if "cve \<in> vr_cve ` set ?vs" for cve
  proof -
    let ?rs = "filter (\<lambda>v. vr_cve v = cve) ?vs"
    have "filter (\<lambda>g. snd (snd (fst g)) = cve) (group_by ?k ?vs) = group_by ?k ?rs"
      using filter_group_by [of "\<lambda>k. snd (snd k) = cve" ?k ?vs] by simp
    then have "map snd (filter (\<lambda>x. (snd \<circ> snd \<circ> fst) x = cve) (per_ns_cve sx ex)) = map (\<lambda>(k, xs). ?s xs) (group_by ?k ?rs)"
      by (simp add: per_ns_cve_def filter_map comp_def case_prod_unfold)
    moreover have "?rs \<noteq> []" using that by (auto simp: filter_empty_conv)
    ultimately show ?thesis using max_scores_groups by simp
  qed
  have "org_cve sx ex = map (\<lambda>(cve, rs). (cve, ?s rs)) (group_by vr_cve ?vs)"
    unfolding org_cve_def group_by_def keys using scores by simp
  also have "group_by vr_cve ?vs = filter (\<lambda>(cve, rs). cve \<notin> set ex) (group_by vr_cve (joined sx))"
    using filter_group_by [of "\<lambda>c. c \<notin> set ex" vr_cve "joined sx"] by (simp add: case_prod_unfold)
  finally show ?thesis .
qed

section \<open>One snapshot per day\<close>

lemma distinct_snapshot_counts:
  assumes "\<forall>d \<in> set (sx_deployments sx). dp_namespace d \<noteq> ''*''"
  shows "distinct (map fst (get_snapshot_counts sx mc me w ex))"
    and "(cl, ns, sev) \<in> fst ` set (map (\<lambda>(k, rows). (k, count_rows mc me w (snd \<circ> snd) rows))
       (group_by (\<lambda>((cl, ns, cve), sev, _). (cl, ns, sev)) (per_ns_cve sx ex))) \<Longrightarrow> ns \<noteq> ''*''"
proof -
  let ?per = "map (\<lambda>(k, rows). (k, count_rows mc me w (snd \<circ> snd) rows))
       (group_by (\<lambda>((cl, ns, cve), sev, _). (cl, ns, sev)) (per_ns_cve sx ex))"
  let ?org = "map (\<lambda>(sev, rows). ((''*'', ''*'', sev), count_rows mc me w id rows)) (group_by (fst \<circ> snd) (org_cve sx ex))"
  have f: "map fst ?per = dedupe (map (\<lambda>((cl, ns, cve), sev, _). (cl, ns, sev)) (per_ns_cve sx ex))"
    "map fst ?org = map (\<lambda>sev. (''*'', ''*'', sev)) (dedupe (map (fst \<circ> snd) (org_cve sx ex)))"
    by (simp_all add: group_by_def comp_def)
  have "dp_namespace (vr_dep v) \<noteq> ''*''" if "v \<in> set (joined sx)" for v
    using that assms by (auto simp: joined_def)
  then have per: "ns \<noteq> ''*''" if "(cl, ns, sev) \<in> set (map fst ?per)" for cl ns sev
    using that unfolding f set_dedupe by (auto simp: per_ns_cve_def group_by_def)
  have "distinct (map fst ?per)" unfolding f by simp
  moreover have "distinct (map fst ?org)" unfolding f by (simp add: distinct_map inj_on_def)
  moreover have "set (map fst ?per) \<inter> set (map fst ?org) = {}" 
  proof -
    have "k \<notin> set (map fst ?org)" if "k \<in> set (map fst ?per)" for k
    proof (cases k)
      case (fields cl ns sev)
      have "(cl, ns, sev) \<in> set (map fst ?per)" using that unfolding fields .
      then have "ns \<noteq> ''*''" by (rule per)
      then show ?thesis unfolding f(2) fields by auto
    qed
    then show ?thesis by blast
  qed
  ultimately show "distinct (map fst (get_snapshot_counts sx mc me w ex))" unfolding get_snapshot_counts_def map_append distinct_append by blast
  show "ns \<noteq> ''*''" if "(cl, ns, sev) \<in> fst ` set ?per" using per that unfolding set_map [symmetric] .
qed

lemma snapshot_ids:
  "map snapshot_id (snapshot_rows P sx db) = (let (mc, me) = snapshot_thresholds db in
     map (\<lambda>k. (date_of (db_now db), k)) (map fst (get_snapshot_counts sx mc me (always_show db) (org_suppressed P sx db))))"
  by (simp add: snapshot_rows_def snapshot_id_def case_prod_unfold comp_def Let_def)

lemma distinct_snapshot_rows:
  assumes "\<forall>d \<in> set (sx_deployments sx). dp_namespace d \<noteq> ''*''"
  shows "distinct (map snapshot_id (snapshot_rows P sx db))"
proof (cases "snapshot_thresholds db")
  case (Pair mc me)
  show ?thesis unfolding snapshot_ids Pair Let_def case_prod_conv
    using distinct_snapshot_counts(1) [OF assms] by (subst distinct_map) (simp add: inj_on_def)
qed

lemma snapshot_rows_date: "r \<in> set (snapshot_rows P sx db) \<Longrightarrow> cs_date r = date_of (db_now db)"
  by (auto simp: snapshot_rows_def split: prod.splits)

lemma snapshot_rows_frame: "snapshot_rows P sx (db\<lparr>cve_snapshots := x\<rparr>) = snapshot_rows P sx db"
proof -
  let ?db = "db\<lparr>cve_snapshots := x\<rparr>"
  have t: "snapshot_thresholds ?db = snapshot_thresholds db" by (simp add: snapshot_thresholds_def)
  have w: "always_show ?db = always_show db" by (simp add: always_show_def)
  have "load_suppression_sets ?db = load_suppression_sets db" by (simp add: load_suppression_sets_def)
  then have "org_suppressed P sx ?db = org_suppressed P sx db"
    unfolding org_suppressed_def compute_suppression_sets_def by simp
  with t w show ?thesis unfolding snapshot_rows_def by simp
qed

lemma run_snapshot_eq:
  "rows = filter (\<lambda>r. cs_date r \<noteq> date_of (db_now db)) (cve_snapshots db) @ snapshot_rows P sx db \<Longrightarrow>
   distinct (map snapshot_id rows) \<Longrightarrow>
   run_cve_snapshot P sx db = Inr (db\<lparr>cve_snapshots := filter (\<lambda>r. \<not> cs_date r < date_of (db_now db) - retention_days) rows\<rparr>)"
  unfolding run_cve_snapshot_def Let_def by simp

text \<open>C23: The snapshot job succeeds, leaves exactly the counts of this run for the current day, keeps the other days of the
  last 400 and drops older ones, keeps (date, cluster, namespace, severity) unique, and a second run on the same day
  over the same data changes nothing.\<close>

theorem snapshot_daily:
  assumes "distinct (map snapshot_id (cve_snapshots db))" and "\<forall>d \<in> set (sx_deployments sx). dp_namespace d \<noteq> ''*''"
  shows "\<exists>db'. run_cve_snapshot P sx db = Inr db' \<and> run_cve_snapshot P sx db' = Inr db' \<and>
    distinct (map snapshot_id (cve_snapshots db')) \<and>
    filter (\<lambda>r. cs_date r = date_of (db_now db)) (cve_snapshots db') = snapshot_rows P sx db \<and>
    filter (\<lambda>r. cs_date r \<noteq> date_of (db_now db)) (cve_snapshots db') =
      filter (\<lambda>r. cs_date r \<noteq> date_of (db_now db) \<and> date_of (db_now db) - 400 \<le> cs_date r) (cve_snapshots db)"
proof -
  let ?today = "date_of (db_now db)"
  let ?rows = "snapshot_rows P sx db"
  let ?kept = "filter (\<lambda>r. cs_date r \<noteq> ?today) (cve_snapshots db)"
  let ?new = "filter (\<lambda>r. ?today - 400 \<le> cs_date r) ?kept @ ?rows"
  have today: "cs_date r = ?today" if "r \<in> set ?rows" for r using that by (rule snapshot_rows_date)
  have rows: "filter (\<lambda>r. \<not> cs_date r < ?today - retention_days) ?rows = ?rows" "filter (\<lambda>r. cs_date r = ?today) ?rows = ?rows"
    "filter (\<lambda>r. cs_date r \<noteq> ?today) ?rows = []"
    using today by (auto simp: retention_days_def intro!: filter_True simp: filter_empty_conv)
  have disj: "snapshot_id ` set ?kept \<inter> snapshot_id ` set ?rows = {}" using today by (auto simp: snapshot_id_def)
  have d: "distinct (map snapshot_id (?kept @ ?rows))"
    using disj assms(1) distinct_snapshot_rows [OF assms(2)] by (simp add: distinct_map_filter)
  have dn: "distinct (map snapshot_id ?new)"
    using disj distinct_snapshot_rows [OF assms(2)] distinct_map_filter [OF assms(1)] by auto
  have keep: "filter (\<lambda>r. \<not> cs_date r < ?today - retention_days) (?kept @ ?rows) = ?new"
    using rows(1) by (auto simp: retention_days_def not_less intro!: filter_cong)
  have run: "run_cve_snapshot P sx db = Inr (db\<lparr>cve_snapshots := ?new\<rparr>)"
    using run_snapshot_eq [OF refl d] unfolding keep .
  let ?db = "db\<lparr>cve_snapshots := ?new\<rparr>"
  have again: "?new = filter (\<lambda>r. cs_date r \<noteq> date_of (db_now ?db)) (cve_snapshots ?db) @ snapshot_rows P sx ?db"
    unfolding snapshot_rows_frame by (auto simp: rows(3) intro!: filter_cong)
  have keep2: "filter (\<lambda>r. \<not> cs_date r < date_of (db_now ?db) - retention_days) ?new = ?new"
    using rows(1) by (auto simp: retention_days_def not_less intro!: filter_cong)
  have "run_cve_snapshot P sx ?db = Inr (?db\<lparr>cve_snapshots := ?new\<rparr>)"
    using run_snapshot_eq [OF again dn] unfolding keep2 .
  then have "run_cve_snapshot P sx ?db = Inr ?db" by simp
  with run dn rows(2,3) show ?thesis
    by (intro exI [of _ ?db]) (simp add: conj_commute cong: conj_cong)
qed

section \<open>What the history panel draws\<close>

lemma run_snapshot_today:
  assumes "run_cve_snapshot P sx db = Inr db'"
  shows "filter (\<lambda>r. cs_date r = date_of (db_now db)) (cve_snapshots db') = snapshot_rows P sx db"
proof -
  have "cve_snapshots db' = filter (\<lambda>r. \<not> cs_date r < date_of (db_now db) - retention_days)
      (filter (\<lambda>r. cs_date r \<noteq> date_of (db_now db)) (cve_snapshots db) @ snapshot_rows P sx db)"
    using assms by (auto simp: run_cve_snapshot_def Let_def split: if_splits)
  moreover have "filter (\<lambda>r. \<not> cs_date r < date_of (db_now db) - retention_days \<and> cs_date r = date_of (db_now db)) (snapshot_rows P sx db) =
      snapshot_rows P sx db"
    using snapshot_rows_date [of _ P sx db] by (auto simp: retention_days_def intro!: filter_True)
  ultimately show ?thesis by (auto simp: filter_empty_conv)
qed

text \<open>The organisation-wide rows of a snapshot, summed over the severities that \<open>f\<close> selects.\<close>

definition snapshot_count :: "bool \<Rightarrow> cve_snapshot \<Rightarrow> nat" where
  "snapshot_count visible = (if visible then cs_visible else cs_total)"

lemma org_rows_sum:
  assumes "\<forall>d \<in> set (sx_deployments sx). dp_namespace d \<noteq> ''*''" and t: "snapshot_thresholds db = (mc, me)"
  shows "sum_list (map (snapshot_count visible) (filter (\<lambda>r. cs_namespace r = ''*'' \<and> f (cs_severity r)) (snapshot_rows P sx db))) =
    length (filter (\<lambda>(cve, sev, cvss, epss). (visible \<longrightarrow> passes mc me (always_show db) cve cvss epss) \<and> f sev)
      (org_cve sx (org_suppressed P sx db)))"
proof -
  let ?ex = "org_suppressed P sx db" and ?w = "always_show db"
  let ?row = "\<lambda>((cl, ns, sev), total, vis). \<lparr>cs_date = date_of (db_now db), cs_cluster = cl, cs_namespace = ns,
          cs_severity = sev, cs_total = total, cs_visible = vis\<rparr>"
  let ?per = "map (\<lambda>(k, rows). (k, count_rows mc me ?w (snd \<circ> snd) rows))
       (group_by (\<lambda>((cl, ns, cve), sev, _). (cl, ns, sev)) (per_ns_cve sx ?ex))"
  let ?org = "map (\<lambda>(sev, rows). ((''*'', ''*'', sev), count_rows mc me ?w id rows)) (group_by (fst \<circ> snd) (org_cve sx ?ex))"
  have r: "snapshot_rows P sx db = map ?row ?per @ map ?row ?org"
    by (simp add: snapshot_rows_def t get_snapshot_counts_def)
  have per: "filter (\<lambda>r. cs_namespace r = ''*'' \<and> f (cs_severity r)) (map ?row ?per) = []"
  proof -
    have "cs_namespace (?row e) \<noteq> ''*''" if "e \<in> set ?per" for e
    proof -
      obtain cl ns sev total vis where fields: "e = ((cl, ns, sev), total, vis)" by (metis surj_pair)
      from that have "(cl, ns, sev) \<in> fst ` set ?per" unfolding fields by (rule image_eqI [rotated]) simp
      then have "ns \<noteq> ''*''" by (rule distinct_snapshot_counts(2) [OF assms(1)])
      then show ?thesis by (simp add: fields)
    qed
    then show ?thesis unfolding filter_empty_conv by auto
  qed
  have "sum_list (map (snapshot_count visible) (filter (\<lambda>r. cs_namespace r = ''*'' \<and> f (cs_severity r)) (map ?row ?org))) =
      sum_list (map (\<lambda>(k, xs). length (filter (\<lambda>(cve, sev, cvss, epss). visible \<longrightarrow> passes mc me ?w cve cvss epss) xs))
        (filter (\<lambda>(k, xs). f k) (group_by (fst \<circ> snd) (org_cve sx ?ex))))"
    by (cases visible) (simp_all add: snapshot_count_def count_rows_def filter_map comp_def case_prod_unfold)
  also have "\<dots> = length (filter (\<lambda>x. (case x of (cve, sev, cvss, epss) \<Rightarrow> visible \<longrightarrow> passes mc me ?w cve cvss epss) \<and> f ((fst \<circ> snd) x))
      (org_cve sx ?ex))"
    by (rule sum_group_by_filter)
  finally show ?thesis unfolding r filter_append per by (simp add: case_prod_unfold)
qed

definition counted_cves :: "pep440 \<Rightarrow> stackrox \<Rightarrow> app_db \<Rightarrow> bool \<Rightarrow> cve_data list" where
  "counted_cves P sx db visible =
     (let (mc, me) = snapshot_thresholds db in
      filter (\<lambda>c. cd_cve c \<notin> set (org_suppressed P sx db))
        (if visible then get_all_cves P sx mc me (always_show db) else get_all_cves P sx 0 0 UNIV))"

lemma length_counted_cves:
  assumes "snapshot_thresholds db = (mc, me)"
  shows "length (filter (\<lambda>c. f (cd_severity c)) (counted_cves P sx db visible)) =
    length (filter (\<lambda>(cve, sev, cvss, epss). (visible \<longrightarrow> passes mc me (always_show db) cve cvss epss) \<and> f sev)
      (org_cve sx (org_suppressed P sx db)))"
proof -
  let ?ex = "org_suppressed P sx db"
  have "mset (counted_cves P sx db visible) = mset (map (cve_data_of P) (visible_groups
      (if visible then \<lparr>vi_cvss = mc, vi_epss = me, vi_always = always_show db, vi_exclude = ?ex\<rparr>
       else \<lparr>vi_cvss = 0, vi_epss = 0, vi_always = UNIV, vi_exclude = ?ex\<rparr>) (joined sx)))"
    by (cases visible) (simp_all only: counted_cves_def assms Let_def case_prod_conv get_all_cves_def cves_of_groups if_True if_False)
  note m = mset_filter_length [OF this, of "\<lambda>c. f (cd_severity c)", unfolded filter_map length_map comp_def rows_of_cve_data]
  show ?thesis unfolding m org_cve_groups
    by (cases visible) (auto simp: visible_groups_def visibility_having_def filter_map comp_def case_prod_unfold passes_def
        intro!: arg_cong [where f = length] filter_cong)
qed


section \<open>Witnesses\<close>

lemma history_has_date:
  assumes "r \<in> set (cve_snapshots db)" and "cs_namespace r = ''*''" and "date_of now - days \<le> cs_date r"
  shows "\<exists>hp \<in> set (cve_history db None visible days now). hp_date hp = cs_date r"
proof -
  let ?rows = "filter (\<lambda>r. date_of now - days \<le> cs_date r \<and> cs_namespace r = ''*'') (cve_snapshots db)"
  have "cs_date r \<in> set (sorted_set (map cs_date ?rows))" using assms by auto
  then have "history_point_of (if visible then cs_visible else cs_total) (cs_date r) ?rows \<in> set (cve_history db None visible days now)"
    unfolding cve_history_def Let_def option.case set_map by (rule imageI)
  moreover have "hp_date (history_point_of cnt d rows) = d" for cnt d rows by (simp add: history_point_of_def Let_def)
  ultimately show ?thesis by blast
qed

lemma ex_no_star: "\<forall>d \<in> set (sx_deployments ex_sx). dp_namespace d \<noteq> ''*''"
  by (simp add: ex_world)

theorem snapshot_daily_witness:
  "\<exists>db'. run_cve_snapshot ex_P ex_sx ex_db = Inr db' \<and> run_cve_snapshot ex_P ex_sx db' = Inr db'"
proof -
  have "distinct (map snapshot_id (cve_snapshots ex_db))" by (simp add: ex_db_def)
  then show ?thesis using snapshot_daily [of ex_db ex_sx ex_P] ex_no_star by blast
qed

lemma ex_org_row: "\<lparr>cs_date = 0, cs_cluster = ''*'', cs_namespace = ''*'', cs_severity = 4, cs_total = 1, cs_visible = 1\<rparr>
    \<in> set (snapshot_rows ex_P ex_sx ex_db)"
proof -
  have "load_suppression_sets ex_db = ([], [], [], [])" by (simp add: load_suppression_sets_def)
  moreover have "compute_suppressed_cves [] [] comps ids locs ns = []" for comps ids locs ns
    by (cases locs) (simp_all add: compute_suppressed_cves_def Let_def)
  ultimately have s: "org_suppressed ex_P ex_sx ex_db = []"
    unfolding org_suppressed_def compute_suppression_sets_def Let_def by simp
  have t: "snapshot_thresholds ex_db = (7, 0)" by (simp add: snapshot_thresholds_def) (simp add: ex_settings_def)
  have "rows_severity [ex_row] = 4 \<and> rows_cvss [ex_row] = 9 \<and> rows_epss [ex_row] = 1 / 2"
    by (simp add: rows_severity_def rows_cvss_def rows_epss_def max0_def sql_max_def ex_row_def ex_ic_def)
  then have "org_cve ex_sx [] = [(''CVE-2024-1'', 4, 9, 1 / 2)]"
    unfolding org_cve_groups by (simp add: joined_ex group_by_def)
  then have "((''*'', ''*'', 4), 1, 1) \<in> set (get_snapshot_counts ex_sx 7 0 (always_show ex_db) [])"
    unfolding get_snapshot_counts_def set_append by (intro UnI2) (simp add: group_by_def count_rows_def passes_def)
  moreover have "db_now ex_db = 0" "date_of 0 = 0" by (simp_all add: ex_db_def date_of_def)
  ultimately show ?thesis
    unfolding snapshot_rows_def t s Let_def case_prod_conv set_map by (intro image_eqI) simp_all
qed


end
