(* ===== verification/Spec2Isabelle.thy ===== *)
theory Spec2Isabelle
  imports Versions CveView EscalationRules Remediations RiskAcceptances EscalationWorkspace SuppressionRules Auth TeamAlerts TeamDigest NotificationSummary Presence Priorities CveDetail CveImages Inbox Badges Dashboard History
begin

text \<open>
  Verification of the backend of RHACS Manager, \<open>src/backend/app\<close>.

  \<^bold>\<open>The program.\<close> RHACS Manager is a web service beside Red Hat Advanced Cluster Security (StackRox). It reads the
  CVEs of the deployed images from the database of Central, which it never writes, and keeps its own database of users,
  risk acceptances, remediations, suppression rules, priorities, escalations, comments, notifications, subscriptions,
  badges and settings. A user is a member of the security team, who sees every namespace, or of a team, who sees the
  namespaces that headers of a proxy and annotations of the clusters give. Requests go through the sign-in of
  \<open>auth/middleware.py\<close> into the handlers of \<open>routers/\<close>, which call the services of \<open>services/\<close>; the jobs of
  \<open>tasks/scheduler.py\<close> escalate, expire, resolve, warn, snapshot and mail.

  \<^bold>\<open>Theories.\<close> Each theory begins with the files it models. A function of the code keeps its name, without a leading
  underscore; a part of a long function that has its own definition is listed with its lines in the manifest.

  \<^item> \<open>Prelude\<close>: results, strings, sorting, dictionaries, dates. \<open>Tables\<close>: tables with a key and a partial unique index.
    \<open>Examples\<close>: the small world of the witnesses.
  \<^item> \<open>Model\<close>: the rows of \<open>models/*.py\<close> as records, the application database \<open>app_db\<close>, \<open>log_action\<close>. \<open>StackRox\<close>: the
    tables of Central and the queries of \<open>stackrox/queries/\<close> as functions on lists. \<open>EffectiveScores\<close>: the scores of a CVE,
    \<open>stackrox/effective_scores.py\<close>.
  \<^item> \<open>Versions\<close>: \<open>services/version_compare.py\<close>, with the RPM order as the order of a key. \<open>Glob\<close>: \<open>fnmatch\<close>.
  \<^item> \<open>Scopes\<close>: scopes of risk acceptances and their canonical JSON, \<open>services/risk_acceptance_service.py\<close>.
    \<open>Suppression\<close>, \<open>CveView\<close>: which CVEs are hidden and the filtered list, \<open>services/cve_filter_service.py\<close>.
    \<open>CveDetail\<close>, \<open>CveImages\<close>: \<open>routers/cves.py\<close> and \<open>stackrox/queries/images.py\<close>. \<open>FixRollup\<close>: \<open>services/fix_rollup_service.py\<close>.
  \<^item> \<open>EscalationRules\<close>, \<open>Escalations\<close>, \<open>EscalationWorkspace\<close>: rules and preview, the escalation jobs, the workspace.
  \<^item> \<open>RiskAcceptances\<close>, \<open>Remediations\<close>, \<open>SuppressionRules\<close>, \<open>Priorities\<close>: the four kinds of records that teams file, with
    their state machines, routers and jobs.
  \<^item> \<open>CommentContent\<close>, \<open>Comments\<close>: mentions and comments. \<open>Notifications\<close>, \<open>Inbox\<close>, \<open>NotificationSummary\<close>: preferences
    and delivery, the inbox, the daily summary. \<open>Subscriptions\<close>, \<open>Snapshots\<close>: subscriptions of CVEs and the namespaces
    remembered per user. \<open>TeamAlerts\<close>, \<open>TeamDigest\<close>: \<open>services/team_notifications.py\<close>.
  \<^item> \<open>NamespaceAccess\<close>, \<open>Auth\<close>: \<open>stackrox/namespace_access.py\<close> and \<open>auth/\<close>. \<open>Presence\<close>, \<open>Badges\<close>: state of the process.
  \<^item> \<open>Dashboard\<close>, \<open>History\<close>: the panels of \<open>routers/dashboard.py\<close>, and the daily snapshot that feeds one of them.

  \<^bold>\<open>Conventions.\<close> A table is the list of its rows in the order of insertion; a query is a function on lists whose ties are
  in that order where the SQL leaves them open. A handler gets the database and returns \<open>error + _\<close>: \<open>ApiError\<close> is an answer of
  the code, \<open>ServerError\<close> an exception it does not catch. An error discards what the request did, as a session that is
  not committed does, except in \<open>Auth\<close>, whose sign-in commits in between and returns the database with the error. Unique
  constraints are checked where the code flushes. Identifiers are numbers from \<open>next_id\<close>, or arguments where their text
  matters; a date is a number of days, a time a number of microseconds since 1970, a monotonic clock a number of seconds;
  a float is a rational number and \<open>round\<close> is written out. Characters are code points and letter case is that of ASCII.
  JSON is modelled by the values that the schemas admit, for stored scopes also by what older rows may hold. A handler is one
  step: interleavings inside a handler are not modelled, sequences of requests and jobs are, as inductive relations with
  invariants by rule induction (\<open>badge_run\<close>, \<open>presence_run\<close>, \<open>access_reachable\<close>, \<open>ra_reachable\<close>, \<open>rem_reachable\<close>,
  \<open>rule_reachable\<close>, \<open>priority_reachable\<close>). No recursion needs fuel: every loop of the modelled code is bounded by a list.

  \<^bold>\<open>Parameters.\<close> What is not under \<open>src/\<close> is an argument: PEP 440 versions (\<open>packaging\<close>), hashes, the JWT library and the key
  set it fetches, the check of e-mail addresses, which mails the server accepts, the parsing of UUIDs, random tokens. Hypotheses
  about them, such as that the order of PEP 440 versions is total or that a hash is injective on the texts at hand, are
  premises of the theorems that need them.

  \<^bold>\<open>What is shown.\<close>
  \<^item> Isolation: the CVE list, its detail, the roll-up, the images, alerts, subscriptions, viewers, the inbox and public badges
    depend on and name only what the user may see; forwarded identity headers have no effect without a key; access by
    annotations is never older than fifteen minutes.
  \<^item> State: user accounts, risk acceptances, remediations, suppression rules, badges, snapshots keep their invariants over every
    operation; only the security team changes what is suppressed; a remediation moves along its table.
  \<^item> Jobs: the escalation check writes and mails exactly what is due and is idempotent, a warning comes true and is sent
    once, the summary and the digests hold exactly the numbers wanted, the snapshot is idempotent per day, a second alert
    run is silent.
  \<^item> Agreement: the detail, the images, the roll-up, the dashboard, the history and the digest show the numbers of the
    CVE list; a CVE has one score in every list; the version order and the scope resolution meet their specifications.
  \<^item> Where the code does not do what it means to, a theorem says what it does: an order of versions with a cycle, a
    component rule that hides an unsuppressed location, a resubmission that ends in an integrity error, an empty scope that is
    read as every namespace, an acceptance preferred in the wrong order, gaps between age buckets, an unescaped label.

  \<^bold>\<open>Locales.\<close> An interface that several operations share is a locale: \<open>cmp_order\<close> (a comparison function that is an
  order on some versions), \<open>quiet\<close> and its weaker form \<open>notifying\<close> (an operation that changes nothing but notifications, mail
  and subscription events), \<open>row_loop\<close> (a job that rewrites the rows of a table one at a time). Each is interpreted on the
  operations that meet it, and the properties use the interpreted facts.

  \<^bold>\<open>Not modelled.\<close> The exports (\<open>exports/\<close>, \<open>routers/exports.py\<close>) and the mail templates (\<open>mail/\<close>) produce documents with
  third-party libraries; the data they print is that of the modelled queries. Configuration, logging, metrics, texts
  (\<open>i18n.py\<close>), start-up and the registration of the jobs are glue. The image detail, the audit log, the settings form with the
  management digest and the list of own comments are views over tables modelled here. The protobuf decoder is generated
  code with its schema. The frontend, the MCP server, the Go tools and the migrations are other programs.
\<close>

end
